(* ===== verification/DF_Prelude.thy ===== *)
theory DF_Prelude
  imports
    Main
    "HOL-Library.AList"
    "HOL-Library.Char_ord"
    "HOL-Library.List_Lexorder"
    "HOL-Library.Multiset"
    "HOL-Library.Word"
begin

text \<open>
  What every component shares: instants and durations, decimal printing (Go's
  \<open>%d\<close> verb), Go maps as association lists with distinct keys, \<open>sort.Slice\<close>
  with the comparison functions of the stores, and the loop that looks for the next
  unused identifier of the in-memory stores.
\<close>

section \<open>Collections of facts\<close>

named_theorems store_defs \<open>definitions of the store operations, unfolded in their proofs\<close>
named_theorems inv_intros \<open>preservation of the store invariants\<close>
named_theorems const_defs \<open>string constants of the program\<close>

section \<open>Instants and durations\<close>

text \<open>
  An instant (\<open>time.Time\<close>) is its distance in nanoseconds from Go's zero time, the
  first of January of year 1, UTC: \<open>IsZero\<close> is equality with 0, \<open>Equal\<close>,
  \<open>Before\<close> and \<open>After\<close> compare the numbers, and \<open>UTC()\<close>, which only changes
  how an instant is displayed, is the identity. A duration (\<open>time.Duration\<close>) is a
  number of nanoseconds.
\<close>

type_synonym time = int
type_synonym duration = int

definition isZero :: "time \<Rightarrow> bool" where
  "isZero t \<longleftrightarrow> t = 0"

definition second :: duration where "second = 1000000000"
definition minute :: duration where "minute = 60 * second"
definition millisecond :: duration where "millisecond = 1000000"

text \<open>Go's integer division truncates towards zero.\<close>

definition go_div :: "int \<Rightarrow> int \<Rightarrow> int" where
  "go_div a b = sgn a * sgn b * (\<bar>a\<bar> div \<bar>b\<bar>)"

lemma go_div_nonneg: "0 \<le> a \<Longrightarrow> 0 < b \<Longrightarrow> go_div a b = a div b"
  by (cases "a = 0") (auto simp: go_div_def)

text \<open>\<open>if t.IsZero() { t = now } else { t = t.UTC() }\<close>\<close>

definition default_time :: "time \<Rightarrow> time \<Rightarrow> time" where
  "default_time t now = (if isZero t then now else t)"

lemma default_time_zero [simp]: "default_time 0 now = now"
  and default_time_set: "t \<noteq> 0 \<Longrightarrow> default_time t now = t"
  by (simp_all add: default_time_def isZero_def)

section \<open>Decimal printing\<close>

fun show_nat :: "nat \<Rightarrow> string" where
  "show_nat n = (if n < 10 then [char_of (48 + n)]
                 else show_nat (n div 10) @ [char_of (48 + n mod 10)])"

declare show_nat.simps [simp del]

definition read_nat :: "string \<Rightarrow> nat" where
  "read_nat s = foldl (\<lambda>acc c. 10 * acc + (of_char c - 48)) 0 s"

lemma read_show_nat [simp]: "read_nat (show_nat n) = n"
proof (induction n rule: show_nat.induct)
  case (1 n)
  show ?case
  proof (cases "n < 10")
    case True
    then show ?thesis by (subst show_nat.simps) (simp add: read_nat_def)
  next
    case False
    with 1 have "read_nat (show_nat (n div 10)) = n div 10" by simp
    moreover have "n mod 10 < 208" by (rule less_trans [of _ 10]) simp_all
    ultimately show ?thesis using False
      by (subst show_nat.simps) (simp add: read_nat_def)
  qed
qed

lemma show_nat_inj [simp]: "show_nat m = show_nat n \<longleftrightarrow> m = n"
  by (metis read_show_nat)

lemma show_nat_nonempty [simp]: "show_nat n \<noteq> []"
  by (subst show_nat.simps) simp

definition show_int :: "int \<Rightarrow> string" where
  "show_int i = (if i < 0 then CHR ''-'' # show_nat (nat (- i)) else show_nat (nat i))"

section \<open>Go maps\<close>

text \<open>
  A Go map is an association list with distinct keys: \<open>map_of m k\<close> looks a key up,
  \<open>put k v m\<close> stores a value. Iteration (\<open>for k, v := range m\<close>) visits the list;
  Go leaves the order open, and \<open>sort_order.sort_perm\<close> below shows where it cannot
  be observed.
\<close>

abbreviation put :: "'k \<Rightarrow> 'v \<Rightarrow> ('k \<times> 'v) list \<Rightarrow> ('k \<times> 'v) list" where
  "put k v m \<equiv> AList.update k v m"

abbreviation keys :: "('k \<times> 'v) list \<Rightarrow> 'k list" where
  "keys m \<equiv> map fst m"

abbreviation vals :: "('k \<times> 'v) list \<Rightarrow> 'v list" where
  "vals m \<equiv> map snd m"

definition has_key :: "'k \<Rightarrow> ('k \<times> 'v) list \<Rightarrow> bool" where
  "has_key k m \<longleftrightarrow> map_of m k \<noteq> None"

lemma map_of_put [simp]: "map_of (put k v m) = (map_of m)(k \<mapsto> v)"
  by (rule update_conv')

lemma distinct_put [simp]: "distinct (keys m) \<Longrightarrow> distinct (keys (put k v m))"
  by (rule distinct_update)

lemma set_keys_put [simp]: "set (keys (put k v m)) = insert k (set (keys m))"
  using dom_update [of k v m] by (simp add: dom_map_of_conv_image_fst image_comp)

lemma fst_set_put [simp]: "fst ` set (put k v m) = insert k (fst ` set m)"
  using set_keys_put [of k v m] by (simp add: image_comp)

lemma has_key_iff: "has_key k m \<longleftrightarrow> k \<in> set (keys m)"
  by (simp add: has_key_def map_of_eq_None_iff image_comp)

lemma put_fresh: "map_of m k = None \<Longrightarrow> put k v m = m @ [(k, v)]"
  by (induction m) (auto split: if_splits)

lemma keys_put_existing: "map_of m k \<noteq> None \<Longrightarrow> keys (put k v m) = keys m"
  by (induction m) auto

lemma vals_iff_map_of:
  "distinct (keys m) \<Longrightarrow> v \<in> set (vals m) \<longleftrightarrow> (\<exists>k. map_of m k = Some v)"
  by (force simp: image_iff)

lemma set_filter_keys:
  "distinct (keys m) \<Longrightarrow>
   set (keys (filter (\<lambda>(k, v). P v) m)) = {k. \<exists>v. map_of m k = Some v \<and> P v}"
  by (auto simp: image_iff)

lemma filter_key_stored:
  "k \<in> set (keys (filter (\<lambda>(k, v). P v) m)) \<Longrightarrow> distinct (keys m) \<Longrightarrow>
   \<exists>v. map_of m k = Some v \<and> P v"
  by (auto simp: set_filter_keys)

text \<open>Lookups stay lookups: the library would turn them into list membership.\<close>

declare map_of_eq_Some_iff [simp del] Some_eq_map_of_iff [simp del]

lemma map_of_mset:
  assumes "mset m = mset m'" and "distinct (keys m)"
  shows "map_of m = map_of m'"
proof (rule map_of_inject_set [THEN iffD2])
  show "distinct (keys m')" using assms by (metis mset_eq_imp_distinct_iff mset_map)
  show "set m = set m'" using assms(1) by (metis set_mset_mset)
qed (rule assms(2))

lemma mset_keys_filter:
  "mset m = mset m' \<Longrightarrow> mset (keys (filter P m)) = mset (keys (filter P m'))"
  by (metis mset_filter mset_map)

lemma distinct_keys_filter: "distinct (keys m) \<Longrightarrow> distinct (keys (filter P m))"
  by (induction m) (auto simp: image_iff)

section \<open>Sorting with a comparison function\<close>

text \<open>
  The order the stores sort by: two instants, then the identifier, which breaks every
  tie because identifiers are unique. The type \<open>order_key\<close> carries the cascade of the
  comparison functions of the stores as its linear order.
\<close>

datatype order_key = OrderKey (ok_first: time) (ok_second: time) (ok_id: string)

instantiation order_key :: linorder
begin

definition less_order_key :: "order_key \<Rightarrow> order_key \<Rightarrow> bool" where
  "less_order_key a b \<longleftrightarrow>
     (if ok_first a \<noteq> ok_first b then ok_first a < ok_first b
      else if ok_second a \<noteq> ok_second b then ok_second a < ok_second b
      else ok_id a < ok_id b)"

definition less_eq_order_key :: "order_key \<Rightarrow> order_key \<Rightarrow> bool" where
  "less_eq_order_key a b \<longleftrightarrow> a = b \<or> a < b"

instance
proof
  fix a b c :: order_key
  show "(a < b) = (a \<le> b \<and> \<not> b \<le> a)"
    by (cases a; cases b) (auto simp: less_order_key_def less_eq_order_key_def split: if_splits)
  show "a \<le> a"
    by (simp add: less_eq_order_key_def)
  show "a \<le> b \<Longrightarrow> b \<le> c \<Longrightarrow> a \<le> c"
    by (cases a; cases b; cases c)
      (auto simp: less_order_key_def less_eq_order_key_def split: if_splits)
  show "a \<le> b \<Longrightarrow> b \<le> a \<Longrightarrow> a = b"
    by (cases a; cases b) (auto simp: less_order_key_def less_eq_order_key_def split: if_splits)
  show "a \<le> b \<or> b \<le> a"
    by (cases a; cases b)
      (auto simp: less_order_key_def less_eq_order_key_def split: if_splits)
qed

end

text \<open>
  The lease queries sort by an optional instant first, absent before present. The
  lexicographic order on this type is the cascade of their comparison function.
\<close>

datatype lease_key = LeaseKey (lk_until: "time option") (lk_updated: time) (lk_id: string)

instantiation lease_key :: linorder
begin

definition less_lease_key :: "lease_key \<Rightarrow> lease_key \<Rightarrow> bool" where
  "less_lease_key a b \<longleftrightarrow>
     (case (lk_until a, lk_until b) of
        (None, Some _) \<Rightarrow> True
      | (Some _, None) \<Rightarrow> False
      | (u, v) \<Rightarrow>
          (if u \<noteq> v then the u < the v
           else if lk_updated a \<noteq> lk_updated b then lk_updated a < lk_updated b
           else lk_id a < lk_id b))"

definition less_eq_lease_key :: "lease_key \<Rightarrow> lease_key \<Rightarrow> bool" where
  "less_eq_lease_key a b \<longleftrightarrow> a = b \<or> a < b"

instance
proof
  fix a b c :: lease_key
  show "(a < b) = (a \<le> b \<and> \<not> b \<le> a)"
    by (cases a; cases b)
      (auto simp: less_lease_key_def less_eq_lease_key_def split: if_splits option.splits)
  show "a \<le> a"
    by (simp add: less_eq_lease_key_def)
  show "a \<le> b \<Longrightarrow> b \<le> c \<Longrightarrow> a \<le> c"
    by (cases a; cases b; cases c)
      (auto simp: less_lease_key_def less_eq_lease_key_def split: if_splits option.splits)
  show "a \<le> b \<Longrightarrow> b \<le> a \<Longrightarrow> a = b"
    by (cases a; cases b)
      (auto simp: less_lease_key_def less_eq_lease_key_def split: if_splits option.splits)
  show "a \<le> b \<or> b \<le> a"
    by (cases a; cases b)
      (auto simp: less_lease_key_def less_eq_lease_key_def split: if_splits option.splits)
qed

end

text \<open>
  \<open>sort.Slice(xs, less)\<close>. Go's algorithm is not stable and not specified further than
  its result being ordered; \<open>sort_order.sort_unique\<close> shows that with the stores'
  comparison functions there is only one such result.
\<close>

fun insert_by :: "('a \<Rightarrow> 'a \<Rightarrow> bool) \<Rightarrow> 'a \<Rightarrow> 'a list \<Rightarrow> 'a list" where
  "insert_by lt x [] = [x]"
| "insert_by lt x (y # ys) = (if lt y x then y # insert_by lt x ys else x # y # ys)"

fun sort_slice :: "('a \<Rightarrow> 'a \<Rightarrow> bool) \<Rightarrow> 'a list \<Rightarrow> 'a list" where
  "sort_slice lt [] = []"
| "sort_slice lt (x # xs) = insert_by lt x (sort_slice lt xs)"

lemma set_insert_by [simp]: "set (insert_by lt x xs) = insert x (set xs)"
  by (induction xs) auto

lemma set_sort_slice [simp]: "set (sort_slice lt xs) = set xs"
  by (induction xs) auto

lemma mset_insert_by [simp]: "mset (insert_by lt x xs) = add_mset x (mset xs)"
  by (induction xs) auto

lemma mset_sort_slice [simp]: "mset (sort_slice lt xs) = mset xs"
  by (induction xs) auto

lemma length_sort_slice [simp]: "length (sort_slice lt xs) = length xs"
  using mset_sort_slice [of lt xs] by (metis size_mset)

lemma distinct_sort_slice [simp]: "distinct (sort_slice lt xs) = distinct xs"
  using mset_sort_slice [of lt xs] by (metis mset_eq_imp_distinct_iff)

locale sort_order =
  fixes lt :: "'a \<Rightarrow> 'a \<Rightarrow> bool"
    and key :: "'a \<Rightarrow> 'k :: linorder"
  assumes less_key: "lt x y \<longleftrightarrow> key x < key y"
begin

lemma insert_by_insort: "insert_by lt x ys = insort_key key x ys"
  by (induction ys) (auto simp: less_key)

lemma sort_slice_sort_key: "sort_slice lt xs = sort_key key xs"
  by (induction xs) (simp_all add: insert_by_insort)

lemma sorted_sort: "sorted (map key (sort_slice lt xs))"
  by (simp add: sort_slice_sort_key)

lemma sort_unique:
  assumes "mset zs = mset xs" and "sorted (map key zs)" and "inj_on key (set xs)"
  shows "zs = sort_slice lt xs"
proof -
  let ?ws = "sort_slice lt xs"
  have "set zs = set xs" using assms(1) by (metis set_mset_mset)
  with assms(3) have "inj_on key (set zs \<union> set ?ws)" by simp
  moreover have "sort (map key ?ws) = map key zs"
    using assms(1,2) by (intro properties_for_sort) simp_all
  then have "map key zs = map key ?ws"
    using sorted_sort [of xs] by (simp add: sorted_sort_id)
  ultimately show ?thesis by (rule map_inj_on [rotated])
qed

lemma sort_perm:
  assumes "mset xs = mset ys" and "inj_on key (set xs)"
  shows "sort_slice lt xs = sort_slice lt ys"
proof (rule sort_unique)
  show "mset (sort_slice lt xs) = mset ys" using assms(1) by simp
  show "inj_on key (set ys)" using assms by (metis set_mset_mset)
qed (rule sorted_sort)

lemma take_smallest:
  assumes "x \<in> set (take n (sort_slice lt xs))" and "y \<in> set (drop n (sort_slice lt xs))"
  shows "key x \<le> key y"
proof -
  have "sorted (map key (take n (sort_slice lt xs)) @ map key (drop n (sort_slice lt xs)))"
    using sorted_sort [of xs] by (simp flip: map_append)
  with assms show ?thesis by (auto simp: sorted_append)
qed

lemma left_out_larger:
  assumes "y \<in> set xs" and "y \<notin> set (take n (sort_slice lt xs))"
    and "x \<in> set (take n (sort_slice lt xs))"
  shows "key x \<le> key y"
proof -
  have "y \<in> set (drop n (sort_slice lt xs))"
    using assms(1,2) append_take_drop_id [of n "sort_slice lt xs"]
    by (metis Un_iff set_append set_sort_slice)
  with assms(3) show ?thesis by (rule take_smallest)
qed

end

text \<open>\<open>if len(xs) > limit { xs = xs[:limit] }\<close>, reached with a positive limit only.\<close>

definition limit_ids :: "int \<Rightarrow> 'a list \<Rightarrow> 'a list" where
  "limit_ids limit xs = (if limit < int (length xs) then take (nat limit) xs else xs)"

lemma limit_ids_take: "0 \<le> limit \<Longrightarrow> limit_ids limit xs = take (nat limit) xs"
  by (auto simp: limit_ids_def)

section \<open>The next unused identifier\<close>

text \<open>
  The loop \<open>for { s.nextID++; candidate := prefix-<nextID>; if exists { continue }; break }\<close>
  of the in-memory stores. It ends because decimal printing is injective and the map is
  finite.
\<close>

definition numbered :: "string \<Rightarrow> nat \<Rightarrow> string" where
  "numbered prefix n = prefix @ show_nat n"

lemma numbered_inj [simp]: "numbered p m = numbered p n \<longleftrightarrow> m = n"
  by (simp add: numbered_def)

lemma numbered_nonempty [simp]: "numbered p n \<noteq> []"
  by (simp add: numbered_def)

function next_unused :: "string \<Rightarrow> string list \<Rightarrow> nat \<Rightarrow> nat" where
  "next_unused prefix used n =
     (if numbered prefix (Suc n) \<in> set used then next_unused prefix used (Suc n) else Suc n)"
  by pat_completeness auto
termination
proof (relation "measure (\<lambda>(p, us, n). card {m. n < m \<and> numbered p m \<in> set us})")
  fix p us n
  assume hit: "numbered p (Suc n) \<in> set us"
  let ?S = "\<lambda>n. {m. n < m \<and> numbered p m \<in> set us}"
  have "inj_on (numbered p) (?S n)" by (simp add: inj_on_def)
  moreover have "finite (numbered p ` ?S n)" by (rule finite_subset [of _ "set us"]) auto
  ultimately have "finite (?S n)" using finite_imageD by blast
  moreover have "?S (Suc n) \<subset> ?S n" using hit by auto
  ultimately have "card (?S (Suc n)) < card (?S n)" by (rule psubset_card_mono)
  then show "((p, us, Suc n), p, us, n)
      \<in> measure (\<lambda>(p, us, n). card {m. n < m \<and> numbered p m \<in> set us})"
    by simp
qed simp

declare next_unused.simps [simp del]

lemma next_unused_step:
  "numbered p (Suc n) \<notin> set us \<Longrightarrow> next_unused p us n = Suc n"
  by (subst next_unused.simps) simp

lemma next_unused_gt: "n < next_unused p us n"
  by (induction p us n rule: next_unused.induct) (subst next_unused.simps, force)

lemma next_unused_fresh: "numbered p (next_unused p us n) \<notin> set us"
  by (induction p us n rule: next_unused.induct) (subst next_unused.simps, simp)

lemma next_unused_least: "n < m \<Longrightarrow> m < next_unused p us n \<Longrightarrow> numbered p m \<in> set us"
proof (induction p us n rule: next_unused.induct)
  case (1 p us n)
  show ?case
  proof (cases "numbered p (Suc n) \<in> set us")
    case True
    with 1 next_unused.simps [of p us n] show ?thesis by (cases "m = Suc n") simp_all
  next
    case False
    with 1 show ?thesis by (simp add: next_unused_step)
  qed
qed

end
