(* ===== verification/DF_Sha256.thy ===== *)
theory DF_Sha256
  imports DF_Prelude
begin

unbundle bit_operations_syntax

text \<open>
  The two library routines that every identity of the program goes through:
  \<open>crypto/sha256.Sum256\<close> (FIPS 180-4 on 32-bit words) and
  \<open>encoding/hex.EncodeToString\<close>. Strings are lists of bytes. The lemmas give the
  length of the digest, so that a digest is never the empty string that marks an unset
  field, and the injectivity of the hexadecimal encoding.
\<close>

section \<open>SHA-256\<close>

type_synonym u32 = "32 word"

text \<open>The round constants and the initial state, in decimal.\<close>

definition sha_k :: "u32 list" where
  "sha_k =
    [1116352408, 1899447441, 3049323471, 3921009573,
     961987163, 1508970993, 2453635748, 2870763221,
     3624381080, 310598401, 607225278, 1426881987,
     1925078388, 2162078206, 2614888103, 3248222580,
     3835390401, 4022224774, 264347078, 604807628,
     770255983, 1249150122, 1555081692, 1996064986,
     2554220882, 2821834349, 2952996808, 3210313671,
     3336571891, 3584528711, 113926993, 338241895,
     666307205, 773529912, 1294757372, 1396182291,
     1695183700, 1986661051, 2177026350, 2456956037,
     2730485921, 2820302411, 3259730800, 3345764771,
     3516065817, 3600352804, 4094571909, 275423344,
     430227734, 506948616, 659060556, 883997877,
     958139571, 1322822218, 1537002063, 1747873779,
     1955562222, 2024104815, 2227730452, 2361852424,
     2428436474, 2756734187, 3204031479, 3329325298]"

definition sha_init :: "u32 list" where
  "sha_init =
    [1779033703, 3144134277, 1013904242, 2773480762,
     1359893119, 2600822924, 528734635, 1541459225]"

definition byte :: "char \<Rightarrow> nat" where
  "byte c = of_char c"

definition be_bytes :: "nat \<Rightarrow> int \<Rightarrow> int list" where
  "be_bytes n x = map (\<lambda>i. (x div 256 ^ i) mod 256) (rev [0..<n])"

definition sha_pad :: "int list \<Rightarrow> int list" where
  "sha_pad m =
     m @ [128] @ replicate ((119 - length m mod 64) mod 64) 0 @ be_bytes 8 (8 * int (length m))"

fun be_words :: "int list \<Rightarrow> u32 list" where
  "be_words (a # b # c # d # bs) =
     word_of_int (((a * 256 + b) * 256 + c) * 256 + d) # be_words bs"
| "be_words _ = []"

definition small_sigma0 :: "u32 \<Rightarrow> u32" where
  "small_sigma0 x = word_rotr 7 x XOR word_rotr 18 x XOR drop_bit 3 x"

definition small_sigma1 :: "u32 \<Rightarrow> u32" where
  "small_sigma1 x = word_rotr 17 x XOR word_rotr 19 x XOR drop_bit 10 x"

definition big_sigma0 :: "u32 \<Rightarrow> u32" where
  "big_sigma0 x = word_rotr 2 x XOR word_rotr 13 x XOR word_rotr 22 x"

definition big_sigma1 :: "u32 \<Rightarrow> u32" where
  "big_sigma1 x = word_rotr 6 x XOR word_rotr 11 x XOR word_rotr 25 x"

text \<open>The message schedule, newest word first while it grows.\<close>

fun sha_schedule :: "nat \<Rightarrow> u32 list \<Rightarrow> u32 list" where
  "sha_schedule 0 ws = rev ws"
| "sha_schedule (Suc n) ws =
     sha_schedule n
       ((small_sigma1 (ws ! 1) + ws ! 6 + small_sigma0 (ws ! 14) + ws ! 15) # ws)"

fun sha_round :: "u32 \<times> u32 \<Rightarrow> u32 list \<Rightarrow> u32 list" where
  "sha_round (k, w) [a, b, c, d, e, f, g, h] =
     (let t1 = h + big_sigma1 e + ((e AND f) XOR (NOT e AND g)) + k + w;
          t2 = big_sigma0 a + ((a AND b) XOR (a AND c) XOR (b AND c))
      in [t1 + t2, a, b, c, d + t1, e, f, g])"
| "sha_round _ st = st"

definition sha_block :: "u32 list \<Rightarrow> u32 list \<Rightarrow> u32 list" where
  "sha_block st blk =
     map2 (+) st (fold sha_round (zip sha_k (sha_schedule 48 (rev blk))) st)"

fun sha_blocks :: "nat \<Rightarrow> u32 list \<Rightarrow> u32 list \<Rightarrow> u32 list" where
  "sha_blocks 0 ws st = st"
| "sha_blocks (Suc n) ws st = sha_blocks n (drop 16 ws) (sha_block st (take 16 ws))"

text \<open>\<open>sha256.Sum256\<close>, on the bytes of a string; the digest is a string of 32 bytes.\<close>

definition sha256 :: "string \<Rightarrow> string" where
  "sha256 s =
     (let ws = be_words (sha_pad (map of_char s));
          st = sha_blocks (length ws div 16) ws sha_init
      in concat (map (\<lambda>w. map char_of (be_bytes 4 (uint w))) st))"

section \<open>Hexadecimal encoding\<close>

definition hex_digit :: "nat \<Rightarrow> char" where
  "hex_digit n = (if n < 10 then char_of (48 + n) else char_of (87 + n))"

definition hexEncodeToString :: "string \<Rightarrow> string" where
  "hexEncodeToString s = concat (map (\<lambda>c. [hex_digit (byte c div 16), hex_digit (byte c mod 16)]) s)"

section \<open>Lengths and injectivity\<close>

lemma length_be_bytes [simp]: "length (be_bytes n x) = n"
  by (simp add: be_bytes_def)

lemma length_hexEncode [simp]: "length (hexEncodeToString s) = 2 * length s"
  by (induction s) (simp_all add: hexEncodeToString_def)

lemma length_sha_schedule: "length (sha_schedule n ws) = n + length ws"
  by (induction n ws rule: sha_schedule.induct) simp_all

lemma length_sha_round [simp]: "length (sha_round kw st) = length st"
  by (induction kw st rule: sha_round.induct) (simp_all add: Let_def)

lemma length_fold_sha_round [simp]: "length (fold sha_round kws st) = length st"
  by (induction kws arbitrary: st) simp_all

lemma length_sha_block [simp]: "length (sha_block st blk) = length st"
  by (simp add: sha_block_def)

lemma length_sha_blocks [simp]: "length (sha_blocks n ws st) = length st"
  by (induction n ws st rule: sha_blocks.induct) simp_all

lemma length_sha_init [simp]: "length sha_init = 8"
  by (simp add: sha_init_def)

lemma length_sha256 [simp]: "length (sha256 s) = 32"
proof -
  have "length (concat (map (\<lambda>w. map char_of (be_bytes 4 (uint (w::u32)))) ws) :: string) = 4 * length ws"
    for ws by (induction ws) simp_all
  then show ?thesis by (simp add: sha256_def Let_def)
qed

lemma hex_sha256_nonempty [simp]: "hexEncodeToString (sha256 s) \<noteq> []"
proof -
  have "length (hexEncodeToString (sha256 s)) = 64" by simp
  then show ?thesis by (metis list.size(3) zero_neq_numeral)
qed

lemma byte_less [simp]: "byte c < 256"
  by (simp add: byte_def)

lemma byte_inj [simp]: "byte a = byte b \<longleftrightarrow> a = b"
  by (simp add: byte_def)

lemma hex_digit_inj:
  assumes "m < 16" and "n < 16" and "hex_digit m = hex_digit n"
  shows "m = n"
proof -
  have code: "of_char (hex_digit k) = (if k < 10 then 48 + k else 87 + k)" if "k < 16" for k
    using that by (simp add: hex_digit_def)
  have "(if m < 10 then 48 + m else 87 + m) = (if n < 10 then 48 + n else 87 + n)"
    using code [OF assms(1)] code [OF assms(2)] assms(3) by metis
  then show ?thesis using assms(1,2) by (simp split: if_splits)
qed

lemma hexEncode_inj [simp]: "hexEncodeToString s = hexEncodeToString t \<longleftrightarrow> s = t"
proof
  show "hexEncodeToString s = hexEncodeToString t \<Longrightarrow> s = t"
  proof (induction s arbitrary: t)
    case Nil
    then show ?case by (cases t) (simp_all add: hexEncodeToString_def)
  next
    case (Cons a s)
    then obtain b t' where t: "t = b # t'"
      by (cases t) (auto simp: hexEncodeToString_def)
    with Cons.prems have "hex_digit (byte a div 16) = hex_digit (byte b div 16)"
      and "hex_digit (byte a mod 16) = hex_digit (byte b mod 16)"
      and rest: "hexEncodeToString s = hexEncodeToString t'"
      by (simp_all add: hexEncodeToString_def)
    moreover have "byte c div 16 < 16" for c
      using byte_less [of c] by (simp add: less_mult_imp_div_less)
    ultimately have "byte a div 16 = byte b div 16" and "byte a mod 16 = byte b mod 16"
      by (blast intro: hex_digit_inj, meson hex_digit_inj mod_less_divisor zero_less_numeral)
    then have "byte a = byte b" by (metis div_mult_mod_eq)
    with t rest Cons.IH show ?case by simp
  qed
qed simp

end
