(* ===== verification/DF_Json.thy ===== *)
theory DF_Json
  imports DF_Sha256
begin

text \<open>
  The part of Go's \<open>encoding/json\<close> (Go 1.25) that projection keys go through: a decoder
  that reads one value with \<open>UseNumber\<close> (numbers stay as written), and the encoder of the
  values it yields (object members sorted by name, strings escaped as \<open>json.Marshal\<close>
  does). Text is a list of bytes, as Go's strings are, so UTF-8 decoding is spelled out.
  The decoder spends one unit of fuel per nested call; \<open>decode_fuel_enough\<close> shows that
  twice the length of the text, plus one, is always enough: more fuel never changes the result.
\<close>

section \<open>Values\<close>

datatype json =
    JNull
  | JBool bool
  | JNum string
  | JStr string
  | JArr "json list"
  | JObj "(string \<times> json) list"

section \<open>UTF-8\<close>

definition runeError :: nat where "runeError = 0xFFFD"

definition cont :: "char \<Rightarrow> bool" where
  "cont c \<longleftrightarrow> 0x80 \<le> byte c \<and> byte c \<le> 0xBF"

text \<open>\<open>utf8.DecodeRune\<close>: the rune and how many bytes it took; a bad byte is \<open>runeError\<close>.\<close>

fun decodeRune :: "string \<Rightarrow> nat \<times> nat" where
  "decodeRune [] = (runeError, 0)"
| "decodeRune (a # s) =
     (let x = byte a in
      if x < 0x80 then (x, 1)
      else if 0xC2 \<le> x \<and> x \<le> 0xDF then
        (case s of b # _ \<Rightarrow>
           if cont b then ((x - 0xC0) * 64 + (byte b - 0x80), 2) else (runeError, 1)
         | [] \<Rightarrow> (runeError, 1))
      else if 0xE0 \<le> x \<and> x \<le> 0xEF then
        (case s of b # c # _ \<Rightarrow>
           if cont b \<and> cont c \<and> (x = 0xE0 \<longrightarrow> 0xA0 \<le> byte b) \<and> (x = 0xED \<longrightarrow> byte b \<le> 0x9F)
           then ((x - 0xE0) * 4096 + (byte b - 0x80) * 64 + (byte c - 0x80), 3)
           else (runeError, 1)
         | _ \<Rightarrow> (runeError, 1))
      else if 0xF0 \<le> x \<and> x \<le> 0xF4 then
        (case s of b # c # d # _ \<Rightarrow>
           if cont b \<and> cont c \<and> cont d \<and> (x = 0xF0 \<longrightarrow> 0x90 \<le> byte b)
              \<and> (x = 0xF4 \<longrightarrow> byte b \<le> 0x8F)
           then ((x - 0xF0) * 262144 + (byte b - 0x80) * 4096 + (byte c - 0x80) * 64
                 + (byte d - 0x80), 4)
           else (runeError, 1)
         | _ \<Rightarrow> (runeError, 1))
      else (runeError, 1))"

text \<open>\<open>utf8.EncodeRune\<close>\<close>

definition encodeRune :: "nat \<Rightarrow> string" where
  "encodeRune r =
     (if r < 0x80 then [char_of r]
      else if r < 0x800 then [char_of (0xC0 + r div 64), char_of (0x80 + r mod 64)]
      else if (0xD800 \<le> r \<and> r \<le> 0xDFFF) \<or> 0x10FFFF < r then
        [char_of (0xEF::nat), char_of (0xBF::nat), char_of (0xBD::nat)]
      else if r < 0x10000 then
        [char_of (0xE0 + r div 4096), char_of (0x80 + (r div 64) mod 64), char_of (0x80 + r mod 64)]
      else
        [char_of (0xF0 + r div 262144), char_of (0x80 + (r div 4096) mod 64),
         char_of (0x80 + (r div 64) mod 64), char_of (0x80 + r mod 64)])"

section \<open>Reading strings\<close>

definition is_space :: "char \<Rightarrow> bool" where
  "is_space c \<longleftrightarrow> c = CHR '' '' \<or> c = CHR 0x09 \<or> c = CHR 0x0D \<or> c = CHR 0x0A"

definition skip_ws :: "string \<Rightarrow> string" where
  "skip_ws s = dropWhile is_space s"

definition is_digit :: "char \<Rightarrow> bool" where
  "is_digit c \<longleftrightarrow> 48 \<le> byte c \<and> byte c \<le> 57"

definition hex_val :: "char \<Rightarrow> nat option" where
  "hex_val c =
     (let x = byte c in
      if 48 \<le> x \<and> x \<le> 57 then Some (x - 48)
      else if 97 \<le> x \<and> x \<le> 102 then Some (x - 87)
      else if 65 \<le> x \<and> x \<le> 70 then Some (x - 55) else None)"

definition hex4 :: "char \<Rightarrow> char \<Rightarrow> char \<Rightarrow> char \<Rightarrow> nat option" where
  "hex4 a b c d =
     (case (hex_val a, hex_val b, hex_val c, hex_val d) of
        (Some w, Some x, Some y, Some z) \<Rightarrow> Some (((w * 16 + x) * 16 + y) * 16 + z)
      | _ \<Rightarrow> None)"

definition simple_escape :: "char \<Rightarrow> char option" where
  "simple_escape e =
     (if e = CHR 0x22 then Some (CHR 0x22)
      else if e = CHR 0x5C then Some (CHR 0x5C)
      else if e = CHR ''/'' then Some (CHR ''/'')
      else if e = CHR ''b'' then Some (CHR 0x08)
      else if e = CHR ''f'' then Some (CHR 0x0C)
      else if e = CHR ''n'' then Some (CHR 0x0A)
      else if e = CHR ''r'' then Some (CHR 0x0D)
      else if e = CHR ''t'' then Some (CHR 0x09)
      else None)"

text \<open>
  The scanner: the raw bytes of a string literal after its opening quote, up to the closing
  one, and the rest of the text. Control characters and unknown escapes are errors.
\<close>

fun scan_string :: "string \<Rightarrow> (string \<times> string) option" where
  "scan_string [] = None"
| "scan_string (c # cs) =
     (if c = CHR 0x22 then Some ([], cs)
      else if c = CHR 0x5C then
        (case cs of
           [] \<Rightarrow> None
         | e # r \<Rightarrow>
             if e = CHR ''u'' then
               (case r of
                  h1 # h2 # h3 # h4 # r' \<Rightarrow>
                    if hex4 h1 h2 h3 h4 = None then None
                    else map_option (\<lambda>(body, rest). (c # e # h1 # h2 # h3 # h4 # body, rest))
                           (scan_string r')
                | _ \<Rightarrow> None)
             else if simple_escape e = None then None
             else map_option (\<lambda>(body, rest). (c # e # body, rest)) (scan_string r))
      else if byte c < 32 then None
      else map_option (\<lambda>(body, rest). (c # body, rest)) (scan_string cs))"

text \<open>\<open>utf16.DecodeRune\<close>\<close>

definition utf16_decode :: "nat \<Rightarrow> nat \<Rightarrow> nat" where
  "utf16_decode r1 r2 =
     (if 0xD800 \<le> r1 \<and> r1 < 0xDC00 \<and> 0xDC00 \<le> r2 \<and> r2 < 0xE000
      then (r1 - 0xD800) * 1024 + (r2 - 0xDC00) + 0x10000 else runeError)"

definition getu4 :: "string \<Rightarrow> nat option" where
  "getu4 s =
     (case s of
        a # b # h1 # h2 # h3 # h4 # _ \<Rightarrow>
          if a = CHR 0x5C \<and> b = CHR ''u'' then hex4 h1 h2 h3 h4 else None
      | _ \<Rightarrow> None)"

text \<open>The literal's value: escapes resolved, bad UTF-8 replaced.\<close>

fun unquote :: "string \<Rightarrow> string" where
  "unquote [] = []"
| "unquote (c # cs) =
     (if c = CHR 0x5C then
        (case cs of
           [] \<Rightarrow> []
         | e # r \<Rightarrow>
             if e = CHR ''u'' then
               (case r of
                  h1 # h2 # h3 # h4 # r' \<Rightarrow>
                    (let rr = the (hex4 h1 h2 h3 h4) in
                     if 0xD800 \<le> rr \<and> rr < 0xE000 then
                       (case getu4 r' of
                          Some rr1 \<Rightarrow>
                            if utf16_decode rr rr1 \<noteq> runeError
                            then encodeRune (utf16_decode rr rr1) @ unquote (drop 6 r')
                            else encodeRune runeError @ unquote r'
                        | None \<Rightarrow> encodeRune runeError @ unquote r')
                     else encodeRune rr @ unquote r')
                | _ \<Rightarrow> [])
             else the (simple_escape e) # unquote r)
      else if byte c < 0x80 then c # unquote cs
      else (let (rr, n) = decodeRune (c # cs) in encodeRune rr @ unquote (drop (n - 1) cs)))"

definition read_string :: "string \<Rightarrow> (string \<times> string) option" where
  "read_string cs = map_option (\<lambda>(body, rest). (unquote body, rest)) (scan_string cs)"

section \<open>Reading numbers\<close>

definition take_digits :: "string \<Rightarrow> (string \<times> string) option" where
  "take_digits s =
     (case takeWhile is_digit s of [] \<Rightarrow> None | ds \<Rightarrow> Some (ds, dropWhile is_digit s))"

definition read_int_part :: "string \<Rightarrow> (string \<times> string) option" where
  "read_int_part s =
     (case s of
        [] \<Rightarrow> None
      | c # cs \<Rightarrow> if c = CHR ''0'' then Some ([c], cs) else take_digits s)"

definition read_frac :: "string \<Rightarrow> (string \<times> string) option" where
  "read_frac s =
     (case s of
        [] \<Rightarrow> Some ([], [])
      | c # cs \<Rightarrow>
          if c = CHR ''.'' then map_option (\<lambda>(ds, r). (c # ds, r)) (take_digits cs)
          else Some ([], s))"

definition read_exp :: "string \<Rightarrow> (string \<times> string) option" where
  "read_exp s =
     (case s of
        [] \<Rightarrow> Some ([], [])
      | c # cs \<Rightarrow>
          if c = CHR ''e'' \<or> c = CHR ''E'' then
            (case cs of
               g # r \<Rightarrow>
                 if g = CHR ''+'' \<or> g = CHR ''-''
                 then map_option (\<lambda>(ds, r'). (c # g # ds, r')) (take_digits r)
                 else map_option (\<lambda>(ds, r'). (c # ds, r')) (take_digits cs)
             | [] \<Rightarrow> None)
          else Some ([], s))"

definition read_number :: "string \<Rightarrow> (string \<times> string) option" where
  "read_number s =
     (let (sgn, s0) = (case s of c # cs \<Rightarrow> if c = CHR ''-'' then ([c], cs) else ([], s)
                       | [] \<Rightarrow> ([], s)) in
      case read_int_part s0 of
        None \<Rightarrow> None
      | Some (i, s1) \<Rightarrow>
          (case read_frac s1 of
             None \<Rightarrow> None
           | Some (f, s2) \<Rightarrow>
               (case read_exp s2 of
                  None \<Rightarrow> None
                | Some (e, s3) \<Rightarrow> Some (sgn @ i @ f @ e, s3))))"

section \<open>Reading values\<close>

definition strip_prefix :: "string \<Rightarrow> string \<Rightarrow> string option" where
  "strip_prefix p s = (if take (length p) s = p then Some (drop (length p) s) else None)"

definition read_literal :: "string \<Rightarrow> (json \<times> string) option" where
  "read_literal s =
     (case strip_prefix ''null'' s of
        Some r \<Rightarrow> Some (JNull, r)
      | None \<Rightarrow>
          (case strip_prefix ''true'' s of
             Some r \<Rightarrow> Some (JBool True, r)
           | None \<Rightarrow>
               (case strip_prefix ''false'' s of
                  Some r \<Rightarrow> Some (JBool False, r)
                | None \<Rightarrow> None)))"

text \<open>The scanner refuses text nested more deeply than this.\<close>

definition maxNestingDepth :: nat where "maxNestingDepth = 10000"

function (sequential) decode_value :: "nat \<Rightarrow> nat \<Rightarrow> string \<Rightarrow> (json \<times> string) option"
  and decode_elems :: "nat \<Rightarrow> nat \<Rightarrow> json list \<Rightarrow> string \<Rightarrow> (json \<times> string) option"
  and decode_members :: "nat \<Rightarrow> nat \<Rightarrow> (string \<times> json) list \<Rightarrow> string \<Rightarrow> (json \<times> string) option"
where
  "decode_value 0 depth s = None"
| "decode_value (Suc fuel) depth s =
     (case skip_ws s of
        [] \<Rightarrow> None
      | c # cs \<Rightarrow>
          if c = CHR ''{'' then
            (if maxNestingDepth \<le> depth then None
             else (case skip_ws cs of
                     [] \<Rightarrow> None
                   | c' # r \<Rightarrow> if c' = CHR ''}'' then Some (JObj [], r)
                              else decode_members fuel (Suc depth) [] cs))
          else if c = CHR ''['' then
            (if maxNestingDepth \<le> depth then None
             else (case skip_ws cs of
                     [] \<Rightarrow> None
                   | c' # r \<Rightarrow> if c' = CHR '']'' then Some (JArr [], r)
                              else decode_elems fuel (Suc depth) [] cs))
          else if c = CHR 0x22 then map_option (\<lambda>(v, r). (JStr v, r)) (read_string cs)
          else if c = CHR ''-'' \<or> is_digit c then
            map_option (\<lambda>(v, r). (JNum v, r)) (read_number (c # cs))
          else read_literal (c # cs))"
| "decode_elems 0 depth acc s = None"
| "decode_elems (Suc fuel) depth acc s =
     (case decode_value fuel depth s of
        None \<Rightarrow> None
      | Some (v, s1) \<Rightarrow>
          (case skip_ws s1 of
             [] \<Rightarrow> None
           | c # r \<Rightarrow> if c = CHR '','' then decode_elems fuel depth (acc @ [v]) r
                     else if c = CHR '']'' then Some (JArr (acc @ [v]), r)
                     else None))"
| "decode_members 0 depth acc s = None"
| "decode_members (Suc fuel) depth acc s =
     (case skip_ws s of
        [] \<Rightarrow> None
      | q # qs \<Rightarrow>
          if q \<noteq> CHR 0x22 then None
          else
            (case read_string qs of
               None \<Rightarrow> None
             | Some (k, s1) \<Rightarrow>
                 (case skip_ws s1 of
                    [] \<Rightarrow> None
                  | d # s2 \<Rightarrow>
                      if d \<noteq> CHR '':'' then None
                      else
                        (case decode_value fuel depth s2 of
                           None \<Rightarrow> None
                         | Some (v, s3) \<Rightarrow>
                             (case skip_ws s3 of
                                [] \<Rightarrow> None
                              | c # r \<Rightarrow>
                                  if c = CHR '','' then decode_members fuel depth (put k v acc) r
                                  else if c = CHR ''}'' then Some (JObj (put k v acc), r)
                                  else None)))))"
  by pat_completeness auto
termination
  by (relation "measure (\<lambda>x. case x of Inl (fuel, _) \<Rightarrow> fuel
        | Inr (Inl (fuel, _)) \<Rightarrow> fuel | Inr (Inr (fuel, _)) \<Rightarrow> fuel)") simp_all

text \<open>One call of \<open>Decoder.Decode\<close>: a value and the text not consumed.\<close>

definition decode :: "string \<Rightarrow> (json \<times> string) option" where
  "decode s = decode_value (Suc (2 * length s)) 0 s"

text \<open>The scanner accepts a text that is one value with blanks around it.\<close>

definition json_valid :: "string \<Rightarrow> bool" where
  "json_valid s = (case decode s of None \<Rightarrow> False | Some (v, rest) \<Rightarrow> skip_ws rest = [])"

section \<open>Writing values\<close>

definition html_safe :: "char \<Rightarrow> bool" where
  "html_safe c \<longleftrightarrow>
     32 \<le> byte c \<and> byte c < 0x80 \<and> c \<noteq> CHR 0x22 \<and> c \<noteq> CHR 0x5C
     \<and> c \<noteq> CHR ''<'' \<and> c \<noteq> CHR ''>'' \<and> c \<noteq> CHR ''&''"

definition escape_ascii :: "char \<Rightarrow> string" where
  "escape_ascii c =
     (if c = CHR 0x22 \<or> c = CHR 0x5C then [CHR 0x5C, c]
      else if c = CHR 0x08 then [CHR 0x5C, CHR ''b'']
      else if c = CHR 0x0C then [CHR 0x5C, CHR ''f'']
      else if c = CHR 0x0A then [CHR 0x5C, CHR ''n'']
      else if c = CHR 0x0D then [CHR 0x5C, CHR ''r'']
      else if c = CHR 0x09 then [CHR 0x5C, CHR ''t'']
      else [CHR 0x5C, CHR ''u'', CHR ''0'', CHR ''0'', hex_digit (byte c div 16), hex_digit (byte c mod 16)])"

fun quote_body :: "string \<Rightarrow> string" where
  "quote_body [] = []"
| "quote_body (c # cs) =
     (if byte c < 0x80 then
        (if html_safe c then [c] else escape_ascii c) @ quote_body cs
      else
        (let (rr, n) = decodeRune (c # cs) in
         (if rr = runeError \<and> n = 1 then [CHR 0x5C] @ ''ufffd''
          else if rr = 0x2028 \<or> rr = 0x2029 then [CHR 0x5C] @ ''u202'' @ [hex_digit (rr mod 16)]
          else take n (c # cs))
         @ quote_body (drop (n - 1) cs)))"

definition encode_string :: "string \<Rightarrow> string" where
  "encode_string s = [CHR 0x22] @ quote_body s @ [CHR 0x22]"

fun join :: "string \<Rightarrow> string list \<Rightarrow> string" where
  "join sep [] = []"
| "join sep [x] = x"
| "join sep (x # y # ys) = x @ sep @ join sep (y # ys)"

definition key_less :: "string \<times> 'a \<Rightarrow> string \<times> 'a \<Rightarrow> bool" where
  "key_less a b \<longleftrightarrow> fst a < fst b"

interpretation member_order: sort_order key_less fst
  by unfold_locales (simp add: key_less_def)

definition encode_object :: "(string \<times> string) list \<Rightarrow> string" where
  "encode_object kvs =
     ''{'' @ join '','' (map (\<lambda>(k, v). encode_string k @ '':'' @ v) (sort_slice key_less kvs)) @ ''}''"

fun encode :: "json \<Rightarrow> string" where
  "encode JNull = ''null''"
| "encode (JBool b) = (if b then ''true'' else ''false'')"
| "encode (JNum n) = n"
| "encode (JStr s) = encode_string s"
| "encode (JArr vs) = ''['' @ join '','' (map encode vs) @ '']''"
| "encode (JObj kvs) = encode_object (map (\<lambda>(k, v). (k, encode v)) kvs)"

section \<open>The decoder's fuel\<close>

lemma skip_ws_length: "length (skip_ws s) \<le> length s"
  by (simp add: skip_ws_def length_dropWhile_le)

lemma skip_ws_Cons: "skip_ws s = c # cs \<Longrightarrow> length cs < length s"
  using skip_ws_length [of s] by simp

lemma scan_string_split: "scan_string s = Some (b, r) \<Longrightarrow> s = b @ CHR 0x22 # r"
proof (induction s arbitrary: b r rule: scan_string.induct)
  case 1
  then show ?case by simp
next
  case (2 c cs)
  then show ?case
    by (auto simp del: scan_string.simps simp: scan_string.simps(2)
        split: if_split_asm list.split_asm)
qed

lemma read_string_length: "read_string s = Some (b, r) \<Longrightarrow> length r < length s"
  by (auto simp: read_string_def dest!: scan_string_split)

lemma take_digits_length: "take_digits s = Some (ds, r) \<Longrightarrow> length r < length s"
proof -
  assume d: "take_digits s = Some (ds, r)"
  then have "ds \<noteq> []" and "takeWhile is_digit s = ds" and "dropWhile is_digit s = r"
    by (auto simp: take_digits_def split: list.splits)
  moreover have "length s = length (takeWhile is_digit s) + length (dropWhile is_digit s)"
    by (metis length_append takeWhile_dropWhile_id)
  ultimately show ?thesis by simp
qed

lemma read_int_part_length: "read_int_part s = Some (ds, r) \<Longrightarrow> length r < length s"
  by (auto simp: read_int_part_def split: list.splits if_splits dest: take_digits_length)

lemma read_frac_length: "read_frac s = Some (ds, r) \<Longrightarrow> length r \<le> length s"
  by (auto simp: read_frac_def split: list.splits if_splits dest!: take_digits_length)

lemma read_exp_length: "read_exp s = Some (ds, r) \<Longrightarrow> length r \<le> length s"
  by (auto simp: read_exp_def split: list.splits if_splits dest!: take_digits_length)

lemma read_number_length: "read_number s = Some (n, r) \<Longrightarrow> length r < length s"
  by (fastforce simp: read_number_def Let_def split: list.splits if_splits option.splits prod.splits
      dest!: read_int_part_length read_frac_length read_exp_length)

lemma strip_prefix_length: "strip_prefix p s = Some r \<Longrightarrow> p \<noteq> [] \<Longrightarrow> length r < length s"
  by (cases s) (auto simp: strip_prefix_def split: if_splits)

lemma read_literal_length: "read_literal s = Some (v, r) \<Longrightarrow> length r < length s"
  by (auto simp: read_literal_def split: option.splits dest: strip_prefix_length)

lemmas read_lengths =
  read_string_length read_number_length read_literal_length skip_ws_Cons

lemma decode_length:
  "decode_value f d s = Some (v, r) \<Longrightarrow> length r < length s"
  "decode_elems f d acc s = Some (v, r) \<Longrightarrow> length r < length s"
  "decode_members f d acc' s = Some (v, r) \<Longrightarrow> length r < length s"
proof (induction f d s and f d acc s and f d acc' s arbitrary: v r and v r and v r
    rule: decode_value_decode_elems_decode_members.induct)
  case (2 fuel depth s)
  then show ?case
    by (fastforce split: if_split_asm list.split_asm dest!: read_lengths)
next
  case (4 fuel depth acc s)
  then show ?case
    by (fastforce split: if_split_asm list.split_asm option.split_asm prod.split_asm
        dest!: skip_ws_Cons)
next
  case (6 fuel depth acc s)
  then show ?case
    by (fastforce split: if_split_asm list.split_asm option.split_asm prod.split_asm
        dest!: skip_ws_Cons read_string_length)
qed simp_all


lemma decode_fuel:
  "2 * length s < f \<Longrightarrow> decode_value (f + k) d s = decode_value f d s"
  "Suc (2 * length s) < f \<Longrightarrow> decode_elems (f + k) d acc s = decode_elems f d acc s"
  "Suc (2 * length s) < f \<Longrightarrow> decode_members (f + k) d acc' s = decode_members f d acc' s"
proof (induction f d s and f d acc s and f d acc' s
    rule: decode_value_decode_elems_decode_members.induct)
  case (2 fuel depth s)
  have elems: "decode_elems (fuel + k) (Suc depth) [] cs = decode_elems fuel (Suc depth) [] cs"
    if "skip_ws s = c # cs" "c = CHR ''[''" "\<not> maxNestingDepth \<le> depth"
      "skip_ws cs = c' # r" "c' \<noteq> CHR '']''" for c cs c' r
    using that 2 skip_ws_Cons [OF that(1)] by simp
  have members: "decode_members (fuel + k) (Suc depth) [] cs = decode_members fuel (Suc depth) [] cs"
    if "skip_ws s = c # cs" "c = CHR ''{''" "\<not> maxNestingDepth \<le> depth"
      "skip_ws cs = c' # r" "c' \<noteq> CHR ''}''" for c cs c' r
    using that 2 skip_ws_Cons [OF that(1)] by simp
  show ?case
    by (auto split: list.split simp: elems members)
next
  case (4 fuel depth acc s)
  have val: "decode_value (fuel + k) depth s = decode_value fuel depth s"
    using 4 by simp
  have elems: "decode_elems (fuel + k) depth (acc @ [v]) r = decode_elems fuel depth (acc @ [v]) r"
    if "decode_value fuel depth s = Some (v, s1)" "skip_ws s1 = CHR '','' # r" for v s1 r
    using that 4 decode_length(1) [OF that(1)] skip_ws_Cons [OF that(2)] by simp
  show ?case
    by (auto split: list.split option.split simp: val elems)
next
  case (6 fuel depth acc s)
  have val: "decode_value (fuel + k) depth s2 = decode_value fuel depth s2"
    if "skip_ws s = CHR 0x22 # qs" "read_string qs = Some (n, s1)" "skip_ws s1 = CHR '':'' # s2"
    for qs n s1 s2
    using that 6 skip_ws_Cons [OF that(1)] read_string_length [OF that(2)] skip_ws_Cons [OF that(3)]
    by simp
  have members: "decode_members (fuel + k) depth (put n v acc) r = decode_members fuel depth (put n v acc) r"
    if "skip_ws s = CHR 0x22 # qs" "read_string qs = Some (n, s1)" "skip_ws s1 = CHR '':'' # s2"
      "decode_value fuel depth s2 = Some (v, s3)" "skip_ws s3 = CHR '','' # r"
    for qs n s1 s2 s3 v r
    using that 6 skip_ws_Cons [OF that(1)] read_string_length [OF that(2)] skip_ws_Cons [OF that(3)]
      decode_length(1) [OF that(4)] skip_ws_Cons [OF that(5)]
    by simp
  show ?case
    by (auto split: list.split option.split simp: val members)
qed simp_all

lemma decode_fuel_enough:
  "2 * length s < f \<Longrightarrow> decode_value f 0 s = decode s"
  using decode_fuel(1) [of s "Suc (2 * length s)" "f - Suc (2 * length s)" 0]
  by (simp add: decode_def)

end
