(* ===== verification/DF_Types.thy ===== *)
theory DF_Types
  imports DF_Json
begin

text \<open>
  The public data of \<open>pkg/deltaflow\<close>: the string-typed states and origins, the records
  \<open>Delta\<close> and \<open>SyncJob\<close>, the error values, the lease telemetry signals, projection
  keys with their canonical JSON form, and the batch result. Field selectors carry the
  prefix \<open>d_\<close> (delta) or \<open>j_\<close> (job), since both records have fields of the same name.
  A pointer field is an option; the fields of Go type \<open>string\<close> keep the empty string as
  their unset value.
\<close>

section \<open>Named string types and their constants\<close>

type_synonym SyncID = string
type_synonym DeltaID = string
type_synonym SyncJobID = string
type_synonym ProjectionType = string
type_synonym ProjectionKeyHash = string
type_synonym DedupWindow = string
type_synonym DedupKey = string
type_synonym OriginOperationType = string
type_synonym SyncJobOriginType = string
type_synonym DeltaState = string
type_synonym SyncJobState = string
type_synonym ProjectionOperationType = string

definition OriginOperationInserted :: OriginOperationType where
  [const_defs]: "OriginOperationInserted = ''inserted''"
definition OriginOperationUpdated :: OriginOperationType where
  [const_defs]: "OriginOperationUpdated = ''updated''"
definition OriginOperationDeleted :: OriginOperationType where
  [const_defs]: "OriginOperationDeleted = ''deleted''"
definition OriginOperationChildChanged :: OriginOperationType where
  [const_defs]: "OriginOperationChildChanged = ''child_changed''"

definition JobOriginBackfill :: SyncJobOriginType where
  [const_defs]: "JobOriginBackfill = ''backfill''"
definition JobOriginReplay :: SyncJobOriginType where
  [const_defs]: "JobOriginReplay = ''replay''"
definition JobOriginManual :: SyncJobOriginType where
  [const_defs]: "JobOriginManual = ''manual''"
definition JobOriginOutbox :: SyncJobOriginType where
  [const_defs]: "JobOriginOutbox = ''outbox''"
definition JobOriginUnknown :: SyncJobOriginType where
  [const_defs]: "JobOriginUnknown = ''unknown''"

definition DeltaPending :: DeltaState where
  [const_defs]: "DeltaPending = ''pending''"
definition DeltaDispatched :: DeltaState where
  [const_defs]: "DeltaDispatched = ''dispatched''"
definition DeltaIgnored :: DeltaState where
  [const_defs]: "DeltaIgnored = ''ignored''"

definition StatePending :: SyncJobState where
  [const_defs]: "StatePending = ''pending''"
definition StateProcessing :: SyncJobState where
  [const_defs]: "StateProcessing = ''processing''"
definition StateSynced :: SyncJobState where
  [const_defs]: "StateSynced = ''synced''"
definition StateRetrying :: SyncJobState where
  [const_defs]: "StateRetrying = ''retrying''"
definition StateDead :: SyncJobState where
  [const_defs]: "StateDead = ''dead''"

definition ProjectionOpUpsert :: ProjectionOperationType where
  [const_defs]: "ProjectionOpUpsert = ''upsert''"
definition ProjectionOpDelete :: ProjectionOperationType where
  [const_defs]: "ProjectionOpDelete = ''delete''"

lemma delta_states_distinct [simp]:
  "DeltaPending \<noteq> DeltaDispatched" "DeltaDispatched \<noteq> DeltaPending"
  "DeltaPending \<noteq> []" "DeltaDispatched \<noteq> []"
  by (simp_all add: const_defs)

lemma job_states_distinct [simp]:
  "StatePending \<noteq> StateProcessing" "StateProcessing \<noteq> StatePending"
  "StatePending \<noteq> StateSynced" "StateSynced \<noteq> StatePending"
  "StatePending \<noteq> StateRetrying" "StateRetrying \<noteq> StatePending"
  "StatePending \<noteq> StateDead" "StateDead \<noteq> StatePending"
  "StateProcessing \<noteq> StateSynced" "StateSynced \<noteq> StateProcessing"
  "StateProcessing \<noteq> StateRetrying" "StateRetrying \<noteq> StateProcessing"
  "StateProcessing \<noteq> StateDead" "StateDead \<noteq> StateProcessing"
  "StateSynced \<noteq> StateRetrying" "StateRetrying \<noteq> StateSynced"
  "StateSynced \<noteq> StateDead" "StateDead \<noteq> StateSynced"
  "StateRetrying \<noteq> StateDead" "StateDead \<noteq> StateRetrying"
  "StatePending \<noteq> []" "StateProcessing \<noteq> []"
  by (simp_all add: const_defs)

lemma origins_distinct [simp]:
  "JobOriginOutbox \<noteq> []" "JobOriginUnknown \<noteq> JobOriginOutbox" "JobOriginUnknown \<noteq> []"
  by (simp_all add: const_defs)

lemma projection_ops_distinct [simp]:
  "ProjectionOpUpsert \<noteq> ProjectionOpDelete" "ProjectionOpDelete \<noteq> ProjectionOpUpsert"
  by (simp_all add: const_defs)

section \<open>Errors\<close>

text \<open>
  The sentinel errors of \<open>errors.go\<close>, the two causes of a done context, the errors of the
  JSON decoder (whose texts are not modelled), \<open>Errors_New\<close> for \<open>errors.New\<close> and for
  \<open>fmt.Errorf\<close> without \<open>%w\<close>, \<open>DriverError\<close> for an error of a database driver (what its
  \<open>SQLState\<close> method and its \<open>Code\<close> field say, if it has them, and its text),
  \<open>ResponseError\<close> for the error of the Elasticsearch applier (operation, status, whether to
  retry, body), and \<open>Wrapped\<close> for \<open>fmt.Errorf\<close> with one: the text before the wrapped error, the error, the
  text after it.
\<close>

datatype error =
    ErrProjectionNotFound
  | ErrDeltaNotFound
  | ErrJobNotFound
  | ErrInvalidLockFor
  | ErrJobLeaseNotOwned
  | ErrDeltaIDProvided
  | ErrDedupWindowRequired
  | ErrMixedDedupWindows
  | ErrEnqueueBatchTooLarge
  | ErrOutboxJobNeedsDelta
  | ErrJobIDProvided
  | ErrDeltaAlreadyMapped
  | ErrInvalidLeaseWindow
  | ErrAuditReasonRequired
  | ErrJobLeaseNotExpired
  | CtxCanceled
  | CtxDeadlineExceeded
  | IoEOF
  | JsonSyntax
  | Errors_New string
  | DriverError "string option" "string option" string
  | ResponseError string int bool string
  | Wrapped string error string

fun err_text :: "error \<Rightarrow> string" where
  "err_text ErrProjectionNotFound = ''projection not found''"
| "err_text ErrDeltaNotFound = ''delta not found''"
| "err_text ErrJobNotFound = ''job not found''"
| "err_text ErrInvalidLockFor = ''lock duration must be positive''"
| "err_text ErrJobLeaseNotOwned = ''job lease not owned''"
| "err_text ErrDeltaIDProvided = ''delta id must be empty''"
| "err_text ErrDedupWindowRequired = ''dedup window is required''"
| "err_text ErrMixedDedupWindows = ''enqueue batch must use one dedup window''"
| "err_text ErrEnqueueBatchTooLarge = ''enqueue batch exceeds maximum size''"
| "err_text ErrOutboxJobNeedsDelta = ''outbox job requires delta id''"
| "err_text ErrJobIDProvided = ''job id must be empty''"
| "err_text ErrDeltaAlreadyMapped = ''delta already mapped to job''"
| "err_text ErrInvalidLeaseWindow = ''lease window must be non-negative''"
| "err_text ErrAuditReasonRequired = ''audit reason is required''"
| "err_text ErrJobLeaseNotExpired = ''job not eligible for expired lease action''"
| "err_text CtxCanceled = ''context canceled''"
| "err_text CtxDeadlineExceeded = ''context deadline exceeded''"
| "err_text IoEOF = ''EOF''"
| "err_text JsonSyntax = ''invalid character''"
| "err_text (Errors_New s) = s"
| "err_text (DriverError sqlState code s) = s"
| "err_text (ResponseError operation statusCode retryable body) =
     ''elasticsearch '' @ operation @ '' failed with status '' @ show_int statusCode
     @ (if body = [] then [] else '': '' @ body)"
| "err_text (Wrapped pre e post) = pre @ err_text e @ post"

text \<open>\<open>errors.Is(err, target)\<close>\<close>

fun errors_Is :: "error \<Rightarrow> error \<Rightarrow> bool" where
  "errors_Is (Wrapped pre e post) target \<longleftrightarrow>
     Wrapped pre e post = target \<or> errors_Is e target"
| "errors_Is e target \<longleftrightarrow> e = target"

text \<open>A context is what its \<open>Err()\<close> returns at the call: nothing while it is live.\<close>

type_synonym ctx = "error option"

section \<open>Telemetry\<close>

definition LeaseTelemetryResultSuccess :: string where
  [const_defs]: "LeaseTelemetryResultSuccess = ''success''"
definition LeaseTelemetryResultError :: string where
  [const_defs]: "LeaseTelemetryResultError = ''error''"
definition LeaseTelemetryResultEmpty :: string where
  [const_defs]: "LeaseTelemetryResultEmpty = ''empty''"
definition LeaseTelemetryResultInvalidLockFor :: string where
  [const_defs]: "LeaseTelemetryResultInvalidLockFor = ''invalid_lock_for''"
definition LeaseTelemetryResultJobNotFound :: string where
  [const_defs]: "LeaseTelemetryResultJobNotFound = ''job_not_found''"
definition LeaseTelemetryResultLeaseNotOwned :: string where
  [const_defs]: "LeaseTelemetryResultLeaseNotOwned = ''lease_not_owned''"
definition LeaseTelemetryOwnershipOwned :: string where
  [const_defs]: "LeaseTelemetryOwnershipOwned = ''owned''"
definition LeaseTelemetryOwnershipRejected :: string where
  [const_defs]: "LeaseTelemetryOwnershipRejected = ''rejected''"
definition LeaseTelemetryTransitionRenewLease :: string where
  [const_defs]: "LeaseTelemetryTransitionRenewLease = ''renew_lease''"
definition LeaseTelemetryTransitionMarkSynced :: string where
  [const_defs]: "LeaseTelemetryTransitionMarkSynced = ''mark_synced''"
definition LeaseTelemetryTransitionMarkRetrying :: string where
  [const_defs]: "LeaseTelemetryTransitionMarkRetrying = ''mark_retrying''"
definition LeaseTelemetryTransitionRequeueClaimed :: string where
  [const_defs]: "LeaseTelemetryTransitionRequeueClaimed = ''requeue_claimed''"
definition LeaseTelemetryTransitionMarkDead :: string where
  [const_defs]: "LeaseTelemetryTransitionMarkDead = ''mark_dead''"

text \<open>
  The calls on a \<open>LeaseTelemetry\<close> value, recorded in the order they are made. The
  duration that accompanies a renewal, read off the wall clock, is left out.
\<close>

datatype lease_event =
    ObserveLeaseClaim string
  | ObserveLeaseRenew string
  | ObserveLeaseOwnershipCheck string string
  | ObserveLeaseReclaim

text \<open>\<open>leaseResult\<close> (in the stores) and \<open>workerLeaseResult\<close> (in the worker) are the same function.\<close>

definition leaseResult :: "error option \<Rightarrow> string" where
  "leaseResult err =
     (case err of
        None \<Rightarrow> LeaseTelemetryResultSuccess
      | Some e \<Rightarrow>
          if errors_Is e ErrJobNotFound then LeaseTelemetryResultJobNotFound
          else if errors_Is e ErrJobLeaseNotOwned then LeaseTelemetryResultLeaseNotOwned
          else if errors_Is e ErrInvalidLockFor then LeaseTelemetryResultInvalidLockFor
          else LeaseTelemetryResultError)"

section \<open>Projection keys\<close>

text \<open>
  \<open>map[string]json.RawMessage\<close>: absent when the map is nil; a value is absent when the
  raw message is nil.
\<close>

type_synonym ProjectionKey = "(string \<times> string option) list option"

definition key_entries :: "ProjectionKey \<Rightarrow> (string \<times> string option) list" where
  "key_entries k = (case k of None \<Rightarrow> [] | Some m \<Rightarrow> m)"

text \<open>One raw value: exactly one JSON value with nothing but white space around it.\<close>

definition canonical_value :: "string option \<Rightarrow> error + json" where
  "canonical_value raw =
     (case raw of
        None \<Rightarrow> Inr JNull
      | Some s \<Rightarrow>
          if skip_ws s = [] then Inl IoEOF
          else
            (case decode s of
               None \<Rightarrow> Inl JsonSyntax
             | Some (v, rest) \<Rightarrow>
                 if skip_ws rest = [] then Inr v
                 else
                   (case decode rest of
                      None \<Rightarrow> Inl JsonSyntax
                    | Some _ \<Rightarrow> Inl (Errors_New ''invalid JSON: multiple top-level values''))))"

fun canonical_entries :: "(string \<times> string option) list \<Rightarrow> error + (string \<times> json) list" where
  "canonical_entries [] = Inr []"
| "canonical_entries ((k, raw) # m) =
     (case canonical_value raw of
        Inl e \<Rightarrow> Inl e
      | Inr v \<Rightarrow> (case canonical_entries m of Inl e \<Rightarrow> Inl e | Inr kvs \<Rightarrow> Inr ((k, v) # kvs)))"

text \<open>\<open>ProjectionKey.MarshalJSON\<close>\<close>

definition MarshalJSON :: "ProjectionKey \<Rightarrow> error + string" where
  "MarshalJSON key =
     (case canonical_entries (key_entries key) of
        Inl e \<Rightarrow> Inl e
      | Inr canonical \<Rightarrow> Inr (encode (JObj canonical)))"

text \<open>
  \<open>json.Marshal(key)\<close>: an error of the method above comes back wrapped, and so does the error
  of the scanner that checks the method's text, which refuses too deep a nesting.
\<close>

definition json_Marshal_key :: "ProjectionKey \<Rightarrow> error + string" where
  "json_Marshal_key key =
     (let wrap = (\<lambda>e. Wrapped ''json: error calling MarshalJSON for type deltaflow.ProjectionKey: '' e [])
      in case MarshalJSON key of
           Inl e \<Rightarrow> Inl (wrap e)
         | Inr s \<Rightarrow> if json_valid s then Inr s else Inl (wrap JsonSyntax))"

definition projectionKeyHash :: "ProjectionKey \<Rightarrow> error + ProjectionKeyHash" where
  "projectionKeyHash key =
     (case json_Marshal_key key of
        Inl e \<Rightarrow> Inl e
      | Inr encoded \<Rightarrow> Inr (hexEncodeToString (sha256 encoded)))"

text \<open>
  \<open>cloneProjectionKey\<close>. A nil value stays nil; \<open>append([]byte(nil), v...)\<close> yields nil for
  an empty non-nil value too.
\<close>

definition clone_raw :: "string option \<Rightarrow> string option" where
  "clone_raw v = (case v of None \<Rightarrow> None | Some s \<Rightarrow> if s = [] then None else Some s)"

definition cloneProjectionKey :: "ProjectionKey \<Rightarrow> ProjectionKey" where
  "cloneProjectionKey key =
     (case key of None \<Rightarrow> None | Some m \<Rightarrow> Some (map (\<lambda>(k, v). (k, clone_raw v)) m))"

section \<open>Deltas, jobs, projections\<close>

type_synonym metadata = "(string \<times> json) list option"

record delta =
  d_ID :: DeltaID
  d_SyncID :: SyncID
  d_Origin :: OriginOperationType
  d_ProjectionType :: ProjectionType
  d_ProjectionKey :: ProjectionKey
  d_ProjectionKeyHash :: ProjectionKeyHash
  d_DedupWindow :: DedupWindow
  d_DedupKey :: DedupKey
  d_State :: DeltaState
  d_OccurredAt :: time
  d_CreatedAt :: time
  d_DispatchedAt :: "time option"
  d_Metadata :: metadata

record sync_job =
  j_ID :: SyncJobID
  j_SyncID :: SyncID
  j_DeltaID :: "DeltaID option"
  j_Origin :: SyncJobOriginType
  j_ProjectionType :: ProjectionType
  j_ProjectionKey :: ProjectionKey
  j_ProjectionKeyHash :: ProjectionKeyHash
  j_State :: SyncJobState
  j_AttemptCount :: int
  j_MaxAttempts :: int
  j_LastError :: "string option"
  j_LastErrorCode :: "string option"
  j_AvailableAt :: time
  j_LockedBy :: "string option"
  j_LockedUntil :: "time option"
  j_GhostDetected :: bool
  j_SyncedAt :: "time option"
  j_DeadAt :: "time option"
  j_CreatedAt :: time
  j_UpdatedAt :: time

record projection_identity =
  pi_Type :: ProjectionType
  pi_Key :: ProjectionKey

record projection =
  p_Identity :: projection_identity
  p_Payload :: string
  p_MediaType :: string
  p_Checksum :: string

record projection_operation =
  op_Type :: ProjectionOperationType
  op_Identity :: projection_identity
  op_Projection :: "projection option"

definition DefaultMaxEnqueueBatchSize :: int where
  "DefaultMaxEnqueueBatchSize = 1000"

record enqueue_batch_result =
  RequestedCount :: nat
  InsertedCount :: nat
  DuplicateCount :: nat
  BatchDedupWindow :: DedupWindow

end
