(* ===== verification/DF_Dedup.thy ===== *)
theory DF_Dedup
  imports DF_Types
begin

text \<open>
  Identity of a delta within a dedup window (\<open>ComputeDedupKey\<close> of
  \<open>pkg/connectors/delta_store_base.go\<close>) and the copying helpers that the stores put
  between their own state and the caller's. The lemmas: the framing that is hashed is
  injective, so two keys agree only for equal identities or for a SHA-256 collision; a
  clone of a key that can be hashed has the same hash; cloning twice is cloning once.
\<close>

section \<open>Dedup keys\<close>

text \<open>\<open>binary.BigEndian.PutUint32(length[:], uint32(len(value)))\<close>\<close>

definition put_uint32 :: "nat \<Rightarrow> string" where
  "put_uint32 n = map char_of (be_bytes 4 (uint (word_of_nat n :: u32)))"

definition dedup_segment :: "string \<Rightarrow> string" where
  "dedup_segment v = put_uint32 (length v) @ v"

definition dedup_preimage :: "DedupWindow \<Rightarrow> ProjectionType \<Rightarrow> ProjectionKeyHash \<Rightarrow> string" where
  "dedup_preimage window ptype keyHash = concat (map dedup_segment [window, ptype, keyHash])"

definition ComputeDedupKey ::
    "DedupWindow \<Rightarrow> ProjectionType \<Rightarrow> ProjectionKeyHash \<Rightarrow> DedupKey" where
  "ComputeDedupKey window ptype keyHash =
     hexEncodeToString (sha256 (dedup_preimage window ptype keyHash))"

lemma ComputeDedupKey_nonempty [simp]: "ComputeDedupKey w t h \<noteq> []"
  by (simp add: ComputeDedupKey_def)

lemma length_put_uint32 [simp]: "length (put_uint32 n) = 4"
  by (simp add: put_uint32_def)

lemma be_bytes4:
  fixes x y :: int
  assumes "be_bytes 4 x = be_bytes 4 y" and "0 \<le> x" "x < 2 ^ 32" "0 \<le> y" "y < 2 ^ 32"
  shows "x = y"
proof -
  have four: "rev [0..<4] = [3, 2, 1, 0::nat]" by (simp add: upt_rec)
  have digits: "z = ((z div 16777216 mod 256) * 16777216 + (z div 65536 mod 256) * 65536
      + (z div 256 mod 256) * 256 + z mod 256)" if "0 \<le> z" "z < 2 ^ 32" for z :: int
  proof -
    have "z div 65536 = z div 256 div 256" and "z div 16777216 = z div 65536 div 256"
      by (simp_all flip: zdiv_zmult2_eq)
    moreover have "z div 16777216 mod 256 = z div 16777216" using that by simp
    ultimately show ?thesis
      using div_mult_mod_eq [of z 256] div_mult_mod_eq [of "z div 256" 256]
        div_mult_mod_eq [of "z div 65536" 256] by linarith
  qed
  have eqs: "x div 16777216 mod 256 = y div 16777216 mod 256"
      "x div 65536 mod 256 = y div 65536 mod 256"
      "x div 256 mod 256 = y div 256 mod 256" "x mod 256 = y mod 256"
    using assms(1) by (simp_all add: be_bytes_def four)
  show ?thesis
    by (rule trans [OF digits [OF assms(2,3), unfolded eqs] digits [OF assms(4,5), symmetric]])
qed

lemma map_char_of_int_inj:
  assumes "map char_of xs = (map char_of ys :: string)"
    and "\<forall>x \<in> set xs. 0 \<le> x \<and> x < (256::int)" and "\<forall>y \<in> set ys. 0 \<le> y \<and> y < 256"
  shows "xs = ys"
proof -
  have same: "of_char (char_of x :: char) = x" if "0 \<le> x" "x < 256" for x :: int
    using that by (simp add: of_char_of mod_pos_pos_trivial)
  have "map of_char (map char_of xs :: string) = map (of_char :: char \<Rightarrow> int) (map char_of ys)"
    using assms(1) by simp
  then show ?thesis using assms(2,3) same by (simp add: map_idI)
qed

lemma put_uint32_inj:
  assumes "m < 2 ^ 32" and "n < 2 ^ 32" and "put_uint32 m = put_uint32 n"
  shows "m = n"
proof -
  have bytes: "\<forall>x \<in> set (be_bytes 4 z). 0 \<le> x \<and> x < 256" for z
    by (auto simp: be_bytes_def)
  have "be_bytes 4 (int m) = be_bytes 4 (int n)"
    using assms map_char_of_int_inj [OF _ bytes bytes]
    by (simp add: put_uint32_def uint_nat unat_of_nat)
  then show ?thesis using be_bytes4 [of "int m" "int n"] assms(1,2) by simp
qed

lemma dedup_segment_cancel:
  assumes "dedup_segment v @ xs = dedup_segment w @ ys"
    and "length v < 2 ^ 32" and "length w < 2 ^ 32"
  shows "v = w" and "xs = ys"
proof -
  have "put_uint32 (length v) = put_uint32 (length w)" and rest: "v @ xs = w @ ys"
    using assms(1) by (simp_all add: dedup_segment_def append_eq_append_conv)
  then have "length v = length w" using assms(2,3) by (blast intro: put_uint32_inj)
  with rest show "v = w" and "xs = ys" by simp_all
qed

lemma dedup_preimage_inj:
  assumes "dedup_preimage w t h = dedup_preimage w' t' h'"
    and "length w < 2 ^ 32" "length t < 2 ^ 32" "length h < 2 ^ 32"
    and "length w' < 2 ^ 32" "length t' < 2 ^ 32" "length h' < 2 ^ 32"
  shows "w = w' \<and> t = t' \<and> h = h'"
proof -
  have eq: "dedup_segment w @ dedup_segment t @ dedup_segment h @ [] =
      dedup_segment w' @ dedup_segment t' @ dedup_segment h' @ []"
    using assms(1) by (simp add: dedup_preimage_def)
  note one = dedup_segment_cancel [OF eq assms(2,5)]
  note two = dedup_segment_cancel [OF one(2) assms(3,6)]
  note three = dedup_segment_cancel [OF two(2) assms(4,7)]
  show ?thesis using one(1) two(1) three(1) by simp
qed

section \<open>Copies\<close>

text \<open>
  \<open>cloneMetadataValue\<close> and \<open>cloneMetadataReflect\<close>, on the values a JSON document holds:
  maps and slices are rebuilt member by member, other values are returned.
\<close>

fun cloneMetadataValue :: "json \<Rightarrow> json" where
  "cloneMetadataValue (JArr vs) = JArr (map cloneMetadataValue vs)"
| "cloneMetadataValue (JObj kvs) = JObj (map (\<lambda>(k, v). (k, cloneMetadataValue v)) kvs)"
| "cloneMetadataValue v = v"

definition cloneMetadata :: "metadata \<Rightarrow> metadata" where
  "cloneMetadata md =
     (case md of None \<Rightarrow> None | Some m \<Rightarrow> Some (map (\<lambda>(k, v). (k, cloneMetadataValue v)) m))"

lemma cloneMetadataValue_id [simp]: "cloneMetadataValue v = v"
proof (induction v rule: cloneMetadataValue.induct)
  case (2 kvs)
  then show ?case by (auto intro!: map_idI)
qed (auto intro: map_idI)

lemma cloneMetadata_id [simp]: "cloneMetadata md = md"
  by (simp add: cloneMetadata_def map_idI split_def split: option.split)

definition cloneDelta :: "delta \<Rightarrow> delta" where
  "cloneDelta d =
     d\<lparr>d_ProjectionKey := cloneProjectionKey (d_ProjectionKey d),
       d_Metadata := cloneMetadata (d_Metadata d)\<rparr>"

definition cloneSyncJob :: "sync_job \<Rightarrow> sync_job" where
  "cloneSyncJob j = j\<lparr>j_ProjectionKey := cloneProjectionKey (j_ProjectionKey j)\<rparr>"

lemma clone_raw_idem [simp]: "clone_raw (clone_raw v) = clone_raw v"
  by (simp add: clone_raw_def split: option.split)

lemma cloneProjectionKey_idem [simp]:
  "cloneProjectionKey (cloneProjectionKey k) = cloneProjectionKey k"
  by (simp add: cloneProjectionKey_def split_def o_def split: option.split)

lemma cloneDelta_idem [simp]: "cloneDelta (cloneDelta d) = cloneDelta d"
  by (simp add: cloneDelta_def)

lemma cloneSyncJob_idem [simp]: "cloneSyncJob (cloneSyncJob j) = cloneSyncJob j"
  by (simp add: cloneSyncJob_def)

lemma cloneDelta_sel [simp]:
  "d_ID (cloneDelta d) = d_ID d" "d_SyncID (cloneDelta d) = d_SyncID d"
  "d_Origin (cloneDelta d) = d_Origin d" "d_ProjectionType (cloneDelta d) = d_ProjectionType d"
  "d_ProjectionKey (cloneDelta d) = cloneProjectionKey (d_ProjectionKey d)"
  "d_ProjectionKeyHash (cloneDelta d) = d_ProjectionKeyHash d"
  "d_DedupWindow (cloneDelta d) = d_DedupWindow d" "d_DedupKey (cloneDelta d) = d_DedupKey d"
  "d_State (cloneDelta d) = d_State d" "d_OccurredAt (cloneDelta d) = d_OccurredAt d"
  "d_CreatedAt (cloneDelta d) = d_CreatedAt d" "d_DispatchedAt (cloneDelta d) = d_DispatchedAt d"
  by (simp_all add: cloneDelta_def)

lemma cloneSyncJob_sel [simp]:
  "j_ID (cloneSyncJob j) = j_ID j" "j_SyncID (cloneSyncJob j) = j_SyncID j"
  "j_DeltaID (cloneSyncJob j) = j_DeltaID j" "j_Origin (cloneSyncJob j) = j_Origin j"
  "j_State (cloneSyncJob j) = j_State j" "j_AttemptCount (cloneSyncJob j) = j_AttemptCount j"
  "j_MaxAttempts (cloneSyncJob j) = j_MaxAttempts j"
  "j_AvailableAt (cloneSyncJob j) = j_AvailableAt j" "j_LockedBy (cloneSyncJob j) = j_LockedBy j"
  "j_LockedUntil (cloneSyncJob j) = j_LockedUntil j" "j_CreatedAt (cloneSyncJob j) = j_CreatedAt j"
  "j_UpdatedAt (cloneSyncJob j) = j_UpdatedAt j" "j_LastError (cloneSyncJob j) = j_LastError j"
  "j_ProjectionType (cloneSyncJob j) = j_ProjectionType j"
  "j_ProjectionKey (cloneSyncJob j) = cloneProjectionKey (j_ProjectionKey j)"
  "j_GhostDetected (cloneSyncJob j) = j_GhostDetected j"
  "j_SyncedAt (cloneSyncJob j) = j_SyncedAt j" "j_DeadAt (cloneSyncJob j) = j_DeadAt j"
  by (simp_all add: cloneSyncJob_def)

text \<open>A key that can be hashed has no empty raw message, so its clone hashes alike.\<close>

lemma canonical_value_clone:
  "canonical_value raw = Inr v \<Longrightarrow> clone_raw raw = raw"
  by (auto simp: canonical_value_def clone_raw_def skip_ws_def split: option.splits if_splits)

lemma canonical_entries_clone:
  "canonical_entries m = Inr kvs \<Longrightarrow> map (\<lambda>(k, v). (k, clone_raw v)) m = m"
  by (induction m arbitrary: kvs rule: canonical_entries.induct)
    (auto split: sum.splits dest: canonical_value_clone)

lemma projectionKeyHash_clone:
  assumes "projectionKeyHash k = Inr h"
  shows "cloneProjectionKey k = k"
proof (cases k)
  case (Some m)
  from assms obtain kvs where "canonical_entries m = Inr kvs"
    by (auto simp: Some projectionKeyHash_def json_Marshal_key_def Let_def MarshalJSON_def key_entries_def
        split: sum.splits)
  then show ?thesis by (simp add: Some cloneProjectionKey_def canonical_entries_clone)
qed (simp add: cloneProjectionKey_def)

lemma projectionKeyHash_nonempty: "projectionKeyHash k = Inr h \<Longrightarrow> h \<noteq> []"
  by (auto simp: projectionKeyHash_def split: sum.splits)


section \<open>Sample values\<close>

text \<open>Concrete keys, deltas and jobs that the witnesses of the properties use.\<close>

definition sample_key :: ProjectionKey where
  "sample_key = Some [(''id'', Some '' 42 '')]"

definition sample_hash :: ProjectionKeyHash where
  \<open>sample_hash = hexEncodeToString (sha256 ''{"id":42}'')\<close>

lemma sample_key_hash [simp]: "projectionKeyHash sample_key = Inr sample_hash"
proof -
  have \<open>json_Marshal_key sample_key = Inr ''{"id":42}''\<close> by code_simp
  then show ?thesis by (simp add: projectionKeyHash_def sample_hash_def)
qed

definition sample_delta :: delta where
  "sample_delta =
     \<lparr>d_ID = [], d_SyncID = ''contacts'', d_Origin = OriginOperationUpdated,
      d_ProjectionType = ''Contact'', d_ProjectionKey = sample_key, d_ProjectionKeyHash = [],
      d_DedupWindow = ''w1'', d_DedupKey = [], d_State = [], d_OccurredAt = 0, d_CreatedAt = 0,
      d_DispatchedAt = None, d_Metadata = None\<rparr>"

lemma sample_delta_sel [simp]:
  "d_ID sample_delta = []" "d_SyncID sample_delta = ''contacts''"
  "d_ProjectionType sample_delta = ''Contact''" "d_ProjectionKey sample_delta = sample_key"
  "d_DedupWindow sample_delta = ''w1''" "d_State sample_delta = []"
  "d_OccurredAt sample_delta = 0" "d_CreatedAt sample_delta = 0"
  by (simp_all add: sample_delta_def)

definition sample_job :: sync_job where
  "sample_job =
     \<lparr>j_ID = [], j_SyncID = ''contacts'', j_DeltaID = None, j_Origin = JobOriginManual,
      j_ProjectionType = ''Contact'', j_ProjectionKey = sample_key, j_ProjectionKeyHash = [],
      j_State = [], j_AttemptCount = 0, j_MaxAttempts = 0, j_LastError = None,
      j_LastErrorCode = None, j_AvailableAt = 0, j_LockedBy = None, j_LockedUntil = None,
      j_GhostDetected = False, j_SyncedAt = None, j_DeadAt = None, j_CreatedAt = 0,
      j_UpdatedAt = 0\<rparr>"

end
