(* ===== verification/DF_DeltaMemory.thy ===== *)
theory DF_DeltaMemory
  imports DF_Dedup
begin

text \<open>
  \<open>DeltaMemoryStore\<close> (\<open>internal/store.go\<close>): the outbox kept in memory. The state is the
  identifier counter, the deltas by identifier and the index from dedup keys to
  identifiers; the mutex makes every operation one step. An operation takes the state of
  its context and the clock reading it makes, and returns its result with the new state.
  The lemmas: the invariant that ties the two maps together and its preservation, what each
  operation does to the maps, and that the answer of \<open>Pull\<close> does not depend on the order
  in which Go iterates over the map.
\<close>

section \<open>State\<close>

record delta_memory_store =
  ds_maxEnqueueBatchSize :: int
  ds_nextID :: nat
  ds_deltas :: "(DeltaID \<times> delta) list"
  ds_dedup :: "(DedupKey \<times> DeltaID) list"

definition NewDeltaMemoryStoreWithConfig :: "int \<Rightarrow> delta_memory_store" where
  "NewDeltaMemoryStoreWithConfig maxSize =
     \<lparr>ds_maxEnqueueBatchSize = (if maxSize \<le> 0 then DefaultMaxEnqueueBatchSize else maxSize),
      ds_nextID = 0, ds_deltas = [], ds_dedup = []\<rparr>"

definition NewDeltaMemoryStore :: delta_memory_store where
  "NewDeltaMemoryStore = NewDeltaMemoryStoreWithConfig 0"

definition delta_id :: "nat \<Rightarrow> DeltaID" where
  "delta_id n = numbered ''delta-'' n"

section \<open>Enqueue\<close>

text \<open>The defaults a new delta gets: its state and its two instants.\<close>

definition default_delta :: "time \<Rightarrow> delta \<Rightarrow> delta" where
  "default_delta now d =
     d\<lparr>d_State := (if d_State d = [] then DeltaPending else d_State d),
       d_OccurredAt := default_time (d_OccurredAt d) now,
       d_CreatedAt := default_time (d_CreatedAt d) now\<rparr>"

definition delta_key_of :: "delta \<Rightarrow> ProjectionKeyHash \<Rightarrow> DedupKey" where
  "delta_key_of d hash =
     (if d_DedupWindow d \<noteq> [] then ComputeDedupKey (d_DedupWindow d) (d_ProjectionType d) hash
      else [])"

definition insert_delta :: "delta \<Rightarrow> delta_memory_store \<Rightarrow> delta_memory_store" where
  "insert_delta d s =
     s\<lparr>ds_deltas := put (d_ID d) (cloneDelta d) (ds_deltas s),
       ds_dedup := (if d_DedupKey d \<noteq> [] then put (d_DedupKey d) (d_ID d) (ds_dedup s)
                    else ds_dedup s)\<rparr>"

definition prepare_delta :: "time \<Rightarrow> DeltaID \<Rightarrow> delta \<Rightarrow> ProjectionKeyHash \<Rightarrow> delta" where
  "prepare_delta now i d hash =
     (let d1 = default_delta now (d\<lparr>d_ID := i\<rparr>)
      in d1\<lparr>d_ProjectionKeyHash := hash, d_DedupKey := delta_key_of d1 hash\<rparr>)"

text \<open>
  \<open>Enqueue\<close>. The result is a pointer, hence the option: a dedup entry without its delta
  would give a nil pointer. A duplicate gives its number back (\<open>s.nextID--\<close>); a key that
  cannot be hashed does not.
\<close>

definition delta_Enqueue ::
    "ctx \<Rightarrow> time \<Rightarrow> delta \<Rightarrow> delta_memory_store \<Rightarrow> (error + delta option) \<times> delta_memory_store"
where [store_defs]:
  "delta_Enqueue ctx now delta s =
     (case ctx of Some e \<Rightarrow> (Inl e, s) | None \<Rightarrow>
      if d_ID delta \<noteq> [] then (Inl ErrDeltaIDProvided, s)
      else
        (let n = next_unused ''delta-'' (keys (ds_deltas s)) (ds_nextID s);
             s1 = s\<lparr>ds_nextID := n\<rparr>
         in case projectionKeyHash (d_ProjectionKey delta) of
              Inl e \<Rightarrow> (Inl e, s1)
            | Inr hash \<Rightarrow>
                (let d1 = prepare_delta now (delta_id n) delta hash
                 in case (if d_DedupWindow d1 \<noteq> [] then map_of (ds_dedup s1) (d_DedupKey d1) else None) of
                      Some i \<Rightarrow>
                        (Inr (map_option cloneDelta (map_of (ds_deltas s1) i)),
                         s1\<lparr>ds_nextID := n - 1\<rparr>)
                    | None \<Rightarrow> (Inr (Some (cloneDelta (cloneDelta d1))), insert_delta d1 s1))))"

section \<open>EnqueueBatch\<close>

fun check_windows :: "DedupWindow \<Rightarrow> delta list \<Rightarrow> error + DedupWindow" where
  "check_windows window [] = Inr window"
| "check_windows window (d # ds) =
     (if d_DedupWindow d = [] then Inl ErrDedupWindowRequired
      else if d_DedupWindow d \<noteq> window then Inl ErrMixedDedupWindows
      else check_windows window ds)"

definition validateEnqueueBatch :: "ctx \<Rightarrow> delta list \<Rightarrow> int \<Rightarrow> error + DedupWindow" where
  "validateEnqueueBatch ctx deltas maxSize =
     (case ctx of Some e \<Rightarrow> Inl e | None \<Rightarrow>
      if maxSize < int (length deltas) then Inl ErrEnqueueBatchTooLarge
      else
        (case deltas of
           [] \<Rightarrow> Inr []
         | d # ds \<Rightarrow>
             if d_DedupWindow d = [] then Inl ErrDedupWindowRequired
             else check_windows (d_DedupWindow d) ds))"

fun prepare_batch :: "DedupWindow \<Rightarrow> delta list \<Rightarrow> error + delta list" where
  "prepare_batch window [] = Inr []"
| "prepare_batch window (d # ds) =
     (if d_ID d \<noteq> [] then Inl ErrDeltaIDProvided
      else
        (case projectionKeyHash (d_ProjectionKey d) of
           Inl e \<Rightarrow> Inl e
         | Inr hash \<Rightarrow>
             (case prepare_batch window ds of
                Inl e \<Rightarrow> Inl e
              | Inr prepared \<Rightarrow>
                  Inr (d\<lparr>d_ProjectionKeyHash := hash,
                         d_DedupKey := ComputeDedupKey window (d_ProjectionType d) hash\<rparr>
                       # prepared))))"

text \<open>The body of the insertion loop; its identifiers are not checked against the map.\<close>

definition batch_step ::
    "time \<Rightarrow> delta \<Rightarrow> enqueue_batch_result \<times> delta_memory_store
       \<Rightarrow> enqueue_batch_result \<times> delta_memory_store"
where
  "batch_step now d rs =
     (let (res, s) = rs in
      if has_key (d_DedupKey d) (ds_dedup s)
      then (res\<lparr>DuplicateCount := Suc (DuplicateCount res)\<rparr>, s)
      else
        (let n = Suc (ds_nextID s);
             d1 = default_delta now (d\<lparr>d_ID := delta_id n\<rparr>)
         in (res\<lparr>InsertedCount := Suc (InsertedCount res)\<rparr>,
             s\<lparr>ds_nextID := n, ds_deltas := put (d_ID d1) (cloneDelta d1) (ds_deltas s),
               ds_dedup := put (d_DedupKey d1) (d_ID d1) (ds_dedup s)\<rparr>)))"

definition delta_EnqueueBatch ::
    "ctx \<Rightarrow> time \<Rightarrow> delta list \<Rightarrow> delta_memory_store
       \<Rightarrow> (error + enqueue_batch_result) \<times> delta_memory_store"
where [store_defs]:
  "delta_EnqueueBatch ctx now deltas s =
     (case validateEnqueueBatch ctx deltas (ds_maxEnqueueBatchSize s) of
        Inl e \<Rightarrow> (Inl e, s)
      | Inr window \<Rightarrow>
          (let res = \<lparr>RequestedCount = length deltas, InsertedCount = 0, DuplicateCount = 0,
                      BatchDedupWindow = window\<rparr>
           in if deltas = [] then (Inr res, s)
              else
                (case prepare_batch window deltas of
                   Inl e \<Rightarrow> (Inl e, s)
                 | Inr prepared \<Rightarrow>
                     (let (res', s') = fold (batch_step now) prepared (res, s) in (Inr res', s')))))"

section \<open>Get, Pull, MarkDispatched\<close>

definition delta_Get :: "ctx \<Rightarrow> DeltaID \<Rightarrow> delta_memory_store \<Rightarrow> error + delta option" where
  [store_defs]: "delta_Get ctx i s =
     (case ctx of Some e \<Rightarrow> Inl e | None \<Rightarrow> Inr (map_option cloneDelta (map_of (ds_deltas s) i)))"

definition delta_at :: "(DeltaID \<times> delta) list \<Rightarrow> DeltaID \<Rightarrow> delta" where
  "delta_at m i = the (map_of m i)"

text \<open>The comparison the pending deltas are sorted by.\<close>

definition delta_less :: "delta \<Rightarrow> delta \<Rightarrow> bool" where
  "delta_less left right =
     (if d_OccurredAt left \<noteq> d_OccurredAt right then d_OccurredAt left < d_OccurredAt right
      else if d_CreatedAt left \<noteq> d_CreatedAt right then d_CreatedAt left < d_CreatedAt right
      else d_ID left < d_ID right)"

definition delta_order :: "delta \<Rightarrow> order_key" where
  "delta_order d = OrderKey (d_OccurredAt d) (d_CreatedAt d) (d_ID d)"

definition pendingDeltaIDsLocked :: "delta_memory_store \<Rightarrow> DeltaID list" where
  "pendingDeltaIDsLocked s =
     sort_slice (\<lambda>i j. delta_less (delta_at (ds_deltas s) i) (delta_at (ds_deltas s) j))
       (keys (filter (\<lambda>(i, d). d_State d = DeltaPending) (ds_deltas s)))"

definition pendingDeltaIDsLockedForSyncLocked :: "SyncID \<Rightarrow> delta_memory_store \<Rightarrow> DeltaID list" where
  "pendingDeltaIDsLockedForSyncLocked syncID s =
     sort_slice (\<lambda>i j. delta_less (delta_at (ds_deltas s) i) (delta_at (ds_deltas s) j))
       (keys (filter (\<lambda>(i, d). d_State d = DeltaPending \<and> d_SyncID d = syncID) (ds_deltas s)))"

definition delta_Pull :: "ctx \<Rightarrow> SyncID \<Rightarrow> int \<Rightarrow> delta_memory_store \<Rightarrow> error + delta list" where
  [store_defs]: "delta_Pull ctx syncID limit s =
     (case ctx of Some e \<Rightarrow> Inl e | None \<Rightarrow>
      if limit \<le> 0 then Inr []
      else Inr (map (\<lambda>i. cloneDelta (delta_at (ds_deltas s) i))
                 (limit_ids limit (pendingDeltaIDsLockedForSyncLocked syncID s))))"

definition set_dispatched :: "time \<Rightarrow> delta \<Rightarrow> delta" where
  "set_dispatched now d = d\<lparr>d_State := DeltaDispatched, d_DispatchedAt := Some now\<rparr>"

definition delta_MarkDispatched ::
    "ctx \<Rightarrow> time \<Rightarrow> DeltaID \<Rightarrow> delta_memory_store \<Rightarrow> error option \<times> delta_memory_store"
where [store_defs]:
  "delta_MarkDispatched ctx now i s =
     (case ctx of Some e \<Rightarrow> (Some e, s) | None \<Rightarrow>
      (case map_of (ds_deltas s) i of
         None \<Rightarrow> (Some ErrDeltaNotFound, s)
       | Some d \<Rightarrow>
           if d_State d = DeltaDispatched then (None, s)
           else (None, s\<lparr>ds_deltas := put i (set_dispatched now d) (ds_deltas s)\<rparr>)))"


section \<open>The sort order\<close>

lemma delta_less_order: "delta_less l r \<longleftrightarrow> delta_order l < delta_order r"
  by (simp add: delta_less_def delta_order_def less_order_key_def)

interpretation pull_order: sort_order
    "\<lambda>i j. delta_less (delta_at m i) (delta_at m j)" "\<lambda>i. delta_order (delta_at m i)"
  for m :: "(DeltaID \<times> delta) list"
  by unfold_locales (rule delta_less_order)

section \<open>The invariant\<close>

text \<open>
  What holds of a stored delta: it is filed under its own identifier, which the counter has
  passed; its hash is the hash of its key; its dedup key is the one its window, type and
  hash determine, and the index leads back to it.
\<close>

definition delta_ok :: "delta_memory_store \<Rightarrow> DeltaID \<Rightarrow> delta \<Rightarrow> bool" where
  "delta_ok s i d \<longleftrightarrow>
     d_ID d = i \<and> (\<exists>n. n \<le> ds_nextID s \<and> i = delta_id n)
     \<and> projectionKeyHash (d_ProjectionKey d) = Inr (d_ProjectionKeyHash d)
     \<and> d_DedupKey d = delta_key_of d (d_ProjectionKeyHash d)
     \<and> (d_DedupKey d \<noteq> [] \<longrightarrow> map_of (ds_dedup s) (d_DedupKey d) = Some i)"

definition delta_store_inv :: "delta_memory_store \<Rightarrow> bool" where
  "delta_store_inv s \<longleftrightarrow>
     distinct (keys (ds_deltas s)) \<and> distinct (keys (ds_dedup s))
     \<and> (\<forall>i d. map_of (ds_deltas s) i = Some d \<longrightarrow> delta_ok s i d)
     \<and> (\<forall>w i. map_of (ds_dedup s) w = Some i \<longrightarrow>
          w \<noteq> [] \<and> (\<exists>d. map_of (ds_deltas s) i = Some d \<and> d_DedupKey d = w))"

lemma delta_ok_deltas [simp]: "delta_ok (s\<lparr>ds_deltas := m\<rparr>) i d = delta_ok s i d"
  by (simp add: delta_ok_def)

lemma delta_store_inv_distinct:
  "delta_store_inv s \<Longrightarrow> distinct (keys (ds_deltas s))"
  by (simp add: delta_store_inv_def)

lemma delta_store_inv_ok:
  "delta_store_inv s \<Longrightarrow> map_of (ds_deltas s) i = Some d \<Longrightarrow> delta_ok s i d"
  by (simp add: delta_store_inv_def)

lemma delta_store_inv_index:
  "delta_store_inv s \<Longrightarrow> map_of (ds_dedup s) w = Some i \<Longrightarrow>
   w \<noteq> [] \<and> (\<exists>d. map_of (ds_deltas s) i = Some d \<and> d_DedupKey d = w)"
  by (simp add: delta_store_inv_def)

lemma delta_id_inj [simp]: "delta_id m = delta_id n \<longleftrightarrow> m = n"
  by (simp add: delta_id_def)

lemma delta_id_nonempty [simp]: "delta_id n \<noteq> []"
  by (simp add: delta_id_def)

lemma delta_store_inv_unused:
  assumes "delta_store_inv s" and "ds_nextID s < n"
  shows "map_of (ds_deltas s) (delta_id n) = None"
proof (rule ccontr)
  assume "map_of (ds_deltas s) (delta_id n) \<noteq> None"
  then obtain d where "map_of (ds_deltas s) (delta_id n) = Some d" by blast
  with assms(1) have "delta_ok s (delta_id n) d" by (rule delta_store_inv_ok)
  with assms(2) show False by (auto simp: delta_ok_def)
qed

lemma next_delta_id:
  assumes "delta_store_inv s"
  shows "next_unused ''delta-'' (keys (ds_deltas s)) (ds_nextID s) = Suc (ds_nextID s)"
proof (rule next_unused_step)
  have "map_of (ds_deltas s) (delta_id (Suc (ds_nextID s))) = None"
    using assms by (rule delta_store_inv_unused) simp
  then show "numbered ''delta-'' (Suc (ds_nextID s)) \<notin> set (keys (ds_deltas s))"
    by (simp add: delta_id_def map_of_eq_None_iff image_comp)
qed

lemma NewDeltaMemoryStore_inv: "delta_store_inv (NewDeltaMemoryStoreWithConfig k)"
  by (simp add: delta_store_inv_def NewDeltaMemoryStoreWithConfig_def)

text \<open>A delta that is ready to be stored under the next number.\<close>

definition delta_ready :: "delta \<Rightarrow> bool" where
  "delta_ready d \<longleftrightarrow>
     projectionKeyHash (d_ProjectionKey d) = Inr (d_ProjectionKeyHash d)
     \<and> d_DedupKey d = delta_key_of d (d_ProjectionKeyHash d)"

lemma delta_ok_mono:
  "delta_ok s i d \<Longrightarrow> ds_nextID s \<le> ds_nextID s' \<Longrightarrow>
   (\<And>w k. map_of (ds_dedup s) w = Some k \<Longrightarrow> map_of (ds_dedup s') w = Some k) \<Longrightarrow>
   delta_ok s' i d"
  by (fastforce simp: delta_ok_def)

lemma insert_delta_inv [inv_intros]:
  assumes inv: "delta_store_inv s" and ready: "delta_ready d"
    and id: "d_ID d = delta_id (Suc (ds_nextID s))"
    and fresh: "map_of (ds_dedup s) (d_DedupKey d) = None"
  shows "delta_store_inv (insert_delta d (s\<lparr>ds_nextID := Suc (ds_nextID s)\<rparr>))"
    (is "delta_store_inv ?s'")
proof -
  have new: "map_of (ds_deltas s) (d_ID d) = None"
    using delta_store_inv_unused [OF inv] id by simp
  have kept: "map_of (ds_dedup ?s') w = Some k" if "map_of (ds_dedup s) w = Some k" for w k
    using that fresh by (cases "w = d_DedupKey d") (auto simp: insert_delta_def)
  have deltas: "map_of (ds_deltas ?s') = (map_of (ds_deltas s))(d_ID d \<mapsto> cloneDelta d)"
    by (simp add: insert_delta_def)
  have "delta_ok ?s' i e" if "map_of (ds_deltas ?s') i = Some e" for i e
  proof (cases "i = d_ID d")
    case True
    with that deltas have "e = cloneDelta d" by simp
    moreover have "cloneProjectionKey (d_ProjectionKey d) = d_ProjectionKey d"
      using ready unfolding delta_ready_def by (blast intro: projectionKeyHash_clone)
    ultimately show ?thesis using True ready id
      by (auto simp: delta_ok_def delta_ready_def delta_key_of_def insert_delta_def)
  next
    case False
    with that deltas have "map_of (ds_deltas s) i = Some e" by simp
    with inv have "delta_ok s i e" by (rule delta_store_inv_ok)
    then show ?thesis
    proof (rule delta_ok_mono)
      show "ds_nextID s \<le> ds_nextID ?s'" by (simp add: insert_delta_def)
    qed (rule kept)
  qed
  moreover have "w \<noteq> [] \<and> (\<exists>e. map_of (ds_deltas ?s') i = Some e \<and> d_DedupKey e = w)"
    if "map_of (ds_dedup ?s') w = Some i" for w i
  proof (cases "d_DedupKey d \<noteq> [] \<and> w = d_DedupKey d")
    case True
    with that show ?thesis using deltas by (auto simp: insert_delta_def)
  next
    case False
    with that have "map_of (ds_dedup s) w = Some i"
      by (auto simp: insert_delta_def split: if_splits)
    from delta_store_inv_index [OF inv this] new deltas show ?thesis by auto
  qed
  moreover have "distinct (keys (ds_deltas ?s'))" and "distinct (keys (ds_dedup ?s'))"
    using inv by (simp_all add: delta_store_inv_def insert_delta_def)
  ultimately show ?thesis by (simp add: delta_store_inv_def)
qed

lemma delta_store_inv_nextID:
  assumes "delta_store_inv s" and "ds_nextID s \<le> n"
  shows "delta_store_inv (s\<lparr>ds_nextID := n\<rparr>)"
proof -
  have "delta_ok (s\<lparr>ds_nextID := n\<rparr>) i d" if "map_of (ds_deltas s) i = Some d" for i d
    using delta_store_inv_ok [OF assms(1) that] by (rule delta_ok_mono) (use assms(2) in simp_all)
  with assms(1) show ?thesis by (simp add: delta_store_inv_def)
qed

text \<open>A change to a stored delta that leaves its identity alone keeps the invariant.\<close>

lemma update_delta_inv [inv_intros]:
  assumes inv: "delta_store_inv s" and old: "map_of (ds_deltas s) i = Some d"
    and same: "d_ID d' = d_ID d" "d_ProjectionKey d' = d_ProjectionKey d"
      "d_ProjectionKeyHash d' = d_ProjectionKeyHash d" "d_DedupKey d' = d_DedupKey d"
      "d_DedupWindow d' = d_DedupWindow d" "d_ProjectionType d' = d_ProjectionType d"
  shows "delta_store_inv (s\<lparr>ds_deltas := put i d' (ds_deltas s)\<rparr>)"
proof -
  have "delta_ok s i d" using inv old by (rule delta_store_inv_ok)
  then have new: "delta_ok s i d'" unfolding delta_ok_def delta_key_of_def same .
  let ?s' = "s\<lparr>ds_deltas := put i d' (ds_deltas s)\<rparr>"
  have "delta_ok ?s' k e" if "map_of (ds_deltas ?s') k = Some e" for k e
  proof -
    have "delta_ok s k e"
      using that new delta_store_inv_ok [OF inv, of k e] by (cases "k = i") simp_all
    then show ?thesis by simp
  qed
  moreover have "w \<noteq> [] \<and> (\<exists>e. map_of (ds_deltas ?s') k = Some e \<and> d_DedupKey e = w)"
    if "map_of (ds_dedup ?s') w = Some k" for w k
    using that delta_store_inv_index [OF inv, of w k] old same(4) by (cases "k = i") auto
  moreover have "distinct (keys (ds_deltas ?s'))" "distinct (keys (ds_dedup ?s'))"
    using inv by (simp_all add: delta_store_inv_def)
  ultimately show ?thesis by (simp add: delta_store_inv_def)
qed

section \<open>What Enqueue does\<close>

lemma default_delta_sel [simp]:
  "d_ID (default_delta now d) = d_ID d"
  "d_SyncID (default_delta now d) = d_SyncID d"
  "d_ProjectionType (default_delta now d) = d_ProjectionType d"
  "d_ProjectionKey (default_delta now d) = d_ProjectionKey d"
  "d_ProjectionKeyHash (default_delta now d) = d_ProjectionKeyHash d"
  "d_DedupWindow (default_delta now d) = d_DedupWindow d"
  "d_DedupKey (default_delta now d) = d_DedupKey d"
  by (simp_all add: default_delta_def)

lemma prepare_delta_sel [simp]:
  "d_ID (prepare_delta now i d h) = i"
  "d_SyncID (prepare_delta now i d h) = d_SyncID d"
  "d_ProjectionType (prepare_delta now i d h) = d_ProjectionType d"
  "d_ProjectionKey (prepare_delta now i d h) = d_ProjectionKey d"
  "d_ProjectionKeyHash (prepare_delta now i d h) = h"
  "d_DedupWindow (prepare_delta now i d h) = d_DedupWindow d"
  "d_DedupKey (prepare_delta now i d h) = delta_key_of d h"
  "d_State (prepare_delta now i d h) = (if d_State d = [] then DeltaPending else d_State d)"
  by (simp_all add: prepare_delta_def Let_def delta_key_of_def) (simp add: default_delta_def)

lemma prepare_delta_ready:
  "projectionKeyHash (d_ProjectionKey d) = Inr h \<Longrightarrow> delta_ready (prepare_delta now i d h)"
  by (simp add: delta_ready_def delta_key_of_def)

lemma cloneDelta_ready: "delta_ready d \<Longrightarrow> cloneDelta d = d"
  by (simp add: delta_ready_def cloneDelta_def projectionKeyHash_clone)

lemma cloneDelta_stored:
  "delta_store_inv s \<Longrightarrow> map_of (ds_deltas s) i = Some d \<Longrightarrow> cloneDelta d = d"
  by (rule cloneDelta_ready) (use delta_store_inv_ok [of s i d] in \<open>simp add: delta_ok_def delta_ready_def\<close>)

definition dedup_lookup :: "delta \<Rightarrow> ProjectionKeyHash \<Rightarrow> delta_memory_store \<Rightarrow> DeltaID option" where
  "dedup_lookup d h s =
     (if d_DedupWindow d \<noteq> [] then map_of (ds_dedup s) (delta_key_of d h) else None)"

lemma delta_Enqueue_bad_key:
  assumes "delta_store_inv s" "d_ID d = []" "projectionKeyHash (d_ProjectionKey d) = Inl e"
  shows "delta_Enqueue None now d s = (Inl e, s\<lparr>ds_nextID := Suc (ds_nextID s)\<rparr>)"
  using assms by (simp add: store_defs next_delta_id)

lemma delta_Enqueue_duplicate:
  assumes "delta_store_inv s" "d_ID d = []" "projectionKeyHash (d_ProjectionKey d) = Inr h"
    and "dedup_lookup d h s = Some i"
  shows "delta_Enqueue None now d s = (Inr (map_of (ds_deltas s) i), s)"
proof -
  have "map_option cloneDelta (map_of (ds_deltas s) i) = map_of (ds_deltas s) i"
    using cloneDelta_stored [OF assms(1)] by (cases "map_of (ds_deltas s) i") auto
  with assms show ?thesis
    by (auto simp: store_defs next_delta_id dedup_lookup_def split: if_splits)
qed

lemma delta_Enqueue_fresh:
  fixes s :: delta_memory_store
  defines "i \<equiv> delta_id (Suc (ds_nextID s))"
  assumes "delta_store_inv s" "d_ID d = []" "projectionKeyHash (d_ProjectionKey d) = Inr h"
    and "dedup_lookup d h s = None"
  shows "delta_Enqueue None now d s =
    (Inr (Some (prepare_delta now i d h)),
     insert_delta (prepare_delta now i d h) (s\<lparr>ds_nextID := Suc (ds_nextID s)\<rparr>))"
  using assms cloneDelta_ready [OF prepare_delta_ready [OF assms(4)]]
  by (auto simp: store_defs next_delta_id dedup_lookup_def Let_def split: if_splits)

lemma delta_Enqueue_inv [inv_intros]:
  assumes inv: "delta_store_inv s"
  shows "delta_store_inv (snd (delta_Enqueue ctx now d s))"
proof (cases "ctx = None \<and> d_ID d = []")
  case False
  with inv show ?thesis by (auto simp: store_defs split: option.split)
next
  case live: True
  show ?thesis
  proof (cases "projectionKeyHash (d_ProjectionKey d)")
    case (Inl e)
    with live inv show ?thesis
      by (simp add: delta_Enqueue_bad_key delta_store_inv_nextID)
  next
    case hash: (Inr h)
    show ?thesis
    proof (cases "dedup_lookup d h s")
      case None
      have "map_of (ds_dedup s) (delta_key_of d h) = None"
      proof (cases "d_DedupWindow d = []")
        case True
        then show ?thesis using delta_store_inv_index [OF inv, of "[]"]
          by (cases "map_of (ds_dedup s) []") (auto simp: delta_key_of_def)
      qed (use None in \<open>simp add: dedup_lookup_def\<close>)
      then show ?thesis using live inv hash None
        by (simp add: delta_Enqueue_fresh insert_delta_inv prepare_delta_ready)
    next
      case (Some i)
      with live inv hash show ?thesis by (simp add: delta_Enqueue_duplicate)
    qed
  qed
qed

section \<open>What EnqueueBatch does\<close>

lemma check_windows_same:
  "check_windows w ds = Inr w' \<Longrightarrow> w' = w \<and> (\<forall>d \<in> set ds. d_DedupWindow d = w \<and> w \<noteq> [])"
  by (induction w ds rule: check_windows.induct) (auto split: if_splits)

lemma validateEnqueueBatch_ok:
  assumes "validateEnqueueBatch ctx ds k = Inr w"
  shows "ctx = None" and "int (length ds) \<le> k"
    and "\<forall>d \<in> set ds. d_DedupWindow d = w \<and> w \<noteq> []"
  using assms
  by (auto simp: validateEnqueueBatch_def split: option.splits list.splits if_splits
      dest: check_windows_same)

lemma prepare_batch_ready:
  assumes "prepare_batch w ds = Inr ps" and "\<forall>d \<in> set ds. d_DedupWindow d = w \<and> w \<noteq> []"
  shows "length ps = length ds \<and> (\<forall>p \<in> set ps. delta_ready p \<and> d_DedupKey p \<noteq> [])"
  using assms
proof (induction w ds arbitrary: ps rule: prepare_batch.induct)
  case (2 w d ds)
  then show ?case
    by (fastforce simp: delta_ready_def delta_key_of_def split: if_splits sum.splits)
qed simp

lemma delta_ready_default: "delta_ready p \<Longrightarrow> delta_ready (default_delta now (p\<lparr>d_ID := i\<rparr>))"
  by (simp add: delta_ready_def delta_key_of_def)

lemma batch_step_inv [inv_intros]:
  assumes inv: "delta_store_inv (snd rs)" and p: "delta_ready p" "d_DedupKey p \<noteq> []"
  shows "delta_store_inv (snd (batch_step now p rs))"
proof -
  obtain res s where rs: "rs = (res, s)" by (cases rs)
  show ?thesis
  proof (cases "has_key (d_DedupKey p) (ds_dedup s)")
    case True
    with inv show ?thesis by (simp add: batch_step_def rs)
  next
    case False
    let ?d = "default_delta now (p\<lparr>d_ID := delta_id (Suc (ds_nextID s))\<rparr>)"
    have "snd (batch_step now p rs) = insert_delta ?d (s\<lparr>ds_nextID := Suc (ds_nextID s)\<rparr>)"
      using False p(2) by (simp add: batch_step_def rs insert_delta_def)
    moreover have "delta_store_inv (insert_delta ?d (s\<lparr>ds_nextID := Suc (ds_nextID s)\<rparr>))"
      using inv p False
      by (intro insert_delta_inv delta_ready_default) (simp_all add: rs has_key_def)
    ultimately show ?thesis by simp
  qed
qed

lemma batch_fold_inv [inv_intros]:
  "delta_store_inv (snd rs) \<Longrightarrow> \<forall>p \<in> set ps. delta_ready p \<and> d_DedupKey p \<noteq> [] \<Longrightarrow>
   delta_store_inv (snd (fold (batch_step now) ps rs))"
  by (induction ps arbitrary: rs) (simp_all add: batch_step_inv)

lemma delta_EnqueueBatch_inv [inv_intros]:
  assumes "delta_store_inv s"
  shows "delta_store_inv (snd (delta_EnqueueBatch ctx now ds s))"
proof (cases "validateEnqueueBatch ctx ds (ds_maxEnqueueBatchSize s)")
  case (Inl e)
  then show ?thesis using assms by (simp add: store_defs)
next
  case (Inr w)
  note windows = validateEnqueueBatch_ok(3) [OF Inr]
  show ?thesis
  proof (cases "ds = [] \<or> (\<exists>e. prepare_batch w ds = Inl e)")
    case True
    then show ?thesis using assms Inr by (auto simp: store_defs Let_def)
  next
    case False
    then obtain ps where ps: "prepare_batch w ds = Inr ps" by (metis sum.exhaust)
    show ?thesis
      using batch_fold_inv [of "(_, s)" ps now] assms prepare_batch_ready [OF ps windows] False Inr ps
      by (simp add: store_defs Let_def split: prod.split) (metis snd_conv)
  qed
qed


text \<open>
  The insertion loop counts every delta once, inserts one delta per dedup key it has not
  seen, and leaves every key of the batch in the index.
\<close>

lemma batch_step_cases:
  assumes "delta_store_inv s"
  shows "batch_step now p (res, s) = (res', s') \<Longrightarrow>
    (d_DedupKey p \<in> set (keys (ds_dedup s)) \<and> s' = s
       \<and> res' = res\<lparr>DuplicateCount := Suc (DuplicateCount res)\<rparr>)
    \<or> (d_DedupKey p \<notin> set (keys (ds_dedup s))
       \<and> res' = res\<lparr>InsertedCount := Suc (InsertedCount res)\<rparr>
       \<and> set (keys (ds_dedup s')) = insert (d_DedupKey p) (set (keys (ds_dedup s)))
       \<and> length (ds_deltas s') = Suc (length (ds_deltas s)))"
  using delta_store_inv_unused [OF assms, of "Suc (ds_nextID s)"]
  by (cases "has_key (d_DedupKey p) (ds_dedup s)")
    (clarsimp simp: batch_step_def Let_def has_key_iff put_fresh image_comp)+

lemma batch_fold_counts:
  assumes "fold (batch_step now) ps (res, s) = (res', s')" and "delta_store_inv s"
    and "\<forall>p \<in> set ps. delta_ready p \<and> d_DedupKey p \<noteq> []"
  shows "InsertedCount res' + DuplicateCount res' =
           InsertedCount res + DuplicateCount res + length ps
      \<and> InsertedCount res' =
           InsertedCount res + card (set (map d_DedupKey ps) - set (keys (ds_dedup s)))
      \<and> set (keys (ds_dedup s')) = set (keys (ds_dedup s)) \<union> set (map d_DedupKey ps)
      \<and> length (ds_deltas s') + InsertedCount res = length (ds_deltas s) + InsertedCount res'
      \<and> RequestedCount res' = RequestedCount res \<and> BatchDedupWindow res' = BatchDedupWindow res"
  using assms
proof (induction ps arbitrary: res s)
  case Nil
  then show ?case by simp
next
  case (Cons p ps)
  obtain res1 s1 where step: "batch_step now p (res, s) = (res1, s1)" by fastforce
  then have rest: "fold (batch_step now) ps (res1, s1) = (res', s')" using Cons.prems(1) by simp
  have inv1: "delta_store_inv s1"
    using batch_step_inv [of "(res, s)" p now] Cons.prems(2,3) step by simp
  let ?K = "set (keys (ds_dedup s))" and ?P = "set (map d_DedupKey ps)"
  have fin: "finite (?P - ?K)" by simp
  from batch_step_cases [OF Cons.prems(2) step] show ?case
  proof (elim disjE conjE)
    assume "d_DedupKey p \<in> ?K" "s1 = s" "res1 = res\<lparr>DuplicateCount := Suc (DuplicateCount res)\<rparr>"
    then show ?case
      using Cons.IH [OF rest inv1] Cons.prems(3) by (auto simp: insert_absorb insert_Diff_if)
  next
    assume new: "d_DedupKey p \<notin> ?K" "res1 = res\<lparr>InsertedCount := Suc (InsertedCount res)\<rparr>"
      "set (keys (ds_dedup s1)) = insert (d_DedupKey p) ?K"
      "length (ds_deltas s1) = Suc (length (ds_deltas s))"
    have "set (map d_DedupKey (p # ps)) - ?K
        = insert (d_DedupKey p) (?P - insert (d_DedupKey p) ?K)"
      using new(1) by auto
    then have "card (set (map d_DedupKey (p # ps)) - ?K)
        = Suc (card (?P - insert (d_DedupKey p) ?K))"
      by simp
    then show ?case
      using Cons.IH [OF rest inv1] Cons.prems(3) new by auto
  qed
qed

text \<open>A batch whose keys are all in the index changes nothing.\<close>

lemma batch_fold_known:
  assumes "\<forall>p \<in> set ps. d_DedupKey p \<in> set (keys (ds_dedup s))"
  shows "fold (batch_step now) ps (res, s) =
    (res\<lparr>DuplicateCount := DuplicateCount res + length ps\<rparr>, s)"
  using assms
  by (induction ps arbitrary: res) (simp_all add: batch_step_def has_key_iff image_comp)

section \<open>What Pull returns\<close>

lemma set_pending_ids:
  "delta_store_inv s \<Longrightarrow>
   set (pendingDeltaIDsLockedForSyncLocked syncID s) =
     {i. \<exists>d. map_of (ds_deltas s) i = Some d \<and> d_State d = DeltaPending \<and> d_SyncID d = syncID}"
  using set_filter_keys [of "ds_deltas s" "\<lambda>d. d_State d = DeltaPending \<and> d_SyncID d = syncID"]
  by (simp add: pendingDeltaIDsLockedForSyncLocked_def delta_store_inv_distinct)

lemma distinct_pending_ids:
  "delta_store_inv s \<Longrightarrow> distinct (pendingDeltaIDsLockedForSyncLocked syncID s)"
  by (simp add: pendingDeltaIDsLockedForSyncLocked_def delta_store_inv_distinct distinct_keys_filter)

lemma delta_at_stored [simp]: "map_of m i = Some d \<Longrightarrow> delta_at m i = d"
  by (simp add: delta_at_def)

lemma delta_Pull_list:
  assumes inv: "delta_store_inv s" and "0 < limit"
  shows "delta_Pull None syncID limit s =
    Inr (map (delta_at (ds_deltas s))
      (take (nat limit) (pendingDeltaIDsLockedForSyncLocked syncID s)))"
proof -
  have "cloneDelta (delta_at (ds_deltas s) i) = delta_at (ds_deltas s) i"
    if "i \<in> set (take (nat limit) (pendingDeltaIDsLockedForSyncLocked syncID s))" for i
    using in_set_takeD [OF that] set_pending_ids [OF inv, of syncID] cloneDelta_stored [OF inv, of i]
    by auto
  with assms(2) show ?thesis by (simp add: store_defs limit_ids_take)
qed

lemma delta_Pull_members:
  assumes inv: "delta_store_inv s" and "0 < limit" and "delta_Pull None syncID limit s = Inr ds"
  shows "sorted (map delta_order ds)" and "distinct (map d_ID ds)" and "length ds \<le> nat limit"
    and "\<forall>d \<in> set ds. map_of (ds_deltas s) (d_ID d) = Some d
      \<and> d_State d = DeltaPending \<and> d_SyncID d = syncID"
proof -
  let ?ids = "pendingDeltaIDsLockedForSyncLocked syncID s"
  have ds: "ds = map (delta_at (ds_deltas s)) (take (nat limit) ?ids)"
    using assms by (simp add: delta_Pull_list)
  have stored: "\<exists>d. map_of (ds_deltas s) i = Some d \<and> d_ID d = i \<and> d_State d = DeltaPending
      \<and> d_SyncID d = syncID"
    if "i \<in> set ?ids" for i
    using that set_pending_ids [OF inv, of syncID] delta_store_inv_ok [OF inv]
    by (fastforce simp: delta_ok_def)
  then show "\<forall>d \<in> set ds. map_of (ds_deltas s) (d_ID d) = Some d
      \<and> d_State d = DeltaPending \<and> d_SyncID d = syncID"
    unfolding ds by (fastforce dest: in_set_takeD)
  have "map d_ID ds = take (nat limit) ?ids"
    unfolding ds using stored by (auto intro!: map_idI simp: dest!: in_set_takeD) fastforce
  then show "distinct (map d_ID ds)" using distinct_pending_ids [OF inv] by simp
  show "length ds \<le> nat limit" by (simp add: ds)
  have "sorted (map (\<lambda>i. delta_order (delta_at (ds_deltas s) i)) ?ids)"
    unfolding pendingDeltaIDsLockedForSyncLocked_def by (rule pull_order.sorted_sort)
  then show "sorted (map delta_order ds)"
    by (simp add: ds o_def take_map [symmetric] sorted_wrt_take)
qed

lemma delta_Pull_complete:
  assumes inv: "delta_store_inv s" and "0 < limit" and pull: "delta_Pull None syncID limit s = Inr ds"
    and d: "map_of (ds_deltas s) i = Some d" "d_State d = DeltaPending" "d_SyncID d = syncID"
    and out: "d \<notin> set ds"
  shows "length ds = nat limit" and "\<forall>e \<in> set ds. delta_order e \<le> delta_order d"
proof -
  let ?ids = "pendingDeltaIDsLockedForSyncLocked syncID s"
  have ds: "ds = map (delta_at (ds_deltas s)) (take (nat limit) ?ids)"
    using assms by (simp add: delta_Pull_list)
  have i: "i \<in> set ?ids" using d set_pending_ids [OF inv, of syncID] by blast
  have notin: "i \<notin> set (take (nat limit) ?ids)" using out d(1) by (auto simp: ds image_iff)
  with i have "nat limit < length ?ids" by (metis leI take_all)
  then show "length ds = nat limit" by (simp add: ds)
  show "\<forall>e \<in> set ds. delta_order e \<le> delta_order d"
  proof
    fix e
    assume "e \<in> set ds"
    then obtain j where j: "j \<in> set (take (nat limit) ?ids)" and e: "e = delta_at (ds_deltas s) j"
      by (auto simp: ds)
    have "delta_order (delta_at (ds_deltas s) j) \<le> delta_order (delta_at (ds_deltas s) i)"
      using i notin j unfolding pendingDeltaIDsLockedForSyncLocked_def set_sort_slice
      by (rule pull_order.left_out_larger)
    with e d(1) show "delta_order e \<le> delta_order d" by simp
  qed
qed

lemma pending_ids_perm:
  assumes inv: "delta_store_inv s" and perm: "mset (ds_deltas s) = mset (ds_deltas s')"
  shows "pendingDeltaIDsLockedForSyncLocked syncID s = pendingDeltaIDsLockedForSyncLocked syncID s'"
proof -
  have same: "map_of (ds_deltas s) = map_of (ds_deltas s')"
    using perm delta_store_inv_distinct [OF inv] by (rule map_of_mset)
  let ?ks = "keys (filter (\<lambda>(i, d). d_State d = DeltaPending \<and> d_SyncID d = syncID) (ds_deltas s))"
  have "inj_on (\<lambda>i. delta_order (delta_at (ds_deltas s) i)) (set ?ks)"
  proof (rule inj_onI)
    fix i j
    assume mem: "i \<in> set ?ks" "j \<in> set ?ks"
      and eq: "delta_order (delta_at (ds_deltas s) i) = delta_order (delta_at (ds_deltas s) j)"
    have id: "d_ID (delta_at (ds_deltas s) k) = k" if k: "k \<in> set ?ks" for k
    proof -
      obtain d where "map_of (ds_deltas s) k = Some d"
        using filter_key_stored [OF k delta_store_inv_distinct [OF inv]] by blast
      with delta_store_inv_ok [OF inv this] show ?thesis by (simp add: delta_ok_def)
    qed
    from eq have "d_ID (delta_at (ds_deltas s) i) = d_ID (delta_at (ds_deltas s) j)"
      by (simp add: delta_order_def)
    then show "i = j" unfolding id [OF mem(1)] id [OF mem(2)] .
  qed
  then have "sort_slice (\<lambda>i j. delta_less (delta_at (ds_deltas s) i) (delta_at (ds_deltas s) j)) ?ks
    = sort_slice (\<lambda>i j. delta_less (delta_at (ds_deltas s) i) (delta_at (ds_deltas s) j))
       (keys (filter (\<lambda>(i, d). d_State d = DeltaPending \<and> d_SyncID d = syncID) (ds_deltas s')))"
    by (intro pull_order.sort_perm mset_keys_filter perm)
  then show ?thesis
    by (simp add: pendingDeltaIDsLockedForSyncLocked_def delta_at_def same)
qed

section \<open>What MarkDispatched does\<close>

lemma set_dispatched_sel [simp]:
  "d_ID (set_dispatched now d) = d_ID d" "d_SyncID (set_dispatched now d) = d_SyncID d"
  "d_State (set_dispatched now d) = DeltaDispatched"
  "d_DispatchedAt (set_dispatched now d) = Some now"
  "d_ProjectionType (set_dispatched now d) = d_ProjectionType d"
  "d_ProjectionKey (set_dispatched now d) = d_ProjectionKey d"
  "d_ProjectionKeyHash (set_dispatched now d) = d_ProjectionKeyHash d"
  "d_DedupKey (set_dispatched now d) = d_DedupKey d"
  "d_DedupWindow (set_dispatched now d) = d_DedupWindow d"
  by (simp_all add: set_dispatched_def)

lemma delta_MarkDispatched_inv [inv_intros]:
  "delta_store_inv s \<Longrightarrow> delta_store_inv (snd (delta_MarkDispatched ctx now i s))"
  by (auto simp: store_defs split: option.split intro: update_delta_inv)


section \<open>Properties\<close>

text \<open>
  The store of the witnesses: a fresh store, the instant 7 as the clock reading, and the
  sample delta enqueued once.
\<close>

definition sample_stored :: delta where
  "sample_stored = prepare_delta 7 (delta_id 1) sample_delta sample_hash"

definition sample_delta_store :: delta_memory_store where
  "sample_delta_store = snd (delta_Enqueue None 7 sample_delta NewDeltaMemoryStore)"

lemma New_inv: "delta_store_inv NewDeltaMemoryStore"
  by (simp add: NewDeltaMemoryStore_def NewDeltaMemoryStore_inv)

lemma New_empty [simp]:
  "ds_deltas NewDeltaMemoryStore = []" "ds_dedup NewDeltaMemoryStore = []"
  "ds_nextID NewDeltaMemoryStore = 0" "ds_maxEnqueueBatchSize NewDeltaMemoryStore = 1000"
  by (simp_all add: NewDeltaMemoryStore_def NewDeltaMemoryStoreWithConfig_def
      DefaultMaxEnqueueBatchSize_def)

lemma sample_enqueue:
  "delta_Enqueue None 7 sample_delta NewDeltaMemoryStore
     = (Inr (Some sample_stored), sample_delta_store)"
  using delta_Enqueue_fresh [OF New_inv, of sample_delta sample_hash 7]
  by (simp add: dedup_lookup_def sample_stored_def sample_delta_store_def)

lemma sample_delta_store_inv: "delta_store_inv sample_delta_store"
  unfolding sample_delta_store_def by (rule delta_Enqueue_inv [OF New_inv])

lemma sample_delta_store_deltas: "ds_deltas sample_delta_store = [(delta_id 1, sample_stored)]"
  using delta_Enqueue_fresh [OF New_inv, of sample_delta sample_hash 7]
    cloneDelta_ready [OF prepare_delta_ready [of sample_delta sample_hash]]
  by (simp add: dedup_lookup_def sample_stored_def sample_delta_store_def insert_delta_def)

text \<open>
  C6: A second Enqueue of the same projection identity in the same dedup window is an
  idempotent read: it returns the delta that the first one stored, and leaves the whole
  store, the identifier counter included, as it was.
\<close>

theorem enqueue_twice_is_a_read:
  assumes "delta_store_inv s" and "d_ID d1 = []" and "d_ID d2 = []"
    and "d_DedupWindow d1 \<noteq> []" and "d_DedupWindow d2 = d_DedupWindow d1"
    and "d_ProjectionType d2 = d_ProjectionType d1"
    and "projectionKeyHash (d_ProjectionKey d2) = projectionKeyHash (d_ProjectionKey d1)"
    and first: "delta_Enqueue None now d1 s = (Inr (Some r), s1)"
  shows "delta_Enqueue None later d2 s1 = (Inr (Some r), s1)"
proof -
  have inv1: "delta_store_inv s1" using delta_Enqueue_inv [OF assms(1), of None now d1] first by simp
  obtain h where h: "projectionKeyHash (d_ProjectionKey d1) = Inr h"
    using first delta_Enqueue_bad_key [OF assms(1,2)]
    by (cases "projectionKeyHash (d_ProjectionKey d1)") auto
  have key: "delta_key_of d2 h = delta_key_of d1 h" using assms(5,6) by (simp add: delta_key_of_def)
  have "dedup_lookup d1 h s1 = Some (d_ID r) \<and> map_of (ds_deltas s1) (d_ID r) = Some r"
  proof (cases "dedup_lookup d1 h s")
    case None
    from first [unfolded delta_Enqueue_fresh [OF assms(1,2) h None]]
    have r: "r = prepare_delta now (delta_id (Suc (ds_nextID s))) d1 h"
      and s1: "s1 = insert_delta r (s\<lparr>ds_nextID := Suc (ds_nextID s)\<rparr>)" by auto
    have "cloneDelta r = r" unfolding r by (rule cloneDelta_ready [OF prepare_delta_ready [OF h]])
    with assms(4) show ?thesis
      by (simp add: s1 insert_delta_def dedup_lookup_def) (simp add: r delta_key_of_def)
  next
    case (Some i)
    from first [unfolded delta_Enqueue_duplicate [OF assms(1,2) h Some]]
    have "map_of (ds_deltas s) i = Some r" and "s1 = s" by auto
    moreover from this have "d_ID r = i"
      using delta_store_inv_ok [OF assms(1)] by (simp add: delta_ok_def)
    ultimately show ?thesis using Some by simp
  qed
  then have "dedup_lookup d2 h s1 = Some (d_ID r)" and "map_of (ds_deltas s1) (d_ID r) = Some r"
    using assms(4,5) key by (simp_all add: dedup_lookup_def)
  with delta_Enqueue_duplicate [OF inv1 assms(3)] h assms(7) show ?thesis by simp
qed

theorem enqueue_twice_is_a_read_witness:
  "delta_Enqueue None 9 (sample_delta\<lparr>d_SyncID := ''other''\<rparr>) sample_delta_store
     = (Inr (Some sample_stored), sample_delta_store)"
  by (rule enqueue_twice_is_a_read [OF New_inv _ _ _ _ _ _ sample_enqueue]) simp_all

text \<open>
  A delta whose identity is not yet in its window (or that has no window) is stored
  under an identifier that was not in use, with the hash of its key, the dedup key of its
  identity, the state pending and both instants defaulted to the clock; every other delta
  stays as it was.
\<close>

theorem enqueue_stores_new_delta:
  assumes "delta_store_inv s" and "d_ID d = []"
    and "projectionKeyHash (d_ProjectionKey d) = Inr h" and "dedup_lookup d h s = None"
  shows "\<exists>r s'. delta_Enqueue None now d s = (Inr (Some r), s')
    \<and> map_of (ds_deltas s) (d_ID r) = None \<and> d_ID r \<noteq> []
    \<and> map_of (ds_deltas s') = (map_of (ds_deltas s))(d_ID r \<mapsto> r)
    \<and> d_SyncID r = d_SyncID d \<and> d_ProjectionKey r = d_ProjectionKey d \<and> d_ProjectionKeyHash r = h
    \<and> d_DedupKey r = delta_key_of d h
    \<and> d_State r = (if d_State d = [] then DeltaPending else d_State d)
    \<and> d_OccurredAt r = (if d_OccurredAt d = 0 then now else d_OccurredAt d)
    \<and> d_CreatedAt r = (if d_CreatedAt d = 0 then now else d_CreatedAt d)
    \<and> (d_DedupWindow d \<noteq> [] \<longrightarrow> dedup_lookup d h s' = Some (d_ID r))"
proof -
  let ?r = "prepare_delta now (delta_id (Suc (ds_nextID s))) d h"
  have times: "d_OccurredAt ?r = (if d_OccurredAt d = 0 then now else d_OccurredAt d)"
    "d_CreatedAt ?r = (if d_CreatedAt d = 0 then now else d_CreatedAt d)"
    by (simp_all add: prepare_delta_def default_delta_def Let_def default_time_def isZero_def)
  have clone: "cloneDelta ?r = ?r" by (rule cloneDelta_ready [OF prepare_delta_ready [OF assms(3)]])
  have unused: "map_of (ds_deltas s) (delta_id (Suc (ds_nextID s))) = None"
    using assms(1) by (rule delta_store_inv_unused) simp
  show ?thesis
    unfolding delta_Enqueue_fresh [OF assms]
    by (rule exI [of _ ?r], rule exI, intro conjI, rule refl)
      (simp_all add: times unused clone insert_delta_def dedup_lookup_def delta_key_of_def)
qed

theorem enqueue_stores_new_delta_witness:
  "\<exists>r s'. delta_Enqueue None 7 sample_delta NewDeltaMemoryStore = (Inr (Some r), s')
    \<and> d_ProjectionKeyHash r = sample_hash \<and> d_State r = DeltaPending"
  using enqueue_stores_new_delta [OF New_inv, of sample_delta sample_hash 7]
  by (auto simp: dedup_lookup_def)

text \<open>
  EnqueueBatch accounts for every delta of the batch: the inserted and the duplicate
  count add up to the requested one, exactly one delta is inserted per distinct dedup key
  that the index did not hold, and every dedup key of the batch is in the index afterwards.
\<close>

theorem enqueue_batch_counts:
  assumes "delta_store_inv s"
    and "delta_EnqueueBatch ctx now ds s = (Inr res, s')"
  shows "\<exists>ps. prepare_batch (BatchDedupWindow res) ds = Inr ps
    \<and> RequestedCount res = length ds
    \<and> InsertedCount res + DuplicateCount res = length ds
    \<and> InsertedCount res = card (set (map d_DedupKey ps) - set (keys (ds_dedup s)))
    \<and> length (ds_deltas s') = length (ds_deltas s) + InsertedCount res
    \<and> set (keys (ds_dedup s')) = set (keys (ds_dedup s)) \<union> set (map d_DedupKey ps)"
proof -
  obtain w where w: "validateEnqueueBatch ctx ds (ds_maxEnqueueBatchSize s) = Inr w"
    using assms(2) by (auto simp: store_defs split: sum.splits)
  show ?thesis
  proof (cases "ds = []")
    case True
    with assms(2) w show ?thesis by (auto simp: store_defs Let_def)
  next
    case False
    then obtain ps where ps: "prepare_batch w ds = Inr ps"
      and run: "fold (batch_step now) ps
        (\<lparr>RequestedCount = length ds, InsertedCount = 0, DuplicateCount = 0, BatchDedupWindow = w\<rparr>, s)
        = (res, s')"
      using assms(2) w by (auto simp: store_defs Let_def split: sum.splits prod.splits)
    note ready = prepare_batch_ready [OF ps validateEnqueueBatch_ok(3) [OF w]]
    show ?thesis
      using batch_fold_counts [OF run assms(1)] ready ps by simp
  qed
qed

theorem enqueue_batch_counts_witness:
  "\<exists>res s'. delta_EnqueueBatch None 8 [sample_delta, sample_delta] NewDeltaMemoryStore = (Inr res, s')
    \<and> InsertedCount res + DuplicateCount res = 2"
proof -
  have "\<exists>res. fst (delta_EnqueueBatch None 8 [sample_delta, sample_delta] NewDeltaMemoryStore) = Inr res"
    by (simp add: store_defs validateEnqueueBatch_def Let_def split: prod.split)
  then obtain res s' where
    run: "delta_EnqueueBatch None 8 [sample_delta, sample_delta] NewDeltaMemoryStore = (Inr res, s')"
    by (metis prod.collapse)
  from enqueue_batch_counts [OF New_inv run] show ?thesis using run by auto
qed

text \<open>
  C26: EnqueueBatch is all or nothing: when it reports an error (a cancelled context, a batch
  over the limit, a missing or a mixed window, a delta with an identifier, a key that is
  not JSON) the store is unchanged, and it succeeds exactly when the whole batch is in order.
\<close>

theorem enqueue_batch_all_or_nothing:
  assumes "delta_EnqueueBatch ctx now ds s = (r, s')"
  shows "(\<forall>e. r = Inl e \<longrightarrow> s' = s)
    \<and> ((\<exists>res. r = Inr res) \<longleftrightarrow>
         ctx = None \<and> int (length ds) \<le> ds_maxEnqueueBatchSize s
         \<and> (\<exists>w. \<forall>d \<in> set ds. w \<noteq> [] \<and> d_DedupWindow d = w)
         \<and> (\<forall>d \<in> set ds. d_ID d = [] \<and> (\<exists>h. projectionKeyHash (d_ProjectionKey d) = Inr h)))"
proof -
  have windows: "(\<exists>w'. check_windows w ds = Inr w') \<longleftrightarrow> (\<forall>d \<in> set ds. d_DedupWindow d = w)"
    if "w \<noteq> []" for w ds
    using that by (induction w ds rule: check_windows.induct) auto
  have prep: "(\<exists>ps. prepare_batch w ds = Inr ps) \<longleftrightarrow>
      (\<forall>d \<in> set ds. d_ID d = [] \<and> (\<exists>h. projectionKeyHash (d_ProjectionKey d) = Inr h))" for w
    by (induction w ds rule: prepare_batch.induct) (auto split: sum.split)
  have valid: "(\<exists>w. validateEnqueueBatch ctx ds (ds_maxEnqueueBatchSize s) = Inr w) \<longleftrightarrow>
      ctx = None \<and> int (length ds) \<le> ds_maxEnqueueBatchSize s
      \<and> (\<exists>w. \<forall>d \<in> set ds. w \<noteq> [] \<and> d_DedupWindow d = w)"
  proof (cases ds)
    case (Cons d ds')
    then show ?thesis
      using windows [of "d_DedupWindow d" ds']
      by (cases "d_DedupWindow d = []") (auto simp: validateEnqueueBatch_def split: option.split)
  qed (auto simp: validateEnqueueBatch_def split: option.split)
  have "(\<exists>res. r = Inr res) \<longleftrightarrow> (\<exists>w. validateEnqueueBatch ctx ds (ds_maxEnqueueBatchSize s) = Inr w)
      \<and> (\<forall>d \<in> set ds. d_ID d = [] \<and> (\<exists>h. projectionKeyHash (d_ProjectionKey d) = Inr h))"
  proof (cases "validateEnqueueBatch ctx ds (ds_maxEnqueueBatchSize s)")
    case (Inr w)
    then show ?thesis
      using prep [of w] assms
      by (cases "prepare_batch w ds"; cases "ds = []")
        (auto simp: store_defs Let_def split: prod.splits)
  qed (use assms in \<open>auto simp: store_defs\<close>)
  moreover have "s' = s" if "r = Inl e" for e
    using assms that by (auto simp: store_defs Let_def split: sum.splits if_splits prod.splits)
  ultimately show ?thesis unfolding valid by blast
qed

theorem enqueue_batch_all_or_nothing_witness:
  "\<exists>e. delta_EnqueueBatch None 8 [sample_delta, sample_delta\<lparr>d_DedupWindow := ''w2''\<rparr>] sample_delta_store
     = (Inl e, sample_delta_store)"
proof -
  obtain r s' where run: "delta_EnqueueBatch None 8 [sample_delta, sample_delta\<lparr>d_DedupWindow := ''w2''\<rparr>] sample_delta_store
     = (r, s')" by (rule prod.exhaust)
  from enqueue_batch_all_or_nothing [OF run] have "(\<forall>e. r = Inl e \<longrightarrow> s' = sample_delta_store) \<and> (\<nexists>res. r = Inr res)"
    by auto
  with run show ?thesis by (cases r) auto
qed

lemma batch_step_max [simp]:
  "ds_maxEnqueueBatchSize (snd (batch_step now p rs)) = ds_maxEnqueueBatchSize (snd rs)"
  by (cases rs) (simp add: batch_step_def Let_def)

lemma batch_fold_max:
  "ds_maxEnqueueBatchSize (snd (fold (batch_step now) ps rs)) = ds_maxEnqueueBatchSize (snd rs)"
  by (induction ps arbitrary: rs) simp_all

text \<open>
  Repeating a batch that succeeded is safe: the second call inserts nothing, counts
  every delta as a duplicate and leaves the store exactly as the first call left it.
\<close>

theorem enqueue_batch_retry_is_noop:
  assumes "delta_store_inv s"
    and "delta_EnqueueBatch None now ds s = (Inr res, s')"
  shows "delta_EnqueueBatch None later ds s' =
    (Inr \<lparr>RequestedCount = length ds, InsertedCount = 0, DuplicateCount = length ds,
          BatchDedupWindow = BatchDedupWindow res\<rparr>, s')"
proof -
  obtain w where w: "validateEnqueueBatch None ds (ds_maxEnqueueBatchSize s) = Inr w"
    using assms(2) by (auto simp: store_defs split: sum.splits)
  show ?thesis
  proof (cases "ds = []")
    case True
    with assms(2) w show ?thesis by (auto simp: store_defs Let_def)
  next
    case False
    then obtain ps where ps: "prepare_batch w ds = Inr ps"
      and run: "fold (batch_step now) ps
        (\<lparr>RequestedCount = length ds, InsertedCount = 0, DuplicateCount = 0, BatchDedupWindow = w\<rparr>, s)
        = (res, s')"
      using assms(2) w by (auto simp: store_defs Let_def split: sum.splits prod.splits)
    note ready = prepare_batch_ready [OF ps validateEnqueueBatch_ok(3) [OF w]]
    have "\<forall>p \<in> set ps. d_DedupKey p \<in> set (keys (ds_dedup s'))" and "BatchDedupWindow res = w"
      using batch_fold_counts [OF run assms(1)] ready by auto
    moreover have "ds_maxEnqueueBatchSize s' = ds_maxEnqueueBatchSize s"
      using batch_fold_max [of now ps "(_, s)"] run by (metis snd_conv)
    ultimately show ?thesis
      using w ps False ready by (simp add: store_defs Let_def batch_fold_known)
  qed
qed

theorem enqueue_batch_retry_is_noop_witness:
  "\<exists>res s'. delta_EnqueueBatch None 8 [sample_delta, sample_delta] NewDeltaMemoryStore = (Inr res, s')
    \<and> delta_EnqueueBatch None 9 [sample_delta, sample_delta] s' =
        (Inr \<lparr>RequestedCount = 2, InsertedCount = 0, DuplicateCount = 2,
              BatchDedupWindow = BatchDedupWindow res\<rparr>, s')"
proof -
  have "\<exists>res. fst (delta_EnqueueBatch None 8 [sample_delta, sample_delta] NewDeltaMemoryStore) = Inr res"
    by (simp add: store_defs validateEnqueueBatch_def Let_def split: prod.split)
  then obtain res s' where
    run: "delta_EnqueueBatch None 8 [sample_delta, sample_delta] NewDeltaMemoryStore = (Inr res, s')"
    by (metis prod.collapse)
  from enqueue_batch_retry_is_noop [OF New_inv run, of 9] show ?thesis using run by auto
qed

text \<open>
  Pull returns the oldest pending deltas of the sync and nothing else: its answer is
  sorted by occurrence, creation and identifier, holds no delta twice, only deltas that are
  stored, pending and of that sync, as many as there are up to the limit, and a pending
  delta is left out only behind every delta returned.
\<close>

theorem pull_oldest_pending:
  assumes "delta_store_inv s" and "0 < limit" and "delta_Pull None syncID limit s = Inr ds"
  defines "pending \<equiv> {d. map_of (ds_deltas s) (d_ID d) = Some d \<and> d_State d = DeltaPending
    \<and> d_SyncID d = syncID}"
  shows "sorted (map delta_order ds) \<and> distinct (map d_ID ds) \<and> set ds \<subseteq> pending
    \<and> length ds = min (nat limit) (card pending)
    \<and> (\<forall>d \<in> pending - set ds. \<forall>e \<in> set ds. delta_order e \<le> delta_order d)"
proof -
  note members = delta_Pull_members [OF assms(1-3)]
  have sub: "set ds \<subseteq> pending" using members(4) by (auto simp: pending_def)
  have "pending \<subseteq> set (vals (ds_deltas s))"
    by (auto simp: pending_def dest!: map_of_SomeD intro: rev_image_eqI)
  then have fin: "finite pending" by (rule finite_subset) simp
  have "distinct ds" using members(2) by (simp add: distinct_map)
  then have len: "length ds = card (set ds)" by (simp add: distinct_card)
  have full: "length ds = nat limit \<and> (\<forall>e \<in> set ds. delta_order e \<le> delta_order d)"
    if "d \<in> pending - set ds" for d
    using that delta_Pull_complete [OF assms(1-3)] by (auto simp: pending_def)
  have "length ds = min (nat limit) (card pending)"
  proof (cases "pending = set ds")
    case True
    then show ?thesis using members(3) len by simp
  next
    case False
    with sub obtain d where "d \<in> pending - set ds" by blast
    then have "length ds = nat limit" using full by blast
    then show ?thesis using card_mono [OF fin sub] len by simp
  qed
  with members sub full show ?thesis by blast
qed

theorem pull_oldest_pending_witness:
  "delta_Pull None ''contacts'' 5 sample_delta_store = Inr [sample_stored]
   \<and> sorted (map delta_order [sample_stored])"
proof -
  have pull: "delta_Pull None ''contacts'' 5 sample_delta_store = Inr [sample_stored]"
    using cloneDelta_ready [OF prepare_delta_ready [of sample_delta sample_hash]]
    by (simp add: store_defs pendingDeltaIDsLockedForSyncLocked_def sample_delta_store_deltas
        sample_stored_def limit_ids_def)
  from pull_oldest_pending [OF sample_delta_store_inv _ this] pull show ?thesis by simp
qed

text \<open>
  The answer of Pull does not depend on the order in which Go iterates over the map of
  deltas: two stores that hold the same entries in different orders answer alike.
\<close>

theorem pull_ignores_map_order:
  assumes "delta_store_inv s" and "mset (ds_deltas s) = mset (ds_deltas s')"
  shows "delta_Pull ctx syncID limit s = delta_Pull ctx syncID limit s'"
proof -
  have "delta_at (ds_deltas s) = delta_at (ds_deltas s')"
    using map_of_mset [OF assms(2) delta_store_inv_distinct [OF assms(1)]]
    by (simp add: delta_at_def fun_eq_iff)
  then show ?thesis
    using pending_ids_perm [OF assms] by (simp add: store_defs split: option.split)
qed

theorem pull_ignores_map_order_witness:
  "let s = snd (delta_Enqueue None 8 (sample_delta\<lparr>d_DedupWindow := ''w2''\<rparr>) sample_delta_store)
   in delta_Pull None ''contacts'' 5 s = delta_Pull None ''contacts'' 5 (s\<lparr>ds_deltas := rev (ds_deltas s)\<rparr>)"
  unfolding Let_def
  by (rule pull_ignores_map_order [OF delta_Enqueue_inv [OF sample_delta_store_inv]]) simp

text \<open>
  MarkDispatched moves a stored delta to the dispatched state and stamps it with the
  clock; a delta that already was dispatched keeps its first stamp; no other delta is
  touched, and the delta is never pulled again.
\<close>

theorem mark_dispatched_once:
  assumes "delta_store_inv s" and "map_of (ds_deltas s) i = Some d"
  shows "\<exists>s' d'. delta_MarkDispatched None now i s = (None, s')
    \<and> map_of (ds_deltas s') = (map_of (ds_deltas s))(i \<mapsto> d')
    \<and> d' = (if d_State d = DeltaDispatched then d
            else d\<lparr>d_State := DeltaDispatched, d_DispatchedAt := Some now\<rparr>)
    \<and> delta_MarkDispatched None later i s' = (None, s')
    \<and> (\<forall>syncID limit ds. delta_Pull None syncID limit s' = Inr ds \<longrightarrow> i \<notin> set (map d_ID ds))"
proof -
  let ?s' = "snd (delta_MarkDispatched None now i s)"
  have inv': "delta_store_inv ?s'" using assms(1) by (rule delta_MarkDispatched_inv)
  obtain d' where d': "map_of (ds_deltas ?s') i = Some d'" "d_State d' = DeltaDispatched"
    using assms(2) by (cases "d_State d = DeltaDispatched") (auto simp: store_defs)
  have "i \<notin> set (map d_ID ds)" if "delta_Pull None syncID limit ?s' = Inr ds" for syncID limit ds
  proof (cases "0 < limit")
    case True
    from delta_Pull_members(4) [OF inv' this that] d' show ?thesis by fastforce
  qed (use that in \<open>auto simp: store_defs\<close>)
  then have unseen: "\<forall>syncID limit ds. delta_Pull None syncID limit ?s' = Inr ds \<longrightarrow> i \<notin> set (map d_ID ds)"
    by blast
  have "delta_MarkDispatched None now i s = (None, ?s')"
    and "map_of (ds_deltas ?s') = (map_of (ds_deltas s))(i \<mapsto> d')"
    and "d' = (if d_State d = DeltaDispatched then d
          else d\<lparr>d_State := DeltaDispatched, d_DispatchedAt := Some now\<rparr>)"
    and "delta_MarkDispatched None later i ?s' = (None, ?s')"
    using assms(2) d'
    by (auto simp: delta_MarkDispatched_def set_dispatched_def fun_upd_idem split: if_splits)
  with unseen show ?thesis by blast
qed

theorem mark_dispatched_once_witness:
  "\<exists>s'. delta_MarkDispatched None 11 (delta_id 1) sample_delta_store = (None, s')
    \<and> delta_MarkDispatched None 12 (delta_id 1) s' = (None, s')"
  using mark_dispatched_once [OF sample_delta_store_inv, of "delta_id 1" sample_stored 11 12]
  by (auto simp: sample_delta_store_deltas)

end
