(* ===== verification/DF_Text.thy ===== *)
theory DF_Text
  imports DF_Json
begin

text \<open>
  \<open>strings.TrimSpace\<close> on byte strings: the text is cut into the encodings of its runes (an
  invalid byte is a rune of its own), and the runes that \<open>unicode.IsSpace\<close> accepts are
  dropped at both ends. The lemmas: trimming removes a prefix and a suffix, and leaves
  nothing exactly when every rune is white space.
\<close>

section \<open>Runes\<close>

lemma decodeRune_length: "s \<noteq> [] \<Longrightarrow> 0 < snd (decodeRune s)"
  by (cases s) (auto simp: Let_def split: list.splits)

function runes :: "string \<Rightarrow> (nat \<times> string) list" where
  "runes [] = []"
| "runes (c # s) =
     (let (r, n) = decodeRune (c # s) in (r, take n (c # s)) # runes (drop n (c # s)))"
  by pat_completeness auto
termination
proof (relation "measure length")
  fix c s x r n
  assume "x = decodeRune (c # s)" and "(r, n) = x"
  then have "0 < n" using decodeRune_length [of "c # s"] by (metis list.distinct(1) snd_conv)
  then show "(drop n (c # s), c # s) \<in> measure length" by simp
qed simp

declare runes.simps [simp del] and runes.simps(1) [simp]

lemma runes_Cons:
  "runes (c # s) = (fst (decodeRune (c # s)), take (snd (decodeRune (c # s))) (c # s))
     # runes (drop (snd (decodeRune (c # s))) (c # s))"
  by (simp only: runes.simps(2) Let_def split_def)

lemma concat_runes [simp]: "concat (map snd (runes s)) = s"
  by (induction s rule: runes.induct)
    (simp_all add: runes_Cons prod_eq_iff del: decodeRune.simps)

definition unicode_IsSpace :: "nat \<Rightarrow> bool" where
  "unicode_IsSpace r \<longleftrightarrow>
     r \<in> {0x09, 0x0A, 0x0B, 0x0C, 0x0D, 0x20, 0x85, 0xA0, 0x1680, 0x2028, 0x2029, 0x202F, 0x205F,
          0x3000}
     \<or> 0x2000 \<le> r \<and> r \<le> 0x200A"

definition space_rune :: "nat \<times> string \<Rightarrow> bool" where
  "space_rune = unicode_IsSpace \<circ> fst"

definition TrimSpace :: "string \<Rightarrow> string" where
  "TrimSpace s =
     concat (map snd (rev (dropWhile space_rune (rev (dropWhile space_rune (runes s))))))"

section \<open>What trimming does\<close>

lemma TrimSpace_part: "\<exists>before after. s = before @ TrimSpace s @ after"
proof -
  let ?r = "dropWhile space_rune (runes s)"
  have "runes s = takeWhile space_rune (runes s) @ rev (dropWhile space_rune (rev ?r))
      @ rev (takeWhile space_rune (rev ?r))"
    by (simp flip: rev_append)
  then have "concat (map snd (runes s)) =
      concat (map snd (takeWhile space_rune (runes s))) @ TrimSpace s
      @ concat (map snd (rev (takeWhile space_rune (rev ?r))))"
    unfolding TrimSpace_def by (metis concat_append map_append)
  then show ?thesis by auto
qed

lemma runes_nonempty: "(r, x) \<in> set (runes s) \<Longrightarrow> x \<noteq> []"
proof (induction s rule: runes.induct)
  case (2 c s)
  have "0 < snd (decodeRune (c # s))" by (rule decodeRune_length) simp
  moreover note 2(1) [OF refl prod.collapse]
  ultimately show ?case using 2(2)
    by (auto simp: runes_Cons prod_eq_iff simp del: decodeRune.simps)
qed simp

lemma TrimSpace_empty_iff: "TrimSpace s = [] \<longleftrightarrow> (\<forall>x \<in> set (runes s). space_rune x)"
proof
  let ?r = "dropWhile space_rune (runes s)"
  assume empty: "TrimSpace s = []"
  have none: "rev (dropWhile space_rune (rev ?r)) = []"
  proof (rule ccontr)
    assume "rev (dropWhile space_rune (rev ?r)) \<noteq> []"
    then obtain x where x: "x \<in> set (dropWhile space_rune (rev ?r))" by fastforce
    then have "x \<in> set (runes s)" by (auto dest!: set_dropWhileD)
    then have "snd x \<noteq> []" using runes_nonempty [of "fst x" "snd x" s] by simp
    with x empty show False by (auto simp: TrimSpace_def)
  qed
  then have all: "\<forall>x \<in> set ?r. space_rune x" by (simp add: dropWhile_eq_Nil_conv)
  have "?r = []" using all hd_dropWhile [of space_rune "runes s"] by (metis list.set_sel(1))
  then show "\<forall>x \<in> set (runes s). space_rune x" by (simp add: dropWhile_eq_Nil_conv)
next
  assume "\<forall>x \<in> set (runes s). space_rune x"
  then have "dropWhile space_rune (runes s) = []" by (simp add: dropWhile_eq_Nil_conv)
  then show "TrimSpace s = []" unfolding TrimSpace_def by (simp only:) simp
qed

lemma TrimSpace_Nil [simp]: "TrimSpace [] = []"
  by (simp add: TrimSpace_def)

lemma TrimSpace_sample: "TrimSpace '' stuck  worker '' = ''stuck  worker''" "TrimSpace ''  '' = []"
  by (simp_all add: TrimSpace_def runes_Cons space_rune_def unicode_IsSpace_def byte_def)

end
