(* ===== verification/DF_JobMemory.thy ===== *)
theory DF_JobMemory
  imports DF_Dedup DF_Text
begin

text \<open>
  \<open>JobMemoryStore\<close> (\<open>internal/store.go\<close>): the sync jobs kept in memory, with the leases
  that workers take on them. The state is the identifier counter, the jobs by identifier,
  the index from outbox deltas to their jobs, and the calls made on the telemetry value so
  far. Every operation is one critical section of the store's mutex, hence one step; it
  takes its context, the clock reading it makes and its arguments. The log records are not
  modelled.

  A life cycle of one job is stated on its own, as a step relation, and every operation of
  the store is shown to move every job along it or to leave it alone; what holds of the
  life cycle (final states, exclusive leases, counted attempts) then holds of the store.
\<close>

section \<open>State\<close>

record job_memory_store =
  js_nextID :: nat
  js_jobs :: "(SyncJobID \<times> sync_job) list"
  js_jobByDelta :: "(DeltaID \<times> SyncJobID) list"
  js_telemetry :: "lease_event list"

definition NewJobMemoryStore :: job_memory_store where
  "NewJobMemoryStore =
     \<lparr>js_nextID = 0, js_jobs = [], js_jobByDelta = [], js_telemetry = []\<rparr>"

definition defaultMaxAttempts :: int where
  "defaultMaxAttempts = 5"

definition job_id :: "nat \<Rightarrow> SyncJobID" where
  "job_id n = numbered ''job-'' n"

text \<open>\<open>telemetry.Observe...(...)\<close>, and writing back through the pointer \<open>s.jobs[id]\<close>.\<close>

definition observe :: "lease_event list \<Rightarrow> job_memory_store \<Rightarrow> job_memory_store" where
  "observe es s = s\<lparr>js_telemetry := js_telemetry s @ es\<rparr>"

definition set_job :: "SyncJobID \<Rightarrow> sync_job \<Rightarrow> job_memory_store \<Rightarrow> job_memory_store" where
  "set_job i j s = s\<lparr>js_jobs := put i j (js_jobs s)\<rparr>"

definition job_at :: "(SyncJobID \<times> sync_job) list \<Rightarrow> SyncJobID \<Rightarrow> sync_job" where
  "job_at m i = the (map_of m i)"

section \<open>Create and Get\<close>

definition default_job :: "time \<Rightarrow> sync_job \<Rightarrow> sync_job" where
  "default_job now job =
     job\<lparr>j_State := (if j_State job = [] then StatePending else j_State job),
         j_MaxAttempts := (if j_MaxAttempts job = 0 then defaultMaxAttempts else j_MaxAttempts job),
         j_AvailableAt := default_time (j_AvailableAt job) now,
         j_CreatedAt := default_time (j_CreatedAt job) now,
         j_UpdatedAt := now\<rparr>"

definition already_mapped :: "sync_job \<Rightarrow> job_memory_store \<Rightarrow> bool" where
  "already_mapped job s \<longleftrightarrow>
     (case j_DeltaID job of None \<Rightarrow> False | Some d \<Rightarrow> has_key d (js_jobByDelta s))"

definition index_job :: "sync_job \<Rightarrow> job_memory_store \<Rightarrow> job_memory_store" where
  "index_job job s =
     (case j_DeltaID job of
        None \<Rightarrow> s
      | Some d \<Rightarrow>
          if j_Origin job = JobOriginOutbox
          then s\<lparr>js_jobByDelta := put d (j_ID job) (js_jobByDelta s)\<rparr> else s)"

definition createLocked ::
    "sync_job \<Rightarrow> time \<Rightarrow> job_memory_store \<Rightarrow> (error + sync_job) \<times> job_memory_store"
where
  "createLocked job now s =
     (if j_Origin job = JobOriginOutbox \<and> j_DeltaID job = None then (Inl ErrOutboxJobNeedsDelta, s)
      else if j_Origin job = JobOriginOutbox \<and> already_mapped job s then (Inl ErrDeltaAlreadyMapped, s)
      else
        (let n = (if j_ID job = [] then next_unused ''job-'' (keys (js_jobs s)) (js_nextID s)
                  else js_nextID s);
             i = (if j_ID job = [] then job_id n else j_ID job);
             job1 = default_job now (job\<lparr>j_ID := i\<rparr>);
             copied = cloneSyncJob job1
         in (Inr (cloneSyncJob copied), index_job job1 (set_job i copied (s\<lparr>js_nextID := n\<rparr>)))))"

definition job_Create ::
    "ctx \<Rightarrow> time \<Rightarrow> sync_job \<Rightarrow> job_memory_store \<Rightarrow> (error + sync_job) \<times> job_memory_store"
where [store_defs]:
  "job_Create ctx now job s =
     (case ctx of Some e \<Rightarrow> (Inl e, s) | None \<Rightarrow>
      if j_ID job \<noteq> [] then (Inl ErrJobIDProvided, s) else createLocked job now s)"

definition job_Get :: "ctx \<Rightarrow> SyncJobID \<Rightarrow> job_memory_store \<Rightarrow> error + sync_job option" where
  [store_defs]: "job_Get ctx i s =
     (case ctx of Some e \<Rightarrow> Inl e | None \<Rightarrow> Inr (map_option cloneSyncJob (map_of (js_jobs s) i)))"

section \<open>Who may claim, who owns\<close>

text \<open>\<open>job.LockedUntil == nil || !job.LockedUntil.After(now)\<close>\<close>

definition lease_over :: "time \<Rightarrow> sync_job \<Rightarrow> bool" where
  "lease_over now job \<longleftrightarrow> (case j_LockedUntil job of None \<Rightarrow> True | Some u \<Rightarrow> \<not> now < u)"

definition claimableJob :: "sync_job \<Rightarrow> time \<Rightarrow> SyncID \<Rightarrow> bool" where
  "claimableJob job now syncID =
     (if j_SyncID job \<noteq> syncID then False
      else if j_State job = StatePending \<or> j_State job = StateRetrying
        then \<not> now < j_AvailableAt job
      else if j_State job = StateProcessing then lease_over now job
      else False)"

definition jobLeaseOwned :: "sync_job \<Rightarrow> time \<Rightarrow> string \<Rightarrow> bool" where
  "jobLeaseOwned job now workerID =
     (if j_State job \<noteq> StateProcessing \<or> j_LockedBy job \<noteq> Some workerID then False
      else (case j_LockedUntil job of None \<Rightarrow> False | Some u \<Rightarrow> now < u))"

definition job_less :: "sync_job \<Rightarrow> sync_job \<Rightarrow> bool" where
  "job_less left right =
     (if j_AvailableAt left \<noteq> j_AvailableAt right then j_AvailableAt left < j_AvailableAt right
      else if j_CreatedAt left \<noteq> j_CreatedAt right then j_CreatedAt left < j_CreatedAt right
      else j_ID left < j_ID right)"

definition job_order :: "sync_job \<Rightarrow> order_key" where
  "job_order j = OrderKey (j_AvailableAt j) (j_CreatedAt j) (j_ID j)"

definition claimableJobIDsLocked :: "time \<Rightarrow> SyncID \<Rightarrow> job_memory_store \<Rightarrow> SyncJobID list" where
  "claimableJobIDsLocked now syncID s =
     sort_slice (\<lambda>i j. job_less (job_at (js_jobs s) i) (job_at (js_jobs s) j))
       (keys (filter (\<lambda>(i, job). claimableJob job now syncID) (js_jobs s)))"

definition clearJobLock :: "sync_job \<Rightarrow> sync_job" where
  "clearJobLock job = job\<lparr>j_LockedBy := None, j_LockedUntil := None\<rparr>"

section \<open>Claims\<close>

definition claim_job :: "time \<Rightarrow> string \<Rightarrow> duration \<Rightarrow> sync_job \<Rightarrow> sync_job" where
  "claim_job now workerID lockFor job =
     job\<lparr>j_State := StateProcessing, j_LockedBy := Some workerID,
         j_LockedUntil := Some (now + lockFor), j_UpdatedAt := now\<rparr>"

definition claim_events :: "time \<Rightarrow> sync_job \<Rightarrow> lease_event list" where
  "claim_events now job =
     ObserveLeaseClaim LeaseTelemetryResultSuccess #
     (if j_State job = StateProcessing \<and> lease_over now job then [ObserveLeaseReclaim] else [])"

definition ClaimNext ::
    "ctx \<Rightarrow> time \<Rightarrow> SyncID \<Rightarrow> string \<Rightarrow> duration \<Rightarrow> job_memory_store
       \<Rightarrow> (error + sync_job option) \<times> job_memory_store"
where [store_defs]:
  "ClaimNext ctx now syncID workerID lockFor s =
     (case ctx of Some e \<Rightarrow> (Inl e, s) | None \<Rightarrow>
      if lockFor \<le> 0 then
        (Inl ErrInvalidLockFor, observe [ObserveLeaseClaim LeaseTelemetryResultInvalidLockFor] s)
      else
        (case claimableJobIDsLocked now syncID s of
           [] \<Rightarrow> (Inr None, observe [ObserveLeaseClaim LeaseTelemetryResultEmpty] s)
         | i # _ \<Rightarrow>
             (let job = job_at (js_jobs s) i; job1 = claim_job now workerID lockFor job
              in (Inr (Some (cloneSyncJob job1)), observe (claim_events now job) (set_job i job1 s)))))"

text \<open>The loop over the selected identifiers, and the telemetry calls made after it.\<close>

fun claim_all ::
    "time \<Rightarrow> string \<Rightarrow> duration \<Rightarrow> SyncJobID list \<Rightarrow> job_memory_store
       \<Rightarrow> sync_job list \<times> lease_event list \<times> job_memory_store"
where
  "claim_all now workerID lockFor [] s = ([], [], s)"
| "claim_all now workerID lockFor (i # is) s =
     (let job = job_at (js_jobs s) i; job1 = claim_job now workerID lockFor job;
          (claimed, logs, s') = claim_all now workerID lockFor is (set_job i job1 s)
      in (cloneSyncJob job1 # claimed, claim_events now job @ logs, s'))"

definition ClaimNextBatch ::
    "ctx \<Rightarrow> time \<Rightarrow> SyncID \<Rightarrow> string \<Rightarrow> int \<Rightarrow> duration \<Rightarrow> job_memory_store
       \<Rightarrow> (error + sync_job list) \<times> job_memory_store"
where [store_defs]:
  "ClaimNextBatch ctx now syncID workerID limit lockFor s =
     (case ctx of Some e \<Rightarrow> (Inl e, s) | None \<Rightarrow>
      if lockFor \<le> 0 then
        (Inl ErrInvalidLockFor, observe [ObserveLeaseClaim LeaseTelemetryResultInvalidLockFor] s)
      else if limit \<le> 0 then (Inr [], s)
      else
        (let ids = limit_ids limit (claimableJobIDsLocked now syncID s)
         in if ids = [] then (Inr [], observe [ObserveLeaseClaim LeaseTelemetryResultEmpty] s)
            else (let (claimed, logs, s') = claim_all now workerID lockFor ids s
                  in (Inr claimed, observe logs s'))))"

section \<open>Transitions of the owner\<close>

definition updateOwned ::
    "ctx \<Rightarrow> time \<Rightarrow> SyncJobID \<Rightarrow> string \<Rightarrow> string \<Rightarrow> (sync_job \<Rightarrow> time \<Rightarrow> sync_job)
       \<Rightarrow> job_memory_store \<Rightarrow> error option \<times> job_memory_store"
where
  "updateOwned ctx now jobID workerID transition fn s =
     (case ctx of Some e \<Rightarrow> (Some e, s) | None \<Rightarrow>
      (case map_of (js_jobs s) jobID of
         None \<Rightarrow> (Some ErrJobNotFound, s)
       | Some job \<Rightarrow>
           if \<not> jobLeaseOwned job now workerID then
             (Some ErrJobLeaseNotOwned,
              observe [ObserveLeaseOwnershipCheck transition LeaseTelemetryOwnershipRejected] s)
           else
             (None,
              observe [ObserveLeaseOwnershipCheck transition LeaseTelemetryOwnershipOwned]
                (set_job jobID ((fn job now)\<lparr>j_UpdatedAt := now\<rparr>) s))))"

definition errorMessage :: "error option \<Rightarrow> string" where
  "errorMessage err = (case err of None \<Rightarrow> [] | Some e \<Rightarrow> err_text e)"

definition renew_job :: "duration \<Rightarrow> sync_job \<Rightarrow> time \<Rightarrow> sync_job" where
  "renew_job lockFor job now = job\<lparr>j_LockedUntil := Some (now + lockFor)\<rparr>"

definition sync_job_done :: "bool \<Rightarrow> sync_job \<Rightarrow> time \<Rightarrow> sync_job" where
  "sync_job_done ghostDetected job now =
     clearJobLock (job\<lparr>j_State := StateSynced, j_GhostDetected := ghostDetected,
                       j_SyncedAt := Some now\<rparr>)"

definition retry_job :: "error option \<Rightarrow> time \<Rightarrow> sync_job \<Rightarrow> time \<Rightarrow> sync_job" where
  "retry_job err nextRunAt job now =
     clearJobLock (job\<lparr>j_State := StateRetrying, j_AttemptCount := j_AttemptCount job + 1,
                       j_LastError := Some (errorMessage err), j_AvailableAt := nextRunAt\<rparr>)"

definition requeue_job :: "error option \<Rightarrow> time \<Rightarrow> sync_job \<Rightarrow> time \<Rightarrow> sync_job" where
  "requeue_job reason nextRunAt job now =
     clearJobLock (job\<lparr>j_State := StateRetrying, j_LastError := Some (errorMessage reason),
                       j_AvailableAt := nextRunAt\<rparr>)"

definition kill_job :: "error option \<Rightarrow> sync_job \<Rightarrow> time \<Rightarrow> sync_job" where
  "kill_job err job now =
     clearJobLock (job\<lparr>j_State := StateDead, j_AttemptCount := j_AttemptCount job + 1,
                       j_LastError := Some (errorMessage err), j_DeadAt := Some now\<rparr>)"

definition RenewLease ::
    "ctx \<Rightarrow> time \<Rightarrow> SyncJobID \<Rightarrow> string \<Rightarrow> duration \<Rightarrow> job_memory_store
       \<Rightarrow> error option \<times> job_memory_store"
where [store_defs]:
  "RenewLease ctx now jobID workerID lockFor s =
     (case ctx of Some e \<Rightarrow> (Some e, s) | None \<Rightarrow>
      if lockFor \<le> 0 then
        (Some ErrInvalidLockFor, observe [ObserveLeaseRenew LeaseTelemetryResultInvalidLockFor] s)
      else
        (let (err, s') = updateOwned ctx now jobID workerID LeaseTelemetryTransitionRenewLease
               (renew_job lockFor) s
         in (err, observe [ObserveLeaseRenew (leaseResult err)] s')))"

definition MarkSynced ::
    "ctx \<Rightarrow> time \<Rightarrow> SyncJobID \<Rightarrow> string \<Rightarrow> bool \<Rightarrow> job_memory_store
       \<Rightarrow> error option \<times> job_memory_store"
where [store_defs]:
  "MarkSynced ctx now jobID workerID ghostDetected =
     updateOwned ctx now jobID workerID LeaseTelemetryTransitionMarkSynced
       (sync_job_done ghostDetected)"

definition MarkRetrying ::
    "ctx \<Rightarrow> time \<Rightarrow> SyncJobID \<Rightarrow> string \<Rightarrow> error option \<Rightarrow> time \<Rightarrow> job_memory_store
       \<Rightarrow> error option \<times> job_memory_store"
where [store_defs]:
  "MarkRetrying ctx now jobID workerID err nextRunAt =
     updateOwned ctx now jobID workerID LeaseTelemetryTransitionMarkRetrying
       (retry_job err nextRunAt)"

definition RequeueClaimed ::
    "ctx \<Rightarrow> time \<Rightarrow> SyncJobID \<Rightarrow> string \<Rightarrow> error option \<Rightarrow> time \<Rightarrow> job_memory_store
       \<Rightarrow> error option \<times> job_memory_store"
where [store_defs]:
  "RequeueClaimed ctx now jobID workerID reason nextRunAt =
     updateOwned ctx now jobID workerID LeaseTelemetryTransitionRequeueClaimed
       (requeue_job reason nextRunAt)"

definition MarkDead ::
    "ctx \<Rightarrow> time \<Rightarrow> SyncJobID \<Rightarrow> string \<Rightarrow> error option \<Rightarrow> job_memory_store
       \<Rightarrow> error option \<times> job_memory_store"
where [store_defs]:
  "MarkDead ctx now jobID workerID err =
     updateOwned ctx now jobID workerID LeaseTelemetryTransitionMarkDead (kill_job err)"

section \<open>Operator actions and lease queries\<close>

definition force_release_job :: "string \<Rightarrow> time \<Rightarrow> sync_job \<Rightarrow> sync_job" where
  "force_release_job reason now job =
     (clearJobLock (job\<lparr>j_LastError := Some (''operator_force_release: '' @ reason)\<rparr>))
       \<lparr>j_UpdatedAt := now\<rparr>"

definition requeue_expired_job :: "string \<Rightarrow> time \<Rightarrow> time \<Rightarrow> sync_job \<Rightarrow> sync_job" where
  "requeue_expired_job reason nextRunAt now job =
     (clearJobLock (job\<lparr>j_State := StateRetrying, j_AvailableAt := nextRunAt,
                        j_LastError := Some (''operator_requeue: '' @ reason)\<rparr>))
       \<lparr>j_UpdatedAt := now\<rparr>"

definition ForceReleaseExpiredLease ::
    "ctx \<Rightarrow> time \<Rightarrow> SyncJobID \<Rightarrow> string \<Rightarrow> job_memory_store \<Rightarrow> error option \<times> job_memory_store"
where [store_defs]:
  "ForceReleaseExpiredLease ctx now jobID auditReason s =
     (case ctx of Some e \<Rightarrow> (Some e, s) | None \<Rightarrow>
      let reason = TrimSpace auditReason in
      if reason = [] then (Some ErrAuditReasonRequired, s)
      else
        (case map_of (js_jobs s) jobID of
           None \<Rightarrow> (Some ErrJobNotFound, s)
         | Some job \<Rightarrow>
             if j_State job \<noteq> StateProcessing \<or> \<not> lease_over now job
             then (Some ErrJobLeaseNotExpired, s)
             else (None, set_job jobID (force_release_job reason now job) s)))"

definition RequeueExpiredLease ::
    "ctx \<Rightarrow> time \<Rightarrow> SyncJobID \<Rightarrow> time \<Rightarrow> string \<Rightarrow> job_memory_store
       \<Rightarrow> error option \<times> job_memory_store"
where [store_defs]:
  "RequeueExpiredLease ctx now jobID nextRunAt auditReason s =
     (case ctx of Some e \<Rightarrow> (Some e, s) | None \<Rightarrow>
      let reason = TrimSpace auditReason in
      if reason = [] then (Some ErrAuditReasonRequired, s)
      else
        (case map_of (js_jobs s) jobID of
           None \<Rightarrow> (Some ErrJobNotFound, s)
         | Some job \<Rightarrow>
             if j_State job \<noteq> StateProcessing \<or> \<not> lease_over now job
             then (Some ErrJobLeaseNotExpired, s)
             else (None, set_job jobID (requeue_expired_job reason nextRunAt now job) s)))"

definition lease_less :: "sync_job \<Rightarrow> sync_job \<Rightarrow> bool" where
  "lease_less left right =
     (case (j_LockedUntil left, j_LockedUntil right) of
        (None, Some _) \<Rightarrow> True
      | (Some _, None) \<Rightarrow> False
      | (u, v) \<Rightarrow>
          if u \<noteq> v then the u < the v
          else if j_UpdatedAt left \<noteq> j_UpdatedAt right then j_UpdatedAt left < j_UpdatedAt right
          else j_ID left < j_ID right)"

definition lease_order :: "sync_job \<Rightarrow> lease_key" where
  "lease_order j = LeaseKey (j_LockedUntil j) (j_UpdatedAt j) (j_ID j)"

definition lease_selected :: "SyncID \<Rightarrow> (sync_job \<Rightarrow> bool) \<Rightarrow> sync_job \<Rightarrow> bool" where
  "lease_selected syncID predicate job \<longleftrightarrow>
     \<not> (j_State job \<noteq> StateProcessing) \<and> \<not> (syncID \<noteq> [] \<and> j_SyncID job \<noteq> syncID) \<and> predicate job"

definition selectProcessingLeasesLocked ::
    "SyncID \<Rightarrow> int \<Rightarrow> (sync_job \<Rightarrow> bool) \<Rightarrow> job_memory_store \<Rightarrow> sync_job list"
where
  "selectProcessingLeasesLocked syncID limit predicate s =
     map (\<lambda>i. cloneSyncJob (job_at (js_jobs s) i))
       (limit_ids limit
         (sort_slice (\<lambda>i j. lease_less (job_at (js_jobs s) i) (job_at (js_jobs s) j))
           (keys (filter (\<lambda>(i, job). lease_selected syncID predicate job) (js_jobs s)))))"

definition ListActiveLeases ::
    "ctx \<Rightarrow> time \<Rightarrow> SyncID \<Rightarrow> int \<Rightarrow> job_memory_store \<Rightarrow> error + sync_job list"
where [store_defs]:
  "ListActiveLeases ctx now syncID limit s =
     (case ctx of Some e \<Rightarrow> Inl e | None \<Rightarrow>
      if limit \<le> 0 then Inr []
      else Inr (selectProcessingLeasesLocked syncID limit
             (\<lambda>job. case j_LockedUntil job of None \<Rightarrow> False | Some u \<Rightarrow> now < u) s))"

definition ListExpiredProcessingLeases ::
    "ctx \<Rightarrow> time \<Rightarrow> SyncID \<Rightarrow> int \<Rightarrow> job_memory_store \<Rightarrow> error + sync_job list"
where [store_defs]:
  "ListExpiredProcessingLeases ctx now syncID limit s =
     (case ctx of Some e \<Rightarrow> Inl e | None \<Rightarrow>
      if limit \<le> 0 then Inr []
      else Inr (selectProcessingLeasesLocked syncID limit (lease_over now) s))"

definition ListNearExpiryLeases ::
    "ctx \<Rightarrow> time \<Rightarrow> SyncID \<Rightarrow> duration \<Rightarrow> int \<Rightarrow> job_memory_store \<Rightarrow> error + sync_job list"
where [store_defs]:
  "ListNearExpiryLeases ctx now syncID within limit s =
     (case ctx of Some e \<Rightarrow> Inl e | None \<Rightarrow>
      if within < 0 then Inl ErrInvalidLeaseWindow
      else if limit \<le> 0 then Inr []
      else Inr (selectProcessingLeasesLocked syncID limit
             (\<lambda>job. case j_LockedUntil job of
                None \<Rightarrow> False | Some u \<Rightarrow> now < u \<and> \<not> now + within < u) s))"


section \<open>The sort orders\<close>

lemma job_less_order: "job_less l r \<longleftrightarrow> job_order l < job_order r"
  by (simp add: job_less_def job_order_def less_order_key_def)

interpretation claim_order: sort_order
    "\<lambda>i j. job_less (job_at m i) (job_at m j)" "\<lambda>i. job_order (job_at m i)"
  for m :: "(SyncJobID \<times> sync_job) list"
  by unfold_locales (rule job_less_order)

lemma lease_less_order: "lease_less l r \<longleftrightarrow> lease_order l < lease_order r"
  by (auto simp: lease_less_def lease_order_def less_lease_key_def split: option.splits)

interpretation lease_order: sort_order
    "\<lambda>i j. lease_less (job_at m i) (job_at m j)" "\<lambda>i. lease_order (job_at m i)"
  for m :: "(SyncJobID \<times> sync_job) list"
  by unfold_locales (rule lease_less_order)

section \<open>Parts of the state\<close>

lemma observe_sel [simp]:
  "js_nextID (observe es s) = js_nextID s" "js_jobs (observe es s) = js_jobs s"
  "js_jobByDelta (observe es s) = js_jobByDelta s"
  "js_telemetry (observe es s) = js_telemetry s @ es"
  by (simp_all add: observe_def)

lemma set_job_sel [simp]:
  "js_nextID (set_job i j s) = js_nextID s" "js_jobs (set_job i j s) = put i j (js_jobs s)"
  "js_jobByDelta (set_job i j s) = js_jobByDelta s"
  "js_telemetry (set_job i j s) = js_telemetry s"
  by (simp_all add: set_job_def)

lemma index_job_sel [simp]:
  "js_nextID (index_job j s) = js_nextID s" "js_jobs (index_job j s) = js_jobs s"
  "js_telemetry (index_job j s) = js_telemetry s"
  by (simp_all add: index_job_def split: option.split)

lemma job_at_stored [simp]: "map_of m i = Some j \<Longrightarrow> job_at m i = j"
  by (simp add: job_at_def)

lemma job_id_inj [simp]: "job_id m = job_id n \<longleftrightarrow> m = n"
  by (simp add: job_id_def)

lemma job_id_nonempty [simp]: "job_id n \<noteq> []"
  by (simp add: job_id_def)

text \<open>The fields that no operation changes once a job is stored.\<close>

definition job_frame ::
    "sync_job \<Rightarrow> SyncJobID \<times> SyncID \<times> DeltaID option \<times> SyncJobOriginType \<times> ProjectionType
       \<times> ProjectionKey \<times> ProjectionKeyHash \<times> int \<times> time"
where
  "job_frame j = (j_ID j, j_SyncID j, j_DeltaID j, j_Origin j, j_ProjectionType j,
     j_ProjectionKey j, j_ProjectionKeyHash j, j_MaxAttempts j, j_CreatedAt j)"

lemma job_frame_changes [simp]:
  "job_frame (claim_job now w l j) = job_frame j"
  "job_frame (renew_job l j now) = job_frame j"
  "job_frame (sync_job_done g j now) = job_frame j"
  "job_frame (retry_job e t j now) = job_frame j"
  "job_frame (requeue_job e t j now) = job_frame j"
  "job_frame (kill_job e j now) = job_frame j"
  "job_frame (force_release_job r now j) = job_frame j"
  "job_frame (requeue_expired_job r t now j) = job_frame j"
  "job_frame (j\<lparr>j_UpdatedAt := now\<rparr>) = job_frame j"
  by (simp_all add: job_frame_def claim_job_def renew_job_def sync_job_done_def retry_job_def
      requeue_job_def kill_job_def force_release_job_def requeue_expired_job_def clearJobLock_def)

lemma job_frame_fields:
  assumes "job_frame j' = job_frame j"
  shows "j_ID j' = j_ID j" "j_SyncID j' = j_SyncID j" "j_DeltaID j' = j_DeltaID j"
    "j_Origin j' = j_Origin j" "j_ProjectionKey j' = j_ProjectionKey j"
    "j_MaxAttempts j' = j_MaxAttempts j" "j_ProjectionType j' = j_ProjectionType j"
    "j_ProjectionKeyHash j' = j_ProjectionKeyHash j" "j_CreatedAt j' = j_CreatedAt j"
  using assms by (simp_all add: job_frame_def)

section \<open>The invariant\<close>

text \<open>
  A stored job is filed under its own identifier, which the counter has passed; its key is
  a copy that no caller shares; an outbox job has a delta, and the index leads from that
  delta to this job and to no other.
\<close>

definition job_ok :: "job_memory_store \<Rightarrow> SyncJobID \<Rightarrow> sync_job \<Rightarrow> bool" where
  "job_ok s i j \<longleftrightarrow>
     j_ID j = i \<and> (\<exists>n. n \<le> js_nextID s \<and> i = job_id n)
     \<and> cloneProjectionKey (j_ProjectionKey j) = j_ProjectionKey j
     \<and> (j_Origin j = JobOriginOutbox \<longrightarrow>
          (\<exists>d. j_DeltaID j = Some d \<and> map_of (js_jobByDelta s) d = Some i))"

definition job_store_inv :: "job_memory_store \<Rightarrow> bool" where
  "job_store_inv s \<longleftrightarrow>
     distinct (keys (js_jobs s)) \<and> distinct (keys (js_jobByDelta s))
     \<and> (\<forall>i j. map_of (js_jobs s) i = Some j \<longrightarrow> job_ok s i j)
     \<and> (\<forall>d i. map_of (js_jobByDelta s) d = Some i \<longrightarrow>
          (\<exists>j. map_of (js_jobs s) i = Some j \<and> j_DeltaID j = Some d \<and> j_Origin j = JobOriginOutbox))"

lemma job_store_inv_distinct: "job_store_inv s \<Longrightarrow> distinct (keys (js_jobs s))"
  by (simp add: job_store_inv_def)

lemma job_store_inv_ok:
  "job_store_inv s \<Longrightarrow> map_of (js_jobs s) i = Some j \<Longrightarrow> job_ok s i j"
  by (simp add: job_store_inv_def)

lemma job_store_inv_index:
  "job_store_inv s \<Longrightarrow> map_of (js_jobByDelta s) d = Some i \<Longrightarrow>
   \<exists>j. map_of (js_jobs s) i = Some j \<and> j_DeltaID j = Some d \<and> j_Origin j = JobOriginOutbox"
  by (simp add: job_store_inv_def)

lemma job_store_inv_ID: "job_store_inv s \<Longrightarrow> map_of (js_jobs s) i = Some j \<Longrightarrow> j_ID j = i"
  by (drule (1) job_store_inv_ok) (simp add: job_ok_def)

lemma cloneSyncJob_copied: "cloneProjectionKey (j_ProjectionKey j) = j_ProjectionKey j \<Longrightarrow> cloneSyncJob j = j"
  by (cases j) (simp add: cloneSyncJob_def)

lemma cloneSyncJob_stored:
  assumes "job_store_inv s" and "map_of (js_jobs s) i = Some j" and "job_frame j' = job_frame j"
  shows "cloneSyncJob j' = j'"
  using job_store_inv_ok [OF assms(1,2)] job_frame_fields(5) [OF assms(3)]
  by (intro cloneSyncJob_copied) (simp add: job_ok_def)

lemma job_store_inv_unused:
  assumes "job_store_inv s" and "js_nextID s < n"
  shows "map_of (js_jobs s) (job_id n) = None"
proof (rule ccontr)
  assume "map_of (js_jobs s) (job_id n) \<noteq> None"
  then obtain j where "map_of (js_jobs s) (job_id n) = Some j" by blast
  with assms(1) have "job_ok s (job_id n) j" by (rule job_store_inv_ok)
  with assms(2) show False by (auto simp: job_ok_def)
qed

lemma next_job_id:
  assumes "job_store_inv s"
  shows "next_unused ''job-'' (keys (js_jobs s)) (js_nextID s) = Suc (js_nextID s)"
proof (rule next_unused_step)
  have "map_of (js_jobs s) (job_id (Suc (js_nextID s))) = None"
    using assms by (rule job_store_inv_unused) simp
  then show "numbered ''job-'' (Suc (js_nextID s)) \<notin> set (keys (js_jobs s))"
    by (simp add: job_id_def map_of_eq_None_iff image_comp)
qed

lemma NewJobMemoryStore_inv [inv_intros]: "job_store_inv NewJobMemoryStore"
  by (simp add: job_store_inv_def NewJobMemoryStore_def)

lemma observe_inv [inv_intros]: "job_store_inv (observe es s) = job_store_inv s"
  by (simp add: job_store_inv_def job_ok_def)

text \<open>Changing jobs within their frames keeps the invariant.\<close>

lemma job_store_inv_frame:
  assumes inv: "job_store_inv s"
    and keys: "distinct (keys (js_jobs s'))"
    and same: "js_jobByDelta s' = js_jobByDelta s" "js_nextID s' = js_nextID s"
    and dom: "\<And>i. map_of (js_jobs s') i = None \<longleftrightarrow> map_of (js_jobs s) i = None"
    and frame: "\<And>i j j'. map_of (js_jobs s) i = Some j \<Longrightarrow> map_of (js_jobs s') i = Some j' \<Longrightarrow>
      job_frame j' = job_frame j"
  shows "job_store_inv s'"
proof -
  have "job_ok s' i j'" if new: "map_of (js_jobs s') i = Some j'" for i j'
  proof -
    obtain j where j: "map_of (js_jobs s) i = Some j"
      using new dom [of i] by (cases "map_of (js_jobs s) i") auto
    from job_store_inv_ok [OF inv j] show ?thesis
      using job_frame_fields [OF frame [OF j new]] by (simp add: job_ok_def same)
  qed
  moreover have "\<exists>j'. map_of (js_jobs s') i = Some j' \<and> j_DeltaID j' = Some d
      \<and> j_Origin j' = JobOriginOutbox"
    if idx: "map_of (js_jobByDelta s') d = Some i" for d i
  proof -
    obtain j where j: "map_of (js_jobs s) i = Some j" "j_DeltaID j = Some d"
      "j_Origin j = JobOriginOutbox"
      using job_store_inv_index [OF inv] idx unfolding same by blast
    moreover obtain j' where j': "map_of (js_jobs s') i = Some j'"
      using j(1) dom [of i] by (cases "map_of (js_jobs s') i") auto
    ultimately show ?thesis using job_frame_fields [OF frame [OF j(1) j']] by simp
  qed
  moreover have "distinct (keys (js_jobByDelta s'))"
    using inv by (simp add: job_store_inv_def same)
  ultimately show ?thesis using keys by (simp add: job_store_inv_def)
qed

lemma set_job_inv [inv_intros]:
  assumes inv: "job_store_inv s" and "map_of (js_jobs s) i = Some j" and "job_frame j' = job_frame j"
  shows "job_store_inv (set_job i j' s)"
  by (rule job_store_inv_frame [OF inv])
    (use assms in \<open>auto simp: job_store_inv_distinct split: if_splits\<close>)

section \<open>What Create does\<close>

lemma default_job_sel [simp]:
  "j_ID (default_job now j) = j_ID j" "j_SyncID (default_job now j) = j_SyncID j"
  "j_DeltaID (default_job now j) = j_DeltaID j" "j_Origin (default_job now j) = j_Origin j"
  "j_ProjectionKey (default_job now j) = j_ProjectionKey j"
  "j_ProjectionType (default_job now j) = j_ProjectionType j"
  "j_ProjectionKeyHash (default_job now j) = j_ProjectionKeyHash j"
  "j_AttemptCount (default_job now j) = j_AttemptCount j"
  "j_LockedBy (default_job now j) = j_LockedBy j"
  "j_LockedUntil (default_job now j) = j_LockedUntil j"
  "j_UpdatedAt (default_job now j) = now"
  "j_State (default_job now j) = (if j_State j = [] then StatePending else j_State j)"
  "j_MaxAttempts (default_job now j) = (if j_MaxAttempts j = 0 then 5 else j_MaxAttempts j)"
  "j_AvailableAt (default_job now j) = default_time (j_AvailableAt j) now"
  "j_CreatedAt (default_job now j) = default_time (j_CreatedAt j) now"
  by (simp_all add: default_job_def defaultMaxAttempts_def)

text \<open>When \<open>createLocked\<close> refuses a job.\<close>

definition create_refused :: "sync_job \<Rightarrow> job_memory_store \<Rightarrow> error option" where
  "create_refused job s =
     (if j_Origin job \<noteq> JobOriginOutbox then None
      else if j_DeltaID job = None then Some ErrOutboxJobNeedsDelta
      else if already_mapped job s then Some ErrDeltaAlreadyMapped else None)"

lemma createLocked_refused:
  "create_refused job s = Some e \<Longrightarrow> createLocked job now s = (Inl e, s)"
  by (auto simp: createLocked_def create_refused_def split: if_splits)

text \<open>Storing a new job under an unused number, as \<open>createLocked\<close> and the dispatcher do.\<close>

definition add_job :: "sync_job \<Rightarrow> job_memory_store \<Rightarrow> job_memory_store" where
  "add_job j s = index_job j (set_job (j_ID j) (cloneSyncJob j) s)"

lemma createLocked_new:
  fixes s :: job_memory_store
  defines "n \<equiv> Suc (js_nextID s)"
  assumes "job_store_inv s" and "j_ID job = []" and "create_refused job s = None"
  shows "createLocked job now s =
    (Inr (cloneSyncJob (default_job now (job\<lparr>j_ID := job_id n\<rparr>))),
     add_job (default_job now (job\<lparr>j_ID := job_id n\<rparr>)) (s\<lparr>js_nextID := n\<rparr>))"
  using assms next_job_id [OF assms(2)]
  by (auto simp: createLocked_def create_refused_def add_job_def Let_def split: if_splits)

lemma add_job_inv [inv_intros]:
  assumes inv: "job_store_inv s" and n: "j_ID j = job_id n" "js_nextID s < n" "n \<le> m"
    and ok: "create_refused j s = None"
  shows "job_store_inv (add_job j (s\<lparr>js_nextID := m\<rparr>))" (is "job_store_inv ?s'")
proof -
  let ?i = "job_id n"
  have new: "map_of (js_jobs s) ?i = None" using inv n(2) by (rule job_store_inv_unused)
  have jobs: "map_of (js_jobs ?s') = (map_of (js_jobs s))(?i \<mapsto> cloneSyncJob j)"
    by (simp add: add_job_def n)
  have unmapped: "map_of (js_jobByDelta s) d = None"
    if "j_DeltaID j = Some d" "j_Origin j = JobOriginOutbox" for d
    using ok that by (auto simp: create_refused_def already_mapped_def has_key_def split: if_splits)
  have index: "map_of (js_jobByDelta ?s') d = (if j_DeltaID j = Some d \<and> j_Origin j = JobOriginOutbox
      then Some ?i else map_of (js_jobByDelta s) d)" for d
    by (auto simp: add_job_def index_job_def n split: option.split)
  have next_id: "js_nextID ?s' = m" by (simp add: add_job_def)
  have mapped: "\<exists>d. j_DeltaID j = Some d" if "j_Origin j = JobOriginOutbox"
    using ok that by (auto simp: create_refused_def split: if_splits)
  have "job_ok ?s' i k" if stored: "map_of (js_jobs ?s') i = Some k" for i k
  proof (cases "i = ?i")
    case True
    with stored jobs mapped show ?thesis
      using n by (auto simp: job_ok_def index next_id)
  next
    case False
    with stored jobs have k: "map_of (js_jobs s) i = Some k" by simp
    from job_store_inv_ok [OF inv k] n unmapped show ?thesis
      by (fastforce simp: job_ok_def index next_id)
  qed
  moreover have "\<exists>k. map_of (js_jobs ?s') i = Some k \<and> j_DeltaID k = Some d
      \<and> j_Origin k = JobOriginOutbox"
    if idx: "map_of (js_jobByDelta ?s') d = Some i" for d i
  proof (cases "j_DeltaID j = Some d \<and> j_Origin j = JobOriginOutbox")
    case True
    with idx jobs show ?thesis by (simp add: index)
  next
    case False
    with idx have "map_of (js_jobByDelta s) d = Some i" by (simp add: index split: if_splits)
    from job_store_inv_index [OF inv this] jobs new show ?thesis by auto
  qed
  moreover have "distinct (keys (js_jobs ?s'))" and "distinct (keys (js_jobByDelta ?s'))"
    using inv by (simp_all add: job_store_inv_def add_job_def index_job_def split: option.split)
  ultimately show ?thesis by (simp add: job_store_inv_def)
qed

lemma create_refused_default [simp]:
  "create_refused (default_job now (j\<lparr>j_ID := i\<rparr>)) s = create_refused j s"
  by (simp add: create_refused_def already_mapped_def)

lemma job_Create_inv [inv_intros]:
  assumes "job_store_inv s"
  shows "job_store_inv (snd (job_Create ctx now job s))"
proof (cases "ctx = None \<and> j_ID job = []")
  case True
  then show ?thesis
    using assms createLocked_refused [of job s] createLocked_new [OF assms, of job]
    by (cases "create_refused job s") (auto simp: store_defs intro!: add_job_inv)
qed (use assms in \<open>auto simp: store_defs split: option.split\<close>)

section \<open>What the claims do\<close>

lemma set_claimable_ids:
  "job_store_inv s \<Longrightarrow> set (claimableJobIDsLocked now syncID s) =
     {i. \<exists>j. map_of (js_jobs s) i = Some j \<and> claimableJob j now syncID}"
  using set_filter_keys [of "js_jobs s" "\<lambda>j. claimableJob j now syncID"]
  by (simp add: claimableJobIDsLocked_def job_store_inv_distinct)

lemma distinct_claimable_ids:
  "job_store_inv s \<Longrightarrow> distinct (claimableJobIDsLocked now syncID s)"
  by (simp add: claimableJobIDsLocked_def job_store_inv_distinct distinct_keys_filter)

lemma claim_all_effect:
  assumes "claim_all now w l is s = (claimed, logs, s')" and "distinct is"
  shows "claimed = map (\<lambda>i. cloneSyncJob (claim_job now w l (job_at (js_jobs s) i))) is"
    and "logs = concat (map (\<lambda>i. claim_events now (job_at (js_jobs s) i)) is)"
    and "map_of (js_jobs s') = (\<lambda>i. if i \<in> set is
           then Some (claim_job now w l (job_at (js_jobs s) i)) else map_of (js_jobs s) i)"
    and "js_nextID s' = js_nextID s" and "js_jobByDelta s' = js_jobByDelta s"
    and "js_telemetry s' = js_telemetry s"
    and "distinct (keys (js_jobs s)) \<Longrightarrow> distinct (keys (js_jobs s'))"
proof -
  have "claimed = map (\<lambda>i. cloneSyncJob (claim_job now w l (job_at (js_jobs s) i))) is
    \<and> logs = concat (map (\<lambda>i. claim_events now (job_at (js_jobs s) i)) is)
    \<and> map_of (js_jobs s') = (\<lambda>i. if i \<in> set is
           then Some (claim_job now w l (job_at (js_jobs s) i)) else map_of (js_jobs s) i)
    \<and> js_nextID s' = js_nextID s \<and> js_jobByDelta s' = js_jobByDelta s
    \<and> js_telemetry s' = js_telemetry s
    \<and> (distinct (keys (js_jobs s)) \<longrightarrow> distinct (keys (js_jobs s')))"
    using assms
  proof (induction "is" arbitrary: s claimed logs)
    case (Cons i "is")
    let ?s1 = "set_job i (claim_job now w l (job_at (js_jobs s) i)) s"
    obtain claimed1 logs1 where rest: "claim_all now w l is ?s1 = (claimed1, logs1, s')"
      using Cons.prems(1) by (auto simp: Let_def split: prod.splits)
    have at: "job_at (js_jobs ?s1) k = job_at (js_jobs s) k" if "k \<in> set is" for k
      using that Cons.prems(2) by (auto simp: job_at_def)
    from Cons.IH [OF rest] Cons.prems rest at show ?case
      by (auto simp: Let_def fun_eq_iff cong: map_cong)
  qed simp
  then show "claimed = map (\<lambda>i. cloneSyncJob (claim_job now w l (job_at (js_jobs s) i))) is"
    and "logs = concat (map (\<lambda>i. claim_events now (job_at (js_jobs s) i)) is)"
    and "map_of (js_jobs s') = (\<lambda>i. if i \<in> set is
           then Some (claim_job now w l (job_at (js_jobs s) i)) else map_of (js_jobs s) i)"
    and "js_nextID s' = js_nextID s" and "js_jobByDelta s' = js_jobByDelta s"
    and "js_telemetry s' = js_telemetry s"
    and "distinct (keys (js_jobs s)) \<Longrightarrow> distinct (keys (js_jobs s'))"
    by blast+
qed

text \<open>The identifiers a batch claim takes, and what the claim does to the jobs.\<close>

definition batch_ids :: "time \<Rightarrow> SyncID \<Rightarrow> int \<Rightarrow> job_memory_store \<Rightarrow> SyncJobID list" where
  "batch_ids now syncID limit s = limit_ids limit (claimableJobIDsLocked now syncID s)"

lemma batch_ids_claimable:
  "job_store_inv s \<Longrightarrow> i \<in> set (batch_ids now syncID limit s) \<Longrightarrow>
   \<exists>j. map_of (js_jobs s) i = Some j \<and> claimableJob j now syncID"
  using set_claimable_ids [of s now syncID]
  by (auto simp: batch_ids_def limit_ids_def dest: in_set_takeD split: if_splits)

lemma distinct_batch_ids: "job_store_inv s \<Longrightarrow> distinct (batch_ids now syncID limit s)"
  by (simp add: batch_ids_def limit_ids_def distinct_claimable_ids)

lemma ClaimNextBatch_effect:
  assumes inv: "job_store_inv s" and "0 < lockFor" and "0 < limit"
    and run: "ClaimNextBatch None now syncID w limit lockFor s = (r, s')"
  defines "is \<equiv> batch_ids now syncID limit s"
  shows "r = Inr (map (\<lambda>i. claim_job now w lockFor (job_at (js_jobs s) i)) is)"
    and "map_of (js_jobs s') = (\<lambda>i. if i \<in> set is
           then Some (claim_job now w lockFor (job_at (js_jobs s) i)) else map_of (js_jobs s) i)"
    and "job_store_inv s'"
    and "js_jobByDelta s' = js_jobByDelta s"
proof -
  have dist: "distinct is" using inv by (simp add: is_def distinct_batch_ids)
  obtain claimed logs t where all: "claim_all now w lockFor is s = (claimed, logs, t)"
    by (metis prod.exhaust)
  note eff = claim_all_effect [OF all dist]
  have clone: "cloneSyncJob (claim_job now w lockFor (job_at (js_jobs s) i)) =
      claim_job now w lockFor (job_at (js_jobs s) i)" if mem: "i \<in> set is" for i
  proof -
    obtain j where j: "map_of (js_jobs s) i = Some j"
      using batch_ids_claimable [OF inv] mem unfolding is_def by blast
    show ?thesis by (rule cloneSyncJob_stored [OF inv j]) (use j in simp)
  qed
  have r: "r = Inr claimed"
    and s': "\<exists>es. s' = observe es t"
    using run assms(2,3) all
    by (cases "is = []"; auto simp: store_defs batch_ids_def [symmetric] is_def [symmetric])+
  show "r = Inr (map (\<lambda>i. claim_job now w lockFor (job_at (js_jobs s) i)) is)"
    using clone by (simp add: r eff(1))
  show jobs: "map_of (js_jobs s') = (\<lambda>i. if i \<in> set is
           then Some (claim_job now w lockFor (job_at (js_jobs s) i)) else map_of (js_jobs s) i)"
    using s' eff(3) by auto
  show index: "js_jobByDelta s' = js_jobByDelta s" using s' eff(5) by auto
  show "job_store_inv s'"
  proof (rule job_store_inv_frame [OF inv])
    show "distinct (keys (js_jobs s'))" using s' eff(7) inv by (auto simp: job_store_inv_distinct)
    show "js_jobByDelta s' = js_jobByDelta s" by (rule index)
    show "js_nextID s' = js_nextID s" using s' eff(4) by auto
    show "map_of (js_jobs s') i = None \<longleftrightarrow> map_of (js_jobs s) i = None" for i
      using batch_ids_claimable [OF inv, of i now syncID limit] by (auto simp: jobs is_def)
    show "job_frame j' = job_frame j"
      if "map_of (js_jobs s) i = Some j" "map_of (js_jobs s') i = Some j'" for i j j'
      using that by (auto simp: jobs split: if_splits)
  qed
qed

text \<open>\<open>ClaimNext\<close> is a batch of one, but for the shape of its answer.\<close>

lemma ClaimNext_effect:
  assumes inv: "job_store_inv s" and "0 < lockFor"
  shows "fst (ClaimNext None now syncID w lockFor s) =
      Inr (case claimableJobIDsLocked now syncID s of [] \<Rightarrow> None
           | i # _ \<Rightarrow> Some (claim_job now w lockFor (job_at (js_jobs s) i)))"
    and "snd (ClaimNext None now syncID w lockFor s) =
      snd (ClaimNextBatch None now syncID w 1 lockFor s)"
proof -
  show "snd (ClaimNext None now syncID w lockFor s) =
      snd (ClaimNextBatch None now syncID w 1 lockFor s)"
    using assms(2)
    by (cases "claimableJobIDsLocked now syncID s") (simp_all add: store_defs limit_ids_def Let_def)
  show "fst (ClaimNext None now syncID w lockFor s) =
      Inr (case claimableJobIDsLocked now syncID s of [] \<Rightarrow> None
           | i # _ \<Rightarrow> Some (claim_job now w lockFor (job_at (js_jobs s) i)))"
  proof (cases "claimableJobIDsLocked now syncID s")
    case (Cons i "is")
    then obtain j where j: "map_of (js_jobs s) i = Some j"
      using set_claimable_ids [OF inv, of now syncID] by (auto simp: set_eq_iff)
    have "cloneSyncJob (claim_job now w lockFor j) = claim_job now w lockFor j"
      by (rule cloneSyncJob_stored [OF inv j]) simp
    with Cons assms(2) j show ?thesis by (simp add: store_defs Let_def)
  qed (use assms(2) in \<open>simp add: store_defs\<close>)
qed

section \<open>What the owner's transitions and the operator actions do\<close>

lemma updateOwned_cases:
  "updateOwned ctx now i w tr fn s =
     (case ctx of Some e \<Rightarrow> (Some e, s) | None \<Rightarrow>
      (case map_of (js_jobs s) i of
         None \<Rightarrow> (Some ErrJobNotFound, s)
       | Some j \<Rightarrow>
           if jobLeaseOwned j now w
           then (None, observe [ObserveLeaseOwnershipCheck tr LeaseTelemetryOwnershipOwned]
                  (set_job i ((fn j now)\<lparr>j_UpdatedAt := now\<rparr>) s))
           else (Some ErrJobLeaseNotOwned,
                 observe [ObserveLeaseOwnershipCheck tr LeaseTelemetryOwnershipRejected] s)))"
  by (simp add: updateOwned_def split: option.split)

lemma updateOwned_inv [inv_intros]:
  assumes "job_store_inv s" and "\<And>j. job_frame (fn j now) = job_frame j"
  shows "job_store_inv (snd (updateOwned ctx now i w tr fn s))"
  using assms
  by (auto simp: updateOwned_cases observe_inv split: option.split intro!: set_job_inv)

lemma owner_transitions_inv [inv_intros]:
  assumes "job_store_inv s"
  shows "job_store_inv (snd (MarkSynced ctx now i w g s))"
    and "job_store_inv (snd (MarkRetrying ctx now i w e t s))"
    and "job_store_inv (snd (RequeueClaimed ctx now i w e t s))"
    and "job_store_inv (snd (MarkDead ctx now i w e s))"
    and "job_store_inv (snd (RenewLease ctx now i w l s))"
  using assms
  by (auto simp: store_defs observe_inv split_def Let_def split: option.split intro!: updateOwned_inv)

lemma operator_actions_inv [inv_intros]:
  assumes "job_store_inv s"
  shows "job_store_inv (snd (ForceReleaseExpiredLease ctx now i r s))"
    and "job_store_inv (snd (RequeueExpiredLease ctx now i t r s))"
  using assms
  by (auto simp: store_defs Let_def split: option.split intro!: set_job_inv)

lemma claims_inv [inv_intros]:
  assumes "job_store_inv s"
  shows "job_store_inv (snd (ClaimNextBatch ctx now syncID w limit l s))"
    and "job_store_inv (snd (ClaimNext ctx now syncID w l s))"
proof -
  show batch: "job_store_inv (snd (ClaimNextBatch ctx now syncID w limit l s))" for limit
  proof (cases "ctx = None \<and> 0 < l \<and> 0 < limit")
    case True
    then show ?thesis using ClaimNextBatch_effect(3) [OF assms, of l limit now syncID w]
      by (metis prod.collapse)
  qed (use assms in \<open>auto simp: ClaimNextBatch_def observe_inv split: option.split\<close>)
  show "job_store_inv (snd (ClaimNext ctx now syncID w l s))"
  proof (cases "ctx = None \<and> 0 < l")
    case True
    then show ?thesis using ClaimNext_effect(2) [OF assms] batch by simp
  qed (use assms in \<open>auto simp: ClaimNext_def observe_inv split: option.split\<close>)
qed

section \<open>The life cycle of one job\<close>

text \<open>
  The abstract job: the phase it is in and the attempts it has used. \<open>Leased\<close> carries the
  owner and the end of the lease, \<open>Orphaned\<close> is a processing job whose lease has no end.
\<close>

datatype phase = Waiting time | Leased "string option" time | Orphaned | Finished | Failed | Other string

datatype abs_job = AbsJob (aj_phase: phase) (aj_attempts: int)

definition phase_of :: "sync_job \<Rightarrow> phase" where
  "phase_of j =
     (if j_State j = StatePending \<or> j_State j = StateRetrying then Waiting (j_AvailableAt j)
      else if j_State j = StateProcessing then
        (case j_LockedUntil j of None \<Rightarrow> Orphaned | Some u \<Rightarrow> Leased (j_LockedBy j) u)
      else if j_State j = StateSynced then Finished
      else if j_State j = StateDead then Failed
      else Other (j_State j))"

definition abs_job :: "sync_job \<Rightarrow> abs_job" where
  "abs_job j = AbsJob (phase_of j) (j_AttemptCount j)"

datatype action =
    Claim string duration
  | Renew string duration
  | Finish string
  | Retry string time
  | Requeue string time
  | Kill string
  | Release
  | Reschedule time

inductive lifecycle :: "time \<Rightarrow> action \<Rightarrow> abs_job \<Rightarrow> abs_job \<Rightarrow> bool" where
  claim: "t \<le> now \<Longrightarrow> 0 < l \<Longrightarrow> lifecycle now (Claim w l) (AbsJob (Waiting t) n) (AbsJob (Leased (Some w) (now + l)) n)"
| reclaim: "u \<le> now \<Longrightarrow> 0 < l \<Longrightarrow> lifecycle now (Claim w l) (AbsJob (Leased v u) n) (AbsJob (Leased (Some w) (now + l)) n)"
| adopt: "0 < l \<Longrightarrow> lifecycle now (Claim w l) (AbsJob Orphaned n) (AbsJob (Leased (Some w) (now + l)) n)"
| renew: "now < u \<Longrightarrow> 0 < l \<Longrightarrow> lifecycle now (Renew w l) (AbsJob (Leased (Some w) u) n) (AbsJob (Leased (Some w) (now + l)) n)"
| finish: "now < u \<Longrightarrow> lifecycle now (Finish w) (AbsJob (Leased (Some w) u) n) (AbsJob Finished n)"
| retry: "now < u \<Longrightarrow> lifecycle now (Retry w t) (AbsJob (Leased (Some w) u) n) (AbsJob (Waiting t) (n + 1))"
| requeue: "now < u \<Longrightarrow> lifecycle now (Requeue w t) (AbsJob (Leased (Some w) u) n) (AbsJob (Waiting t) n)"
| kill: "now < u \<Longrightarrow> lifecycle now (Kill w) (AbsJob (Leased (Some w) u) n) (AbsJob Failed (n + 1))"
| release: "u \<le> now \<Longrightarrow> lifecycle now Release (AbsJob (Leased v u) n) (AbsJob Orphaned n)"
| release_orphan: "lifecycle now Release (AbsJob Orphaned n) (AbsJob Orphaned n)"
| reschedule: "u \<le> now \<Longrightarrow> lifecycle now (Reschedule t) (AbsJob (Leased v u) n) (AbsJob (Waiting t) n)"
| reschedule_orphan: "lifecycle now (Reschedule t) (AbsJob Orphaned n) (AbsJob (Waiting t) n)"

code_pred lifecycle .

inductive_cases lifecycle_LeasedE: "lifecycle now a (AbsJob (Leased p u) n) y"
inductive_cases lifecycle_finalE:
  "lifecycle now a (AbsJob Finished n) y" "lifecycle now a (AbsJob Failed n) y"
  "lifecycle now a (AbsJob (Other q) n) y"
inductive_simps lifecycle_simps:
  "lifecycle now (Claim w l) (AbsJob p n) y" "lifecycle now (Renew w l) (AbsJob p n) y"
  "lifecycle now (Finish w) (AbsJob p n) y" "lifecycle now (Retry w t) (AbsJob p n) y"
  "lifecycle now (Requeue w t) (AbsJob p n) y" "lifecycle now (Kill w) (AbsJob p n) y"
  "lifecycle now Release (AbsJob p n) y" "lifecycle now (Reschedule t) (AbsJob p n) y"

fun action_worker :: "action \<Rightarrow> string option" where
  "action_worker (Claim w l) = Some w"
| "action_worker (Renew w l) = Some w"
| "action_worker (Finish w) = Some w"
| "action_worker (Retry w t) = Some w"
| "action_worker (Requeue w t) = Some w"
| "action_worker (Kill w) = Some w"
| "action_worker Release = None"
| "action_worker (Reschedule t) = None"

text \<open>The guards of the code, read off the phase, and the phases its updates lead to.\<close>

lemma jobLeaseOwned_phase:
  "jobLeaseOwned j now w \<longleftrightarrow> (\<exists>u. phase_of j = Leased (Some w) u \<and> now < u)"
  by (auto simp: jobLeaseOwned_def phase_of_def split: option.splits)

lemma claimableJob_phase:
  "claimableJob j now syncID \<longleftrightarrow> j_SyncID j = syncID \<and>
     (case phase_of j of Waiting t \<Rightarrow> t \<le> now | Leased v u \<Rightarrow> u \<le> now | Orphaned \<Rightarrow> True
      | _ \<Rightarrow> False)"
  by (auto simp: claimableJob_def phase_of_def lease_over_def split: option.splits)

lemma expired_phase:
  "j_State j = StateProcessing \<and> lease_over now j \<longleftrightarrow>
     phase_of j = Orphaned \<or> (\<exists>v u. phase_of j = Leased v u \<and> u \<le> now)"
  by (auto simp: phase_of_def lease_over_def split: option.splits)

lemma abs_job_touch [simp]: "abs_job (j\<lparr>j_UpdatedAt := now\<rparr>) = abs_job j"
  by (simp add: abs_job_def phase_of_def split: option.split)

lemma abs_job_changes:
  "abs_job (claim_job now w l j) = AbsJob (Leased (Some w) (now + l)) (j_AttemptCount j)"
  "abs_job (sync_job_done g j now) = AbsJob Finished (j_AttemptCount j)"
  "abs_job (retry_job e t j now) = AbsJob (Waiting t) (j_AttemptCount j + 1)"
  "abs_job (requeue_job e t j now) = AbsJob (Waiting t) (j_AttemptCount j)"
  "abs_job (kill_job e j now) = AbsJob Failed (j_AttemptCount j + 1)"
  "abs_job (requeue_expired_job r t now j) = AbsJob (Waiting t) (j_AttemptCount j)"
  by (simp_all add: abs_job_def phase_of_def claim_job_def sync_job_done_def retry_job_def
      requeue_job_def kill_job_def requeue_expired_job_def clearJobLock_def)

lemma abs_job_renew:
  "phase_of j = Leased v u \<Longrightarrow>
   abs_job (renew_job l j now) = AbsJob (Leased v (now + l)) (j_AttemptCount j)"
  by (auto simp: abs_job_def phase_of_def renew_job_def split: if_splits option.splits)

lemma abs_job_release:
  "j_State j = StateProcessing \<Longrightarrow>
   abs_job (force_release_job r now j) = AbsJob Orphaned (j_AttemptCount j)"
  by (simp add: abs_job_def phase_of_def force_release_job_def clearJobLock_def)

text \<open>One operation moves a job along its life cycle, by one action of its caller, or leaves it alone.\<close>

definition follows :: "time \<Rightarrow> string option \<Rightarrow> sync_job \<Rightarrow> sync_job \<Rightarrow> bool" where
  "follows now w j j' \<longleftrightarrow> j' = j \<or>
     job_frame j' = job_frame j
     \<and> (\<exists>a. action_worker a = w \<and> lifecycle now a (abs_job j) (abs_job j'))"

lemma follows_refl [simp]: "follows now w j j"
  by (simp add: follows_def)

lemma followsI:
  "job_frame j' = job_frame j \<Longrightarrow> action_worker a = w \<Longrightarrow> lifecycle now a (abs_job j) (abs_job j') \<Longrightarrow>
   follows now w j j'"
  by (auto simp: follows_def)

lemma follows_claim:
  assumes "claimableJob j now syncID" and "0 < l"
  shows "follows now (Some w) j (claim_job now w l j)"
proof (rule followsI)
  show "lifecycle now (Claim w l) (abs_job j) (abs_job (claim_job now w l j))"
    using assms unfolding abs_job_changes
    by (auto simp: claimableJob_phase abs_job_def lifecycle_simps split: phase.splits)
qed simp_all

lemma follows_owned:
  assumes "jobLeaseOwned j now w"
  shows "follows now (Some w) j ((sync_job_done g j now)\<lparr>j_UpdatedAt := now\<rparr>)"
    and "follows now (Some w) j ((retry_job e t j now)\<lparr>j_UpdatedAt := now\<rparr>)"
    and "follows now (Some w) j ((requeue_job e t j now)\<lparr>j_UpdatedAt := now\<rparr>)"
    and "follows now (Some w) j ((kill_job e j now)\<lparr>j_UpdatedAt := now\<rparr>)"
    and "0 < l \<Longrightarrow> follows now (Some w) j ((renew_job l j now)\<lparr>j_UpdatedAt := now\<rparr>)"
proof -
  obtain u where u: "phase_of j = Leased (Some w) u" "now < u"
    using assms by (auto simp: jobLeaseOwned_phase)
  have step: "lifecycle now a (abs_job j) y \<longleftrightarrow>
      lifecycle now a (AbsJob (Leased (Some w) u) (j_AttemptCount j)) y" for a y
    by (simp add: abs_job_def u)
  show "follows now (Some w) j ((sync_job_done g j now)\<lparr>j_UpdatedAt := now\<rparr>)"
    by (rule followsI [of _ _ "Finish w"]) (simp_all add: step abs_job_changes lifecycle_simps u)
  show "follows now (Some w) j ((retry_job e t j now)\<lparr>j_UpdatedAt := now\<rparr>)"
    by (rule followsI [of _ _ "Retry w t"]) (simp_all add: step abs_job_changes lifecycle_simps u)
  show "follows now (Some w) j ((requeue_job e t j now)\<lparr>j_UpdatedAt := now\<rparr>)"
    by (rule followsI [of _ _ "Requeue w t"]) (simp_all add: step abs_job_changes lifecycle_simps u)
  show "follows now (Some w) j ((kill_job e j now)\<lparr>j_UpdatedAt := now\<rparr>)"
    by (rule followsI [of _ _ "Kill w"]) (simp_all add: step abs_job_changes lifecycle_simps u)
  show "follows now (Some w) j ((renew_job l j now)\<lparr>j_UpdatedAt := now\<rparr>)" if "0 < l"
    by (rule followsI [of _ _ "Renew w l"])
      (simp_all add: step abs_job_renew [OF u(1)] lifecycle_simps u that)
qed

lemma follows_expired:
  assumes "j_State j = StateProcessing" and "lease_over now j"
  shows "follows now None j (force_release_job r now j)"
    and "follows now None j (requeue_expired_job r t now j)"
proof -
  have phase: "phase_of j = Orphaned \<or> (\<exists>v u. phase_of j = Leased v u \<and> u \<le> now)"
    using assms expired_phase by blast
  show "follows now None j (force_release_job r now j)"
    unfolding follows_def abs_job_release [OF assms(1)]
    using phase by (auto simp: abs_job_def lifecycle_simps intro!: exI [of _ Release])
  show "follows now None j (requeue_expired_job r t now j)"
    unfolding follows_def abs_job_changes
    using phase by (auto simp: abs_job_def lifecycle_simps intro!: exI [of _ "Reschedule t"])
qed

section \<open>Every operation follows the life cycle\<close>

datatype job_op =
    Op_Create sync_job
  | Op_ClaimNext SyncID string duration
  | Op_ClaimNextBatch SyncID string int duration
  | Op_RenewLease SyncJobID string duration
  | Op_MarkSynced SyncJobID string bool
  | Op_MarkRetrying SyncJobID string "error option" time
  | Op_RequeueClaimed SyncJobID string "error option" time
  | Op_MarkDead SyncJobID string "error option"
  | Op_ForceReleaseExpiredLease SyncJobID string
  | Op_RequeueExpiredLease SyncJobID time string

fun op_worker :: "job_op \<Rightarrow> string option" where
  "op_worker (Op_ClaimNext syncID w l) = Some w"
| "op_worker (Op_ClaimNextBatch syncID w limit l) = Some w"
| "op_worker (Op_RenewLease i w l) = Some w"
| "op_worker (Op_MarkSynced i w g) = Some w"
| "op_worker (Op_MarkRetrying i w e t) = Some w"
| "op_worker (Op_RequeueClaimed i w e t) = Some w"
| "op_worker (Op_MarkDead i w e) = Some w"
| "op_worker _ = None"

fun job_exec :: "ctx \<Rightarrow> time \<Rightarrow> job_op \<Rightarrow> job_memory_store \<Rightarrow> job_memory_store" where
  "job_exec ctx now (Op_Create j) s = snd (job_Create ctx now j s)"
| "job_exec ctx now (Op_ClaimNext syncID w l) s = snd (ClaimNext ctx now syncID w l s)"
| "job_exec ctx now (Op_ClaimNextBatch syncID w limit l) s = snd (ClaimNextBatch ctx now syncID w limit l s)"
| "job_exec ctx now (Op_RenewLease i w l) s = snd (RenewLease ctx now i w l s)"
| "job_exec ctx now (Op_MarkSynced i w g) s = snd (MarkSynced ctx now i w g s)"
| "job_exec ctx now (Op_MarkRetrying i w e t) s = snd (MarkRetrying ctx now i w e t s)"
| "job_exec ctx now (Op_RequeueClaimed i w e t) s = snd (RequeueClaimed ctx now i w e t s)"
| "job_exec ctx now (Op_MarkDead i w e) s = snd (MarkDead ctx now i w e s)"
| "job_exec ctx now (Op_ForceReleaseExpiredLease i r) s = snd (ForceReleaseExpiredLease ctx now i r s)"
| "job_exec ctx now (Op_RequeueExpiredLease i t r) s = snd (RequeueExpiredLease ctx now i t r s)"

lemma job_exec_inv [inv_intros]: "job_store_inv s \<Longrightarrow> job_store_inv (job_exec ctx now op s)"
  by (cases op) (simp_all add: inv_intros)

lemma updateOwned_follows:
  assumes "map_of (js_jobs s) i = Some j"
    and "\<And>k. jobLeaseOwned k now w \<Longrightarrow> follows now (Some w) k ((fn k now)\<lparr>j_UpdatedAt := now\<rparr>)"
  shows "\<exists>j'. map_of (js_jobs (snd (updateOwned ctx now i' w tr fn s))) i = Some j'
    \<and> follows now (Some w) j j'"
  using assms by (auto simp: updateOwned_cases split: option.split)

lemma ClaimNextBatch_follows:
  assumes inv: "job_store_inv s" and j: "map_of (js_jobs s) i = Some j"
  shows "\<exists>j'. map_of (js_jobs (snd (ClaimNextBatch ctx now syncID w limit l s))) i = Some j'
    \<and> follows now (Some w) j j'"
proof (cases "ctx = None \<and> 0 < l \<and> 0 < limit")
  case True
  then have live: "ctx = None" "0 < l" "0 < limit" by simp_all
  obtain r s' where run: "ClaimNextBatch None now syncID w limit l s = (r, s')"
    by (metis prod.exhaust)
  note jobs = ClaimNextBatch_effect(2) [OF inv live(2,3) run]
  show ?thesis
  proof (cases "i \<in> set (batch_ids now syncID limit s)")
    case True
    with batch_ids_claimable [OF inv True] j live run jobs show ?thesis
      by (auto intro: follows_claim)
  qed (use j live run jobs in simp)
qed (use j in \<open>auto simp: store_defs split: option.split\<close>)

lemma Create_keeps:
  assumes inv: "job_store_inv s" and j: "map_of (js_jobs s) i = Some j"
  shows "map_of (js_jobs (snd (job_Create ctx now k s))) i = Some j"
proof (cases "ctx = None \<and> j_ID k = []")
  case True
  moreover have "i \<noteq> job_id (Suc (js_nextID s))"
    using job_store_inv_unused [OF inv, of "Suc (js_nextID s)"] j by auto
  ultimately show ?thesis
    using j createLocked_refused [of k s] createLocked_new [OF inv, of k]
    by (cases "create_refused k s") (auto simp: store_defs add_job_def)
qed (use j in \<open>auto simp: store_defs split: option.split\<close>)

lemma job_exec_follows:
  assumes inv: "job_store_inv s" and j: "map_of (js_jobs s) i = Some j"
  shows "\<exists>j'. map_of (js_jobs (job_exec ctx now op s)) i = Some j' \<and> follows now (op_worker op) j j'"
proof (cases op)
  case (Op_Create k)
  then show ?thesis using Create_keeps [OF assms] by simp
next
  case (Op_ClaimNext syncID w l)
  show ?thesis
  proof (cases "ctx = None \<and> 0 < l")
    case True
    then show ?thesis
      using ClaimNextBatch_follows [OF assms, of None] ClaimNext_effect(2) [OF inv] Op_ClaimNext
      by simp
  qed (use j Op_ClaimNext in \<open>auto simp: store_defs split: option.split\<close>)
next
  case (Op_RenewLease k w l)
  then show ?thesis
    using updateOwned_follows [OF j, of now w "renew_job l" None k] follows_owned(5) j
    by (auto simp: store_defs split_def Let_def split: option.split)
qed (use ClaimNextBatch_follows [OF assms] updateOwned_follows [OF j] follows_owned
      follows_expired j in \<open>auto simp: store_defs Let_def split: option.split\<close>)

section \<open>Runs of the store\<close>

text \<open>
  A run: the calls that reach the store, in the order in which they take the mutex, with
  the context and the clock reading of each; the clock does not go back.
\<close>

inductive store_steps ::
    "time \<Rightarrow> job_memory_store \<Rightarrow> (ctx \<times> time \<times> job_op) list \<Rightarrow> time \<Rightarrow> job_memory_store \<Rightarrow> bool"
where
  stop: "store_steps t s [] t s"
| call: "t \<le> now \<Longrightarrow> store_steps now (job_exec ctx now op s) calls t' s' \<Longrightarrow>
    store_steps t s ((ctx, now, op) # calls) t' s'"

code_pred store_steps .

inductive_simps store_steps_simps:
  "store_steps t s [] t' s'" "store_steps t s (call # calls) t' s'"

lemma store_steps_inv [inv_intros]:
  "store_steps t s calls t' s' \<Longrightarrow> job_store_inv s \<Longrightarrow> job_store_inv s'"
  by (induction rule: store_steps.induct) (simp_all add: job_exec_inv)

lemma store_steps_job:
  assumes "store_steps t s calls t' s'" and "job_store_inv s" and "map_of (js_jobs s) i = Some j"
  shows "\<exists>j'. map_of (js_jobs s') i = Some j' \<and> job_frame j' = job_frame j"
  using assms
proof (induction arbitrary: j rule: store_steps.induct)
  case (call t now ctx op s calls t' s')
  from job_exec_follows [OF call.prems, of ctx now op]
  obtain k where k: "map_of (js_jobs (job_exec ctx now op s)) i = Some k"
    and "follows now (op_worker op) j k" by blast
  then have "job_frame k = job_frame j" by (auto simp: follows_def)
  with call.IH [OF job_exec_inv [OF call.prems(1)] k] show ?case by simp
qed simp

text \<open>The lease of a worker stands while only others act and its end is not reached.\<close>

lemma follows_leased:
  assumes "follows now w' j j'" and "phase_of j = Leased (Some w) u" "now < u" "w' \<noteq> Some w"
  shows "j' = j"
  using assms(1) unfolding follows_def
proof (elim disjE conjE exE)
  fix a
  assume "action_worker a = w'" and "lifecycle now a (abs_job j) (abs_job j')"
  then show "j' = j" using assms(2-4)
    by (auto simp: abs_job_def elim!: lifecycle_LeasedE)
qed simp

lemma follows_final:
  assumes "follows now w j j'" and "phase_of j = Finished \<or> phase_of j = Failed"
  shows "j' = j"
  using assms(1) unfolding follows_def
proof (elim disjE conjE exE)
  fix a
  assume "lifecycle now a (abs_job j) (abs_job j')"
  then show "j' = j" using assms(2) by (auto simp: abs_job_def elim: lifecycle_finalE)
qed simp

lemma lease_stands:
  assumes "store_steps t s calls t' s'" and "job_store_inv s" and "map_of (js_jobs s) i = Some j"
    and "phase_of j = Leased (Some w) u"
    and "\<forall>(ctx, now, op) \<in> set calls. now < u \<and> op_worker op \<noteq> Some w"
  shows "map_of (js_jobs s') i = Some j"
  using assms
proof (induction rule: store_steps.induct)
  case (call t now ctx op s calls t' s')
  from job_exec_follows [OF call.prems(1,2), of ctx now op]
  obtain k where k: "map_of (js_jobs (job_exec ctx now op s)) i = Some k"
    and follows: "follows now (op_worker op) j k" by blast
  have "k = j" using follows_leased [OF follows call.prems(3)] call.prems(4) by simp
  then show ?case
    using call.IH [OF job_exec_inv [OF call.prems(1)] _ call.prems(3)] call.prems(4) k by simp
qed simp

text \<open>Attempts grow by at most one per finalising call.\<close>

lemma lifecycle_attempts:
  "lifecycle now a x y \<Longrightarrow> aj_attempts y = aj_attempts x +
     (case a of Retry w t \<Rightarrow> 1 | Kill w \<Rightarrow> 1 | _ \<Rightarrow> 0)"
  by (induction rule: lifecycle.induct) simp_all

section \<open>Sample stores\<close>

lemma sample_key_clone [simp]: "cloneProjectionKey sample_key = sample_key"
  by (rule projectionKeyHash_clone [OF sample_key_hash])

definition sample_created :: sync_job where
  "sample_created = default_job 7 (sample_job\<lparr>j_ID := job_id 1\<rparr>)"

definition sample_job_store :: job_memory_store where
  "sample_job_store = snd (job_Create None 7 sample_job NewJobMemoryStore)"

lemma sample_job_sel [simp]:
  "j_ID sample_job = []" "j_Origin sample_job = JobOriginManual" "j_SyncID sample_job = ''contacts''"
  "j_DeltaID sample_job = None" "j_State sample_job = []" "j_AvailableAt sample_job = 0"
  "j_CreatedAt sample_job = 0" "j_AttemptCount sample_job = 0" "j_MaxAttempts sample_job = 0"
  "j_ProjectionKey sample_job = sample_key"
  by (simp_all add: sample_job_def)

lemma manual_not_outbox [simp]: "JobOriginManual \<noteq> JobOriginOutbox"
  by (simp add: const_defs)

lemma sample_created_sel [simp]:
  "j_ID sample_created = job_id 1" "j_SyncID sample_created = ''contacts''"
  "j_State sample_created = StatePending" "j_AvailableAt sample_created = 7"
  "j_AttemptCount sample_created = 0" "j_MaxAttempts sample_created = 5"
  "phase_of sample_created = Waiting 7" "cloneSyncJob sample_created = sample_created"
proof -
  show "cloneSyncJob sample_created = sample_created"
    by (rule cloneSyncJob_copied) (simp add: sample_created_def)
qed (simp_all add: sample_created_def phase_of_def)

lemma sample_created_eq: "default_job 7 (sample_job\<lparr>j_ID := job_id (Suc 0)\<rparr>) = sample_created"
  by (simp add: sample_created_def)

lemma sample_create: "job_Create None 7 sample_job NewJobMemoryStore = (Inr sample_created, sample_job_store)"
  unfolding sample_job_store_def
  by (simp add: store_defs createLocked_new [OF NewJobMemoryStore_inv] create_refused_def)
    (simp add: NewJobMemoryStore_def sample_created_eq)

lemma sample_job_store_inv: "job_store_inv sample_job_store"
  unfolding sample_job_store_def by (rule job_Create_inv [OF NewJobMemoryStore_inv])

lemma sample_job_store_jobs: "js_jobs sample_job_store = [(job_id 1, sample_created)]"
  unfolding sample_job_store_def
  by (simp add: store_defs createLocked_new [OF NewJobMemoryStore_inv] create_refused_def add_job_def)
    (simp add: NewJobMemoryStore_def sample_created_eq)

text \<open>The sample job leased by worker w until 17.\<close>

definition sample_leased :: sync_job where
  "sample_leased = claim_job 10 ''w'' 7 sample_created"

definition sample_leased_store :: job_memory_store where
  "sample_leased_store = snd (ClaimNext None 10 ''contacts'' ''w'' 7 sample_job_store)"

lemma sample_claimable: "claimableJobIDsLocked 10 ''contacts'' sample_job_store = [job_id 1]"
  by (simp add: claimableJobIDsLocked_def sample_job_store_jobs claimableJob_phase)

lemma sample_claim:
  "ClaimNext None 10 ''contacts'' ''w'' 7 sample_job_store = (Inr (Some sample_leased), sample_leased_store)"
  using ClaimNext_effect(1) [OF sample_job_store_inv, of 7 10 "''contacts''" "''w''"]
  by (simp add: sample_claimable sample_leased_store_def sample_leased_def sample_job_store_jobs
      prod_eq_iff)

lemma sample_leased_store_inv: "job_store_inv sample_leased_store"
  unfolding sample_leased_store_def by (rule claims_inv(2) [OF sample_job_store_inv])

lemma sample_leased_store_jobs: "map_of (js_jobs sample_leased_store) = [job_id 1 \<mapsto> sample_leased]"
  by (simp add: sample_leased_store_def store_defs sample_claimable sample_job_store_jobs
      sample_leased_def Let_def)

lemma sample_leased_phase [simp]: "phase_of sample_leased = Leased (Some ''w'') 17"
  by (simp add: sample_leased_def claim_job_def phase_of_def)

end
