(* ===== verification/DF_JobSpec.thy ===== *)
theory DF_JobSpec
  imports DF_JobMemory
begin

text \<open>
  What the in-memory job store promises: its operations against the life cycle of a job, the
  order and the exclusiveness of claims, the rejection of stale owners, the counting of
  attempts, the operator actions and the lease queries.
\<close>

section \<open>Refinement of the life cycle\<close>

text \<open>
  C22: Every operation of the store, whatever its arguments and context, moves each stored
  job along its life cycle by one action of the calling worker, within its frame, or leaves
  the job exactly as it was.
\<close>

theorem store_follows_lifecycle:
  assumes "job_store_inv s" and "map_of (js_jobs s) i = Some j"
  shows "\<exists>j'. map_of (js_jobs (job_exec ctx now op s)) i = Some j' \<and>
    (j' = j \<or> job_frame j' = job_frame j
       \<and> (\<exists>a. action_worker a = op_worker op \<and> lifecycle now a (abs_job j) (abs_job j')))"
  using job_exec_follows [OF assms] by (simp add: follows_def)

theorem store_follows_lifecycle_witness:
  "\<exists>j'. map_of (js_jobs (job_exec None 10 (Op_ClaimNext ''contacts'' ''w'' 7) sample_job_store)) (job_id 1)
      = Some j' \<and> abs_job j' = AbsJob (Leased (Some ''w'') 17) 0"
  using store_follows_lifecycle [OF sample_job_store_inv, of "job_id 1" sample_created None 10
      "Op_ClaimNext ''contacts'' ''w'' 7"]
  by (auto simp: sample_job_store_jobs sample_leased_store_jobs abs_job_def sample_leased_def
      claim_job_def phase_of_def simp flip: sample_leased_store_def)

text \<open>
  C2: A lease is exclusive. From the moment a worker holds a job until the end of its
  lease, any sequence of calls by other workers, operators and producers leaves the job
  untouched, and the worker can still record the outcome.
\<close>

theorem lease_is_exclusive:
  assumes "store_steps t s calls t' s'" and "job_store_inv s"
    and "map_of (js_jobs s) i = Some j" and "jobLeaseOwned j t w"
    and "\<forall>(ctx, now, op) \<in> set calls. now < the (j_LockedUntil j) \<and> op_worker op \<noteq> Some w"
    and "t' \<le> now" and "now < the (j_LockedUntil j)"
  shows "map_of (js_jobs s') i = Some j \<and> fst (MarkSynced None now i w ghost s') = None
    \<and> fst (RenewLease None now i w 1 s') = None"
proof -
  obtain u where u: "phase_of j = Leased (Some w) u" "j_LockedUntil j = Some u"
    using assms(4) by (auto simp: jobLeaseOwned_def phase_of_def split: option.splits if_splits)
  have kept: "map_of (js_jobs s') i = Some j"
    using lease_stands [OF assms(1-3) u(1)] assms(5) u(2) by simp
  moreover have "jobLeaseOwned j now w"
    using assms(7) u by (simp add: jobLeaseOwned_phase)
  ultimately show ?thesis
    by (simp add: store_defs updateOwned_cases Let_def)
qed

theorem lease_is_exclusive_witness:
  "fst (MarkSynced None 15 (job_id 1) ''w'' True
     (job_exec None 14 (Op_ClaimNext ''contacts'' ''thief'' 7) sample_leased_store)) = None"
proof -
  have owned: "jobLeaseOwned sample_leased 10 ''w''" by (simp add: jobLeaseOwned_phase)
  have stored: "map_of (js_jobs sample_leased_store) (job_id 1) = Some sample_leased"
    by (simp add: sample_leased_store_jobs)
  have until: "j_LockedUntil sample_leased = Some 17" by (simp add: sample_leased_def claim_job_def)
  have run: "store_steps 10 sample_leased_store
      [(None, 14, Op_ClaimNext ''contacts'' ''thief'' 7)] 14
      (job_exec None 14 (Op_ClaimNext ''contacts'' ''thief'' 7) sample_leased_store)"
    by (simp add: store_steps_simps)
  show ?thesis
    using lease_is_exclusive [OF run sample_leased_store_inv stored owned, of 15 True] until by simp
qed

text \<open>
  Synced and dead are final: no sequence of calls changes such a job again.
\<close>

theorem final_jobs_stay:
  assumes "store_steps t s calls t' s'" and "job_store_inv s"
    and "map_of (js_jobs s) i = Some j" and "j_State j = StateSynced \<or> j_State j = StateDead"
  shows "map_of (js_jobs s') i = Some j"
proof -
  have "phase_of j = Finished \<or> phase_of j = Failed" using assms(4) by (auto simp: phase_of_def)
  with assms(1-3) show ?thesis
  proof (induction rule: store_steps.induct)
    case (call t now ctx op s calls t' s')
    obtain k where "map_of (js_jobs (job_exec ctx now op s)) i = Some k"
      and "follows now (op_worker op) j k"
      using job_exec_follows [OF call.prems(1,2)] by blast
    with call.IH [OF job_exec_inv [OF call.prems(1)]] call.prems(3) follows_final show ?case by blast
  qed simp
qed

theorem final_jobs_stay_witness:
  "let s = snd (MarkDead None 11 (job_id 1) ''w'' None sample_leased_store);
       j = (kill_job None sample_leased 11)\<lparr>j_UpdatedAt := 11\<rparr>
   in map_of (js_jobs (job_exec None 12 (Op_ClaimNext ''contacts'' ''w'' 7) s)) (job_id 1) = Some j"
proof -
  let ?s = "snd (MarkDead None 11 (job_id 1) ''w'' None sample_leased_store)"
  let ?j = "(kill_job None sample_leased 11)\<lparr>j_UpdatedAt := 11\<rparr>"
  have "jobLeaseOwned sample_leased 11 ''w''" by (simp add: jobLeaseOwned_phase)
  then have stored: "map_of (js_jobs ?s) (job_id 1) = Some ?j"
    by (simp add: store_defs updateOwned_cases sample_leased_store_jobs)
  have inv: "job_store_inv ?s" by (rule owner_transitions_inv [OF sample_leased_store_inv])
  have dead: "j_State ?j = StateSynced \<or> j_State ?j = StateDead"
    by (simp add: kill_job_def clearJobLock_def)
  have run: "store_steps 11 ?s [(None, 12, Op_ClaimNext ''contacts'' ''w'' 7)] 12
      (job_exec None 12 (Op_ClaimNext ''contacts'' ''w'' 7) ?s)"
    by (simp add: store_steps_simps)
  show ?thesis unfolding Let_def by (rule final_jobs_stay [OF run inv stored dead])
qed

section \<open>Claims\<close>

text \<open>
  ClaimNext hands out the claimable job of the sync that is first by availability,
  creation and identifier, leased to the caller until now plus the lock duration, and
  changes no other job; it answers with nothing exactly when no job is claimable.
\<close>

theorem claim_next_takes_first:
  fixes now :: time and syncID :: SyncID and s :: job_memory_store
  assumes "job_store_inv s" and "0 < lockFor"
  defines "claimable \<equiv> {j. map_of (js_jobs s) (j_ID j) = Some j \<and> claimableJob j now syncID}"
  shows "(claimable = {} \<and> fst (ClaimNext None now syncID w lockFor s) = Inr None
      \<and> js_jobs (snd (ClaimNext None now syncID w lockFor s)) = js_jobs s)
    \<or> (\<exists>j \<in> claimable. (\<forall>k \<in> claimable. job_order j \<le> job_order k)
      \<and> fst (ClaimNext None now syncID w lockFor s) = Inr (Some (claim_job now w lockFor j))
      \<and> map_of (js_jobs (snd (ClaimNext None now syncID w lockFor s)))
          = (map_of (js_jobs s))(j_ID j \<mapsto> claim_job now w lockFor j))"
proof -
  let ?ids = "claimableJobIDsLocked now syncID s"
  note set_ids = set_claimable_ids [OF assms(1), of now syncID]
  have stored: "job_at (js_jobs s) i \<in> claimable \<and> j_ID (job_at (js_jobs s) i) = i"
    if "i \<in> set ?ids" for i
    using that set_ids job_store_inv_ID [OF assms(1)] by (auto simp: claimable_def)
  have listed: "j_ID k \<in> set ?ids \<and> job_at (js_jobs s) (j_ID k) = k" if "k \<in> claimable" for k
    using that set_ids by (auto simp: claimable_def)
  show ?thesis
  proof (cases ?ids)
    case Nil
    then have "claimable = {}" using listed by auto
    then show ?thesis using Nil assms(2) by (simp add: store_defs)
  next
    case (Cons i "is")
    let ?j = "job_at (js_jobs s) i"
    have j: "?j \<in> claimable" "j_ID ?j = i" using stored [of i] Cons by auto
    have first: "\<forall>k \<in> claimable. job_order ?j \<le> job_order k"
    proof
      fix k
      assume "k \<in> claimable"
      from listed [OF this] have k: "j_ID k \<in> set (i # is)" "job_at (js_jobs s) (j_ID k) = k"
        using Cons by auto
      have "sorted (map (\<lambda>i. job_order (job_at (js_jobs s) i)) ?ids)"
        unfolding claimableJobIDsLocked_def by (rule claim_order.sorted_sort)
      with k Cons show "job_order ?j \<le> job_order k" by auto
    qed
    moreover have "map_of (js_jobs (snd (ClaimNext None now syncID w lockFor s)))
        = (map_of (js_jobs s))(i \<mapsto> claim_job now w lockFor ?j)"
      using Cons assms(2) by (simp add: store_defs Let_def)
    ultimately show ?thesis
      using ClaimNext_effect(1) [OF assms(1,2), of now syncID w] Cons j by auto
  qed
qed

theorem claim_next_takes_first_witness:
  "\<exists>j. fst (ClaimNext None 10 ''contacts'' ''w'' 7 sample_job_store) = Inr (Some (claim_job 10 ''w'' 7 j))"
proof -
  let ?C = "{j. map_of (js_jobs sample_job_store) (j_ID j) = Some j \<and> claimableJob j 10 ''contacts''}"
  have "sample_created \<in> ?C" by (simp add: sample_job_store_jobs claimableJob_phase)
  with claim_next_takes_first [OF sample_job_store_inv, of 7 10 "''contacts''" "''w''"]
  show ?thesis by auto
qed

text \<open>
  C23: ClaimNextBatch answers with distinct jobs, at most as many as asked for, each of
  which was claimable and is now owned by the caller until now plus the lock duration; a
  claimable job is left out only when the limit is reached, and then it comes after every
  job handed out; the other jobs do not change.
\<close>

theorem claim_batch_takes_first:
  assumes "job_store_inv s" and "0 < lockFor" and "0 < limit"
    and "ClaimNextBatch None now syncID w limit lockFor s = (Inr js, s')"
  defines "claimable \<equiv> {j. map_of (js_jobs s) (j_ID j) = Some j \<and> claimableJob j now syncID}"
  shows "\<exists>ks. set ks \<subseteq> claimable \<and> distinct (map j_ID ks) \<and> js = map (claim_job now w lockFor) ks
    \<and> sorted (map job_order ks) \<and> length ks = min (nat limit) (card claimable)
    \<and> (\<forall>j \<in> claimable - set ks. \<forall>k \<in> set ks. job_order k \<le> job_order j)
    \<and> (\<forall>j \<in> set js. map_of (js_jobs s') (j_ID j) = Some j \<and> jobLeaseOwned j now w)
    \<and> (\<forall>i. i \<notin> set (map j_ID ks) \<longrightarrow> map_of (js_jobs s') i = map_of (js_jobs s) i)"
proof -
  let ?ids = "claimableJobIDsLocked now syncID s"
  let ?taken = "batch_ids now syncID limit s"
  define ks where "ks = map (job_at (js_jobs s)) ?taken"
  note set_ids = set_claimable_ids [OF assms(1), of now syncID]
  note eff = ClaimNextBatch_effect [OF assms(1-4)]
  have taken: "?taken = take (nat limit) ?ids"
    using assms(3) by (simp add: batch_ids_def limit_ids_take)
  have stored: "job_at (js_jobs s) i \<in> claimable \<and> j_ID (job_at (js_jobs s) i) = i"
    if "i \<in> set ?ids" for i
    using that set_ids job_store_inv_ID [OF assms(1)] by (auto simp: claimable_def)
  have ids: "map j_ID ks = ?taken"
    using stored by (auto simp: ks_def taken intro!: map_idI dest: in_set_takeD)
  have js: "js = map (claim_job now w lockFor) ks" using eff(1) by (simp add: ks_def o_def)
  have sub: "set ks \<subseteq> claimable" using stored by (auto simp: ks_def taken dest: in_set_takeD)
  have dist: "distinct (map j_ID ks)" using distinct_batch_ids [OF assms(1)] by (simp add: ids)
  have bij: "claimable = job_at (js_jobs s) ` set ?ids"
    using stored set_ids by (force simp: claimable_def image_iff)
  have "inj_on (job_at (js_jobs s)) (set ?ids)" using stored by (metis inj_onI)
  then have card: "card claimable = length ?ids"
    using distinct_claimable_ids [OF assms(1)] by (simp add: bij card_image distinct_card)
  have sorted: "sorted (map job_order ks)"
    using claim_order.sorted_sort [of "js_jobs s"]
    by (simp add: ks_def taken claimableJobIDsLocked_def o_def take_map [symmetric] sorted_wrt_take)
  have rest: "job_order k \<le> job_order j" if j: "j \<in> claimable - set ks" and k: "k \<in> set ks" for j k
  proof -
    obtain i where i: "i \<in> set ?ids" "j = job_at (js_jobs s) i" using j by (auto simp: bij)
    obtain l where l: "l \<in> set ?taken" "k = job_at (js_jobs s) l" using k by (auto simp: ks_def)
    have "i \<notin> set ?taken" using i j by (auto simp: ks_def)
    with i l show ?thesis unfolding taken claimableJobIDsLocked_def set_sort_slice
      by (blast intro: claim_order.left_out_larger)
  qed
  have new: "map_of (js_jobs s') (j_ID k) = Some (claim_job now w lockFor k)" if k: "k \<in> set ks" for k
  proof -
    obtain i where i: "i \<in> set ?taken" "k = job_at (js_jobs s) i" using k by (auto simp: ks_def)
    then have "j_ID k = i" using stored by (auto simp: taken dest: in_set_takeD)
    with i eff(2) show ?thesis by simp
  qed
  have owned: "jobLeaseOwned (claim_job now w lockFor k) now w" for k
    using assms(2) by (simp add: jobLeaseOwned_def claim_job_def)
  have claim_id: "j_ID (claim_job now w lockFor k) = j_ID k" for k by (simp add: claim_job_def)
  have len: "length ks = min (nat limit) (card claimable)" by (simp add: card ks_def taken)
  have leased: "\<forall>j \<in> set js. map_of (js_jobs s') (j_ID j) = Some j \<and> jobLeaseOwned j now w"
    using new owned by (simp add: js claim_id)
  have others: "\<forall>i. i \<notin> set (map j_ID ks) \<longrightarrow> map_of (js_jobs s') i = map_of (js_jobs s) i"
    unfolding ids by (simp add: eff(2))
  show ?thesis
    by (intro exI [of _ ks] conjI) (use sub dist js sorted len rest leased others in blast)+
qed

theorem claim_batch_takes_first_witness:
  "\<exists>js s'. ClaimNextBatch None 10 ''contacts'' ''w'' 3 7 sample_job_store = (Inr js, s')
    \<and> (\<forall>j \<in> set js. map_of (js_jobs s') (j_ID j) = Some j \<and> jobLeaseOwned j 10 ''w'')"
proof -
  obtain r s' where run: "ClaimNextBatch None 10 ''contacts'' ''w'' 3 7 sample_job_store = (r, s')"
    by (metis prod.exhaust)
  moreover obtain js where "r = Inr js"
    using ClaimNextBatch_effect(1) [OF sample_job_store_inv _ _ run] by simp
  ultimately have run: "ClaimNextBatch None 10 ''contacts'' ''w'' 3 7 sample_job_store = (Inr js, s')"
    by simp
  from claim_batch_takes_first [OF sample_job_store_inv _ _ this]
  have "\<forall>j \<in> set js. map_of (js_jobs s') (j_ID j) = Some j \<and> jobLeaseOwned j 10 ''w''" by simp blast
  with run show ?thesis by blast
qed

text \<open>
  Two workers never hold the same job: what one batch claim hands out, no claim of
  another worker hands out again before the lease ends, whatever other workers, producers
  and operators do in between.
\<close>

theorem claims_never_overlap:
  assumes "job_store_inv s" and "0 < l" and "0 < limit" and "0 < l'" and "0 < limit'" and "w' \<noteq> w"
    and "ClaimNextBatch None now syncID w limit l s = (Inr js, s1)"
    and "store_steps now s1 calls t s2"
    and "\<forall>(ctx, t', op) \<in> set calls. t' < now + l \<and> op_worker op \<noteq> Some w"
    and "ClaimNextBatch None now' syncID' w' limit' l' s2 = (Inr js', s3)" and "now' < now + l"
  shows "set (map j_ID js) \<inter> set (map j_ID js') = {}"
proof -
  have inv1: "job_store_inv s1" using ClaimNextBatch_effect(3) [OF assms(1-3,7)] .
  have inv2: "job_store_inv s2" using assms(8) inv1 by (rule store_steps_inv)
  note eff = ClaimNextBatch_effect [OF assms(1-3,7)]
  note eff' = ClaimNextBatch_effect [OF inv2 assms(4,5,10)]
  have "i \<notin> set (batch_ids now' syncID' limit' s2)" if i: "i \<in> set (batch_ids now syncID limit s)" for i
  proof
    assume i': "i \<in> set (batch_ids now' syncID' limit' s2)"
    let ?j = "claim_job now w l (job_at (js_jobs s) i)"
    have "map_of (js_jobs s1) i = Some ?j" using eff(2) i by simp
    moreover have phase: "phase_of ?j = Leased (Some w) (now + l)"
      by (simp add: claim_job_def phase_of_def)
    ultimately have "map_of (js_jobs s2) i = Some ?j"
      using lease_stands [OF assms(8) inv1] assms(9) by simp
    with batch_ids_claimable [OF inv2 i'] have "claimableJob ?j now' syncID'" by simp
    with phase assms(11) show False by (simp add: claimableJob_phase)
  qed
  moreover have "set (map j_ID js) \<subseteq> set (batch_ids now syncID limit s)"
    using eff(1) batch_ids_claimable [OF assms(1)] job_store_inv_ID [OF assms(1)]
    by (fastforce simp: claim_job_def)
  moreover have "set (map j_ID js') \<subseteq> set (batch_ids now' syncID' limit' s2)"
    using eff'(1) batch_ids_claimable [OF inv2] job_store_inv_ID [OF inv2]
    by (fastforce simp: claim_job_def)
  ultimately show ?thesis by blast
qed

theorem claims_never_overlap_witness:
  "let (r, s1) = ClaimNextBatch None 10 ''contacts'' ''w'' 3 7 sample_job_store;
       (r', s3) = ClaimNextBatch None 12 ''contacts'' ''v'' 3 7 s1
   in set (map j_ID (projr r)) \<inter> set (map j_ID (projr r')) = {}"
proof -
  obtain r s1 where run: "ClaimNextBatch None 10 ''contacts'' ''w'' 3 7 sample_job_store = (r, s1)"
    by (metis prod.exhaust)
  note eff = ClaimNextBatch_effect [OF sample_job_store_inv _ _ run]
  obtain r' s3 where run': "ClaimNextBatch None 12 ''contacts'' ''v'' 3 7 s1 = (r', s3)"
    by (metis prod.exhaust)
  have inv1: "job_store_inv s1" using eff(3) by simp
  note eff' = ClaimNextBatch_effect [OF inv1 _ _ run']
  obtain js js' where js: "r = Inr js" "r' = Inr js'" using eff(1) eff'(1) by simp
  show ?thesis
    using claims_never_overlap [OF sample_job_store_inv _ _ _ _ _ run [unfolded js]
        store_steps.stop [of 10 s1] _ run' [unfolded js]]
    by (simp add: run run' js)
qed

section \<open>Creation\<close>

text \<open>
  Create stores a job under an unused identifier with the documented defaults, or
  reports why not and changes nothing: an identifier in the request, an outbox job without
  a delta, and an outbox job for a delta that has one already are refused.
\<close>

theorem create_outcome:
  assumes "job_store_inv s"
  shows "(\<exists>e. job_Create None now job s = (Inl e, s)
      \<and> (j_ID job \<noteq> [] \<and> e = ErrJobIDProvided
        \<or> j_ID job = [] \<and> j_Origin job = JobOriginOutbox
          \<and> (j_DeltaID job = None \<and> e = ErrOutboxJobNeedsDelta
            \<or> (\<exists>d k j. j_DeltaID job = Some d \<and> e = ErrDeltaAlreadyMapped
                 \<and> map_of (js_jobs s) k = Some j \<and> j_Origin j = JobOriginOutbox
                 \<and> j_DeltaID j = Some d))))
    \<or> (\<exists>j s'. job_Create None now job s = (Inr j, s') \<and> map_of (js_jobs s) (j_ID j) = None
      \<and> map_of (js_jobs s') = (map_of (js_jobs s))(j_ID j \<mapsto> j)
      \<and> j_State j = (if j_State job = [] then StatePending else j_State job)
      \<and> j_MaxAttempts j = (if j_MaxAttempts job = 0 then 5 else j_MaxAttempts job)
      \<and> j_AvailableAt j = (if j_AvailableAt job = 0 then now else j_AvailableAt job)
      \<and> j_CreatedAt j = (if j_CreatedAt job = 0 then now else j_CreatedAt job)
      \<and> j_UpdatedAt j = now \<and> j_AttemptCount j = j_AttemptCount job
      \<and> j_DeltaID j = j_DeltaID job \<and> j_Origin j = j_Origin job \<and> j_SyncID j = j_SyncID job)"
proof (cases "j_ID job = [] \<and> create_refused job s = None")
  case True
  let ?j = "cloneSyncJob (default_job now (job\<lparr>j_ID := job_id (Suc (js_nextID s))\<rparr>))"
  have "map_of (js_jobs s) (job_id (Suc (js_nextID s))) = None"
    using assms by (rule job_store_inv_unused) simp
  with True show ?thesis
    by (intro disjI2 exI [of _ ?j])
      (simp add: store_defs createLocked_new [OF assms] add_job_def default_time_def isZero_def)
next
  case False
  show ?thesis
  proof (rule disjI1, cases "j_ID job = []")
    case True
    with False obtain e where e: "create_refused job s = Some e" by auto
    have "\<exists>k j. map_of (js_jobs s) k = Some j \<and> j_Origin j = JobOriginOutbox \<and> j_DeltaID j = Some d"
      if "j_DeltaID job = Some d" "already_mapped job s" for d
      using that job_store_inv_index [OF assms] by (fastforce simp: already_mapped_def has_key_def)
    with True e show "\<exists>e. job_Create None now job s = (Inl e, s)
      \<and> (j_ID job \<noteq> [] \<and> e = ErrJobIDProvided
        \<or> j_ID job = [] \<and> j_Origin job = JobOriginOutbox
          \<and> (j_DeltaID job = None \<and> e = ErrOutboxJobNeedsDelta
            \<or> (\<exists>d k j. j_DeltaID job = Some d \<and> e = ErrDeltaAlreadyMapped
                 \<and> map_of (js_jobs s) k = Some j \<and> j_Origin j = JobOriginOutbox
                 \<and> j_DeltaID j = Some d)))"
      using createLocked_refused [OF e]
      by (auto simp: store_defs create_refused_def split: if_splits)
  qed (simp add: store_defs)
qed

theorem create_outcome_witness:
  "\<exists>j s'. job_Create None 9 sample_job sample_job_store = (Inr j, s') \<and> j_ID j \<noteq> job_id 1
    \<and> j_State j = StatePending \<and> j_MaxAttempts j = 5 \<and> j_AvailableAt j = 9"
  using create_outcome [OF sample_job_store_inv, of 9 sample_job]
  by (auto simp: sample_job_store_jobs)

text \<open>
  A delta has at most one outbox job: in every store that is reached from the empty
  one, two outbox jobs for the same delta are the same job.
\<close>

theorem one_outbox_job_per_delta:
  assumes "store_steps t NewJobMemoryStore calls t' s"
    and "map_of (js_jobs s) i = Some j" and "map_of (js_jobs s) k = Some j'"
    and "j_Origin j = JobOriginOutbox" and "j_Origin j' = JobOriginOutbox"
    and "j_DeltaID j = j_DeltaID j'"
  shows "i = k"
proof -
  have "job_store_inv s" using assms(1) NewJobMemoryStore_inv by (rule store_steps_inv)
  with assms job_store_inv_ok [of s i j] job_store_inv_ok [of s k j'] show ?thesis
    by (auto simp: job_ok_def)
qed

theorem one_outbox_job_per_delta_witness:
  "\<forall>i k j j'. let job = sample_job\<lparr>j_Origin := JobOriginOutbox, j_DeltaID := Some ''delta-1''\<rparr>;
      s = job_exec None 8 (Op_Create job) (job_exec None 7 (Op_Create job) NewJobMemoryStore)
    in \<not> (map_of (js_jobs s) i = Some j \<and> map_of (js_jobs s) k = Some j'
         \<and> j_Origin j = JobOriginOutbox \<and> j_Origin j' = JobOriginOutbox
         \<and> j_DeltaID j = j_DeltaID j' \<and> i \<noteq> k)"
proof -
  let ?job = "sample_job\<lparr>j_Origin := JobOriginOutbox, j_DeltaID := Some ''delta-1''\<rparr>"
  let ?s = "job_exec None 8 (Op_Create ?job) (job_exec None 7 (Op_Create ?job) NewJobMemoryStore)"
  have "store_steps 7 NewJobMemoryStore [(None, 7, Op_Create ?job), (None, 8, Op_Create ?job)] 8 ?s"
    by (simp add: store_steps_simps)
  from one_outbox_job_per_delta [OF this] show ?thesis by (metis (no_types, lifting))
qed

section \<open>Stale owners\<close>

text \<open>
  C25: A worker that does not hold the lease when its call arrives cannot finalise the job:
  each of the five calls is refused, no job changes, and the refusal is observed once.
\<close>

theorem stale_owner_rejected:
  assumes "map_of (js_jobs s) i = Some j" and "\<not> jobLeaseOwned j now w" and "0 < l"
    and "r \<in> {MarkSynced None now i w g s, MarkRetrying None now i w e t s,
      RequeueClaimed None now i w e t s, MarkDead None now i w e s, RenewLease None now i w l s}"
  shows "fst r = Some ErrJobLeaseNotOwned \<and> js_jobs (snd r) = js_jobs s
    \<and> js_jobByDelta (snd r) = js_jobByDelta s
    \<and> (\<exists>tr. ObserveLeaseOwnershipCheck tr LeaseTelemetryOwnershipRejected
         \<in> set (drop (length (js_telemetry s)) (js_telemetry (snd r))))"
  using assms by (auto simp: store_defs updateOwned_cases Let_def)

theorem stale_owner_rejected_witness:
  "fst (MarkSynced None 17 (job_id 1) ''w'' False sample_leased_store) = Some ErrJobLeaseNotOwned"
proof -
  have stored: "map_of (js_jobs sample_leased_store) (job_id 1) = Some sample_leased"
    by (simp add: sample_leased_store_jobs)
  have late: "\<not> jobLeaseOwned sample_leased 17 ''w''" by (simp add: jobLeaseOwned_phase)
  have "(0 :: duration) < 1" by simp
  from stale_owner_rejected [OF stored late this insertI1] show ?thesis by blast
qed

section \<open>Attempts\<close>

text \<open>The calls that use up an attempt of a job.\<close>

fun finalises :: "SyncJobID \<Rightarrow> job_op \<Rightarrow> bool" where
  "finalises i (Op_MarkRetrying k w e t) \<longleftrightarrow> k = i"
| "finalises i (Op_MarkDead k w e) \<longleftrightarrow> k = i"
| "finalises i _ \<longleftrightarrow> False"

lemma updateOwned_other:
  "k \<noteq> i \<Longrightarrow> map_of (js_jobs (snd (updateOwned ctx now k w tr fn s))) i = map_of (js_jobs s) i"
  by (auto simp: updateOwned_cases split: option.split)

lemma updateOwned_attempts:
  assumes "map_of (js_jobs s) i = Some j"
    and "map_of (js_jobs (snd (updateOwned ctx now k w tr fn s))) i = Some j'"
    and "\<And>j. j_AttemptCount (fn j now) = j_AttemptCount j"
  shows "j_AttemptCount j' = j_AttemptCount j"
  using assms by (auto simp: updateOwned_cases split: option.splits if_splits)

lemma claim_attempts [simp]: "j_AttemptCount (claim_job now w l j) = j_AttemptCount j"
  by (simp add: claim_job_def)

lemma ClaimNextBatch_attempts:
  assumes inv: "job_store_inv s" and j: "map_of (js_jobs s) i = Some j"
    and j': "map_of (js_jobs (snd (ClaimNextBatch ctx now syncID w limit l s))) i = Some j'"
  shows "j_AttemptCount j' = j_AttemptCount j"
proof (cases "ctx = None \<and> 0 < l \<and> 0 < limit")
  case True
  then have live: "0 < l" "0 < limit" "ctx = None" by simp_all
  obtain r s' where run: "ClaimNextBatch None now syncID w limit l s = (r, s')" by (metis prod.exhaust)
  show ?thesis using ClaimNextBatch_effect(2) [OF inv live(1,2) run] j j' live(3) run
    by (auto split: if_splits)
qed (use j j' in \<open>auto simp: ClaimNextBatch_def split: option.splits if_splits\<close>)

lemma job_exec_attempts:
  assumes inv: "job_store_inv s" and j: "map_of (js_jobs s) i = Some j"
    and j': "map_of (js_jobs (job_exec ctx now op s)) i = Some j'" and "\<not> finalises i op"
  shows "j_AttemptCount j' = j_AttemptCount j"
proof (cases op)
  case (Op_Create k)
  then show ?thesis using Create_keeps [OF inv j] j' by simp
next
  case (Op_ClaimNext syncID w l)
  show ?thesis
  proof (cases "ctx = None \<and> 0 < l")
    case True
    then show ?thesis
      using ClaimNextBatch_attempts [OF inv j, of None] ClaimNext_effect(2) [OF inv] Op_ClaimNext j'
      by simp
  qed (use j j' Op_ClaimNext in \<open>auto simp: ClaimNext_def split: option.splits\<close>)
next
  case (Op_RenewLease k w l)
  have "j_AttemptCount (renew_job l q now) = j_AttemptCount q" for q by (simp add: renew_job_def)
  with Op_RenewLease j j' updateOwned_attempts [OF j, where fn = "renew_job l"] show ?thesis
    by (auto simp: RenewLease_def split_def Let_def split: option.splits if_splits)
next
  case (Op_MarkSynced k w g)
  have "j_AttemptCount (sync_job_done g q now) = j_AttemptCount q" for q
    by (simp add: sync_job_done_def clearJobLock_def)
  with Op_MarkSynced j' updateOwned_attempts [OF j] show ?thesis by (simp add: MarkSynced_def)
next
  case (Op_RequeueClaimed k w e t)
  have "j_AttemptCount (requeue_job e t q now) = j_AttemptCount q" for q
    by (simp add: requeue_job_def clearJobLock_def)
  with Op_RequeueClaimed j' updateOwned_attempts [OF j] show ?thesis by (simp add: RequeueClaimed_def)
qed (use ClaimNextBatch_attempts [OF inv j] updateOwned_other [of _ i] j j' assms(4) in
     \<open>auto simp: MarkRetrying_def MarkDead_def ForceReleaseExpiredLease_def RequeueExpiredLease_def
        Let_def force_release_job_def requeue_expired_job_def clearJobLock_def
        split: option.splits if_splits\<close>)

lemma job_exec_attempts_le:
  assumes inv: "job_store_inv s" and j: "map_of (js_jobs s) i = Some j"
    and j': "map_of (js_jobs (job_exec ctx now op s)) i = Some j'"
  shows "j_AttemptCount j \<le> j_AttemptCount j'"
    and "j_AttemptCount j' \<le> j_AttemptCount j + (if finalises i op then 1 else 0)"
proof -
  have "follows now (op_worker op) j j'" using job_exec_follows [OF inv j, of ctx now op] j' by auto
  then have "j_AttemptCount j \<le> j_AttemptCount j' \<and> j_AttemptCount j' \<le> j_AttemptCount j + 1"
    by (auto simp: follows_def abs_job_def dest!: lifecycle_attempts split: action.splits)
  then show "j_AttemptCount j \<le> j_AttemptCount j'"
    and "j_AttemptCount j' \<le> j_AttemptCount j + (if finalises i op then 1 else 0)"
    using job_exec_attempts [OF assms] by auto
qed

text \<open>
  Attempts are counted: over any run of the store the attempt count of a job never
  falls, and rises by at most one for each MarkRetrying or MarkDead call for that job; the
  maximum it was created with stays.
\<close>

theorem attempts_are_counted:
  assumes "store_steps t s calls t' s'" and "job_store_inv s" and "map_of (js_jobs s) i = Some j"
  shows "\<exists>j'. map_of (js_jobs s') i = Some j' \<and> j_MaxAttempts j' = j_MaxAttempts j
    \<and> j_AttemptCount j \<le> j_AttemptCount j'
    \<and> j_AttemptCount j' \<le> j_AttemptCount j
        + int (length (filter (\<lambda>(ctx, now, op). finalises i op) calls))"
  using assms
proof (induction arbitrary: j rule: store_steps.induct)
  case (call t now ctx op s calls t' s')
  from job_exec_follows [OF call.prems, of ctx now op]
  obtain k where k: "map_of (js_jobs (job_exec ctx now op s)) i = Some k"
    and "follows now (op_worker op) j k" by blast
  then have "j_MaxAttempts k = j_MaxAttempts j" by (auto simp: follows_def job_frame_def)
  with call.IH [OF job_exec_inv [OF call.prems(1)] k] job_exec_attempts_le [OF call.prems k]
  show ?case by (auto split: if_splits)
qed simp

theorem attempts_are_counted_witness:
  "\<exists>j'. map_of (js_jobs (job_exec None 11 (Op_MarkRetrying (job_id 1) ''w'' None 20) sample_leased_store))
      (job_id 1) = Some j' \<and> j_MaxAttempts j' = 5 \<and> 0 \<le> j_AttemptCount j' \<and> j_AttemptCount j' \<le> 1"
proof -
  have stored: "map_of (js_jobs sample_leased_store) (job_id 1) = Some sample_leased"
    by (simp add: sample_leased_store_jobs)
  have run: "store_steps 10 sample_leased_store [(None, 11, Op_MarkRetrying (job_id 1) ''w'' None 20)] 11
      (job_exec None 11 (Op_MarkRetrying (job_id 1) ''w'' None 20) sample_leased_store)"
    by (simp add: store_steps_simps)
  have "j_MaxAttempts sample_leased = 5" "j_AttemptCount sample_leased = 0"
    by (simp_all add: sample_leased_def claim_job_def)
  with attempts_are_counted [OF run sample_leased_store_inv stored] show ?thesis by simp
qed

section \<open>Operators\<close>

text \<open>
  An operator can take over an expired lease and no other. Releasing makes the job
  claimable at once, requeueing from the given instant on; either way no worker owns it any
  longer and no attempt is used up. A job that is not processing, or whose lease still
  runs, is refused and nothing changes.
\<close>

theorem operator_takes_over_expired:
  assumes "map_of (js_jobs s) i = Some j" and "TrimSpace reason \<noteq> []"
  defines "free \<equiv> \<lambda>now r from. fst r = None \<and> (\<exists>j'. js_jobs (snd r) = put i j' (js_jobs s)
      \<and> job_frame j' = job_frame j \<and> j_AttemptCount j' = j_AttemptCount j
      \<and> (\<forall>t. claimableJob j' t (j_SyncID j) \<longleftrightarrow> from t) \<and> (\<forall>t w. \<not> jobLeaseOwned j' t w))"
  shows "if j_State j = StateProcessing \<and> lease_over now j
    then free now (ForceReleaseExpiredLease None now i reason s) (\<lambda>t. True)
       \<and> free now (RequeueExpiredLease None now i next reason s) (\<lambda>t. next \<le> t)
    else ForceReleaseExpiredLease None now i reason s = (Some ErrJobLeaseNotExpired, s)
       \<and> RequeueExpiredLease None now i next reason s = (Some ErrJobLeaseNotExpired, s)"
proof (cases "j_State j = StateProcessing \<and> lease_over now j")
  case True
  have sync: "j_SyncID (force_release_job r now j) = j_SyncID j"
    "j_SyncID (requeue_expired_job r t now j) = j_SyncID j" for r t
    using job_frame_fields(2) [of "force_release_job r now j" j]
      job_frame_fields(2) [of "requeue_expired_job r t now j" j] by simp_all
  have phases: "phase_of (force_release_job r now j) = Orphaned"
    "j_AttemptCount (force_release_job r now j) = j_AttemptCount j"
    "phase_of (requeue_expired_job r t now j) = Waiting t"
    "j_AttemptCount (requeue_expired_job r t now j) = j_AttemptCount j" for r t
    using abs_job_release [of j r now] abs_job_changes(6) [of r t now j] True
    by (simp_all add: abs_job_def)
  from True show ?thesis
    using assms(1,2)
    by (auto simp: free_def store_defs Let_def claimableJob_phase jobLeaseOwned_phase phases sync)
qed (use assms(1,2) in \<open>auto simp: store_defs Let_def\<close>)

theorem operator_takes_over_expired_witness:
  "fst (ForceReleaseExpiredLease None 17 (job_id 1) ''stuck'' sample_leased_store) = None
   \<and> fst (RequeueExpiredLease None 16 (job_id 1) 30 ''stuck'' sample_leased_store)
       = Some ErrJobLeaseNotExpired"
proof -
  have stored: "map_of (js_jobs sample_leased_store) (job_id 1) = Some sample_leased"
    by (simp add: sample_leased_store_jobs)
  have reason: "TrimSpace ''stuck'' \<noteq> []"
    by (simp add: TrimSpace_def runes_Cons space_rune_def unicode_IsSpace_def byte_def)
  have expired: "j_State sample_leased = StateProcessing \<and> (lease_over t sample_leased \<longleftrightarrow> 17 \<le> t)" for t
    by (simp add: sample_leased_def claim_job_def lease_over_def linorder_not_less)
  note both = operator_takes_over_expired [OF stored reason]
  from both [of 17 30] both [of 16 30] expired show ?thesis by simp
qed

lemma select_leases:
  fixes s :: job_memory_store and syncID :: SyncID and P :: "sync_job \<Rightarrow> bool"
  assumes inv: "job_store_inv s" and "0 < limit"
  defines "leases \<equiv> {j. map_of (js_jobs s) (j_ID j) = Some j \<and> j_State j = StateProcessing
    \<and> (syncID = [] \<or> j_SyncID j = syncID) \<and> P j}"
  shows "sorted (map lease_order (selectProcessingLeasesLocked syncID limit P s))"
    and "distinct (map j_ID (selectProcessingLeasesLocked syncID limit P s))"
    and "set (selectProcessingLeasesLocked syncID limit P s) \<subseteq> leases"
    and "length (selectProcessingLeasesLocked syncID limit P s) = min (nat limit) (card leases)"
proof -
  define ids where "ids = sort_slice (\<lambda>i j. lease_less (job_at (js_jobs s) i) (job_at (js_jobs s) j))
           (keys (filter (\<lambda>(i, job). lease_selected syncID P job) (js_jobs s)))"
  have set_ids: "set ids = {i. \<exists>j. map_of (js_jobs s) i = Some j \<and> lease_selected syncID P j}"
    using set_filter_keys [OF job_store_inv_distinct [OF inv], of "lease_selected syncID P"]
    by (simp add: ids_def)
  have dist: "distinct ids"
    by (simp add: ids_def job_store_inv_distinct [OF inv] distinct_keys_filter)
  have stored: "job_at (js_jobs s) i \<in> leases \<and> j_ID (job_at (js_jobs s) i) = i
      \<and> cloneSyncJob (job_at (js_jobs s) i) = job_at (js_jobs s) i" if i: "i \<in> set ids" for i
  proof -
    obtain j where j: "map_of (js_jobs s) i = Some j" "lease_selected syncID P j"
      using i set_ids by blast
    with job_store_inv_ID [OF inv j(1)] cloneSyncJob_stored [OF inv j(1)] show ?thesis
      by (auto simp: leases_def lease_selected_def)
  qed
  have sel: "selectProcessingLeasesLocked syncID limit P s
      = map (job_at (js_jobs s)) (take (nat limit) ids)"
    using assms(2) stored
    by (auto simp: selectProcessingLeasesLocked_def limit_ids_take ids_def [symmetric] dest: in_set_takeD)
  show "sorted (map lease_order (selectProcessingLeasesLocked syncID limit P s))"
    using lease_order.sorted_sort [of "js_jobs s"]
    by (simp add: sel ids_def o_def take_map [symmetric] sorted_wrt_take)
  have "map j_ID (map (job_at (js_jobs s)) (take (nat limit) ids)) = take (nat limit) ids"
    using stored by (auto intro!: map_idI dest: in_set_takeD)
  then show "distinct (map j_ID (selectProcessingLeasesLocked syncID limit P s))"
    unfolding sel using dist by simp
  show "set (selectProcessingLeasesLocked syncID limit P s) \<subseteq> leases"
    using stored by (auto simp: sel dest!: in_set_takeD)
  have "j_ID j \<in> set ids \<and> job_at (js_jobs s) (j_ID j) = j" if "j \<in> leases" for j
    using that by (auto simp: set_ids leases_def lease_selected_def)
  then have "leases = job_at (js_jobs s) ` set ids"
    using stored by (intro equalityI subsetI) (metis image_eqI, blast)
  moreover have "inj_on (job_at (js_jobs s)) (set ids)" using stored by (metis inj_onI)
  ultimately have "card leases = length ids" using dist by (simp add: card_image distinct_card)
  then show "length (selectProcessingLeasesLocked syncID limit P s) = min (nat limit) (card leases)"
    by (simp add: sel)
qed

lemma finite_jobs: "finite {j. map_of (js_jobs s) (j_ID j) = Some j \<and> Q j}"
  by (rule finite_subset [of _ "set (vals (js_jobs s))"])
    (auto dest!: map_of_SomeD intro: rev_image_eqI)

text \<open>
  The lease queries sort the processing jobs out: with a limit that covers the store,
  the active and the expired leases are disjoint and together all the processing jobs of the
  sync (of every sync for the empty identifier), the near-expiry ones are the active leases
  that end within the window, and every answer is ordered by the end of the lease.
\<close>

theorem lease_queries_partition:
  assumes "job_store_inv s" and "0 \<le> within" and "0 < limit" and "int (length (js_jobs s)) \<le> limit"
    and "ListActiveLeases None now syncID limit s = Inr active"
    and "ListExpiredProcessingLeases None now syncID limit s = Inr expired"
    and "ListNearExpiryLeases None now syncID within limit s = Inr near"
  shows "set active \<inter> set expired = {}
    \<and> set active \<union> set expired = {j. map_of (js_jobs s) (j_ID j) = Some j
        \<and> j_State j = StateProcessing \<and> (syncID = [] \<or> j_SyncID j = syncID)}
    \<and> set near = {j \<in> set active. the (j_LockedUntil j) \<le> now + within}
    \<and> sorted (map lease_order active) \<and> sorted (map lease_order expired)
    \<and> sorted (map lease_order near)"
proof -
  let ?all = "\<lambda>P. {j. map_of (js_jobs s) (j_ID j) = Some j \<and> j_State j = StateProcessing
    \<and> (syncID = [] \<or> j_SyncID j = syncID) \<and> P j}"
  have full: "set (selectProcessingLeasesLocked syncID limit P s) = ?all P" for P
  proof (rule card_subset_eq)
    show "finite (?all P)" by (rule finite_jobs)
    note sel = select_leases [OF assms(1,3), of syncID P]
    show "set (selectProcessingLeasesLocked syncID limit P s) \<subseteq> ?all P" by (rule sel(3))
    have "?all P \<subseteq> set (vals (js_jobs s))"
      by (auto dest!: map_of_SomeD intro: rev_image_eqI)
    then have "card (?all P) \<le> card (set (vals (js_jobs s)))" by (intro card_mono) simp_all
    also have "\<dots> \<le> length (js_jobs s)" using card_length [of "vals (js_jobs s)"] by simp
    finally have "card (?all P) \<le> length (js_jobs s)" .
    then have "length (selectProcessingLeasesLocked syncID limit P s) = card (?all P)"
      using sel(4) assms(4) by simp
    moreover have "distinct (selectProcessingLeasesLocked syncID limit P s)"
      using sel(2) by (simp add: distinct_map)
    ultimately show "card (set (selectProcessingLeasesLocked syncID limit P s)) = card (?all P)"
      by (simp add: distinct_card)
  qed
  have queries: "active = selectProcessingLeasesLocked syncID limit
        (\<lambda>job. case j_LockedUntil job of None \<Rightarrow> False | Some u \<Rightarrow> now < u) s"
      "expired = selectProcessingLeasesLocked syncID limit (lease_over now) s"
      "near = selectProcessingLeasesLocked syncID limit (\<lambda>job. case j_LockedUntil job of
          None \<Rightarrow> False | Some u \<Rightarrow> now < u \<and> \<not> now + within < u) s"
    using assms by (simp_all add: store_defs)
  have sorted: "sorted (map lease_order (selectProcessingLeasesLocked syncID limit P s))" for P
    by (rule select_leases(1) [OF assms(1,3)])
  show ?thesis
    unfolding queries full
    using sorted by (auto simp: lease_over_def split: option.splits)
qed

theorem lease_queries_partition_witness:
  "ListActiveLeases None 12 ''contacts'' 5 sample_leased_store = Inr [sample_leased]
   \<and> sorted (map lease_order [sample_leased])"
proof -
  have jobs: "js_jobs sample_leased_store = [(job_id 1, sample_leased)]"
    by (simp add: sample_leased_store_def store_defs sample_claimable sample_job_store_jobs
        sample_leased_def Let_def)
  have sel: "j_LockedUntil sample_leased = Some 17" "j_State sample_leased = StateProcessing"
    "j_SyncID sample_leased = ''contacts''" "cloneSyncJob sample_leased = sample_leased"
    using sample_leased_phase
    by (simp_all add: sample_leased_def claim_job_def)
      (simp add: cloneSyncJob_copied sample_created_def)
  have active: "ListActiveLeases None 12 ''contacts'' 5 sample_leased_store = Inr [sample_leased]"
    by (simp add: store_defs selectProcessingLeasesLocked_def jobs sel lease_selected_def limit_ids_def)
  obtain expired near where
    "ListExpiredProcessingLeases None 12 ''contacts'' 5 sample_leased_store = Inr expired"
    "ListNearExpiryLeases None 12 ''contacts'' 6 5 sample_leased_store = Inr near"
    by (simp add: store_defs)
  with lease_queries_partition [OF sample_leased_store_inv _ _ _ active] active show ?thesis
    by (auto simp: jobs)
qed

section \<open>Creating a job\<close>



end
