(* ===== verification/DF_Dispatch.thy ===== *)
theory DF_Dispatch
  imports DF_DeltaMemory DF_JobSpec
begin

text \<open>
  \<open>MemoryDispatchStore\<close> (\<open>internal/dispatcher.go\<close>): the step that turns pending deltas
  into outbox jobs. It holds both mutexes, so it is one step on the pair of stores. The
  lemmas: what the staging loop stages, what the commit does to the two stores, and that the
  invariants of both stores are kept together with the promise that ties them: a delta is
  either still pending or has its job.
\<close>

section \<open>State and operation\<close>

record memory_system =
  ms_deltas :: delta_memory_store
  ms_jobs :: job_memory_store

definition dispatch_job :: "time \<Rightarrow> SyncJobID \<Rightarrow> delta \<Rightarrow> sync_job" where
  "dispatch_job now jobID d =
     \<lparr>j_ID = jobID, j_SyncID = d_SyncID d, j_DeltaID = Some (d_ID d), j_Origin = JobOriginOutbox,
      j_ProjectionType = d_ProjectionType d,
      j_ProjectionKey = cloneProjectionKey (d_ProjectionKey d),
      j_ProjectionKeyHash = d_ProjectionKeyHash d, j_State = StatePending, j_AttemptCount = 0,
      j_MaxAttempts = defaultMaxAttempts, j_LastError = None, j_LastErrorCode = None,
      j_AvailableAt = now, j_LockedBy = None, j_LockedUntil = None, j_GhostDetected = False,
      j_SyncedAt = None, j_DeadAt = None, j_CreatedAt = now, j_UpdatedAt = now\<rparr>"

text \<open>
  The staging loop: the identifiers that are mapped already, the staged jobs with their
  deltas, and the counter after the last number given out.
\<close>

fun stage_deltas ::
    "time \<Rightarrow> memory_system \<Rightarrow> DeltaID list \<Rightarrow> nat \<Rightarrow> DeltaID list \<times> (DeltaID \<times> sync_job) list \<times> nat"
where
  "stage_deltas now sys [] nextID = ([], [], nextID)"
| "stage_deltas now sys (i # is) nextID =
     (if has_key i (js_jobByDelta (ms_jobs sys)) then
        (let (stagedMapped, staged, n) = stage_deltas now sys is nextID
         in (i # stagedMapped, staged, n))
      else
        (let n1 = next_unused ''job-'' (keys (js_jobs (ms_jobs sys))) nextID;
             job = dispatch_job now (job_id n1) (delta_at (ds_deltas (ms_deltas sys)) i);
             (stagedMapped, staged, n) = stage_deltas now sys is n1
         in (stagedMapped, (i, job) # staged, n)))"

text \<open>Writing through \<open>s.deltaStore.deltas[id]\<close>.\<close>

definition dispatch_delta :: "time \<Rightarrow> DeltaID \<Rightarrow> delta_memory_store \<Rightarrow> delta_memory_store" where
  "dispatch_delta now i s =
     s\<lparr>ds_deltas := put i (set_dispatched now (delta_at (ds_deltas s) i)) (ds_deltas s)\<rparr>"

definition mark_mapped :: "time \<Rightarrow> DeltaID \<Rightarrow> memory_system \<Rightarrow> memory_system" where
  "mark_mapped now i sys =
     (if d_State (delta_at (ds_deltas (ms_deltas sys)) i) \<noteq> DeltaDispatched
      then sys\<lparr>ms_deltas := dispatch_delta now i (ms_deltas sys)\<rparr> else sys)"

definition commit_staged :: "time \<Rightarrow> DeltaID \<times> sync_job \<Rightarrow> memory_system \<Rightarrow> memory_system" where
  "commit_staged now item sys =
     (let (i, job) = item; js = ms_jobs sys in
      sys\<lparr>ms_jobs := js\<lparr>js_jobs := put (j_ID job) (cloneSyncJob job) (js_jobs js),
                        js_jobByDelta := put i (j_ID job) (js_jobByDelta js)\<rparr>,
          ms_deltas := dispatch_delta now i (ms_deltas sys)\<rparr>)"

definition DispatchPending ::
    "ctx \<Rightarrow> time \<Rightarrow> SyncID \<Rightarrow> int \<Rightarrow> memory_system \<Rightarrow> (error + sync_job list) \<times> memory_system"
where [store_defs]:
  "DispatchPending ctx now syncID limit sys =
     (case ctx of Some e \<Rightarrow> (Inl e, sys) | None \<Rightarrow>
      if limit \<le> 0 then (Inr [], sys)
      else
        (let ids = limit_ids limit (pendingDeltaIDsLockedForSyncLocked syncID (ms_deltas sys));
             (stagedMapped, staged, nextID) = stage_deltas now sys ids (js_nextID (ms_jobs sys));
             sys1 = fold (mark_mapped now) stagedMapped sys;
             sys2 = fold (commit_staged now) staged sys1
         in (Inr (map (\<lambda>(i, job). cloneSyncJob job) staged),
             sys2\<lparr>ms_jobs := (ms_jobs sys2)\<lparr>js_nextID := nextID\<rparr>\<rparr>)))"

section \<open>What is staged\<close>

text \<open>The staged jobs are numbered consecutively from the counter on.\<close>

fun number_jobs :: "time \<Rightarrow> (DeltaID \<Rightarrow> delta) \<Rightarrow> nat \<Rightarrow> DeltaID list \<Rightarrow> (DeltaID \<times> sync_job) list" where
  "number_jobs now at n [] = []"
| "number_jobs now at n (i # is) =
     (i, dispatch_job now (job_id (Suc n)) (at i)) # number_jobs now at (Suc n) is"

lemma length_number_jobs [simp]: "length (number_jobs now at n is) = length is"
  by (induction "is" arbitrary: n) simp_all

lemma fst_number_jobs [simp]: "map fst (number_jobs now at n is) = is"
  by (induction "is" arbitrary: n) simp_all

lemma in_number_jobs:
  "(i, j) \<in> set (number_jobs now at n is) \<Longrightarrow>
   \<exists>k. n < k \<and> k \<le> n + length is \<and> i \<in> set is \<and> j = dispatch_job now (job_id k) (at i)"
proof (induction "is" arbitrary: n)
  case (Cons a "is")
  then consider "i = a" "j = dispatch_job now (job_id (Suc n)) (at a)"
    | "(i, j) \<in> set (number_jobs now at (Suc n) is)" by auto
  then show ?case
  proof cases
    case 2
    from Cons.IH [OF this] obtain k where "Suc n < k \<and> k \<le> Suc n + length is \<and> i \<in> set is
      \<and> j = dispatch_job now (job_id k) (at i)" by blast
    then show ?thesis by (intro exI [of _ k]) simp
  qed (simp add: exI [of _ "Suc n"])
qed simp

definition mapped :: "memory_system \<Rightarrow> DeltaID \<Rightarrow> bool" where
  "mapped sys i \<longleftrightarrow> has_key i (js_jobByDelta (ms_jobs sys))"

lemma stage_deltas_eq:
  assumes inv: "job_store_inv (ms_jobs sys)" and "js_nextID (ms_jobs sys) \<le> n"
  shows "stage_deltas now sys is n =
    (filter (mapped sys) is,
     number_jobs now (delta_at (ds_deltas (ms_deltas sys))) n (filter (\<lambda>i. \<not> mapped sys i) is),
     n + length (filter (\<lambda>i. \<not> mapped sys i) is))"
  using assms(2)
proof (induction "is" arbitrary: n)
  case (Cons i "is")
  have "map_of (js_jobs (ms_jobs sys)) (job_id (Suc n)) = None"
    using inv by (rule job_store_inv_unused) (use Cons.prems in simp)
  then have "next_unused ''job-'' (keys (js_jobs (ms_jobs sys))) n = Suc n"
    by (intro next_unused_step) (simp add: job_id_def map_of_eq_None_iff image_comp)
  with Cons show ?case by (simp add: mapped_def)
qed simp

section \<open>What the commit does\<close>

lemma dispatch_job_sel [simp]:
  "j_ID (dispatch_job now k d) = k" "j_SyncID (dispatch_job now k d) = d_SyncID d"
  "j_DeltaID (dispatch_job now k d) = Some (d_ID d)"
  "j_Origin (dispatch_job now k d) = JobOriginOutbox"
  "j_State (dispatch_job now k d) = StatePending" "j_AvailableAt (dispatch_job now k d) = now"
  "j_ProjectionKey (dispatch_job now k d) = cloneProjectionKey (d_ProjectionKey d)"
  "j_ProjectionType (dispatch_job now k d) = d_ProjectionType d"
  "j_ProjectionKeyHash (dispatch_job now k d) = d_ProjectionKeyHash d"
  "j_AttemptCount (dispatch_job now k d) = 0" "j_MaxAttempts (dispatch_job now k d) = 5"
  "j_LockedBy (dispatch_job now k d) = None" "j_LockedUntil (dispatch_job now k d) = None"
  by (simp_all add: dispatch_job_def defaultMaxAttempts_def)

lemma dispatch_job_clone [simp]: "cloneSyncJob (dispatch_job now k d) = dispatch_job now k d"
  by (rule cloneSyncJob_copied) simp

lemma dispatch_delta_inv [inv_intros]:
  "delta_store_inv s \<Longrightarrow> map_of (ds_deltas s) i = Some d \<Longrightarrow> delta_store_inv (dispatch_delta now i s)"
  by (auto simp: dispatch_delta_def intro!: update_delta_inv)

lemma dispatch_delta_sel [simp]:
  "ds_dedup (dispatch_delta now i s) = ds_dedup s" "ds_nextID (dispatch_delta now i s) = ds_nextID s"
  "map_of (ds_deltas (dispatch_delta now i s)) =
     (map_of (ds_deltas s))(i \<mapsto> set_dispatched now (delta_at (ds_deltas s) i))"
  by (simp_all add: dispatch_delta_def)

text \<open>Both loops of the commit, split into what they do to each store.\<close>

definition commit_job :: "DeltaID \<times> sync_job \<Rightarrow> job_memory_store \<Rightarrow> job_memory_store" where
  "commit_job item js =
     (let (i, job) = item in
      js\<lparr>js_jobs := put (j_ID job) (cloneSyncJob job) (js_jobs js),
         js_jobByDelta := put i (j_ID job) (js_jobByDelta js)\<rparr>)"

lemma commit_staged_split:
  "fold (commit_staged now) staged sys =
     sys\<lparr>ms_deltas := fold (dispatch_delta now) (map fst staged) (ms_deltas sys),
         ms_jobs := fold commit_job staged (ms_jobs sys)\<rparr>"
  by (induction staged arbitrary: sys)
    (simp_all add: commit_staged_def commit_job_def Let_def split_def)

lemma delta_at_dispatched [simp]:
  "k \<noteq> i \<Longrightarrow> delta_at (ds_deltas (dispatch_delta now i s)) k = delta_at (ds_deltas s) k"
  by (simp add: delta_at_def)

lemma mark_mapped_split:
  assumes "distinct is" and "\<forall>i \<in> set is. d_State (delta_at (ds_deltas (ms_deltas sys)) i) = DeltaPending"
  shows "fold (mark_mapped now) is sys =
    sys\<lparr>ms_deltas := fold (dispatch_delta now) is (ms_deltas sys)\<rparr>"
  using assms
proof (induction "is" arbitrary: sys)
  case (Cons i "is")
  let ?sys1 = "sys\<lparr>ms_deltas := dispatch_delta now i (ms_deltas sys)\<rparr>"
  have "mark_mapped now i sys = ?sys1" using Cons.prems(2) by (simp add: mark_mapped_def)
  moreover have "\<forall>k \<in> set is. d_State (delta_at (ds_deltas (ms_deltas ?sys1)) k) = DeltaPending"
  proof
    fix k
    assume "k \<in> set is"
    with Cons.prems show "d_State (delta_at (ds_deltas (ms_deltas ?sys1)) k) = DeltaPending"
      by (cases "k = i") auto
  qed
  ultimately show ?case using Cons.IH [of ?sys1] Cons.prems(1) by simp
qed simp

lemma dispatch_deltas_effect:
  assumes "delta_store_inv s" and "distinct is"
    and "\<forall>i \<in> set is. \<exists>d. map_of (ds_deltas s) i = Some d"
  shows "delta_store_inv (fold (dispatch_delta now) is s)"
    and "map_of (ds_deltas (fold (dispatch_delta now) is s)) =
        (\<lambda>i. if i \<in> set is then Some (set_dispatched now (delta_at (ds_deltas s) i))
             else map_of (ds_deltas s) i)"
proof -
  have "delta_store_inv (fold (dispatch_delta now) is s)
    \<and> map_of (ds_deltas (fold (dispatch_delta now) is s)) =
        (\<lambda>i. if i \<in> set is then Some (set_dispatched now (delta_at (ds_deltas s) i))
             else map_of (ds_deltas s) i)"
    using assms
  proof (induction "is" arbitrary: s)
    case (Cons i "is")
    let ?s1 = "dispatch_delta now i s"
    have inv1: "delta_store_inv ?s1" using Cons.prems by (auto intro: dispatch_delta_inv)
    have rest: "\<forall>k \<in> set is. \<exists>d. map_of (ds_deltas ?s1) k = Some d" using Cons.prems(3) by auto
    have at: "delta_at (ds_deltas ?s1) k = delta_at (ds_deltas s) k" if "k \<in> set is" for k
      using that Cons.prems(2) by (intro delta_at_dispatched) auto
    from Cons.IH [OF inv1 _ rest] Cons.prems(2) at show ?case by (auto simp: fun_eq_iff)
  qed simp
  then show "delta_store_inv (fold (dispatch_delta now) is s)"
    and "map_of (ds_deltas (fold (dispatch_delta now) is s)) =
        (\<lambda>i. if i \<in> set is then Some (set_dispatched now (delta_at (ds_deltas s) i))
             else map_of (ds_deltas s) i)"
    by blast+
qed

text \<open>Committing a staged job stores it the way \<open>createLocked\<close> stores a new outbox job.\<close>

lemma commit_job_add:
  "j_DeltaID j = Some i \<Longrightarrow> j_Origin j = JobOriginOutbox \<Longrightarrow> commit_job (i, j) s = add_job j s"
  by (simp add: commit_job_def add_job_def index_job_def set_job_def)

definition dispatch_one :: "time \<Rightarrow> (DeltaID \<Rightarrow> delta) \<Rightarrow> DeltaID \<Rightarrow> job_memory_store \<Rightarrow> job_memory_store" where
  "dispatch_one now at i js =
     add_job (dispatch_job now (job_id (Suc (js_nextID js))) (at i)) (js\<lparr>js_nextID := Suc (js_nextID js)\<rparr>)"

lemma commit_job_nextID [simp]:
  "commit_job item (s\<lparr>js_nextID := n\<rparr>) = (commit_job item s)\<lparr>js_nextID := n\<rparr>"
  by (simp add: commit_job_def split: prod.split)

lemma commit_jobs_nextID:
  "fold commit_job items (s\<lparr>js_nextID := n\<rparr>) = (fold commit_job items s)\<lparr>js_nextID := n\<rparr>"
  by (induction items arbitrary: s) simp_all

lemma commit_jobs_split:
  assumes "\<forall>i \<in> set is. d_ID (at i) = i"
  shows "(fold commit_job (number_jobs now at n is) s)\<lparr>js_nextID := n + length is\<rparr>
    = fold (dispatch_one now at) is (s\<lparr>js_nextID := n\<rparr>)"
  using assms
proof (induction "is" arbitrary: n s)
  case (Cons i "is")
  have "dispatch_one now at i (s\<lparr>js_nextID := n\<rparr>) =
      (commit_job (i, dispatch_job now (job_id (Suc n)) (at i)) s)\<lparr>js_nextID := Suc n\<rparr>"
    using Cons.prems by (simp add: dispatch_one_def commit_job_add [of _ i, symmetric])
  with Cons.IH [of "Suc n" "commit_job (i, dispatch_job now (job_id (Suc n)) (at i)) s"] Cons.prems
  show ?case by simp
qed simp

lemma dispatch_one_effect:
  assumes "job_store_inv s" and "d_ID (at i) = i" and "\<not> has_key i (js_jobByDelta s)"
  shows "job_store_inv (dispatch_one now at i s)"
    and "map_of (js_jobByDelta (dispatch_one now at i s)) =
      (map_of (js_jobByDelta s))(i \<mapsto> job_id (Suc (js_nextID s)))"
    and "map_of (js_jobs (dispatch_one now at i s)) = (map_of (js_jobs s))
      (job_id (Suc (js_nextID s)) \<mapsto> dispatch_job now (job_id (Suc (js_nextID s))) (at i))"
    and "map_of (js_jobs s) (job_id (Suc (js_nextID s))) = None"
proof -
  have refused: "create_refused (dispatch_job now (job_id (Suc (js_nextID s))) (at i)) s = None"
    using assms(2,3) by (simp add: create_refused_def already_mapped_def)
  show "job_store_inv (dispatch_one now at i s)"
    unfolding dispatch_one_def by (rule add_job_inv [OF assms(1)]) (use refused in auto)
  show "map_of (js_jobs s) (job_id (Suc (js_nextID s))) = None"
    using assms(1) by (rule job_store_inv_unused) simp
qed (use assms in \<open>auto simp: dispatch_one_def add_job_def index_job_def\<close>)

lemma dispatch_jobs_effect:
  assumes "job_store_inv s" and "distinct is"
    and "\<forall>i \<in> set is. d_ID (at i) = i \<and> \<not> has_key i (js_jobByDelta s)"
  shows "job_store_inv (fold (dispatch_one now at) is s)
    \<and> (\<forall>(i, j) \<in> set (number_jobs now at (js_nextID s) is).
         map_of (js_jobByDelta (fold (dispatch_one now at) is s)) i = Some (j_ID j)
         \<and> map_of (js_jobs s) (j_ID j) = None
         \<and> map_of (js_jobs (fold (dispatch_one now at) is s)) (j_ID j) = Some j)
    \<and> (\<forall>d. d \<notin> set is \<longrightarrow>
         map_of (js_jobByDelta (fold (dispatch_one now at) is s)) d = map_of (js_jobByDelta s) d)
    \<and> (\<forall>k j. map_of (js_jobs s) k = Some j \<longrightarrow>
         map_of (js_jobs (fold (dispatch_one now at) is s)) k = Some j)"
  using assms
proof (induction "is" arbitrary: s)
  case (Cons i "is")
  have i: "d_ID (at i) = i" "\<not> has_key i (js_jobByDelta s)" "i \<notin> set is" using Cons.prems by auto
  note new = dispatch_one_effect(4) [where at = at and i = i, OF Cons.prems(1) i(1,2)]
  note one = dispatch_one_effect(1-3) [where at = at and i = i and now = now, OF Cons.prems(1) i(1,2)]
  have counter: "js_nextID (dispatch_one now at i s) = Suc (js_nextID s)"
    by (simp add: dispatch_one_def add_job_def)
  have rest: "\<forall>k \<in> set is. d_ID (at k) = k \<and> \<not> has_key k (js_jobByDelta (dispatch_one now at i s))"
    using Cons.prems(3) i(3) by (auto simp: has_key_def one(2))
  note ih = Cons.IH [OF one(1) _ rest, unfolded counter]
  have kept: "map_of (js_jobs (dispatch_one now at i s)) k = Some j" if "map_of (js_jobs s) k = Some j" for k j
    using that one(3) new by auto
  have unused: "map_of (js_jobs s) k = None" if "map_of (js_jobs (dispatch_one now at i s)) k = None" for k
    using that kept by (cases "map_of (js_jobs s) k") auto
  show ?case
    using ih Cons.prems(2) i(3) one new kept unused by (auto simp: one(2,3) split_def)
qed simp

text \<open>The whole operation, as one fold over each store.\<close>

definition dispatch_ids :: "SyncID \<Rightarrow> int \<Rightarrow> memory_system \<Rightarrow> DeltaID list" where
  "dispatch_ids syncID limit sys =
     take (nat limit) (pendingDeltaIDsLockedForSyncLocked syncID (ms_deltas sys))"

lemma dispatch_ids_stored:
  assumes "delta_store_inv (ms_deltas sys)" and "i \<in> set (dispatch_ids syncID limit sys)"
  shows "\<exists>d. map_of (ds_deltas (ms_deltas sys)) i = Some d \<and> d_State d = DeltaPending
    \<and> d_SyncID d = syncID \<and> d_ID d = i"
proof -
  obtain d where "map_of (ds_deltas (ms_deltas sys)) i = Some d" "d_State d = DeltaPending"
    "d_SyncID d = syncID"
    using assms(2) set_pending_ids [OF assms(1)] by (auto simp: dispatch_ids_def dest!: in_set_takeD)
  with delta_store_inv_ok [OF assms(1)] show ?thesis by (auto simp: delta_ok_def)
qed

lemma distinct_dispatch_ids:
  "delta_store_inv (ms_deltas sys) \<Longrightarrow> distinct (dispatch_ids syncID limit sys)"
  by (simp add: dispatch_ids_def distinct_pending_ids)

lemma DispatchPending_eq:
  fixes syncID :: SyncID
  assumes ds: "delta_store_inv (ms_deltas sys)" and js: "job_store_inv (ms_jobs sys)" and "0 < limit"
  defines "at \<equiv> delta_at (ds_deltas (ms_deltas sys))"
    and "old \<equiv> filter (mapped sys) (dispatch_ids syncID limit sys)"
    and "new \<equiv> filter (\<lambda>i. \<not> mapped sys i) (dispatch_ids syncID limit sys)"
  shows "DispatchPending None now syncID limit sys =
    (Inr (map snd (number_jobs now at (js_nextID (ms_jobs sys)) new)),
     sys\<lparr>ms_deltas := fold (dispatch_delta now) (old @ new) (ms_deltas sys),
         ms_jobs := fold (dispatch_one now at) new (ms_jobs sys)\<rparr>)"
proof -
  have ids: "d_ID (at i) = i \<and> d_State (at i) = DeltaPending" if "i \<in> set (dispatch_ids syncID limit sys)" for i
    using dispatch_ids_stored [OF ds that] by (auto simp: at_def)
  have stage: "stage_deltas now sys (dispatch_ids syncID limit sys) (js_nextID (ms_jobs sys)) =
      (old, number_jobs now at (js_nextID (ms_jobs sys)) new, js_nextID (ms_jobs sys) + length new)"
    unfolding old_def new_def at_def by (rule stage_deltas_eq [OF js]) simp
  have marked: "fold (mark_mapped now) old sys = sys\<lparr>ms_deltas := fold (dispatch_delta now) old (ms_deltas sys)\<rparr>"
    by (rule mark_mapped_split)
      (use ids distinct_dispatch_ids [OF ds] in \<open>auto simp: old_def at_def\<close>)
  have jobs: "(fold commit_job (number_jobs now at (js_nextID (ms_jobs sys)) new) (ms_jobs sys))
        \<lparr>js_nextID := js_nextID (ms_jobs sys) + length new\<rparr>
      = fold (dispatch_one now at) new ((ms_jobs sys)\<lparr>js_nextID := js_nextID (ms_jobs sys)\<rparr>)"
    by (rule commit_jobs_split) (use ids in \<open>auto simp: new_def\<close>)
  have same: "(ms_jobs sys)\<lparr>js_nextID := js_nextID (ms_jobs sys)\<rparr> = ms_jobs sys" by simp
  have copies: "cloneSyncJob j = j" if "(i, j) \<in> set (number_jobs now at n is)" for i j n "is"
    using in_number_jobs [OF that] by auto
  have answer: "map (\<lambda>(i, job). cloneSyncJob job) (number_jobs now at n is) = map snd (number_jobs now at n is)"
    for n "is" using copies by auto
  show ?thesis
    using assms(3)
    by (simp add: DispatchPending_def limit_ids_take dispatch_ids_def [symmetric] stage marked
        commit_staged_split jobs same answer Let_def)
qed

lemma dispatch_old_new:
  fixes syncID :: SyncID and limit :: int
  assumes ds: "delta_store_inv (ms_deltas sys)"
  defines "ids \<equiv> dispatch_ids syncID limit sys"
  shows "distinct (filter (mapped sys) ids @ filter (\<lambda>i. \<not> mapped sys i) ids)"
    and "set (filter (mapped sys) ids @ filter (\<lambda>i. \<not> mapped sys i) ids) = set ids"
    and "\<forall>i \<in> set (filter (mapped sys) ids @ filter (\<lambda>i. \<not> mapped sys i) ids).
      \<exists>d. map_of (ds_deltas (ms_deltas sys)) i = Some d"
  using distinct_dispatch_ids [OF ds, of syncID limit]
  by (auto simp: ids_def dest: dispatch_ids_stored [OF ds])

lemma DispatchPending_effect:
  fixes syncID :: SyncID
  assumes ds: "delta_store_inv (ms_deltas sys)" and js: "job_store_inv (ms_jobs sys)" and "0 < limit"
    and run: "DispatchPending None now syncID limit sys = (r, sys')"
  defines "ids \<equiv> dispatch_ids syncID limit sys"
  shows "delta_store_inv (ms_deltas sys')" and "job_store_inv (ms_jobs sys')"
    and "map_of (ds_deltas (ms_deltas sys')) = (\<lambda>i. if i \<in> set ids
      then Some (set_dispatched now (delta_at (ds_deltas (ms_deltas sys)) i))
      else map_of (ds_deltas (ms_deltas sys)) i)"
    and "\<exists>jobs. r = Inr jobs
      \<and> map j_DeltaID jobs = map Some (filter (\<lambda>i. \<not> mapped sys i) ids)
      \<and> (\<forall>j \<in> set jobs. \<exists>i \<in> set ids. j = dispatch_job now (j_ID j) (delta_at (ds_deltas (ms_deltas sys)) i)
           \<and> map_of (js_jobByDelta (ms_jobs sys')) i = Some (j_ID j)
           \<and> map_of (js_jobs (ms_jobs sys)) (j_ID j) = None
           \<and> map_of (js_jobs (ms_jobs sys')) (j_ID j) = Some j)"
    and "\<forall>d. d \<notin> set ids \<or> mapped sys d \<longrightarrow>
      map_of (js_jobByDelta (ms_jobs sys')) d = map_of (js_jobByDelta (ms_jobs sys)) d"
    and "\<forall>k j. map_of (js_jobs (ms_jobs sys)) k = Some j \<longrightarrow> map_of (js_jobs (ms_jobs sys')) k = Some j"
    and "\<forall>i \<in> set ids. mapped sys' i"
proof -
  let ?at = "delta_at (ds_deltas (ms_deltas sys))"
  let ?new = "filter (\<lambda>i. \<not> mapped sys i) ids"
  let ?nums = "number_jobs now ?at (js_nextID (ms_jobs sys)) ?new"
  note on = dispatch_old_new [OF ds, of syncID limit, folded ids_def]
  have stored: "\<exists>d. map_of (ds_deltas (ms_deltas sys)) i = Some d \<and> d_ID (?at i) = i"
    if "i \<in> set ids" for i
    using dispatch_ids_stored [OF ds that [unfolded ids_def]] by auto
  from run have r: "r = Inr (map snd ?nums)"
    and sys': "sys' = sys\<lparr>ms_deltas := fold (dispatch_delta now) (filter (mapped sys) ids @ ?new) (ms_deltas sys),
         ms_jobs := fold (dispatch_one now ?at) ?new (ms_jobs sys)\<rparr>"
    unfolding DispatchPending_eq [OF ds js assms(3)] ids_def by simp_all
  note deltas = dispatch_deltas_effect [OF ds on(1,3), of now]
  have fresh: "\<forall>i \<in> set ?new. d_ID (?at i) = i \<and> \<not> has_key i (js_jobByDelta (ms_jobs sys))"
    using stored by (auto simp: mapped_def)
  have "distinct ?new" using on(1) by simp
  note jobs = dispatch_jobs_effect [OF js this fresh, of now]
  show "delta_store_inv (ms_deltas sys')" using deltas(1) by (simp add: sys')
  show "job_store_inv (ms_jobs sys')" using jobs by (simp add: sys')
  show "map_of (ds_deltas (ms_deltas sys')) = (\<lambda>i. if i \<in> set ids then Some (set_dispatched now (?at i))
      else map_of (ds_deltas (ms_deltas sys)) i)"
    using deltas(2) by (auto simp: sys' fun_eq_iff)
  have listed: "i \<in> set ids \<and> j = dispatch_job now (j_ID j) (?at i) \<and> i = d_ID (?at i)"
    if "(i, j) \<in> set ?nums" for i j
    using in_number_jobs [OF that] stored by auto
  have "j_DeltaID (snd p) = Some (fst p)" if p: "p \<in> set ?nums" for p
  proof -
    have "snd p = dispatch_job now (j_ID (snd p)) (?at (fst p)) \<and> fst p = d_ID (?at (fst p))"
      using listed [of "fst p" "snd p"] p by simp
    then show ?thesis using arg_cong [of "snd p" _ j_DeltaID] by (metis dispatch_job_sel(3))
  qed
  then have "map j_DeltaID (map snd ?nums) = map Some (map fst ?nums)"
    unfolding list.map_comp by (intro map_cong) simp_all
  then have ids_eq: "map j_DeltaID (map snd ?nums) = map Some ?new" by (simp only: fst_number_jobs)
  show "\<exists>jobs. r = Inr jobs \<and> map j_DeltaID jobs = map Some ?new
      \<and> (\<forall>j \<in> set jobs. \<exists>i \<in> set ids. j = dispatch_job now (j_ID j) (?at i)
           \<and> map_of (js_jobByDelta (ms_jobs sys')) i = Some (j_ID j)
           \<and> map_of (js_jobs (ms_jobs sys)) (j_ID j) = None
           \<and> map_of (js_jobs (ms_jobs sys')) (j_ID j) = Some j)"
  proof (intro exI conjI ballI, rule r, rule ids_eq)
    fix j
    assume "j \<in> set (map snd ?nums)"
    then obtain i where ij: "(i, j) \<in> set ?nums" by auto
    show "\<exists>i \<in> set ids. j = dispatch_job now (j_ID j) (?at i)
           \<and> map_of (js_jobByDelta (ms_jobs sys')) i = Some (j_ID j)
           \<and> map_of (js_jobs (ms_jobs sys)) (j_ID j) = None
           \<and> map_of (js_jobs (ms_jobs sys')) (j_ID j) = Some j"
      using listed [OF ij] jobs ij by (intro bexI [of _ i]) (auto simp: sys')
  qed
  show "\<forall>d. d \<notin> set ids \<or> mapped sys d \<longrightarrow>
      map_of (js_jobByDelta (ms_jobs sys')) d = map_of (js_jobByDelta (ms_jobs sys)) d"
    using jobs by (simp add: sys')
  show "\<forall>k j. map_of (js_jobs (ms_jobs sys)) k = Some j \<longrightarrow> map_of (js_jobs (ms_jobs sys')) k = Some j"
    using jobs by (simp add: sys')
  show "\<forall>i \<in> set ids. mapped sys' i"
  proof
    fix i
    assume i: "i \<in> set ids"
    show "mapped sys' i"
    proof (cases "mapped sys i")
      case True
      then show ?thesis using jobs by (simp add: sys' mapped_def has_key_def)
    next
      case False
      with i have "i \<in> set (map fst ?nums)" by simp
      then have "i \<in> fst ` set ?nums" by (simp only: list.set_map)
      then obtain j where "(i, j) \<in> set ?nums" by auto
      with jobs show ?thesis by (auto simp: sys' mapped_def has_key_def)
    qed
  qed
qed

section \<open>Properties\<close>

text \<open>
  C24: Dispatching takes exactly the deltas that Pull would return. Each of them becomes
  dispatched with the clock as its stamp and has a job afterwards; the returned jobs are
  the new ones, one for each of those deltas that had none, in order, pending and available
  at once with no attempt used, carrying the delta's sync, type, key and hash, under
  identifiers that were unused; every other delta and every existing job stays as it was.
\<close>

theorem dispatch_creates_jobs:
  assumes "delta_store_inv (ms_deltas sys)" and "job_store_inv (ms_jobs sys)" and "0 < limit"
    and pull: "delta_Pull None syncID limit (ms_deltas sys) = Inr ds"
    and run: "DispatchPending None now syncID limit sys = (r, sys')"
  shows "\<exists>jobs. r = Inr jobs
    \<and> map j_DeltaID jobs = map (\<lambda>d. Some (d_ID d)) (filter (\<lambda>d. \<not> mapped sys (d_ID d)) ds)
    \<and> (\<forall>j \<in> set jobs. map_of (js_jobs (ms_jobs sys)) (j_ID j) = None
        \<and> map_of (js_jobs (ms_jobs sys')) (j_ID j) = Some j \<and> j_State j = StatePending
        \<and> j_AvailableAt j = now \<and> j_AttemptCount j = 0 \<and> j_MaxAttempts j = 5
        \<and> (\<exists>d \<in> set ds. j_SyncID j = d_SyncID d \<and> j_ProjectionType j = d_ProjectionType d
             \<and> j_ProjectionKey j = d_ProjectionKey d \<and> j_ProjectionKeyHash j = d_ProjectionKeyHash d))
    \<and> (\<forall>d \<in> set ds. mapped sys' (d_ID d) \<and> map_of (ds_deltas (ms_deltas sys')) (d_ID d)
          = Some (d\<lparr>d_State := DeltaDispatched, d_DispatchedAt := Some now\<rparr>))
    \<and> (\<forall>i. i \<notin> set (map d_ID ds) \<longrightarrow>
          map_of (ds_deltas (ms_deltas sys')) i = map_of (ds_deltas (ms_deltas sys)) i)
    \<and> (\<forall>k j. map_of (js_jobs (ms_jobs sys)) k = Some j \<longrightarrow> map_of (js_jobs (ms_jobs sys')) k = Some j)"
proof -
  let ?at = "delta_at (ds_deltas (ms_deltas sys))" and ?ids = "dispatch_ids syncID limit sys"
  have ds: "ds = map ?at ?ids"
    using pull unfolding delta_Pull_list [OF assms(1,3)] by (simp add: dispatch_ids_def)
  have id: "d_ID (?at i) = i" if "i \<in> set ?ids" for i
    using dispatch_ids_stored [OF assms(1) that] by auto
  then have ids: "?ids = map d_ID ds" by (auto simp: ds intro!: map_idI [symmetric])
  have key: "cloneProjectionKey (d_ProjectionKey (?at i)) = d_ProjectionKey (?at i)" if i: "i \<in> set ?ids" for i
  proof -
    obtain d where d: "map_of (ds_deltas (ms_deltas sys)) i = Some d"
      using dispatch_ids_stored [OF assms(1) i] by blast
    then have "projectionKeyHash (d_ProjectionKey d) = Inr (d_ProjectionKeyHash d)"
      using delta_store_inv_ok [OF assms(1) d] by (simp add: delta_ok_def)
    with d show ?thesis by (simp add: projectionKeyHash_clone)
  qed
  note eff = DispatchPending_effect [OF assms(1-3) run]
  from eff(4) obtain jobs where r: "r = Inr jobs"
    and order: "map j_DeltaID jobs = map Some (filter (\<lambda>i. \<not> mapped sys i) ?ids)"
    and new: "\<forall>j \<in> set jobs. \<exists>i \<in> set ?ids. j = dispatch_job now (j_ID j) (?at i)
           \<and> map_of (js_jobByDelta (ms_jobs sys')) i = Some (j_ID j)
           \<and> map_of (js_jobs (ms_jobs sys)) (j_ID j) = None
           \<and> map_of (js_jobs (ms_jobs sys')) (j_ID j) = Some j" by blast
  have "map j_DeltaID jobs = map (\<lambda>d. Some (d_ID d)) (filter (\<lambda>d. \<not> mapped sys (d_ID d)) ds)"
    by (simp add: order ids filter_map o_def)
  moreover have "map_of (js_jobs (ms_jobs sys)) (j_ID j) = None
        \<and> map_of (js_jobs (ms_jobs sys')) (j_ID j) = Some j \<and> j_State j = StatePending
        \<and> j_AvailableAt j = now \<and> j_AttemptCount j = 0 \<and> j_MaxAttempts j = 5
        \<and> (\<exists>d \<in> set ds. j_SyncID j = d_SyncID d \<and> j_ProjectionType j = d_ProjectionType d
             \<and> j_ProjectionKey j = d_ProjectionKey d \<and> j_ProjectionKeyHash j = d_ProjectionKeyHash d)"
    if j: "j \<in> set jobs" for j
  proof -
    from new j obtain i where i: "i \<in> set ?ids" "j = dispatch_job now (j_ID j) (?at i)"
      and stored: "map_of (js_jobs (ms_jobs sys)) (j_ID j) = None"
        "map_of (js_jobs (ms_jobs sys')) (j_ID j) = Some j" by blast
    obtain k where k: "j = dispatch_job now k (?at i)" using i(2) by blast
    from stored i(1) key [OF i(1)] show ?thesis by (auto simp: k ds)
  qed
  moreover have "mapped sys' (d_ID d) \<and> map_of (ds_deltas (ms_deltas sys')) (d_ID d)
          = Some (d\<lparr>d_State := DeltaDispatched, d_DispatchedAt := Some now\<rparr>)" if d: "d \<in> set ds" for d
  proof -
    obtain i where i: "i \<in> set ?ids" "d = ?at i" using d ds by auto
    with id [OF i(1)] eff(3,7) show ?thesis by (simp add: set_dispatched_def)
  qed
  moreover have "map_of (ds_deltas (ms_deltas sys')) i = map_of (ds_deltas (ms_deltas sys)) i"
    if "i \<notin> set (map d_ID ds)" for i
    using that eff(3) unfolding ids [symmetric] by simp
  ultimately show ?thesis using r eff(6) by blast
qed

definition sample_system :: memory_system where
  "sample_system = \<lparr>ms_deltas = sample_delta_store, ms_jobs = NewJobMemoryStore\<rparr>"

theorem dispatch_creates_jobs_witness:
  "\<exists>jobs sys'. DispatchPending None 9 ''contacts'' 5 sample_system = (Inr jobs, sys')
    \<and> map j_DeltaID jobs = [Some (delta_id 1)] \<and> mapped sys' (delta_id 1)"
proof -
  have pull: "delta_Pull None ''contacts'' 5 (ms_deltas sample_system) = Inr [sample_stored]"
    using cloneDelta_ready [OF prepare_delta_ready [of sample_delta sample_hash]]
    by (simp add: store_defs sample_system_def pendingDeltaIDsLockedForSyncLocked_def
        sample_delta_store_deltas sample_stored_def limit_ids_def)
  obtain r sys' where run: "DispatchPending None 9 ''contacts'' 5 sample_system = (r, sys')"
    by (metis prod.exhaust)
  have "\<not> mapped sample_system (delta_id 1)"
    by (simp add: mapped_def sample_system_def NewJobMemoryStore_def has_key_def)
  moreover have "d_ID sample_stored = delta_id 1" by (simp add: sample_stored_def)
  ultimately show ?thesis
    using dispatch_creates_jobs [OF _ _ _ pull run] sample_delta_store_inv NewJobMemoryStore_inv run
    by (auto simp: sample_system_def)
qed

end
