(* ===== verification/DF_System.thy ===== *)
theory DF_System
  imports DF_Dispatch
begin

text \<open>
  The in-memory system as producers, workers and operators drive it: any sequence of
  the operations that change the pair of stores, with a clock that does not go back. What
  holds in every state reached: no delta is lost (it is pending, or it has the job that
  carries its identity, unless a caller took this in its own hands), one job per projection
  identity of a dedup window, and dispatching drains the outbox.
\<close>

section \<open>Runs\<close>

datatype sys_op =
    Sys_Enqueue delta
  | Sys_EnqueueBatch "delta list"
  | Sys_MarkDispatched DeltaID
  | Sys_Dispatch SyncID int
  | Sys_Job job_op

fun sys_exec :: "ctx \<Rightarrow> time \<Rightarrow> sys_op \<Rightarrow> memory_system \<Rightarrow> memory_system" where
  "sys_exec ctx now (Sys_Enqueue d) sys =
     sys\<lparr>ms_deltas := snd (delta_Enqueue ctx now d (ms_deltas sys))\<rparr>"
| "sys_exec ctx now (Sys_EnqueueBatch ds) sys =
     sys\<lparr>ms_deltas := snd (delta_EnqueueBatch ctx now ds (ms_deltas sys))\<rparr>"
| "sys_exec ctx now (Sys_MarkDispatched i) sys =
     sys\<lparr>ms_deltas := snd (delta_MarkDispatched ctx now i (ms_deltas sys))\<rparr>"
| "sys_exec ctx now (Sys_Dispatch syncID limit) sys = snd (DispatchPending ctx now syncID limit sys)"
| "sys_exec ctx now (Sys_Job op) sys = sys\<lparr>ms_jobs := job_exec ctx now op (ms_jobs sys)\<rparr>"

text \<open>
  The interface lets a caller do by hand what the dispatcher does. It can decide the state of a
  delta, by marking it dispatched or by enqueueing it in a state other than pending; and it can
  create the outbox job of a delta, stored or not. A run keeps book of both, by what an operation
  left behind.
\<close>

definition stored_delta :: "memory_system \<Rightarrow> DeltaID \<Rightarrow> delta option" where
  "stored_delta sys i = map_of (ds_deltas (ms_deltas sys)) i"

definition decided_by_caller :: "sys_op \<Rightarrow> memory_system \<Rightarrow> memory_system \<Rightarrow> DeltaID set" where
  "decided_by_caller op sys sys' =
     (case op of
        Sys_Dispatch syncID limit \<Rightarrow> {}
      | _ \<Rightarrow> {i. \<exists>d. stored_delta sys' i = Some d \<and> stored_delta sys i \<noteq> Some d \<and> d_State d \<noteq> DeltaPending})"

definition mapped_by_caller :: "sys_op \<Rightarrow> memory_system \<Rightarrow> memory_system \<Rightarrow> DeltaID set" where
  "mapped_by_caller op sys sys' =
     (case op of
        Sys_Job (Op_Create j) \<Rightarrow> {i. mapped sys' i \<and> \<not> mapped sys i}
      | _ \<Rightarrow> {})"

definition empty_system :: "int \<Rightarrow> memory_system" where
  "empty_system maxSize =
     \<lparr>ms_deltas = NewDeltaMemoryStoreWithConfig maxSize, ms_jobs = NewJobMemoryStore\<rparr>"

inductive reached_with :: "time \<Rightarrow> DeltaID set \<Rightarrow> DeltaID set \<Rightarrow> memory_system \<Rightarrow> bool" where
  start: "reached_with t {} {} (empty_system maxSize)"
| step: "reached_with t M C sys \<Longrightarrow> t \<le> now \<Longrightarrow> sys' = sys_exec ctx now op sys \<Longrightarrow>
    reached_with now (M \<union> decided_by_caller op sys sys') (C \<union> mapped_by_caller op sys sys') sys'"

definition reached :: "time \<Rightarrow> memory_system \<Rightarrow> bool" where
  "reached t sys \<longleftrightarrow> (\<exists>M C. reached_with t M C sys)"

section \<open>The promise between the two stores\<close>

definition carries :: "sync_job \<Rightarrow> delta \<Rightarrow> bool" where
  "carries j d \<longleftrightarrow> j_Origin j = JobOriginOutbox \<and> j_DeltaID j = Some (d_ID d)
     \<and> j_SyncID j = d_SyncID d \<and> j_ProjectionType j = d_ProjectionType d
     \<and> j_ProjectionKey j = d_ProjectionKey d \<and> j_ProjectionKeyHash j = d_ProjectionKeyHash d"

definition has_job :: "memory_system \<Rightarrow> DeltaID \<Rightarrow> delta \<Rightarrow> bool" where
  "has_job sys i d \<longleftrightarrow>
     (\<exists>k j. map_of (js_jobByDelta (ms_jobs sys)) i = Some k
        \<and> map_of (js_jobs (ms_jobs sys)) k = Some j \<and> carries j d)"

text \<open>A stored job under \<open>k\<close> that delivers the delta \<open>i\<close>.\<close>

definition outbox_job :: "memory_system \<Rightarrow> DeltaID \<Rightarrow> SyncJobID \<Rightarrow> sync_job \<Rightarrow> bool" where
  "outbox_job sys i k j \<longleftrightarrow>
     map_of (js_jobs (ms_jobs sys)) k = Some j \<and> j_Origin j = JobOriginOutbox \<and> j_DeltaID j = Some i"

text \<open>
  The invariant, for the deltas \<open>M\<close> that a caller decided and the identifiers \<open>C\<close> that a caller mapped.
\<close>

definition delta_promise :: "DeltaID set \<Rightarrow> DeltaID set \<Rightarrow> memory_system \<Rightarrow> DeltaID \<Rightarrow> delta \<Rightarrow> bool" where
  "delta_promise M C sys i d \<longleftrightarrow>
     (i \<notin> M \<longrightarrow> d_State d = DeltaPending \<or> d_State d = DeltaDispatched \<and> mapped sys i)
     \<and> (i \<notin> M \<union> C \<longrightarrow> (if d_State d = DeltaPending then \<not> mapped sys i else has_job sys i d))"

definition system_inv :: "DeltaID set \<Rightarrow> DeltaID set \<Rightarrow> memory_system \<Rightarrow> bool" where
  "system_inv M C sys \<longleftrightarrow> delta_store_inv (ms_deltas sys) \<and> job_store_inv (ms_jobs sys)
     \<and> (\<forall>i d. stored_delta sys i = Some d \<longrightarrow> delta_promise M C sys i d)
     \<and> (\<forall>i. mapped sys i \<longrightarrow> stored_delta sys i \<noteq> None \<or> i \<in> C)"

lemma system_invD:
  assumes "system_inv M C sys"
  shows "delta_store_inv (ms_deltas sys)" and "job_store_inv (ms_jobs sys)"
    and "stored_delta sys i = Some d \<Longrightarrow> delta_promise M C sys i d"
    and "mapped sys i \<Longrightarrow> stored_delta sys i \<noteq> None \<or> i \<in> C"
  using assms unfolding system_inv_def by blast+

lemma empty_system_inv [inv_intros]: "system_inv {} {} (empty_system k)"
  by (simp add: system_inv_def empty_system_def NewDeltaMemoryStore_inv NewJobMemoryStore_inv
      mapped_def has_key_def stored_delta_def) (simp add: NewDeltaMemoryStoreWithConfig_def NewJobMemoryStore_def)

lemma has_job_mapped: "has_job sys i d \<Longrightarrow> mapped sys i"
  by (auto simp: has_job_def mapped_def has_key_def)

subsection \<open>What a caller does to the deltas\<close>

text \<open>Every stored delta stays, and one that changes is no longer pending.\<close>

definition caller_write :: "delta_memory_store \<Rightarrow> delta_memory_store \<Rightarrow> bool" where
  "caller_write s s' \<longleftrightarrow>
     (\<forall>i d. map_of (ds_deltas s) i = Some d \<longrightarrow> (\<exists>d'. map_of (ds_deltas s') i = Some d'
        \<and> (d' = d \<or> d_State d' \<noteq> DeltaPending)))"

lemma caller_write_refl [simp]: "caller_write s s"
  by (simp add: caller_write_def)

lemma caller_write_trans: "caller_write s t \<Longrightarrow> caller_write t u \<Longrightarrow> caller_write s u"
  unfolding caller_write_def by metis

lemma caller_write_put:
  "ds_deltas s' = put i d (ds_deltas s) \<Longrightarrow> map_of (ds_deltas s) i = None \<or> d_State d \<noteq> DeltaPending \<Longrightarrow> caller_write s s'"
  by (auto simp: caller_write_def)

lemma delta_Enqueue_write:
  assumes inv: "delta_store_inv s"
  shows "caller_write s (snd (delta_Enqueue ctx now d s))"
proof (cases "ctx = None \<and> d_ID d = []")
  case live: True
  show ?thesis
  proof (cases "projectionKeyHash (d_ProjectionKey d)")
    case (Inl e)
    with live show ?thesis using delta_Enqueue_bad_key [OF inv _ Inl, of now]
      by (simp add: caller_write_def)
  next
    case hash: (Inr h)
    show ?thesis
    proof (cases "dedup_lookup d h s")
      case None
      have "map_of (ds_deltas s) (delta_id (Suc (ds_nextID s))) = None"
        using inv by (rule delta_store_inv_unused) simp
      with live show ?thesis using delta_Enqueue_fresh [OF inv _ hash None, of now]
        by (auto simp: insert_delta_def intro!: caller_write_put [of _ "delta_id (Suc (ds_nextID s))"])
    next
      case (Some i)
      with live show ?thesis using delta_Enqueue_duplicate [OF inv _ hash, of i now] by simp
    qed
  qed
qed (auto simp: store_defs split: option.split)

lemma batch_fold_write:
  assumes "delta_store_inv (snd rs)" and "\<forall>p \<in> set ps. delta_ready p \<and> d_DedupKey p \<noteq> []"
  shows "caller_write (snd rs) (snd (fold (batch_step now) ps rs))"
  using assms
proof (induction ps arbitrary: rs)
  case (Cons p ps)
  obtain res s where rs: "rs = (res, s)" by (cases rs)
  have "map_of (ds_deltas s) (delta_id (Suc (ds_nextID s))) = None"
    using Cons.prems(1) by (auto simp: rs intro: delta_store_inv_unused)
  then have "caller_write (snd rs) (snd (batch_step now p rs))"
    by (auto simp: rs batch_step_def Let_def intro!: caller_write_put [of _ "delta_id (Suc (ds_nextID s))"])
  moreover have "delta_store_inv (snd (batch_step now p rs))"
    using batch_step_inv [OF Cons.prems(1)] Cons.prems(2) by simp
  ultimately show ?case using Cons caller_write_trans by fastforce
qed simp

lemma delta_EnqueueBatch_write:
  assumes inv: "delta_store_inv s"
  shows "caller_write s (snd (delta_EnqueueBatch ctx now ds s))"
proof (cases "validateEnqueueBatch ctx ds (ds_maxEnqueueBatchSize s)")
  case (Inr w)
  note windows = validateEnqueueBatch_ok(3) [OF Inr]
  show ?thesis
  proof (cases "ds = [] \<or> (\<exists>e. prepare_batch w ds = Inl e)")
    case True
    then show ?thesis using Inr by (auto simp: store_defs Let_def)
  next
    case False
    then obtain ps where ps: "prepare_batch w ds = Inr ps" by (metis sum.exhaust)
    show ?thesis
      using batch_fold_write [of "(_, s)" ps now] inv prepare_batch_ready [OF ps windows] False Inr ps
      by (simp add: store_defs Let_def split: prod.split) (metis snd_conv)
  qed
qed (simp add: store_defs)

lemma delta_MarkDispatched_write: "caller_write s (snd (delta_MarkDispatched ctx now i s))"
  by (auto simp: delta_MarkDispatched_def split: option.split intro!: caller_write_put [of _ i])

lemma caller_write_inv:
  assumes inv: "system_inv M C sys" and written: "caller_write (ms_deltas sys) s'" and "delta_store_inv s'"
  defines "sys' \<equiv> sys\<lparr>ms_deltas := s'\<rparr>"
  defines "D \<equiv> {i. \<exists>d. stored_delta sys' i = Some d \<and> stored_delta sys i \<noteq> Some d \<and> d_State d \<noteq> DeltaPending}"
  shows "system_inv (M \<union> D) C sys'"
proof -
  note old = system_invD [OF inv]
  have same: "mapped sys' i = mapped sys i" "has_job sys' i d = has_job sys i d" for i d
    by (simp_all add: sys'_def mapped_def has_job_def)
  have "delta_promise (M \<union> D) C sys' i d" if d: "stored_delta sys' i = Some d" for i d
  proof (cases "stored_delta sys i = Some d")
    case True
    from old(3) [OF this] show ?thesis by (auto simp: delta_promise_def same)
  next
    case changed: False
    show ?thesis
    proof (cases "d_State d = DeltaPending")
      case True
      with changed d written have "stored_delta sys i = None"
        by (cases "stored_delta sys i") (fastforce simp: caller_write_def stored_delta_def sys'_def)+
      with old(4) [of i] have "mapped sys i \<Longrightarrow> i \<in> C" by blast
      with True show ?thesis by (auto simp: delta_promise_def same)
    next
      case False
      with changed d have "i \<in> D" by (auto simp: D_def)
      then show ?thesis by (simp add: delta_promise_def)
    qed
  qed
  moreover have "stored_delta sys' i \<noteq> None \<or> i \<in> C" if "mapped sys i" for i
    using old(4) [OF that] written by (auto simp: caller_write_def stored_delta_def sys'_def)
  ultimately show ?thesis using assms(3) old(2) by (simp add: system_inv_def same) (simp add: sys'_def)
qed

subsection \<open>Job operations keep every job's identity\<close>

lemma updateOwned_index [simp]:
  "js_jobByDelta (snd (updateOwned ctx now i w tr fn s)) = js_jobByDelta s"
  by (simp add: updateOwned_cases split: option.split)

lemma ClaimNextBatch_index:
  assumes "job_store_inv s"
  shows "js_jobByDelta (snd (ClaimNextBatch ctx now syncID w limit l s)) = js_jobByDelta s"
proof (cases "ctx = None \<and> 0 < l \<and> 0 < limit")
  case True
  then show ?thesis using ClaimNextBatch_effect(4) [OF assms] by (metis prod.collapse)
qed (auto simp: ClaimNextBatch_def split: option.split)

definition creates :: "job_op \<Rightarrow> bool" where
  "creates op \<longleftrightarrow> (\<exists>j. op = Op_Create j)"

lemma job_exec_index:
  assumes "job_store_inv s" and "\<not> creates op"
  shows "js_jobByDelta (job_exec ctx now op s) = js_jobByDelta s"
proof (cases op)
  case (Op_Create j)
  with assms(2) show ?thesis by (simp add: creates_def)
next
  case (Op_ClaimNext syncID w l)
  show ?thesis
  proof (cases "ctx = None \<and> 0 < l")
    case True
    then show ?thesis
      using Op_ClaimNext ClaimNext_effect(2) [OF assms(1)] ClaimNextBatch_index [OF assms(1)] by simp
  qed (use Op_ClaimNext in \<open>auto simp: ClaimNext_def split: option.split\<close>)
next
  case (Op_ClaimNextBatch syncID w limit l)
  then show ?thesis using ClaimNextBatch_index [OF assms(1)] by simp
qed (auto simp: RenewLease_def MarkSynced_def MarkRetrying_def RequeueClaimed_def MarkDead_def
      ForceReleaseExpiredLease_def RequeueExpiredLease_def Let_def split_def split: option.split)

text \<open>An entry of the index stays; creating a job may add one.\<close>

lemma Create_index:
  assumes "job_store_inv s" and "map_of (js_jobByDelta s) i = Some k"
  shows "map_of (js_jobByDelta (snd (job_Create ctx now j s))) i = Some k"
proof (cases "ctx = None \<and> j_ID j = []")
  case True
  show ?thesis
  proof (cases "create_refused j s")
    case None
    then have "j_Origin j = JobOriginOutbox \<Longrightarrow> j_DeltaID j \<noteq> Some i"
      using assms(2) by (auto simp: create_refused_def already_mapped_def has_key_def split: if_splits)
    then show ?thesis using True createLocked_new [OF assms(1), of j now] None assms(2)
      by (auto simp: store_defs add_job_def index_job_def split: option.split)
  next
    case (Some e)
    then show ?thesis using True assms(2) createLocked_refused [OF Some, of now] by (simp add: store_defs)
  qed
qed (use assms(2) in \<open>auto simp: store_defs split: option.split\<close>)

lemma job_exec_index_kept:
  assumes "job_store_inv s" and "map_of (js_jobByDelta s) i = Some k"
  shows "map_of (js_jobByDelta (job_exec ctx now op s)) i = Some k"
proof (cases "creates op")
  case True
  then show ?thesis using Create_index [OF assms] by (auto simp: creates_def)
next
  case False
  then show ?thesis using job_exec_index [OF assms(1)] assms(2) by simp
qed

lemma carries_frame: "job_frame j' = job_frame j \<Longrightarrow> carries j' d = carries j d"
  by (simp add: carries_def job_frame_def)

lemma job_exec_system_inv:
  fixes ctx :: ctx and now :: time and op :: job_op
  assumes inv: "system_inv M C sys"
  defines "sys' \<equiv> sys\<lparr>ms_jobs := job_exec ctx now op (ms_jobs sys)\<rparr>"
  defines "N \<equiv> (if creates op then {i. mapped sys' i \<and> \<not> mapped sys i} else {})"
  shows "system_inv M (C \<union> N) sys'"
proof -
  note old = system_invD [OF inv]
  have kept: "mapped sys' i" if "mapped sys i" for i
    using that job_exec_index_kept [OF old(2), of i _ ctx now op] by (auto simp: mapped_def has_key_def sys'_def)
  have fresh: "i \<in> N" if "mapped sys' i" "\<not> mapped sys i" for i
    using that job_exec_index [OF old(2), of op ctx now] by (cases "creates op") (auto simp: N_def mapped_def sys'_def)
  have keeps: "has_job sys' i d" if has: "has_job sys i d" for i d
  proof -
    obtain k j where kj: "map_of (js_jobByDelta (ms_jobs sys)) i = Some k"
      "map_of (js_jobs (ms_jobs sys)) k = Some j" "carries j d"
      using has by (auto simp: has_job_def)
    obtain j' where j': "map_of (js_jobs (job_exec ctx now op (ms_jobs sys))) k = Some j'"
      and "follows now (op_worker op) j j'"
      using job_exec_follows [OF old(2) kj(2)] by blast
    then have "job_frame j' = job_frame j" by (auto simp: follows_def)
    from carries_frame [OF this] kj(3) have "carries j' d" by blast
    with j' job_exec_index_kept [OF old(2) kj(1)] show ?thesis by (auto simp: has_job_def sys'_def)
  qed
  have same: "stored_delta sys' i = stored_delta sys i" for i by (simp add: stored_delta_def sys'_def)
  have "delta_promise M (C \<union> N) sys' i d" if "stored_delta sys i = Some d" for i d
    using old(3) [OF that] keeps kept fresh unfolding delta_promise_def by auto
  moreover have "stored_delta sys i \<noteq> None \<or> i \<in> C \<union> N" if "mapped sys' i" for i
    using old(4) [of i] fresh [OF that] by blast
  ultimately show ?thesis
    using old(1) job_exec_inv [OF old(2)] by (simp add: system_inv_def same) (simp add: sys'_def)
qed

subsection \<open>Dispatching keeps the promise\<close>

lemma carries_dispatched [simp]: "carries j (set_dispatched now d) = carries j d"
  by (simp add: carries_def)

lemma DispatchPending_system_inv:
  assumes inv: "system_inv M C sys"
  shows "system_inv M C (snd (DispatchPending ctx now syncID limit sys))"
proof (cases "ctx = None \<and> 0 < limit")
  case True
  obtain r sys' where run: "DispatchPending None now syncID limit sys = (r, sys')"
    by (metis prod.exhaust)
  note old = system_invD [OF inv]
  have "0 < limit" using True by simp
  note eff = DispatchPending_effect [OF old(1,2) this run]
  let ?ids = "dispatch_ids syncID limit sys" and ?at = "delta_at (ds_deltas (ms_deltas sys))"
  have unmapped: "\<not> mapped sys i" if "i \<in> set ?ids" "i \<notin> M \<union> C" for i
    using dispatch_ids_stored [OF old(1) that(1)] old(3) [of i] that(2)
    by (fastforce simp: delta_promise_def stored_delta_def)
  have keeps: "has_job sys' i d" if has: "has_job sys i d" for i d
  proof -
    obtain k j where kj: "map_of (js_jobByDelta (ms_jobs sys)) i = Some k"
      "map_of (js_jobs (ms_jobs sys)) k = Some j" "carries j d"
      using has by (auto simp: has_job_def)
    then have "mapped sys i" by (simp add: mapped_def has_key_def)
    with kj eff(5,6) show ?thesis by (auto simp: has_job_def)
  qed
  have new: "has_job sys' i (?at i)" if i: "i \<in> set ?ids" "\<not> mapped sys i" for i
  proof -
    from eff(4) obtain jobs where jobs: "map j_DeltaID jobs = map Some (filter (\<lambda>i. \<not> mapped sys i) ?ids)"
      "\<forall>j \<in> set jobs. \<exists>i \<in> set ?ids. j = dispatch_job now (j_ID j) (?at i)
           \<and> map_of (js_jobByDelta (ms_jobs sys')) i = Some (j_ID j)
           \<and> map_of (js_jobs (ms_jobs sys')) (j_ID j) = Some j" by blast
    have "Some i \<in> set (map j_DeltaID jobs)" using i by (simp add: jobs(1))
    then obtain j where j: "j \<in> set jobs" "j_DeltaID j = Some i" by auto
    with jobs(2) obtain i' where i': "i' \<in> set ?ids" "j = dispatch_job now (j_ID j) (?at i')"
      "map_of (js_jobByDelta (ms_jobs sys')) i' = Some (j_ID j)"
      "map_of (js_jobs (ms_jobs sys')) (j_ID j) = Some j" by blast
    obtain d where d: "map_of (ds_deltas (ms_deltas sys)) i' = Some d" "d_ID d = i'"
      using dispatch_ids_stored [OF old(1) i'(1)] by blast
    have "j_DeltaID j = Some (d_ID (?at i'))" using i'(2) by (metis dispatch_job_sel(3))
    with j(2) d have "i' = i" by simp
    have "cloneProjectionKey (d_ProjectionKey d) = d_ProjectionKey d"
      using delta_store_inv_ok [OF old(1) d(1)] by (auto simp: delta_ok_def projectionKeyHash_clone)
    then have "carries (dispatch_job now k d) d" for k by (simp add: carries_def)
    then have "carries j (?at i)" using i'(2) d \<open>i' = i\<close> by (metis delta_at_stored)
    with i'(3,4) \<open>i' = i\<close> show ?thesis by (auto simp: has_job_def)
  qed
  have others: "mapped sys' i = mapped sys i" if "i \<notin> set ?ids" for i
    using eff(5) that by (simp add: mapped_def has_key_def)
  have "delta_promise M C sys' i d" if d: "stored_delta sys' i = Some d" for i d
  proof (cases "i \<in> set ?ids")
    case True
    with d eff(3) have "d = set_dispatched now (?at i)" by (simp add: stored_delta_def)
    moreover have "has_job sys' i (set_dispatched now (?at i))" if "i \<notin> M \<union> C"
      using new [OF True unmapped [OF True that]] by (simp add: has_job_def)
    ultimately show ?thesis using True eff(7) by (simp add: delta_promise_def)
  next
    case False
    with d eff(3) have "stored_delta sys i = Some d" by (simp add: stored_delta_def)
    from old(3) [OF this] keeps others [OF False] show ?thesis by (auto simp: delta_promise_def)
  qed
  moreover have "stored_delta sys' i \<noteq> None \<or> i \<in> C" if "mapped sys' i" for i
  proof (cases "i \<in> set ?ids")
    case False
    with that others old(4) eff(3) show ?thesis by (auto simp: stored_delta_def)
  qed (simp add: stored_delta_def eff(3))
  ultimately have "system_inv M C sys'" using eff(1,2) by (simp add: system_inv_def)
  with run True show ?thesis by simp
qed (use inv in \<open>auto simp: store_defs split: option.split\<close>)

lemma sys_exec_inv [inv_intros]:
  fixes ctx :: ctx and now :: time and op :: sys_op
  assumes "system_inv M C sys"
  defines "sys' \<equiv> sys_exec ctx now op sys"
  shows "system_inv (M \<union> decided_by_caller op sys sys') (C \<union> mapped_by_caller op sys sys') sys'"
proof (cases op)
  case (Sys_Enqueue d)
  then show ?thesis
    using caller_write_inv [OF assms(1) delta_Enqueue_write delta_Enqueue_inv] system_invD(1) [OF assms(1)]
    by (simp add: sys'_def decided_by_caller_def mapped_by_caller_def)
next
  case (Sys_EnqueueBatch ds)
  then show ?thesis
    using caller_write_inv [OF assms(1) delta_EnqueueBatch_write delta_EnqueueBatch_inv] system_invD(1) [OF assms(1)]
    by (simp add: sys'_def decided_by_caller_def mapped_by_caller_def)
next
  case (Sys_MarkDispatched i)
  then show ?thesis
    using caller_write_inv [OF assms(1) delta_MarkDispatched_write delta_MarkDispatched_inv] system_invD(1) [OF assms(1)]
    by (simp add: sys'_def decided_by_caller_def mapped_by_caller_def)
next
  case (Sys_Dispatch syncID limit)
  then show ?thesis using assms
    by (simp add: DispatchPending_system_inv decided_by_caller_def mapped_by_caller_def)
next
  case (Sys_Job jop)
  have "decided_by_caller op sys sys' = {}"
    by (simp add: decided_by_caller_def stored_delta_def sys'_def Sys_Job)
  moreover have "mapped_by_caller op sys sys' = (if creates jop then {i. mapped sys' i \<and> \<not> mapped sys i} else {})"
    by (cases jop) (simp_all add: mapped_by_caller_def Sys_Job creates_def)
  ultimately show ?thesis using job_exec_system_inv [OF assms(1), where op = jop and ctx = ctx and now = now]
    by (cases "creates jop") (simp_all add: sys'_def Sys_Job)
qed

lemma reached_with_inv: "reached_with t M C sys \<Longrightarrow> system_inv M C sys"
  by (induction rule: reached_with.induct) (simp_all add: empty_system_inv sys_exec_inv)

lemma reached_stores:
  assumes "reached t sys"
  shows "delta_store_inv (ms_deltas sys)" and "job_store_inv (ms_jobs sys)"
  using assms reached_with_inv system_invD(1,2) unfolding reached_def by blast+

section \<open>Properties\<close>


lemma sample_system_eq: "sys_exec None 7 (Sys_Enqueue sample_delta) (empty_system 0) = sample_system"
  by (simp add: empty_system_def sample_system_def sample_delta_store_def NewDeltaMemoryStore_def)

lemma sample_system_reached_with: "reached_with 7 {} {} sample_system"
proof -
  let ?op = "Sys_Enqueue sample_delta"
  have "decided_by_caller ?op (empty_system 0) sample_system = {}"
    by (auto simp: decided_by_caller_def stored_delta_def sample_system_def sample_delta_store_deltas sample_stored_def
        split: if_splits)
  moreover have "mapped_by_caller ?op (empty_system 0) sample_system = {}" by (simp add: mapped_by_caller_def)
  ultimately show ?thesis
    using reached_with.step [OF reached_with.start [of 7], of 7 sample_system None ?op 0] sample_system_eq by simp
qed

lemma sample_system_reached: "reached 7 sample_system"
  using sample_system_reached_with unfolding reached_def by blast

lemma sample_reached_with: "reached_with 9 {} {} (snd (DispatchPending None 9 ''contacts'' 5 sample_system))"
  using reached_with.step [OF sample_system_reached_with, of 9 _ None "Sys_Dispatch ''contacts'' 5"]
  by (simp add: decided_by_caller_def mapped_by_caller_def)

lemma sample_reached: "reached 9 (snd (DispatchPending None 9 ''contacts'' 5 sample_system))"
  using sample_reached_with unfolding reached_def by blast

lemma sample_system_inv:
  "delta_store_inv (ms_deltas sample_system)" "job_store_inv (ms_jobs sample_system)"
  by (simp_all add: sample_system_def sample_delta_store_inv NewJobMemoryStore_inv)

lemma sample_dispatched:
  "map_of (ds_deltas (ms_deltas (snd (DispatchPending None 9 ''contacts'' 5 sample_system)))) (delta_id 1)
     = Some (set_dispatched 9 sample_stored)"
proof -
  obtain r sys' where run: "DispatchPending None 9 ''contacts'' 5 sample_system = (r, sys')"
    by (metis prod.exhaust)
  have "dispatch_ids ''contacts'' 5 sample_system = [delta_id 1]"
    and "delta_at (ds_deltas (ms_deltas sample_system)) (delta_id 1) = sample_stored"
    by (simp_all add: dispatch_ids_def sample_system_def pendingDeltaIDsLockedForSyncLocked_def
        sample_delta_store_deltas sample_stored_def)
  then show ?thesis using DispatchPending_effect(3) [OF sample_system_inv _ run] by (simp add: run)
qed


text \<open>
  C21: Deduplication carries through to the jobs: in every reachable state two outbox jobs
  whose deltas were enqueued in the same dedup window with the same projection type and key
  hash are one and the same job.
\<close>

theorem one_job_per_identity:
  assumes "reached t sys"
    and "map_of (js_jobs (ms_jobs sys)) k = Some j" and "map_of (js_jobs (ms_jobs sys)) k' = Some j'"
    and "j_Origin j = JobOriginOutbox" and "j_Origin j' = JobOriginOutbox"
    and "j_DeltaID j = Some (d_ID d)" and "j_DeltaID j' = Some (d_ID d')"
    and "map_of (ds_deltas (ms_deltas sys)) (d_ID d) = Some d"
    and "map_of (ds_deltas (ms_deltas sys)) (d_ID d') = Some d'"
    and "d_DedupWindow d \<noteq> []" and "d_DedupWindow d' = d_DedupWindow d"
    and "d_ProjectionType d' = d_ProjectionType d" and "d_ProjectionKeyHash d' = d_ProjectionKeyHash d"
  shows "k = k' \<and> d = d'"
proof -
  note inv = reached_stores [OF assms(1)]
  have ok: "delta_ok (ms_deltas sys) (d_ID d) d" "delta_ok (ms_deltas sys) (d_ID d') d'"
    using delta_store_inv_ok [OF inv(1)] assms(8,9) by blast+
  have "delta_key_of d' (d_ProjectionKeyHash d') = delta_key_of d (d_ProjectionKeyHash d)"
    using assms(10-13) by (simp add: delta_key_of_def)
  moreover have "delta_key_of d (d_ProjectionKeyHash d) \<noteq> []" using assms(10) by (simp add: delta_key_of_def)
  ultimately have "d_DedupKey d' = d_DedupKey d" and "d_DedupKey d \<noteq> []"
    using ok unfolding delta_ok_def by metis+
  with ok have "map_of (ds_dedup (ms_deltas sys)) (d_DedupKey d) = Some (d_ID d)"
    and "map_of (ds_dedup (ms_deltas sys)) (d_DedupKey d) = Some (d_ID d')"
    unfolding delta_ok_def by metis+
  then have id: "d_ID d = d_ID d'" by simp
  have "d = d'" using assms(8,9) unfolding id by (simp only: option.inject)
  moreover have "map_of (js_jobByDelta (ms_jobs sys)) (d_ID d) = Some k"
    using job_store_inv_ok [OF inv(2) assms(2)] assms(4,6) unfolding job_ok_def by (metis option.inject)
  moreover have "map_of (js_jobByDelta (ms_jobs sys)) (d_ID d') = Some k'"
    using job_store_inv_ok [OF inv(2) assms(3)] assms(5,7) unfolding job_ok_def by (metis option.inject)
  ultimately show ?thesis by (metis option.inject)
qed

theorem one_job_per_identity_witness:
  "let sys = snd (DispatchPending None 9 ''contacts'' 5 sample_system)
   in \<exists>k j d. map_of (js_jobs (ms_jobs sys)) k = Some j \<and> carries j d
     \<and> (\<forall>k' j'. map_of (js_jobs (ms_jobs sys)) k' = Some j' \<and> carries j' d \<longrightarrow> k' = k)"
proof -
  let ?sys = "snd (DispatchPending None 9 ''contacts'' 5 sample_system)"
  let ?d = "set_dispatched 9 sample_stored"
  note reach = sample_reached
  have d: "map_of (ds_deltas (ms_deltas ?sys)) (d_ID ?d) = Some ?d"
    using sample_dispatched by (simp add: sample_stored_def)
  have "delta_promise {} {} ?sys (d_ID ?d) ?d"
    using d by (intro system_invD(3) [OF reached_with_inv [OF sample_reached_with]]) (simp add: stored_delta_def)
  then obtain k j where kj: "map_of (js_jobs (ms_jobs ?sys)) k = Some j" "carries j ?d"
    by (auto simp: delta_promise_def has_job_def simp del: carries_dispatched)
  have window: "d_DedupWindow ?d \<noteq> []" by (simp add: sample_stored_def)
  have "k' = k" if "map_of (js_jobs (ms_jobs ?sys)) k' = Some j'" "carries j' ?d" for k' j'
    using one_job_per_identity [OF reach kj(1) that(1) _ _ _ _ d d window] kj(2) that(2)
    by (simp add: carries_def)
  with kj show ?thesis unfolding Let_def by blast
qed

definition pending_count :: "SyncID \<Rightarrow> memory_system \<Rightarrow> nat" where
  "pending_count syncID sys = length (pendingDeltaIDsLockedForSyncLocked syncID (ms_deltas sys))"

lemma set_diff_take: "distinct xs \<Longrightarrow> set xs - set (take n xs) = set (drop n xs)"
  using set_take_disj_set_drop_if_distinct [of xs n n] append_take_drop_id [of n xs]
  by (metis Diff_cancel Diff_triv Int_commute Un_Diff le_refl set_append sup_bot.left_neutral)

lemma dispatch_pending_count:
  assumes ds: "delta_store_inv (ms_deltas sys)" and js: "job_store_inv (ms_jobs sys)" and "0 < limit"
  shows "pending_count syncID (snd (DispatchPending None now syncID limit sys))
    = pending_count syncID sys - nat limit"
proof -
  obtain r sys' where run: "DispatchPending None now syncID limit sys = (r, sys')"
    by (metis prod.exhaust)
  note eff = DispatchPending_effect [OF ds js assms(3) run]
  let ?pend = "\<lambda>sys. pendingDeltaIDsLockedForSyncLocked syncID (ms_deltas sys)"
  have "set (?pend sys') = set (?pend sys) - set (dispatch_ids syncID limit sys)"
    unfolding set_pending_ids [OF eff(1)] set_pending_ids [OF ds] using eff(3) by auto
  also have "\<dots> = set (drop (nat limit) (?pend sys))"
    using distinct_pending_ids [OF ds, of syncID]
    unfolding dispatch_ids_def by (rule set_diff_take)
  finally have "set (?pend sys') = set (drop (nat limit) (?pend sys))" .
  then have "card (set (?pend sys')) = card (set (drop (nat limit) (?pend sys)))" by simp
  then show ?thesis
    using distinct_pending_ids [OF eff(1)] distinct_pending_ids [OF ds]
    by (simp add: distinct_card pending_count_def run)
qed

text \<open>
  Dispatching makes progress: after enough dispatches with a positive limit, enough
  meaning that their limits add up to the number of pending deltas of the sync, nothing of
  the sync is left to pull.
\<close>

theorem dispatch_drains:
  assumes "reached t sys" and "0 < limit"
    and "pending_count syncID sys \<le> length nows * nat limit"
  shows "delta_Pull None syncID k (ms_deltas
    (fold (\<lambda>now sys. snd (DispatchPending None now syncID limit sys)) nows sys)) = Inr []"
proof -
  obtain M C where inv: "system_inv M C sys" using assms(1) reached_with_inv unfolding reached_def by blast
  have "pending_count syncID (fold (\<lambda>now sys. snd (DispatchPending None now syncID limit sys)) nows sys) = 0"
    using inv assms(3)
  proof (induction nows arbitrary: sys)
    case (Cons now nows)
    let ?sys1 = "snd (DispatchPending None now syncID limit sys)"
    have "pending_count syncID ?sys1 \<le> length nows * nat limit"
      using dispatch_pending_count [OF system_invD(1,2) [OF Cons.prems(1)] assms(2)] Cons.prems(2) by simp
    from Cons.IH [OF DispatchPending_system_inv [OF Cons.prems(1)] this] show ?case by simp
  qed simp
  then show ?thesis by (simp add: pending_count_def store_defs limit_ids_def)
qed

theorem dispatch_drains_witness:
  "delta_Pull None ''contacts'' 10 (ms_deltas (snd (DispatchPending None 9 ''contacts'' 1 sample_system)))
     = Inr []"
proof -
  note reach = sample_system_reached
  have "pending_count ''contacts'' sample_system \<le> length [9::time] * nat 1"
    by (simp add: pending_count_def sample_system_def pendingDeltaIDsLockedForSyncLocked_def
        sample_delta_store_deltas)
  from dispatch_drains [OF reach _ this, of 10] show ?thesis by simp
qed

end
