(* ===== verification/DF_Contract.thy ===== *)
theory DF_Contract
  imports DF_JobMemory
begin

text \<open>
  The interface between the worker and its stores: \<open>JobStore\<close>, \<open>JobStoreBatchClaims\<close> and
  \<open>DispatchStore\<close> (\<open>pkg/deltaflow/deltaflow.go\<close>) as a record of operations over a state
  type, and what their documentation promises about leases as a locale. A provider says how
  its state reads as a map from identifiers to jobs; the laws speak of that map only.
\<close>

section \<open>The operations\<close>

record 's job_store_ops =
  jo_DispatchPending :: "ctx \<Rightarrow> time \<Rightarrow> SyncID \<Rightarrow> int \<Rightarrow> 's \<Rightarrow> (error + sync_job list) \<times> 's"
  jo_ClaimNext :: "ctx \<Rightarrow> time \<Rightarrow> SyncID \<Rightarrow> string \<Rightarrow> duration \<Rightarrow> 's \<Rightarrow> (error + sync_job option) \<times> 's"
  jo_ClaimNextBatch ::
    "ctx \<Rightarrow> time \<Rightarrow> SyncID \<Rightarrow> string \<Rightarrow> int \<Rightarrow> duration \<Rightarrow> 's \<Rightarrow> (error + sync_job list) \<times> 's"
  jo_RenewLease :: "ctx \<Rightarrow> time \<Rightarrow> SyncJobID \<Rightarrow> string \<Rightarrow> duration \<Rightarrow> 's \<Rightarrow> error option \<times> 's"
  jo_MarkSynced :: "ctx \<Rightarrow> time \<Rightarrow> SyncJobID \<Rightarrow> string \<Rightarrow> bool \<Rightarrow> 's \<Rightarrow> error option \<times> 's"
  jo_MarkRetrying ::
    "ctx \<Rightarrow> time \<Rightarrow> SyncJobID \<Rightarrow> string \<Rightarrow> error option \<Rightarrow> time \<Rightarrow> 's \<Rightarrow> error option \<times> 's"
  jo_RequeueClaimed ::
    "ctx \<Rightarrow> time \<Rightarrow> SyncJobID \<Rightarrow> string \<Rightarrow> error option \<Rightarrow> time \<Rightarrow> 's \<Rightarrow> error option \<times> 's"
  jo_MarkDead :: "ctx \<Rightarrow> time \<Rightarrow> SyncJobID \<Rightarrow> string \<Rightarrow> error option \<Rightarrow> 's \<Rightarrow> error option \<times> 's"

section \<open>The laws\<close>

text \<open>A job that is processing under the name of a worker, its lease over or not.\<close>

definition held_by :: "string \<Rightarrow> sync_job \<Rightarrow> bool" where
  "held_by w j \<longleftrightarrow> j_State j = StateProcessing \<and> j_LockedBy j = Some w \<and> j_LockedUntil j \<noteq> None"

lemma jobLeaseOwned_held: "jobLeaseOwned j now w \<longleftrightarrow> held_by w j \<and> now < the (j_LockedUntil j)"
  by (auto simp: jobLeaseOwned_def held_by_def split: option.splits)

text \<open>
  What a finalising call does to the jobs: with the lease it succeeds and the job leaves the
  processing state; without it the call is refused and no job changes.
\<close>

definition finalised ::
    "time \<Rightarrow> SyncJobID \<Rightarrow> string \<Rightarrow> (SyncJobID \<Rightarrow> sync_job option) \<Rightarrow> error option
       \<Rightarrow> (SyncJobID \<Rightarrow> sync_job option) \<Rightarrow> bool"
where
  "finalised now i w before r after \<longleftrightarrow>
     (case before i of
        Some j \<Rightarrow>
          if jobLeaseOwned j now w
          then r = None \<and> (\<exists>j'. after = before(i \<mapsto> j') \<and> j_State j' \<noteq> StateProcessing)
          else r \<noteq> None \<and> after = before
      | None \<Rightarrow> r \<noteq> None \<and> after = before)"

locale job_store =
  fixes ops :: "'s job_store_ops"
    and jobs :: "'s \<Rightarrow> SyncJobID \<Rightarrow> sync_job option"
    and inv :: "'s \<Rightarrow> bool"
  assumes claim_batch_law: "inv s \<Longrightarrow> jo_ClaimNextBatch ops c now syncID w n l s = (r, s') \<Longrightarrow> inv s' \<and>
      (case r of
         Inl e \<Rightarrow> jobs s' = jobs s
       | Inr js \<Rightarrow> (\<forall>j \<in> set js. jobs s' (j_ID j) = Some j \<and> held_by w j)
           \<and> (\<forall>i. i \<notin> set (map j_ID js) \<longrightarrow> jobs s' i = jobs s i))"
    and claim_next_law: "inv s \<Longrightarrow> jo_ClaimNext ops c now syncID w l s = (r', s') \<Longrightarrow> inv s' \<and>
      (case r' of
         Inr (Some j) \<Rightarrow> jobs s' = (jobs s)(j_ID j \<mapsto> j) \<and> held_by w j
       | _ \<Rightarrow> jobs s' = jobs s)"
    and renew_law: "inv s \<Longrightarrow> jo_RenewLease ops c now i w l s = (e, s') \<Longrightarrow> inv s' \<and>
      (jobs s' = jobs s \<or> (\<exists>j j'. jobs s i = Some j \<and> held_by w j \<and> held_by w j'
         \<and> jobs s' = (jobs s)(i \<mapsto> j')))"
    and synced_law: "inv s \<Longrightarrow> jo_MarkSynced ops None now i w g s = (e, s') \<Longrightarrow>
      inv s' \<and> finalised now i w (jobs s) e (jobs s')"
    and retrying_law: "inv s \<Longrightarrow> jo_MarkRetrying ops None now i w x t s = (e, s') \<Longrightarrow>
      inv s' \<and> finalised now i w (jobs s) e (jobs s')"
    and requeue_law: "inv s \<Longrightarrow> jo_RequeueClaimed ops None now i w x t s = (e, s') \<Longrightarrow>
      inv s' \<and> finalised now i w (jobs s) e (jobs s')"
    and dead_law: "inv s \<Longrightarrow> jo_MarkDead ops None now i w x s = (e, s') \<Longrightarrow>
      inv s' \<and> finalised now i w (jobs s) e (jobs s')"
    and dispatch_law: "inv s \<Longrightarrow> jo_DispatchPending ops c now syncID n s = (d, s') \<Longrightarrow> inv s' \<and>
      (\<forall>i j. jobs s i = Some j \<longrightarrow> jobs s' i = Some j)
      \<and> (\<forall>i j. jobs s i = None \<longrightarrow> jobs s' i = Some j \<longrightarrow> j_State j \<noteq> StateProcessing)"

end
