(* ===== verification/DF_Worker.thy ===== *)
theory DF_Worker
  imports DF_Contract
begin

text \<open>
  \<open>SyncWorker\<close> (\<open>pkg/deltaflow/worker.go\<close>). The code of one routine is a process: it returns
  a value, or makes one call on its surroundings (a store, the projector, the applier, the
  clock, its context, its heartbeat ticker) and goes on with the answer. Sequential and
  concurrent execution interpret the same processes. The log records are not modelled, nor
  is the metric that goes into them.
\<close>

section \<open>Configuration\<close>

record sync_worker_config =
  wc_SyncID :: SyncID
  wc_WorkerID :: string
  wc_LockFor :: duration
  wc_PullSize :: int
  wc_BatchSize :: int
  wc_Concurrency :: int

text \<open>\<open>SyncWorkerConfig.Validate\<close>\<close>

definition worker_Validate :: "sync_worker_config \<Rightarrow> error option" where
  "worker_Validate c =
     (if wc_SyncID c = [] then Some (Errors_New ''sync worker config: sync_id is required'')
      else if wc_WorkerID c = [] then Some (Errors_New ''sync worker config: worker_id is required'')
      else if wc_LockFor c \<le> 0
        then Some (Errors_New ''sync worker config: lock_for must be positive'')
      else None)"

text \<open>
  The worker: which of its collaborators are set, whether the job store offers batch
  claims, and its settings.
\<close>

record sync_worker =
  sw_hasJobStore :: bool
  sw_batchClaims :: bool
  sw_hasDispatcher :: bool
  sw_hasProjector :: bool
  sw_hasApplier :: bool
  sw_SyncID :: SyncID
  sw_WorkerID :: string
  sw_LockFor :: duration
  sw_PullSize :: int
  sw_BatchSize :: int
  sw_Concurrency :: int

definition worker_config :: "sync_worker \<Rightarrow> sync_worker_config" where
  "worker_config w =
     \<lparr>wc_SyncID = sw_SyncID w, wc_WorkerID = sw_WorkerID w, wc_LockFor = sw_LockFor w,
      wc_PullSize = sw_PullSize w, wc_BatchSize = sw_BatchSize w,
      wc_Concurrency = sw_Concurrency w\<rparr>"

definition validateRunOnceDependencies :: "sync_worker \<Rightarrow> error option" where
  "validateRunOnceDependencies w =
     (case worker_Validate (worker_config w) of
        Some e \<Rightarrow> Some e
      | None \<Rightarrow>
          if \<not> sw_hasJobStore w then Some (Errors_New ''sync worker config: job_store is required'')
          else if \<not> sw_hasProjector w then Some (Errors_New ''sync worker config: projector is required'')
          else if \<not> sw_hasApplier w then Some (Errors_New ''sync worker config: applier is required'')
          else None)"

definition effectiveBatchSize :: "sync_worker \<Rightarrow> int" where
  "effectiveBatchSize w = (if sw_BatchSize w \<le> 0 then 1 else sw_BatchSize w)"

definition effectiveConcurrency :: "sync_worker \<Rightarrow> int" where
  "effectiveConcurrency w = (if sw_Concurrency w \<le> 0 then 1 else sw_Concurrency w)"

definition effectivePullSize :: "sync_worker \<Rightarrow> int" where
  "effectivePullSize w =
     (if 0 < sw_PullSize w then sw_PullSize w else effectiveConcurrency w * effectiveBatchSize w)"

definition WorkerIDForRoutine :: "sync_worker \<Rightarrow> int \<Rightarrow> string" where
  "WorkerIDForRoutine w routine =
     (if routine \<le> 0 then sw_WorkerID w else sw_WorkerID w @ ''-r'' @ show_int routine)"

definition workerBackoff :: "int \<Rightarrow> duration" where
  "workerBackoff attempt =
     (if attempt \<le> 1 then 5 * second
      else if attempt = 2 then 30 * second
      else if attempt = 3 then 2 * minute
      else 5 * minute)"

text \<open>The period of the heartbeat ticker.\<close>

definition heartbeat_interval :: "sync_worker \<Rightarrow> duration" where
  "heartbeat_interval w =
     (let interval = go_div (sw_LockFor w) 2;
          interval1 = (if interval \<le> 0 then sw_LockFor w else interval)
      in if interval1 \<le> 0 then 100 * millisecond else interval1)"

section \<open>Processes\<close>

text \<open>
  One constructor per call. \<open>Ticks\<close> asks how often the heartbeat ticker has fired since the
  last question; the flag of \<open>CallProject\<close> and \<open>CallApply\<close> says whether the heartbeat has
  cancelled the job's context. Finalising calls run under a context of their own.
\<close>

datatype 'a proc =
    Return 'a
  | CtxErr "ctx \<Rightarrow> 'a proc"
  | TimeNow "time \<Rightarrow> 'a proc"
  | Ticks "nat \<Rightarrow> 'a proc"
  | CallDispatch SyncID int "error option \<Rightarrow> 'a proc"
  | CallClaimNext SyncID string duration "error + sync_job option \<Rightarrow> 'a proc"
  | CallClaimNextBatch SyncID string int duration "error + sync_job list \<Rightarrow> 'a proc"
  | CallRenewLease SyncJobID string duration "error option \<Rightarrow> 'a proc"
  | CallMarkSynced SyncJobID string bool "error option \<Rightarrow> 'a proc"
  | CallMarkRetrying SyncJobID string error time "error option \<Rightarrow> 'a proc"
  | CallRequeueClaimed SyncJobID string error time "error option \<Rightarrow> 'a proc"
  | CallMarkDead SyncJobID string error "error option \<Rightarrow> 'a proc"
  | CallProject bool projection_identity "error + projection \<Rightarrow> 'a proc"
  | CallApply bool projection_operation "error option \<Rightarrow> 'a proc"

primrec bind_proc :: "'a proc \<Rightarrow> ('a \<Rightarrow> 'b proc) \<Rightarrow> 'b proc" where
  "bind_proc (Return x) f = f x"
| "bind_proc (CtxErr k) f = CtxErr (\<lambda>r. bind_proc (k r) f)"
| "bind_proc (TimeNow k) f = TimeNow (\<lambda>r. bind_proc (k r) f)"
| "bind_proc (Ticks k) f = Ticks (\<lambda>r. bind_proc (k r) f)"
| "bind_proc (CallDispatch i n k) f = CallDispatch i n (\<lambda>r. bind_proc (k r) f)"
| "bind_proc (CallClaimNext i w l k) f = CallClaimNext i w l (\<lambda>r. bind_proc (k r) f)"
| "bind_proc (CallClaimNextBatch i w n l k) f = CallClaimNextBatch i w n l (\<lambda>r. bind_proc (k r) f)"
| "bind_proc (CallRenewLease i w l k) f = CallRenewLease i w l (\<lambda>r. bind_proc (k r) f)"
| "bind_proc (CallMarkSynced i w g k) f = CallMarkSynced i w g (\<lambda>r. bind_proc (k r) f)"
| "bind_proc (CallMarkRetrying i w e t k) f = CallMarkRetrying i w e t (\<lambda>r. bind_proc (k r) f)"
| "bind_proc (CallRequeueClaimed i w e t k) f = CallRequeueClaimed i w e t (\<lambda>r. bind_proc (k r) f)"
| "bind_proc (CallMarkDead i w e k) f = CallMarkDead i w e (\<lambda>r. bind_proc (k r) f)"
| "bind_proc (CallProject c i k) f = CallProject c i (\<lambda>r. bind_proc (k r) f)"
| "bind_proc (CallApply c p k) f = CallApply c p (\<lambda>r. bind_proc (k r) f)"

section \<open>The code of one routine\<close>

text \<open>
  The heartbeat: for every tick a renewal, until one fails. Its error, wrapped, is left in
  the channel, the job's context is cancelled and the heartbeat is over.
\<close>

primrec heartbeats ::
    "sync_worker \<Rightarrow> string \<Rightarrow> SyncJobID \<Rightarrow> nat \<Rightarrow> (error option \<Rightarrow> 'a proc) \<Rightarrow> 'a proc"
where
  "heartbeats w workerID jobID 0 k = k None"
| "heartbeats w workerID jobID (Suc n) k =
     CallRenewLease jobID workerID (sw_LockFor w)
       (\<lambda>r. case r of
          None \<Rightarrow> heartbeats w workerID jobID n k
        | Some e \<Rightarrow> k (Some (Wrapped ''lease renewal failed: '' e [])))"

definition heartbeatLeaseWithWorker ::
    "sync_worker \<Rightarrow> string \<Rightarrow> SyncJobID \<Rightarrow> error option \<Rightarrow> (error option \<Rightarrow> 'a proc) \<Rightarrow> 'a proc"
where
  "heartbeatLeaseWithWorker w workerID jobID failed k =
     (case failed of
        Some e \<Rightarrow> k (Some e)
      | None \<Rightarrow> Ticks (\<lambda>n. heartbeats w workerID jobID n k))"

definition failOrRetryWithWorker :: "sync_worker \<Rightarrow> sync_job \<Rightarrow> string \<Rightarrow> error \<Rightarrow> error option proc" where
  "failOrRetryWithWorker w job workerID err =
     (let nextAttempt = j_AttemptCount job + 1 in
      if j_MaxAttempts job \<le> nextAttempt
      then CallMarkDead (j_ID job) workerID err Return
      else TimeNow (\<lambda>t. CallMarkRetrying (j_ID job) workerID err (t + workerBackoff nextAttempt) Return))"

definition worker_markSynced :: "SyncJobID \<Rightarrow> string \<Rightarrow> bool \<Rightarrow> error option proc" where
  "worker_markSynced jobID workerID ghostDetected = CallMarkSynced jobID workerID ghostDetected Return"

text \<open>
  After the applier, and after a failed projection: a heartbeat error in the channel wins
  over the error at hand. The heartbeat may renew once more between that look and the
  finalising call; what it then puts in the channel is not read any more.
\<close>

definition finish_job ::
    "sync_worker \<Rightarrow> sync_job \<Rightarrow> string \<Rightarrow> error option \<Rightarrow> error option \<Rightarrow> bool \<Rightarrow> error option proc"
where
  "finish_job w job workerID heartbeatErr err ghostDetected =
     heartbeatLeaseWithWorker w workerID (j_ID job) heartbeatErr (\<lambda>_.
       case (heartbeatErr, err) of
         (Some he, _) \<Rightarrow> failOrRetryWithWorker w job workerID he
       | (None, Some e) \<Rightarrow> failOrRetryWithWorker w job workerID e
       | (None, None) \<Rightarrow> worker_markSynced (j_ID job) workerID ghostDetected)"

definition apply_job ::
    "sync_worker \<Rightarrow> sync_job \<Rightarrow> string \<Rightarrow> error option \<Rightarrow> projection_operation \<Rightarrow> bool \<Rightarrow> error option proc"
where
  "apply_job w job workerID failed op ghostDetected =
     CallApply (failed \<noteq> None) op (\<lambda>applyErr.
       heartbeatLeaseWithWorker w workerID (j_ID job) failed (\<lambda>heartbeatErr.
         finish_job w job workerID heartbeatErr applyErr ghostDetected))"

definition processJob :: "sync_worker \<Rightarrow> string \<Rightarrow> sync_job \<Rightarrow> error option proc" where
  "processJob w workerID job =
     (let identity = \<lparr>pi_Type = j_ProjectionType job, pi_Key = j_ProjectionKey job\<rparr> in
      CallProject False identity (\<lambda>result.
        heartbeatLeaseWithWorker w workerID (j_ID job) None (\<lambda>heartbeatErr.
          case result of
            Inl err \<Rightarrow>
              if errors_Is err ErrProjectionNotFound then
                apply_job w job workerID heartbeatErr
                  \<lparr>op_Type = ProjectionOpDelete, op_Identity = identity, op_Projection = None\<rparr> True
              else finish_job w job workerID heartbeatErr (Some err) False
          | Inr projection \<Rightarrow>
              apply_job w job workerID heartbeatErr
                \<lparr>op_Type = ProjectionOpUpsert, op_Identity = identity, op_Projection = Some projection\<rparr>
                False)))"

primrec requeue_all :: "string \<Rightarrow> sync_job list \<Rightarrow> error \<Rightarrow> time \<Rightarrow> unit proc" where
  "requeue_all workerID [] reason nextRunAt = Return ()"
| "requeue_all workerID (job # jobs) reason nextRunAt =
     CallRequeueClaimed (j_ID job) workerID reason nextRunAt
       (\<lambda>_. requeue_all workerID jobs reason nextRunAt)"

definition requeueClaimedJobs :: "string \<Rightarrow> sync_job list \<Rightarrow> error \<Rightarrow> unit proc" where
  "requeueClaimedJobs workerID jobs reason =
     (if jobs = [] then Return ()
      else TimeNow (\<lambda>nextRunAt. requeue_all workerID jobs reason nextRunAt))"

text \<open>The claim loop for a job store without batch claims.\<close>

primrec claim_loop ::
    "sync_worker \<Rightarrow> string \<Rightarrow> nat \<Rightarrow> sync_job list \<Rightarrow> (error + sync_job list) proc"
where
  "claim_loop w workerID 0 jobs = Return (Inr jobs)"
| "claim_loop w workerID (Suc n) jobs =
     CallClaimNext (sw_SyncID w) workerID (sw_LockFor w) (\<lambda>r.
       case r of
         Inl err \<Rightarrow> bind_proc (requeueClaimedJobs workerID jobs err) (\<lambda>_. Return (Inl err))
       | Inr None \<Rightarrow> Return (Inr jobs)
       | Inr (Some job) \<Rightarrow> claim_loop w workerID n (jobs @ [job]))"

definition claimBatch :: "sync_worker \<Rightarrow> string \<Rightarrow> int \<Rightarrow> (error + sync_job list) proc" where
  "claimBatch w workerID batchSize =
     (if sw_batchClaims w
      then CallClaimNextBatch (sw_SyncID w) workerID batchSize (sw_LockFor w) Return
      else claim_loop w workerID (nat batchSize) [])"

primrec drain :: "sync_worker \<Rightarrow> string \<Rightarrow> sync_job list \<Rightarrow> error option proc" where
  "drain w workerID [] = Return None"
| "drain w workerID (job # jobs) =
     CtxErr (\<lambda>c. case c of
       Some err \<Rightarrow> bind_proc (requeueClaimedJobs workerID (job # jobs) err) (\<lambda>_. Return (Some err))
     | None \<Rightarrow> bind_proc (processJob w workerID job) (\<lambda>r.
         case r of
           Some err \<Rightarrow> bind_proc (requeueClaimedJobs workerID jobs err) (\<lambda>_. Return (Some err))
         | None \<Rightarrow> drain w workerID jobs))"

definition processBatch :: "sync_worker \<Rightarrow> string \<Rightarrow> int \<Rightarrow> error option proc" where
  "processBatch w workerID batchSize =
     bind_proc (claimBatch w workerID batchSize) (\<lambda>r.
       case r of
         Inl err \<Rightarrow> Return (Some err)
       | Inr jobs \<Rightarrow> drain w workerID jobs)"

definition dispatchDeltas :: "sync_worker \<Rightarrow> error option proc" where
  "dispatchDeltas w =
     (case worker_Validate (worker_config w) of
        Some e \<Rightarrow> Return (Some e)
      | None \<Rightarrow>
          if \<not> sw_hasDispatcher w then Return None
          else CallDispatch (sw_SyncID w) (effectivePullSize w) Return)"

end
