(* ===== verification/DF_WorkerRun.thy ===== *)
theory DF_WorkerRun
  imports DF_Worker
begin

text \<open>
  How the processes of a worker run: against a store, a projector, an applier and a
  schedule, which settles what the program does not decide (the clock, when the context is
  cancelled, when the heartbeat ticker fires, which routine moves next). \<open>RunOnce\<close> with one
  routine runs its process to the end; with several it interleaves them call by call.

  The lemmas: a Hoare logic for processes, and inside the locale of the store contract the
  promise of one cycle, that a worker never walks away from a lease that still runs.
\<close>

section \<open>Surroundings\<close>

record schedule =
  sc_clock :: "nat \<Rightarrow> time"
  sc_ctx :: "nat \<Rightarrow> ctx"
  sc_final :: "nat \<Rightarrow> ctx"
  sc_ticks :: "nat \<Rightarrow> nat"

text \<open>
  At its n-th observation a run reads the clock \<open>sc_clock n\<close>, finds the context in the state
  \<open>sc_ctx n\<close> and the two-second context of a finalising call in the state \<open>sc_final n\<close>, and
  the ticker has fired \<open>sc_ticks n\<close> times.
\<close>

record ('s, 'w) env =
  en_ops :: "'s job_store_ops"
  en_project :: "ctx \<Rightarrow> projection_identity \<Rightarrow> 'w \<Rightarrow> (error + projection) \<times> 'w"
  en_apply :: "ctx \<Rightarrow> projection_operation \<Rightarrow> 'w \<Rightarrow> error option \<times> 'w"
  en_sched :: schedule

record ('s, 'w) machine =
  m_store :: 's
  m_world :: 'w
  m_time :: nat

definition now_at :: "('s, 'w) env \<Rightarrow> ('s, 'w) machine \<Rightarrow> time" where
  "now_at E m = sc_clock (en_sched E) (m_time m)"

text \<open>The routine's context: cancelled by another routine's error, or the state of the caller's.\<close>

definition ctx_at :: "('s, 'w) env \<Rightarrow> ctx \<Rightarrow> ('s, 'w) machine \<Rightarrow> ctx" where
  "ctx_at E halted m = (case halted of Some e \<Rightarrow> Some e | None \<Rightarrow> sc_ctx (en_sched E) (m_time m))"

definition final_at :: "('s, 'w) env \<Rightarrow> ('s, 'w) machine \<Rightarrow> ctx" where
  "final_at E m = sc_final (en_sched E) (m_time m)"

definition job_ctx_at :: "('s, 'w) env \<Rightarrow> ctx \<Rightarrow> bool \<Rightarrow> ('s, 'w) machine \<Rightarrow> ctx" where
  "job_ctx_at E halted cancelled m =
     (case ctx_at E halted m of
        Some e \<Rightarrow> Some e
      | None \<Rightarrow> if cancelled then Some CtxCanceled else None)"

definition observe_once :: "('s, 'w) machine \<Rightarrow> ('s, 'w) machine" where
  "observe_once m = m\<lparr>m_time := Suc (m_time m)\<rparr>"

definition store_call :: "('s \<Rightarrow> 'r \<times> 's) \<Rightarrow> ('s, 'w) machine \<Rightarrow> 'r \<times> ('s, 'w) machine" where
  "store_call f m = (let (r, s') = f (m_store m) in (r, observe_once (m\<lparr>m_store := s'\<rparr>)))"

definition world_call :: "('w \<Rightarrow> 'r \<times> 'w) \<Rightarrow> ('s, 'w) machine \<Rightarrow> 'r \<times> ('s, 'w) machine" where
  "world_call f m = (let (r, x) = f (m_world m) in (r, observe_once (m\<lparr>m_world := x\<rparr>)))"

definition dispatch_error :: "(error + sync_job list) \<times> 's \<Rightarrow> error option \<times> 's" where
  "dispatch_error = apfst (\<lambda>r. case r of Inl e \<Rightarrow> Some e | Inr _ \<Rightarrow> None)"

section \<open>One call, and a whole run\<close>

fun step_proc :: "('s, 'w) env \<Rightarrow> ctx \<Rightarrow> 'a proc \<Rightarrow> ('s, 'w) machine \<Rightarrow> 'a proc \<times> ('s, 'w) machine" where
  "step_proc E h (Return x) m = (Return x, m)"
| "step_proc E h (CtxErr k) m = (k (ctx_at E h m), observe_once m)"
| "step_proc E h (TimeNow k) m = (k (now_at E m), observe_once m)"
| "step_proc E h (Ticks k) m = (k (sc_ticks (en_sched E) (m_time m)), observe_once m)"
| "step_proc E h (CallDispatch i n k) m = apfst k
     (store_call (\<lambda>s. dispatch_error (jo_DispatchPending (en_ops E) (ctx_at E h m) (now_at E m) i n s)) m)"
| "step_proc E h (CallClaimNext i w l k) m = apfst k
     (store_call (jo_ClaimNext (en_ops E) (ctx_at E h m) (now_at E m) i w l) m)"
| "step_proc E h (CallClaimNextBatch i w n l k) m = apfst k
     (store_call (jo_ClaimNextBatch (en_ops E) (ctx_at E h m) (now_at E m) i w n l) m)"
| "step_proc E h (CallRenewLease i w l k) m = apfst k
     (store_call (jo_RenewLease (en_ops E) (ctx_at E h m) (now_at E m) i w l) m)"
| "step_proc E h (CallMarkSynced i w g k) m = apfst k
     (store_call (jo_MarkSynced (en_ops E) (final_at E m) (now_at E m) i w g) m)"
| "step_proc E h (CallMarkRetrying i w e t k) m = apfst k
     (store_call (jo_MarkRetrying (en_ops E) (final_at E m) (now_at E m) i w (Some e) t) m)"
| "step_proc E h (CallRequeueClaimed i w e t k) m = apfst k
     (store_call (jo_RequeueClaimed (en_ops E) (final_at E m) (now_at E m) i w (Some e) t) m)"
| "step_proc E h (CallMarkDead i w e k) m = apfst k
     (store_call (jo_MarkDead (en_ops E) (final_at E m) (now_at E m) i w (Some e)) m)"
| "step_proc E h (CallProject c i k) m = apfst k
     (world_call (en_project E (job_ctx_at E h c m) i) m)"
| "step_proc E h (CallApply c p k) m = apfst k
     (world_call (en_apply E (job_ctx_at E h c m) p) m)"

primrec run :: "('s, 'w) env \<Rightarrow> ctx \<Rightarrow> 'a proc \<Rightarrow> ('s, 'w) machine \<Rightarrow> 'a \<times> ('s, 'w) machine" where
  "run E h (Return x) m = (x, m)"
| "run E h (CtxErr k) m = run E h (k (ctx_at E h m)) (observe_once m)"
| "run E h (TimeNow k) m = run E h (k (now_at E m)) (observe_once m)"
| "run E h (Ticks k) m = run E h (k (sc_ticks (en_sched E) (m_time m))) (observe_once m)"
| "run E h (CallDispatch i n k) m = (case
     store_call (\<lambda>s. dispatch_error (jo_DispatchPending (en_ops E) (ctx_at E h m) (now_at E m) i n s)) m
     of (r, m') \<Rightarrow> run E h (k r) m')"
| "run E h (CallClaimNext i w l k) m = (case
     store_call (jo_ClaimNext (en_ops E) (ctx_at E h m) (now_at E m) i w l) m
     of (r, m') \<Rightarrow> run E h (k r) m')"
| "run E h (CallClaimNextBatch i w n l k) m = (case
     store_call (jo_ClaimNextBatch (en_ops E) (ctx_at E h m) (now_at E m) i w n l) m
     of (r, m') \<Rightarrow> run E h (k r) m')"
| "run E h (CallRenewLease i w l k) m = (case
     store_call (jo_RenewLease (en_ops E) (ctx_at E h m) (now_at E m) i w l) m
     of (r, m') \<Rightarrow> run E h (k r) m')"
| "run E h (CallMarkSynced i w g k) m = (case
     store_call (jo_MarkSynced (en_ops E) (final_at E m) (now_at E m) i w g) m
     of (r, m') \<Rightarrow> run E h (k r) m')"
| "run E h (CallMarkRetrying i w e t k) m = (case
     store_call (jo_MarkRetrying (en_ops E) (final_at E m) (now_at E m) i w (Some e) t) m
     of (r, m') \<Rightarrow> run E h (k r) m')"
| "run E h (CallRequeueClaimed i w e t k) m = (case
     store_call (jo_RequeueClaimed (en_ops E) (final_at E m) (now_at E m) i w (Some e) t) m
     of (r, m') \<Rightarrow> run E h (k r) m')"
| "run E h (CallMarkDead i w e k) m = (case
     store_call (jo_MarkDead (en_ops E) (final_at E m) (now_at E m) i w (Some e)) m
     of (r, m') \<Rightarrow> run E h (k r) m')"
| "run E h (CallProject c i k) m = (case
     world_call (en_project E (job_ctx_at E h c m) i) m of (r, m') \<Rightarrow> run E h (k r) m')"
| "run E h (CallApply c p k) m = (case
     world_call (en_apply E (job_ctx_at E h c m) p) m of (r, m') \<Rightarrow> run E h (k r) m')"

lemma run_step: "run E h p m = (case step_proc E h p m of (p', m') \<Rightarrow> run E h p' m')"
  by (cases p) (simp_all add: split_def)

lemma run_bind: "run E h (bind_proc p f) m = (case run E h p m of (x, m') \<Rightarrow> run E h (f x) m')"
  by (induction p arbitrary: m) (simp_all split: prod.split)

text \<open>What every call keeps, a run keeps.\<close>

lemma run_invariant:
  assumes step: "\<And>m (p :: 'a proc). I m \<Longrightarrow> I (snd (step_proc E h p m))" and "I m"
  shows "I (snd (run E h (p :: 'a proc) m))"
  using assms(2)
proof (induction p arbitrary: m)
  case (Return x)
  then show ?case by simp
next
  case (CtxErr k)
  then show ?case using step [of m "CtxErr k"] by (simp add: split_def)
next
  case (TimeNow k)
  then show ?case using step [of m "TimeNow k"] by (simp add: split_def)
next
  case (Ticks k)
  then show ?case using step [of m "Ticks k"] by (simp add: split_def)
next
  case (CallDispatch i n k)
  then show ?case using step [of m "CallDispatch i n k"] by (simp add: split_def)
next
  case (CallClaimNext i w l k)
  then show ?case using step [of m "CallClaimNext i w l k"] by (simp add: split_def)
next
  case (CallClaimNextBatch i w n l k)
  then show ?case using step [of m "CallClaimNextBatch i w n l k"] by (simp add: split_def)
next
  case (CallRenewLease i w l k)
  then show ?case using step [of m "CallRenewLease i w l k"] by (simp add: split_def)
next
  case (CallMarkSynced i w g k)
  then show ?case using step [of m "CallMarkSynced i w g k"] by (simp add: split_def)
next
  case (CallMarkRetrying i w e t k)
  then show ?case using step [of m "CallMarkRetrying i w e t k"] by (simp add: split_def)
next
  case (CallRequeueClaimed i w e t k)
  then show ?case using step [of m "CallRequeueClaimed i w e t k"] by (simp add: split_def)
next
  case (CallMarkDead i w e k)
  then show ?case using step [of m "CallMarkDead i w e k"] by (simp add: split_def)
next
  case (CallProject c i k)
  then show ?case using step [of m "CallProject c i k"] by (simp add: split_def)
next
  case (CallApply c p k)
  then show ?case using step [of m "CallApply c p k"] by (simp add: split_def)
qed

section \<open>RunOnce\<close>

text \<open>
  The routines of a cycle: their processes, the first error, which cancels the context they
  share, and the machine.
\<close>

record ('s, 'w) pool =
  po_procs :: "error option proc list"
  po_firstErr :: "error option"
  po_halted :: ctx
  po_machine :: "('s, 'w) machine"

fun finished :: "'a proc \<Rightarrow> bool" where
  "finished (Return x) = True"
| "finished _ = False"

definition step_pool :: "('s, 'w) env \<Rightarrow> nat \<Rightarrow> ('s, 'w) pool \<Rightarrow> ('s, 'w) pool" where
  "step_pool E i p =
     (if i < length (po_procs p) \<and> \<not> finished (po_procs p ! i) then
        (let (q, m) = step_proc E (po_halted p) (po_procs p ! i) (po_machine p);
             p1 = p\<lparr>po_procs := (po_procs p)[i := q], po_machine := m\<rparr>
         in (case q of
               Return (Some e) \<Rightarrow>
                 if po_firstErr p = None
                 then p1\<lparr>po_firstErr := Some e,
                         po_halted := (case ctx_at E (po_halted p) m of
                            Some c \<Rightarrow> Some c | None \<Rightarrow> Some CtxCanceled)\<rparr>
                 else p1
             | _ \<Rightarrow> p1))
      else p)"

definition spawn :: "sync_worker \<Rightarrow> ('s, 'w) machine \<Rightarrow> ('s, 'w) pool" where
  "spawn w m =
     \<lparr>po_procs = map (\<lambda>i. processBatch w (WorkerIDForRoutine w (int i)) (effectiveBatchSize w))
        [0..<nat (effectiveConcurrency w)],
      po_firstErr = None, po_halted = None, po_machine = m\<rparr>"

text \<open>
  The result of a cycle is absent while routines are still running after the given choices.
  The processes that have a result at once are only those of routines that never started.
\<close>

definition RunOnce ::
    "('s, 'w) env \<Rightarrow> sync_worker \<Rightarrow> nat list \<Rightarrow> ('s, 'w) machine
       \<Rightarrow> error option option \<times> ('s, 'w) machine"
where
  "RunOnce E w picks m =
     (case validateRunOnceDependencies w of
        Some e \<Rightarrow> (Some (Some e), m)
      | None \<Rightarrow>
          (case run E None (dispatchDeltas w) m of
             (Some e, m1) \<Rightarrow> (Some (Some e), m1)
           | (None, m1) \<Rightarrow>
               if effectiveConcurrency w = 1 then
                 apfst Some (run E None
                   (processBatch w (WorkerIDForRoutine w 0) (effectiveBatchSize w)) m1)
               else
                 (let p = fold (step_pool E) picks (spawn w m1)
                  in (if list_all finished (po_procs p) then Some (po_firstErr p) else None,
                      po_machine p))))"

lemma step_pool_machine:
  "po_machine (step_pool E i p) = po_machine p
   \<or> (\<exists>h (q :: error option proc). po_machine (step_pool E i p) = snd (step_proc E h q (po_machine p)))"
proof (cases "i < length (po_procs p) \<and> \<not> finished (po_procs p ! i)")
  case True
  obtain q m where q: "step_proc E (po_halted p) (po_procs p ! i) (po_machine p) = (q, m)"
    by (rule prod.exhaust)
  have "po_machine (step_pool E i p) = m"
  proof (cases q)
    case (Return r)
    then show ?thesis using True q by (cases r) (simp_all add: step_pool_def Let_def)
  qed (use True q in \<open>simp_all add: step_pool_def Let_def\<close>)
  then have "po_machine (step_pool E i p) = snd (step_proc E (po_halted p) (po_procs p ! i) (po_machine p))"
    using q by simp
  then show ?thesis by blast
next
  case False
  then have "step_pool E i p = p" unfolding step_pool_def by (rule if_not_P)
  then show ?thesis by simp
qed

lemma fold_pool_invariant:
  assumes step: "\<And>m h (p :: error option proc). I m \<Longrightarrow> I (snd (step_proc E h p m))"
  shows "I (po_machine p) \<Longrightarrow> I (po_machine (fold (step_pool E) picks p))"
proof (induction picks arbitrary: p)
  case (Cons i picks)
  have "I (po_machine (step_pool E i p))"
    using step_pool_machine [of E i p] step [OF Cons.prems] Cons.prems by metis
  then show ?case by (simp add: Cons.IH)
qed simp

lemma RunOnce_invariant:
  assumes step: "\<And>m h (p :: error option proc). I m \<Longrightarrow> I (snd (step_proc E h p m))" and "I m"
  shows "I (snd (RunOnce E w picks m))"
proof (cases "run E None (dispatchDeltas w) m")
  case (Pair d m1)
  have "I (snd (run E None (dispatchDeltas w) m))" by (rule run_invariant [OF step assms(2)])
  then have m1: "I m1" by (simp add: Pair)
  have "I (snd (run E None p m1))" for p :: "error option proc"
    by (rule run_invariant [OF step m1])
  moreover have "I (po_machine (fold (step_pool E) picks (spawn w m1)))"
    using step by (rule fold_pool_invariant [where I = I]) (simp_all add: spawn_def m1)
  ultimately show ?thesis using assms(2) m1
    by (simp add: RunOnce_def Let_def Pair split: option.split)
qed

section \<open>A Hoare logic for processes\<close>

definition hoare ::
    "('s, 'w) env \<Rightarrow> ctx \<Rightarrow> (('s, 'w) machine \<Rightarrow> bool) \<Rightarrow> 'a proc \<Rightarrow> ('a \<Rightarrow> ('s, 'w) machine \<Rightarrow> bool) \<Rightarrow> bool"
where
  "hoare E h P p Q \<longleftrightarrow> (\<forall>m. P m \<longrightarrow> (case run E h p m of (x, m') \<Rightarrow> Q x m'))"

lemma hoareD: "hoare E h P p Q \<Longrightarrow> P m \<Longrightarrow> run E h p m = (x, m') \<Longrightarrow> Q x m'"
  by (auto simp: hoare_def)

lemma hoare_Return: "(\<And>m. P m \<Longrightarrow> Q x m) \<Longrightarrow> hoare E h P (Return x) Q"
  by (simp add: hoare_def)

lemma hoare_bind: "hoare E h P p R \<Longrightarrow> (\<And>x. hoare E h (R x) (f x) Q) \<Longrightarrow> hoare E h P (bind_proc p f) Q"
  by (fastforce simp: hoare_def run_bind split: prod.splits)

lemma hoare_weaken: "hoare E h P' p Q' \<Longrightarrow> (\<And>m. P m \<Longrightarrow> P' m) \<Longrightarrow> (\<And>x m. Q' x m \<Longrightarrow> Q x m) \<Longrightarrow>
  hoare E h P p Q"
  by (fastforce simp: hoare_def split: prod.splits)

lemma hoare_step:
  assumes "\<And>m. P m \<Longrightarrow> case step_proc E h p m of (q, m') \<Rightarrow> (\<exists>R. R m' \<and> hoare E h R q Q)"
  shows "hoare E h P p Q"
proof -
  have "case run E h p m of (x, m') \<Rightarrow> Q x m'" if "P m" for m
    using assms [OF that] run_step [of E h p m] by (auto simp: hoare_def split: prod.splits)
  then show ?thesis by (simp add: hoare_def)
qed

section \<open>No live lease is left behind\<close>

context job_store
begin

text \<open>
  The condition of a routine that acts as \<open>w\<close>: what is held in its name is among the jobs
  \<open>S\<close> it still has to deal with, or its lease is over.
\<close>

definition in_hand :: "('s, 'w) env \<Rightarrow> string \<Rightarrow> SyncJobID set \<Rightarrow> ('s, 'w) machine \<Rightarrow> bool" where
  "in_hand E w S m \<longleftrightarrow> inv (m_store m) \<and>
     (\<forall>i j. jobs (m_store m) i = Some j \<longrightarrow> held_by w j \<longrightarrow>
        i \<in> S \<or> the (j_LockedUntil j) \<le> now_at E m)"

definition clock_ok :: "('s, 'w) env \<Rightarrow> bool" where
  "clock_ok E \<longleftrightarrow> en_ops E = ops \<and> mono (sc_clock (en_sched E)) \<and> (\<forall>n. sc_final (en_sched E) n = None)"

lemma in_hand_mono: "in_hand E w S m \<Longrightarrow> S \<subseteq> T \<Longrightarrow> in_hand E w T m"
  by (auto simp: in_hand_def)

lemma now_observe: "clock_ok E \<Longrightarrow> now_at E m \<le> now_at E (observe_once m)"
  by (auto simp: clock_ok_def now_at_def observe_once_def mono_def)

lemma in_hand_observe: "clock_ok E \<Longrightarrow> in_hand E w S m \<Longrightarrow> in_hand E w S (observe_once m)"
  using now_observe [of E m] by (fastforce simp: in_hand_def observe_once_def)

lemma in_hand_world: "in_hand E w S (m\<lparr>m_world := x\<rparr>) = in_hand E w S m"
  by (simp add: in_hand_def now_at_def)

lemma quiet_rules:
  assumes E: "clock_ok E"
  shows "(\<And>r. hoare E h (in_hand E w S) (k1 r) Q) \<Longrightarrow> hoare E h (in_hand E w S) (CtxErr k1) Q"
    and "(\<And>r. hoare E h (in_hand E w S) (k2 r) Q) \<Longrightarrow> hoare E h (in_hand E w S) (TimeNow k2) Q"
    and "(\<And>r. hoare E h (in_hand E w S) (k3 r) Q) \<Longrightarrow> hoare E h (in_hand E w S) (Ticks k3) Q"
    and "(\<And>r. hoare E h (in_hand E w S) (k4 r) Q) \<Longrightarrow> hoare E h (in_hand E w S) (CallProject c i k4) Q"
    and "(\<And>r. hoare E h (in_hand E w S) (k5 r) Q) \<Longrightarrow> hoare E h (in_hand E w S) (CallApply c p k5) Q"
proof -
  have world: "in_hand E w S (observe_once (m\<lparr>m_world := x\<rparr>))" if m: "in_hand E w S m" for m x
    by (rule in_hand_observe [OF E]) (simp add: in_hand_world m)
  show "hoare E h (in_hand E w S) (CallProject c i k4) Q" if k: "\<And>r. hoare E h (in_hand E w S) (k4 r) Q"
    unfolding hoare_def
  proof (intro allI impI)
    fix m
    assume m: "in_hand E w S m"
    show "case run E h (CallProject c i k4) m of (x, m') \<Rightarrow> Q x m'"
      by (auto simp: world_call_def split: prod.split intro: hoareD [OF k world [OF m]])
  qed
  show "hoare E h (in_hand E w S) (CallApply c p k5) Q" if k: "\<And>r. hoare E h (in_hand E w S) (k5 r) Q"
    unfolding hoare_def
  proof (intro allI impI)
    fix m
    assume m: "in_hand E w S m"
    show "case run E h (CallApply c p k5) m of (x, m') \<Rightarrow> Q x m'"
      by (auto simp: world_call_def split: prod.split intro: hoareD [OF k world [OF m]])
  qed
qed (use in_hand_observe [OF E] in \<open>simp_all add: hoare_def\<close>)

text \<open>A store call that turns the hand \<open>S\<close> into \<open>T r\<close> by its answer \<open>r\<close>.\<close>

lemma store_rule:
  assumes E: "clock_ok E" and k: "\<And>r. hoare E h (in_hand E w (T r)) (k r) Q"
    and eq: "\<And>m. run E h p m = (case store_call (F m) m of (r, m') \<Rightarrow> run E h (k r) m')"
    and law: "\<And>m r s'. in_hand E w S m \<Longrightarrow> F m (m_store m) = (r, s') \<Longrightarrow> inv s' \<and>
      (\<forall>i j. jobs s' i = Some j \<longrightarrow> held_by w j \<longrightarrow> i \<in> T r \<or> the (j_LockedUntil j) \<le> now_at E m)"
  shows "hoare E h (in_hand E w S) p Q"
  unfolding hoare_def
proof (intro allI impI)
  fix m
  assume m: "in_hand E w S m"
  obtain r s' where f: "F m (m_store m) = (r, s')" by (metis prod.exhaust)
  have "in_hand E w (T r) (m\<lparr>m_store := s'\<rparr>)"
    using law [OF m f] by (simp add: in_hand_def now_at_def)
  from in_hand_observe [OF E this] k [of r] f
  show "case run E h p m of (x, m') \<Rightarrow> Q x m'"
    unfolding eq hoare_def by (simp add: store_call_def)
qed

lemma renew_rule:
  assumes E: "clock_ok E" and i: "i \<in> S" and k: "\<And>r. hoare E h (in_hand E w S) (k r) Q"
  shows "hoare E h (in_hand E w S) (CallRenewLease i w l k) Q"
proof (rule store_rule [where k = k and F = "\<lambda>m. jo_RenewLease ops (ctx_at E h m) (now_at E m) i w l", OF E k])
  fix m r s'
  assume m: "in_hand E w S m"
    and f: "jo_RenewLease ops (ctx_at E h m) (now_at E m) i w l (m_store m) = (r, s')"
  have "inv (m_store m)" using m by (simp add: in_hand_def)
  from renew_law [OF this f] m i
  show "inv s' \<and> (\<forall>i j. jobs s' i = Some j \<longrightarrow> held_by w j \<longrightarrow> i \<in> S \<or> the (j_LockedUntil j) \<le> now_at E m)"
    unfolding in_hand_def by (metis fun_upd_apply)
qed (use E in \<open>simp add: clock_ok_def\<close>)

text \<open>A finalising call takes its job off the hands of the routine, whatever its answer.\<close>

lemma final_rule:
  assumes E: "clock_ok E" and k: "\<And>r. hoare E h (in_hand E w (S - {i})) (k r) Q"
    and eq: "\<And>m. run E h p m = (case store_call (F (now_at E m)) m of (r, m') \<Rightarrow> run E h (k r) m')"
    and law: "\<And>now s r s'. inv s \<Longrightarrow> F now s = (r, s') \<Longrightarrow> inv s' \<and> finalised now i w (jobs s) r (jobs s')"
  shows "hoare E h (in_hand E w S) p Q"
proof (rule store_rule [OF E k eq])
  fix m r s'
  assume m: "in_hand E w S m" and f: "F (now_at E m) (m_store m) = (r, s')"
  have fin: "inv s' \<and> finalised (now_at E m) i w (jobs (m_store m)) r (jobs s')"
    using m by (intro law [OF _ f]) (simp add: in_hand_def)
  have "n \<in> S - {i} \<or> the (j_LockedUntil j) \<le> now_at E m"
    if n: "jobs s' n = Some j" and held: "held_by w j" for n j
  proof (cases "n = i")
    case True
    with fin n held show ?thesis
      by (auto simp: finalised_def jobLeaseOwned_held held_by_def split: option.splits if_splits)
  next
    case False
    with fin n have "jobs (m_store m) n = Some j"
      by (auto simp: finalised_def split: option.splits if_splits)
    with m held False show ?thesis unfolding in_hand_def by blast
  qed
  with fin show "inv s' \<and> (\<forall>n j. jobs s' n = Some j \<longrightarrow> held_by w j \<longrightarrow>
      n \<in> S - {i} \<or> the (j_LockedUntil j) \<le> now_at E m)" by blast
qed

lemma final_rules:
  assumes E: "clock_ok E" and k: "\<And>r. hoare E h (in_hand E w (S - {i})) (k r) Q"
  shows "hoare E h (in_hand E w S) (CallMarkSynced i w g k) Q"
    and "hoare E h (in_hand E w S) (CallMarkRetrying i w e t k) Q"
    and "hoare E h (in_hand E w S) (CallRequeueClaimed i w e t k) Q"
    and "hoare E h (in_hand E w S) (CallMarkDead i w e k) Q"
proof -
  have final: "final_at E m = None" "en_ops E = ops" for m
    using E by (simp_all add: clock_ok_def final_at_def)
  note rule = final_rule [OF E k]
  show "hoare E h (in_hand E w S) (CallMarkSynced i w g k) Q"
    by (rule rule [where F = "\<lambda>now. jo_MarkSynced ops None now i w g"]) (simp_all add: final synced_law)
  show "hoare E h (in_hand E w S) (CallMarkRetrying i w e t k) Q"
    by (rule rule [where F = "\<lambda>now. jo_MarkRetrying ops None now i w (Some e) t"])
      (simp_all add: final retrying_law)
  show "hoare E h (in_hand E w S) (CallRequeueClaimed i w e t k) Q"
    by (rule rule [where F = "\<lambda>now. jo_RequeueClaimed ops None now i w (Some e) t"])
      (simp_all add: final requeue_law)
  show "hoare E h (in_hand E w S) (CallMarkDead i w e k) Q"
    by (rule rule [where F = "\<lambda>now. jo_MarkDead ops None now i w (Some e)"]) (simp_all add: final dead_law)
qed

text \<open>The code of the routine, from the inside out.\<close>

lemma heartbeats_hand:
  assumes E: "clock_ok E" and "i \<in> S" and k: "\<And>r. hoare E h (in_hand E w S) (k r) Q"
  shows "hoare E h (in_hand E w S) (heartbeats v w i n k) Q"
proof (induction n)
  case (Suc n)
  then show ?case using assms by (auto intro!: renew_rule split: option.split)
qed (simp add: k)

lemma heartbeat_hand:
  assumes "clock_ok E" and "i \<in> S" and "\<And>r. hoare E h (in_hand E w S) (k r) Q"
  shows "hoare E h (in_hand E w S) (heartbeatLeaseWithWorker v w i failed k) Q"
  using assms by (auto simp: heartbeatLeaseWithWorker_def intro!: quiet_rules heartbeats_hand split: option.split)

lemma return_hand: "hoare E h (in_hand E w S) (Return x) (\<lambda>_. in_hand E w S)"
  by (simp add: hoare_Return)

lemma finish_hand:
  assumes E: "clock_ok E" and "j_ID job \<in> S"
  shows "hoare E h (in_hand E w S) (finish_job v job w he err g) (\<lambda>_. in_hand E w (S - {j_ID job}))"
  using assms unfolding finish_job_def failOrRetryWithWorker_def worker_markSynced_def Let_def
  by (intro heartbeat_hand) (auto intro!: final_rules quiet_rules return_hand split: option.split)

lemma apply_hand:
  assumes "clock_ok E" and "j_ID job \<in> S"
  shows "hoare E h (in_hand E w S) (apply_job v job w failed p g) (\<lambda>_. in_hand E w (S - {j_ID job}))"
  using assms unfolding apply_job_def by (intro quiet_rules heartbeat_hand finish_hand)

lemma processJob_hand:
  assumes "clock_ok E" and "j_ID job \<in> S"
  shows "hoare E h (in_hand E w S) (processJob v w job) (\<lambda>_. in_hand E w (S - {j_ID job}))"
  unfolding processJob_def Let_def
  by (rule quiet_rules, rule assms, rule heartbeat_hand [OF assms])
    (auto split: sum.split intro: apply_hand finish_hand assms)

lemma requeue_hand:
  assumes E: "clock_ok E"
  shows "hoare E h (in_hand E w (j_ID ` set js)) (requeueClaimedJobs w js e) (\<lambda>_. in_hand E w {})"
proof -
  have "hoare E h (in_hand E w (j_ID ` set js)) (requeue_all w js e t) (\<lambda>_. in_hand E w {})" for t
  proof (induction js)
    case (Cons j js)
    then show ?case
      by (auto intro!: final_rules [OF E] intro: hoare_weaken in_hand_mono)
  qed (simp add: hoare_Return)
  then show ?thesis
    by (auto simp: requeueClaimedJobs_def hoare_Return intro!: quiet_rules [OF E])
qed

lemma drain_hand:
  assumes E: "clock_ok E"
  shows "hoare E h (in_hand E w (j_ID ` set js)) (drain v w js) (\<lambda>_. in_hand E w {})"
proof (induction js)
  case (Cons j js)
  have requeue: "hoare E h (in_hand E w (j_ID ` set ks)) (bind_proc (requeueClaimedJobs w ks e)
      (\<lambda>_. Return (Some e))) (\<lambda>_. in_hand E w {})" for ks e
    by (rule hoare_bind [OF requeue_hand [OF E]]) (simp add: hoare_Return)
  have job: "hoare E h (in_hand E w (j_ID ` set (j # js))) (processJob v w j) (\<lambda>_. in_hand E w (j_ID ` set js))"
    by (rule hoare_weaken [OF processJob_hand [OF E]]) (auto elim: in_hand_mono)
  show ?case
    unfolding drain.simps
    by (rule quiet_rules [OF E])
      (auto simp del: set_simps list.set split: option.split intro!: requeue hoare_bind [OF job] Cons)
qed (simp add: hoare_Return)

text \<open>After the claim the hand is what the claim answered with.\<close>

definition claimed_hand :: "('s, 'w) env \<Rightarrow> string \<Rightarrow> error + sync_job list \<Rightarrow> ('s, 'w) machine \<Rightarrow> bool" where
  "claimed_hand E w r = in_hand E w (case r of Inl e \<Rightarrow> {} | Inr js \<Rightarrow> j_ID ` set js)"

lemma claim_loop_hand:
  assumes E: "clock_ok E"
  shows "hoare E h (in_hand E w (j_ID ` set js)) (claim_loop v w n js) (claimed_hand E w)"
proof (induction n arbitrary: js)
  case (Suc n)
  define T where "T r = (case r of Inr (Some j) \<Rightarrow> insert (j_ID j) (j_ID ` set js) | _ \<Rightarrow> j_ID ` set js)"
    for r :: "error + sync_job option"
  define k where "k r = (case r of
         Inl err \<Rightarrow> bind_proc (requeueClaimedJobs w js err) (\<lambda>_. Return (Inl err))
       | Inr None \<Rightarrow> Return (Inr js)
       | Inr (Some job) \<Rightarrow> claim_loop v w n (js @ [job]))"
    for r :: "error + sync_job option"
  have next_claim: "hoare E h (in_hand E w (insert (j_ID j) (j_ID ` set js))) (claim_loop v w n (js @ [j]))
      (claimed_hand E w)" for j
    using Suc [of "js @ [j]"] by simp
  have k: "hoare E h (in_hand E w (T r)) (k r) (claimed_hand E w)" for r
    by (auto simp: T_def k_def hoare_Return claimed_hand_def split: sum.split option.split
        intro!: hoare_bind [OF requeue_hand [OF E]] next_claim)
  show ?case
    unfolding claim_loop.simps
  proof (rule store_rule [where k = k and F = "\<lambda>m. jo_ClaimNext ops (ctx_at E h m) (now_at E m) (sw_SyncID v) w (sw_LockFor v)", OF E k])
    fix m r s'
    assume m: "in_hand E w (j_ID ` set js) m"
      and f: "jo_ClaimNext ops (ctx_at E h m) (now_at E m) (sw_SyncID v) w (sw_LockFor v) (m_store m) = (r, s')"
    have "inv (m_store m)" using m by (simp add: in_hand_def)
    from claim_next_law [OF this f] m
    show "inv s' \<and> (\<forall>i j. jobs s' i = Some j \<longrightarrow> held_by w j \<longrightarrow>
        i \<in> T r \<or> the (j_LockedUntil j) \<le> now_at E m)"
      unfolding in_hand_def T_def by (auto split: sum.splits option.splits if_splits)
  qed (use E in \<open>simp add: clock_ok_def k_def\<close>)
qed (simp add: hoare_Return claimed_hand_def)

lemma claim_hand:
  assumes E: "clock_ok E"
  shows "hoare E h (in_hand E w {}) (claimBatch v w n) (claimed_hand E w)"
proof (cases "sw_batchClaims v")
  case True
  have "hoare E h (in_hand E w {}) (CallClaimNextBatch (sw_SyncID v) w n (sw_LockFor v) Return) (claimed_hand E w)"
  proof (rule store_rule [where k = Return and T = "\<lambda>r. case r of Inl e \<Rightarrow> {} | Inr js \<Rightarrow> j_ID ` set js"
        and F = "\<lambda>m. jo_ClaimNextBatch ops (ctx_at E h m) (now_at E m) (sw_SyncID v) w n (sw_LockFor v)", OF E])
    fix m r s'
    assume m: "in_hand E w {} m"
      and f: "jo_ClaimNextBatch ops (ctx_at E h m) (now_at E m) (sw_SyncID v) w n (sw_LockFor v) (m_store m) = (r, s')"
    have "inv (m_store m)" using m by (simp add: in_hand_def)
    from claim_batch_law [OF this f] m
    show "inv s' \<and> (\<forall>i j. jobs s' i = Some j \<longrightarrow> held_by w j \<longrightarrow>
        i \<in> (case r of Inl e \<Rightarrow> {} | Inr js \<Rightarrow> j_ID ` set js) \<or> the (j_LockedUntil j) \<le> now_at E m)"
      unfolding in_hand_def by (auto split: sum.splits)
  qed (use E in \<open>simp_all add: clock_ok_def hoare_Return claimed_hand_def\<close>)
  with True show ?thesis by (simp add: claimBatch_def)
next
  case False
  then show ?thesis using claim_loop_hand [OF E, of h w "[]"] by (simp add: claimBatch_def)
qed

lemma processBatch_hand:
  assumes E: "clock_ok E"
  shows "hoare E h (in_hand E w {}) (processBatch v w n) (\<lambda>_. in_hand E w {})"
  unfolding processBatch_def
proof (rule hoare_bind [OF claim_hand [OF E]])
  show "hoare E h (claimed_hand E w r) (case r of Inl err \<Rightarrow> Return (Some err) | Inr js \<Rightarrow> drain v w js)
      (\<lambda>_. in_hand E w {})" for r
    using drain_hand [OF E] by (cases r) (simp_all add: claimed_hand_def hoare_Return)
qed

lemma dispatch_hand:
  assumes E: "clock_ok E"
  shows "hoare E h (in_hand E w {}) (dispatchDeltas v) (\<lambda>_. in_hand E w {})"
proof -
  have "hoare E h (in_hand E w {}) (CallDispatch i n Return) (\<lambda>_. in_hand E w {})" for i n
  proof (rule store_rule [where k = Return and F = "\<lambda>m s. dispatch_error (jo_DispatchPending ops (ctx_at E h m) (now_at E m) i n s)", OF E])
    fix m r s'
    assume m: "in_hand E w {} m"
      and "dispatch_error (jo_DispatchPending ops (ctx_at E h m) (now_at E m) i n (m_store m)) = (r, s')"
    then obtain d where f: "jo_DispatchPending ops (ctx_at E h m) (now_at E m) i n (m_store m) = (d, s')"
      by (cases "jo_DispatchPending ops (ctx_at E h m) (now_at E m) i n (m_store m)") (simp add: dispatch_error_def)
    have "inv (m_store m)" using m by (simp add: in_hand_def)
    from dispatch_law [OF this f] m
    show "inv s' \<and> (\<forall>i j. jobs s' i = Some j \<longrightarrow> held_by w j \<longrightarrow> i \<in> {} \<or> the (j_LockedUntil j) \<le> now_at E m)"
      unfolding in_hand_def held_by_def by (metis option.exhaust option.inject)
  qed (use E in \<open>simp_all add: clock_ok_def hoare_Return\<close>)
  then show ?thesis by (auto simp: dispatchDeltas_def hoare_Return split: option.split)
qed

text \<open>
  One cycle of a worker with one routine: nothing is held in its name afterwards but leases
  that were over before it could finalise their jobs.
\<close>

lemma RunOnce_leaves_no_live_lease:
  assumes E: "clock_ok E" and "inv (m_store m)" and one: "effectiveConcurrency v = 1"
    and before: "\<And>i j. jobs (m_store m) i = Some j \<Longrightarrow> \<not> held_by (sw_WorkerID v) j"
    and run: "RunOnce E v picks m = (r, m')"
    and after: "jobs (m_store m') i = Some j" "held_by (sw_WorkerID v) j"
  shows "the (j_LockedUntil j) \<le> now_at E m'"
proof -
  have start: "in_hand E (sw_WorkerID v) {} m" using assms(2) before by (auto simp: in_hand_def)
  have id: "WorkerIDForRoutine v 0 = sw_WorkerID v" by (simp add: WorkerIDForRoutine_def)
  obtain d m1 where dispatch: "run E None (dispatchDeltas v) m = (d, m1)" by (metis prod.exhaust)
  obtain b m2 where batch: "run E None (processBatch v (sw_WorkerID v) (effectiveBatchSize v)) m1 = (b, m2)"
    by (metis prod.exhaust)
  have "in_hand E (sw_WorkerID v) {} m1" by (rule hoareD [OF dispatch_hand [OF E] start dispatch])
  moreover from this have "in_hand E (sw_WorkerID v) {} m2"
    by (rule hoareD [OF processBatch_hand [OF E] _ batch])
  ultimately have "in_hand E (sw_WorkerID v) {} m'"
    using run start dispatch batch one id by (auto simp: RunOnce_def split: option.splits)
  with after show ?thesis by (auto simp: in_hand_def)
qed

end

end
