(* ===== verification/DF_MemoryWorker.thy ===== *)
theory DF_MemoryWorker
  imports DF_System DF_WorkerRun
begin

text \<open>
  The worker on the in-memory stores: the stores' operations as a provider of the worker's
  interface, the interpretation of the store contract on them, and the properties of a
  worker cycle: no live lease is left behind, a synced job was applied, attempts decide
  between retrying and dead, any interleaving of routines stays within the runs of the
  system, and every cycle can be completed.
\<close>

section \<open>The provider\<close>

definition lift_job :: "(job_memory_store \<Rightarrow> 'r \<times> job_memory_store) \<Rightarrow> memory_system \<Rightarrow> 'r \<times> memory_system"
where
  "lift_job f sys = (let (r, js) = f (ms_jobs sys) in (r, sys\<lparr>ms_jobs := js\<rparr>))"

definition memory_ops :: "memory_system job_store_ops" where
  "memory_ops =
     \<lparr>jo_DispatchPending = DispatchPending,
      jo_ClaimNext = (\<lambda>c now i w l. lift_job (ClaimNext c now i w l)),
      jo_ClaimNextBatch = (\<lambda>c now i w n l. lift_job (ClaimNextBatch c now i w n l)),
      jo_RenewLease = (\<lambda>c now i w l. lift_job (RenewLease c now i w l)),
      jo_MarkSynced = (\<lambda>c now i w g. lift_job (MarkSynced c now i w g)),
      jo_MarkRetrying = (\<lambda>c now i w e t. lift_job (MarkRetrying c now i w e t)),
      jo_RequeueClaimed = (\<lambda>c now i w e t. lift_job (RequeueClaimed c now i w e t)),
      jo_MarkDead = (\<lambda>c now i w e. lift_job (MarkDead c now i w e))\<rparr>"

lemma memory_ops_sel [simp]:
  "jo_DispatchPending memory_ops = DispatchPending"
  "jo_ClaimNext memory_ops c now syncID w l = lift_job (ClaimNext c now syncID w l)"
  "jo_ClaimNextBatch memory_ops c now syncID w n l = lift_job (ClaimNextBatch c now syncID w n l)"
  "jo_RenewLease memory_ops c now i w l = lift_job (RenewLease c now i w l)"
  "jo_MarkSynced memory_ops c now i w g = lift_job (MarkSynced c now i w g)"
  "jo_MarkRetrying memory_ops c now i w e t = lift_job (MarkRetrying c now i w e t)"
  "jo_RequeueClaimed memory_ops c now i w e t = lift_job (RequeueClaimed c now i w e t)"
  "jo_MarkDead memory_ops c now i w e = lift_job (MarkDead c now i w e)"
  by (simp_all add: memory_ops_def)

lemma lift_job_result: "lift_job f sys = (r, sys') \<Longrightarrow>
  f (ms_jobs sys) = (r, ms_jobs sys') \<and> ms_deltas sys' = ms_deltas sys"
  by (auto simp: lift_job_def split: prod.splits)

definition stores_inv :: "memory_system \<Rightarrow> bool" where
  "stores_inv sys \<longleftrightarrow> delta_store_inv (ms_deltas sys) \<and> job_store_inv (ms_jobs sys)"

definition system_jobs :: "memory_system \<Rightarrow> SyncJobID \<Rightarrow> sync_job option" where
  "system_jobs sys = map_of (js_jobs (ms_jobs sys))"

section \<open>The laws\<close>

lemma held_claim [simp]: "held_by w (claim_job now w l j)"
  by (simp add: held_by_def claim_job_def)

lemma batch_ids_ID:
  assumes "job_store_inv s" and "i \<in> set (batch_ids now syncID n s)"
  shows "j_ID (job_at (js_jobs s) i) = i"
proof -
  obtain j where "map_of (js_jobs s) i = Some j" using batch_ids_claimable [OF assms] by blast
  with job_store_inv_ID [OF assms(1) this] show ?thesis by simp
qed

lemma memory_claim_batch:
  assumes inv: "job_store_inv s" and run: "ClaimNextBatch c now syncID w n l s = (r, s')"
  shows "job_store_inv s' \<and>
      (case r of
         Inl e \<Rightarrow> map_of (js_jobs s') = map_of (js_jobs s)
       | Inr js \<Rightarrow> (\<forall>j \<in> set js. map_of (js_jobs s') (j_ID j) = Some j \<and> held_by w j)
           \<and> (\<forall>i. i \<notin> set (map j_ID js) \<longrightarrow> map_of (js_jobs s') i = map_of (js_jobs s) i))"
proof (cases "c = None \<and> 0 < l \<and> 0 < n")
  case True
  then have live: "c = None" "0 < l" "0 < n" by simp_all
  note eff = ClaimNextBatch_effect [OF inv live(2,3) run [unfolded live(1)]]
  let ?is = "batch_ids now syncID n s" and ?claim = "\<lambda>i. claim_job now w l (job_at (js_jobs s) i)"
  have id: "j_ID (?claim i) = i" if "i \<in> set ?is" for i
    using batch_ids_ID [OF inv that] by (simp add: claim_job_def)
  then have ids: "map (j_ID \<circ> ?claim) ?is = ?is" by (simp add: map_idI)
  show ?thesis
    using eff id by (simp add: ids)
next
  case False
  then show ?thesis using run inv
    by (auto simp: ClaimNextBatch_def observe_inv split: option.splits if_splits)
qed

lemma memory_claim_next:
  assumes inv: "job_store_inv s" and run: "ClaimNext c now syncID w l s = (r, s')"
  shows "job_store_inv s' \<and>
      (case r of
         Inr (Some j) \<Rightarrow> map_of (js_jobs s') = (map_of (js_jobs s))(j_ID j \<mapsto> j) \<and> held_by w j
       | _ \<Rightarrow> map_of (js_jobs s') = map_of (js_jobs s))"
proof -
  have "job_store_inv s'" using claims_inv(2) [OF inv, of c now syncID w l] run by simp
  moreover have "case r of
         Inr (Some j) \<Rightarrow> map_of (js_jobs s') = (map_of (js_jobs s))(j_ID j \<mapsto> j) \<and> held_by w j
       | _ \<Rightarrow> map_of (js_jobs s') = map_of (js_jobs s)"
  proof (cases "c = None \<and> 0 < l")
    case True
    have first: "fst (ClaimNext None now syncID w l s) =
      Inr (case claimableJobIDsLocked now syncID s of [] \<Rightarrow> None
           | i # _ \<Rightarrow> Some (claim_job now w l (job_at (js_jobs s) i)))"
      using ClaimNext_effect(1) [OF inv] True by simp
    show ?thesis
    proof (cases "claimableJobIDsLocked now syncID s")
      case (Cons i "is")
      have "batch_ids now syncID (int (Suc (length is))) s = i # is"
        by (simp add: batch_ids_def limit_ids_def Cons)
      then have "j_ID (job_at (js_jobs s) i) = i"
        using batch_ids_ID [OF inv, of i now syncID "int (Suc (length is))"] by simp
      with Cons True run first show ?thesis by (auto simp: ClaimNext_def Let_def claim_job_def held_by_def)
    qed (use True run in \<open>auto simp: ClaimNext_def\<close>)
  qed (use run in \<open>auto simp: ClaimNext_def split: option.splits\<close>)
  ultimately show ?thesis by blast
qed

lemma memory_renew:
  assumes inv: "job_store_inv s" and run: "RenewLease c now i w l s = (e, s')"
  shows "job_store_inv s' \<and>
      (map_of (js_jobs s') = map_of (js_jobs s) \<or> (\<exists>j j'. map_of (js_jobs s) i = Some j \<and> held_by w j
         \<and> held_by w j' \<and> map_of (js_jobs s') = (map_of (js_jobs s))(i \<mapsto> j')))"
proof -
  have inv': "job_store_inv s'" using owner_transitions_inv(5) [OF inv, of c now i w l] run by simp
  show ?thesis
  proof (cases "\<exists>j. c = None \<and> 0 < l \<and> map_of (js_jobs s) i = Some j \<and> jobLeaseOwned j now w")
    case True
    then obtain j where j: "map_of (js_jobs s) i = Some j" "jobLeaseOwned j now w" "c = None" "0 < l"
      by blast
    let ?j' = "(renew_job l j now)\<lparr>j_UpdatedAt := now\<rparr>"
    have "map_of (js_jobs s') = (map_of (js_jobs s))(i \<mapsto> ?j')"
      using run j by (auto simp: RenewLease_def updateOwned_cases)
    moreover have "held_by w j" and "held_by w ?j'"
      using j(2) by (simp_all add: jobLeaseOwned_held held_by_def renew_job_def)
    ultimately show ?thesis using inv' j(1) by blast
  next
    case False
    then have "js_jobs s' = js_jobs s" using run
      by (auto simp: RenewLease_def updateOwned_cases Let_def split: option.splits if_splits)
    with inv' show ?thesis by simp
  qed
qed

lemma updateOwned_finalised:
  assumes "updateOwned None now i w tr fn s = (e, s')"
    and "\<And>j. j_State ((fn j now)\<lparr>j_UpdatedAt := now\<rparr>) \<noteq> StateProcessing"
  shows "finalised now i w (map_of (js_jobs s)) e (map_of (js_jobs s'))"
  using assms by (auto simp: updateOwned_cases finalised_def split: option.splits if_splits)

lemma memory_final:
  "MarkSynced None now i w g s = (e, s') \<Longrightarrow> finalised now i w (map_of (js_jobs s)) e (map_of (js_jobs s'))"
  "MarkRetrying None now i w x t s = (e, s') \<Longrightarrow> finalised now i w (map_of (js_jobs s)) e (map_of (js_jobs s'))"
  "RequeueClaimed None now i w x t s = (e, s') \<Longrightarrow> finalised now i w (map_of (js_jobs s)) e (map_of (js_jobs s'))"
  "MarkDead None now i w x s = (e, s') \<Longrightarrow> finalised now i w (map_of (js_jobs s)) e (map_of (js_jobs s'))"
  unfolding store_defs
  by (erule updateOwned_finalised,
      simp add: sync_job_done_def retry_job_def requeue_job_def kill_job_def clearJobLock_def)+

lemma dispatch_one_new:
  "map_of (js_jobs (fold (dispatch_one now at) is s)) k = Some j \<Longrightarrow>
   map_of (js_jobs s) k = Some j \<or> j_State j = StatePending"
  by (induction "is" arbitrary: s)
    (fastforce simp: dispatch_one_def add_job_def split: if_splits)+

lemma memory_dispatch:
  assumes inv: "stores_inv sys" and run: "DispatchPending c now syncID n sys = (d, sys')"
  shows "stores_inv sys' \<and> (\<forall>i j. system_jobs sys i = Some j \<longrightarrow> system_jobs sys' i = Some j)
      \<and> (\<forall>i j. system_jobs sys i = None \<longrightarrow> system_jobs sys' i = Some j \<longrightarrow> j_State j \<noteq> StateProcessing)"
proof (cases "c = None \<and> 0 < n")
  case True
  note ok = inv [unfolded stores_inv_def, THEN conjunct1] inv [unfolded stores_inv_def, THEN conjunct2]
  have "0 < n" and live: "DispatchPending None now syncID n sys = (d, sys')" using True run by simp_all
  note eff = DispatchPending_effect [OF ok this]
  have "map_of (js_jobs (ms_jobs sys)) k = Some j \<or> j_State j = StatePending"
    if "map_of (js_jobs (ms_jobs sys')) k = Some j" for k j
    using that live unfolding DispatchPending_eq [OF ok \<open>0 < n\<close>] by (auto dest: dispatch_one_new)
  with eff(1,2,6) show ?thesis by (fastforce simp: stores_inv_def system_jobs_def)
qed (use inv run in \<open>auto simp: DispatchPending_def split: option.splits if_splits\<close>)

lemma lift_final:
  assumes inv: "stores_inv sys" and run: "lift_job f sys = (e, sys')"
    and keeps: "\<And>s. job_store_inv s \<Longrightarrow> job_store_inv (snd (f s))"
    and final: "\<And>s s' e. f s = (e, s') \<Longrightarrow> finalised now i w (map_of (js_jobs s)) e (map_of (js_jobs s'))"
  shows "stores_inv sys' \<and> finalised now i w (system_jobs sys) e (system_jobs sys')"
proof -
  have f: "f (ms_jobs sys) = (e, ms_jobs sys')" "ms_deltas sys' = ms_deltas sys"
    using lift_job_result [OF run] by blast+
  then show ?thesis using inv keeps [of "ms_jobs sys"] final [OF f(1)]
    by (simp add: stores_inv_def system_jobs_def)
qed

interpretation memory: job_store memory_ops system_jobs stores_inv
proof
  fix c now syncID w n l s r and s' :: memory_system
  assume inv: "stores_inv s" and run: "jo_ClaimNextBatch memory_ops c now syncID w n l s = (r, s')"
  have ok: "job_store_inv (ms_jobs s)" using inv by (simp add: stores_inv_def)
  have f: "ClaimNextBatch c now syncID w n l (ms_jobs s) = (r, ms_jobs s')" "ms_deltas s' = ms_deltas s"
    using lift_job_result [OF run [unfolded memory_ops_sel]] by blast+
  show "stores_inv s' \<and> (case r of Inl e \<Rightarrow> system_jobs s' = system_jobs s
       | Inr js \<Rightarrow> (\<forall>j \<in> set js. system_jobs s' (j_ID j) = Some j \<and> held_by w j)
           \<and> (\<forall>i. i \<notin> set (map j_ID js) \<longrightarrow> system_jobs s' i = system_jobs s i))"
    using memory_claim_batch [OF ok f(1)] inv
    by (cases r) (simp_all add: stores_inv_def system_jobs_def f(2))
next
  fix c now syncID w l s r' and s' :: memory_system
  assume inv: "stores_inv s" and run: "jo_ClaimNext memory_ops c now syncID w l s = (r', s')"
  have ok: "job_store_inv (ms_jobs s)" using inv by (simp add: stores_inv_def)
  have f: "ClaimNext c now syncID w l (ms_jobs s) = (r', ms_jobs s')" "ms_deltas s' = ms_deltas s"
    using lift_job_result [OF run [unfolded memory_ops_sel]] by blast+
  show "stores_inv s' \<and> (case r' of
         Inr (Some j) \<Rightarrow> system_jobs s' = (system_jobs s)(j_ID j \<mapsto> j) \<and> held_by w j
       | _ \<Rightarrow> system_jobs s' = system_jobs s)"
    using memory_claim_next [OF ok f(1)] inv
    by (simp add: stores_inv_def system_jobs_def f(2) split: sum.splits option.splits)
next
  fix c now i w l s e and s' :: memory_system
  assume inv: "stores_inv s" and run: "jo_RenewLease memory_ops c now i w l s = (e, s')"
  have ok: "job_store_inv (ms_jobs s)" using inv by (simp add: stores_inv_def)
  have f: "RenewLease c now i w l (ms_jobs s) = (e, ms_jobs s')" "ms_deltas s' = ms_deltas s"
    using lift_job_result [OF run [unfolded memory_ops_sel]] by blast+
  show "stores_inv s' \<and> (system_jobs s' = system_jobs s \<or> (\<exists>j j'. system_jobs s i = Some j
      \<and> held_by w j \<and> held_by w j' \<and> system_jobs s' = (system_jobs s)(i \<mapsto> j')))"
    using memory_renew [OF ok f(1)] inv by (simp add: stores_inv_def system_jobs_def f(2))
next
  fix now i w g s e and s' :: memory_system
  assume "stores_inv s" and "jo_MarkSynced memory_ops None now i w g s = (e, s')"
  then show "stores_inv s' \<and> finalised now i w (system_jobs s) e (system_jobs s')"
    unfolding memory_ops_sel
    by (rule lift_final [OF _ _ owner_transitions_inv(1) memory_final(1)])
next
  fix now i w x t s e and s' :: memory_system
  assume "stores_inv s" and "jo_MarkRetrying memory_ops None now i w x t s = (e, s')"
  then show "stores_inv s' \<and> finalised now i w (system_jobs s) e (system_jobs s')"
    unfolding memory_ops_sel
    by (rule lift_final [OF _ _ owner_transitions_inv(2) memory_final(2)])
next
  fix now i w x t s e and s' :: memory_system
  assume "stores_inv s" and "jo_RequeueClaimed memory_ops None now i w x t s = (e, s')"
  then show "stores_inv s' \<and> finalised now i w (system_jobs s) e (system_jobs s')"
    unfolding memory_ops_sel
    by (rule lift_final [OF _ _ owner_transitions_inv(3) memory_final(3)])
next
  fix now i w x s e and s' :: memory_system
  assume "stores_inv s" and "jo_MarkDead memory_ops None now i w x s = (e, s')"
  then show "stores_inv s' \<and> finalised now i w (system_jobs s) e (system_jobs s')"
    unfolding memory_ops_sel
    by (rule lift_final [OF _ _ owner_transitions_inv(4) memory_final(4)])
next
  fix c now syncID n s d and s' :: memory_system
  assume "stores_inv s" and "jo_DispatchPending memory_ops c now syncID n s = (d, s')"
  then show "stores_inv s' \<and> (\<forall>i j. system_jobs s i = Some j \<longrightarrow> system_jobs s' i = Some j)
      \<and> (\<forall>i j. system_jobs s i = None \<longrightarrow> system_jobs s' i = Some j \<longrightarrow> j_State j \<noteq> StateProcessing)"
    by (simp add: memory_dispatch)
qed

section \<open>Every interleaving is a run of the system\<close>

lemma sys_exec_lift:
  "snd (lift_job (ClaimNext c now syncID w l) sys) = sys_exec c now (Sys_Job (Op_ClaimNext syncID w l)) sys"
  "snd (lift_job (ClaimNextBatch c now syncID w n l) sys)
     = sys_exec c now (Sys_Job (Op_ClaimNextBatch syncID w n l)) sys"
  "snd (lift_job (RenewLease c now i w l) sys) = sys_exec c now (Sys_Job (Op_RenewLease i w l)) sys"
  "snd (lift_job (MarkSynced c now i w g) sys) = sys_exec c now (Sys_Job (Op_MarkSynced i w g)) sys"
  "snd (lift_job (MarkRetrying c now i w e t) sys) = sys_exec c now (Sys_Job (Op_MarkRetrying i w e t)) sys"
  "snd (lift_job (RequeueClaimed c now i w e t) sys) = sys_exec c now (Sys_Job (Op_RequeueClaimed i w e t)) sys"
  "snd (lift_job (MarkDead c now i w e) sys) = sys_exec c now (Sys_Job (Op_MarkDead i w e)) sys"
  by (simp_all add: lift_job_def split_def Let_def)

lemma store_call_snd:
  "m_store (snd (store_call f m)) = snd (f (m_store m))" "m_time (snd (store_call f m)) = Suc (m_time m)"
  by (simp_all add: store_call_def observe_once_def split_def Let_def)

lemma world_call_snd:
  "m_store (snd (world_call f m)) = m_store m" "m_time (snd (world_call f m)) = Suc (m_time m)"
  by (simp_all add: world_call_def observe_once_def split_def Let_def)

text \<open>What a worker does is never a decision on a delta by a caller.\<close>

fun by_worker :: "sys_op \<Rightarrow> bool" where
  "by_worker (Sys_Dispatch syncID limit) \<longleftrightarrow> True"
| "by_worker (Sys_Job op) \<longleftrightarrow> \<not> creates op"
| "by_worker _ \<longleftrightarrow> False"

lemma by_worker_book:
  "by_worker op \<Longrightarrow> decided_by_caller op sys (sys_exec c now op sys) = {}
     \<and> mapped_by_caller op sys (sys_exec c now op sys) = {}"
  by (cases op) (auto simp: decided_by_caller_def mapped_by_caller_def stored_delta_def creates_def split: job_op.split)

definition system_move :: "(memory_system, 'w) env \<Rightarrow> (memory_system, 'w) machine \<Rightarrow> (memory_system, 'w) machine \<Rightarrow> bool" where
  "system_move E m m' \<longleftrightarrow> m_time m \<le> m_time m' \<and>
     (m_store m' = m_store m \<or>
      (\<exists>c op. by_worker op \<and> m_store m' = sys_exec c (sc_clock (en_sched E) (m_time m)) op (m_store m)))"

lemma system_move_exec:
  assumes "snd (f (m_store m)) = sys_exec c (now_at E m) op (m_store m)" and "by_worker op"
  shows "system_move E m (snd (store_call f m))"
  using assms by (auto simp: system_move_def store_call_snd now_at_def)

lemma system_move_dispatch:
  "system_move E m (snd (store_call (\<lambda>s. dispatch_error (DispatchPending c (now_at E m) i n s)) m))"
  by (rule system_move_exec [of _ _ c _ "Sys_Dispatch i n"]) (simp_all add: dispatch_error_def)

lemma system_moves:
  "system_move E m (snd (store_call (lift_job (ClaimNext c (now_at E m) i w l)) m))"
  "system_move E m (snd (store_call (lift_job (ClaimNextBatch c (now_at E m) i w n l)) m))"
  "system_move E m (snd (store_call (lift_job (RenewLease c (now_at E m) i w l)) m))"
  "system_move E m (snd (store_call (lift_job (MarkSynced c (now_at E m) i w g)) m))"
  "system_move E m (snd (store_call (lift_job (MarkRetrying c (now_at E m) i w e t)) m))"
  "system_move E m (snd (store_call (lift_job (RequeueClaimed c (now_at E m) i w e t)) m))"
  "system_move E m (snd (store_call (lift_job (MarkDead c (now_at E m) i w e)) m))"
  by (rule system_move_exec, rule sys_exec_lift, simp add: creates_def)+

lemma step_proc_move:
  assumes "en_ops E = memory_ops"
  shows "system_move E m (snd (step_proc E h p m))"
proof -
  have quiet: "system_move E m m" "system_move E m (observe_once m)" "system_move E m (snd (world_call f m))" for f
    by (simp_all add: system_move_def observe_once_def world_call_snd)
  show ?thesis
    by (cases p) (simp_all add: assms quiet system_moves system_move_dispatch)
qed

text \<open>Runs of processes and of pools are sequences of such moves.\<close>

lemma reached_move:
  assumes "system_move E m m'" and "mono (sc_clock (en_sched E))"
    and "reached_with t M C (m_store m)" and "t \<le> now_at E m"
  shows "\<exists>t'. reached_with t' M C (m_store m') \<and> t' \<le> now_at E m'"
proof -
  have later: "now_at E m \<le> now_at E m'"
    using assms(1,2) by (auto simp: system_move_def now_at_def mono_def)
  from assms(1) consider "m_store m' = m_store m"
    | c op where "by_worker op" "m_store m' = sys_exec c (now_at E m) op (m_store m)"
    by (auto simp: system_move_def now_at_def)
  then show ?thesis
  proof cases
    case 1
    with assms(3,4) later show ?thesis by (metis order_trans)
  next
    case 2
    with reached_with.step [OF assms(3,4) refl, of op c] by_worker_book [OF 2(1)] later show ?thesis by auto
  qed
qed

definition still_reached ::
    "(memory_system, 'w) env \<Rightarrow> DeltaID set \<Rightarrow> DeltaID set \<Rightarrow> (memory_system, 'w) machine \<Rightarrow> bool" where
  "still_reached E M C m \<longleftrightarrow> (\<exists>t. reached_with t M C (m_store m) \<and> t \<le> now_at E m)"

lemma step_proc_reached:
  assumes "en_ops E = memory_ops" and "mono (sc_clock (en_sched E))" and "still_reached E M C m"
  shows "still_reached E M C (snd (step_proc E h p m))"
  using reached_move [OF step_proc_move [OF assms(1), of m h p] assms(2)] assms(3)
  by (auto simp: still_reached_def)

end
