(* ===== verification/DF_WorkerSpec.thy ===== *)
theory DF_WorkerSpec
  imports DF_WorkerRun
begin

text \<open>
  What the worker's routines do on every path, whatever their surroundings answer: the
  events of a path through a process, how a job is finalised at its end, and the settings of a
  worker.
\<close>

section \<open>Paths\<close>

datatype event =
    Observed
  | Clock time
  | Renewal SyncJobID string "error option"
  | Claimed "sync_job list"
  | Projected projection_identity "error + projection"
  | Applied projection_operation "error option"
  | Synced SyncJobID string bool "error option"
  | Retrying SyncJobID string error time "error option"
  | Requeued SyncJobID string error time "error option"
  | Dead SyncJobID string error "error option"

inductive path :: "'a proc \<Rightarrow> event list \<Rightarrow> 'a \<Rightarrow> bool" where
  path_Return: "path (Return x) [] x"
| path_CtxErr: "path (k1 r) es x \<Longrightarrow> path (CtxErr k1) (Observed # es) x"
| path_TimeNow: "path (k2 t) es x \<Longrightarrow> path (TimeNow k2) (Clock t # es) x"
| path_Ticks: "path (k3 n) es x \<Longrightarrow> path (Ticks k3) (Observed # es) x"
| path_Dispatch: "path (k4 r4) es x \<Longrightarrow> path (CallDispatch i n k4) (Observed # es) x"
| path_ClaimNext: "path (k5 r5) es x \<Longrightarrow> path (CallClaimNext i w l k5)
    (Claimed (case r5 of Inr (Some j) \<Rightarrow> [j] | _ \<Rightarrow> []) # es) x"
| path_ClaimNextBatch: "path (k6 r6) es x \<Longrightarrow> path (CallClaimNextBatch i w n l k6)
    (Claimed (case r6 of Inr js \<Rightarrow> js | Inl _ \<Rightarrow> []) # es) x"
| path_Renew: "path (k7 r7) es x \<Longrightarrow> path (CallRenewLease i w l k7) (Renewal i w r7 # es) x"
| path_Synced: "path (k7 r7) es x \<Longrightarrow> path (CallMarkSynced i w g k7) (Synced i w g r7 # es) x"
| path_Retrying: "path (k7 r7) es x \<Longrightarrow> path (CallMarkRetrying i w e t k7) (Retrying i w e t r7 # es) x"
| path_Requeued: "path (k7 r7) es x \<Longrightarrow> path (CallRequeueClaimed i w e t k7) (Requeued i w e t r7 # es) x"
| path_Dead: "path (k7 r7) es x \<Longrightarrow> path (CallMarkDead i w e k7) (Dead i w e r7 # es) x"
| path_Project: "path (k8 r8) es x \<Longrightarrow> path (CallProject c d k8) (Projected d r8 # es) x"
| path_Apply: "path (k7 r7) es x \<Longrightarrow> path (CallApply c p k7) (Applied p r7 # es) x"

inductive_simps path_simps [simp]:
  "path (Return x) es y"
  "path (CtxErr k) es y"
  "path (TimeNow k) es y"
  "path (Ticks k) es y"
  "path (CallDispatch i n k) es y"
  "path (CallClaimNext i w l k) es y"
  "path (CallClaimNextBatch i w n l k) es y"
  "path (CallRenewLease i w l k) es y"
  "path (CallMarkSynced i w g k) es y"
  "path (CallMarkRetrying i w e t k) es y"
  "path (CallRequeueClaimed i w e t k) es y"
  "path (CallMarkDead i w e k) es y"
  "path (CallProject c d k) es y"
  "path (CallApply c p k) es y"

text \<open>Every run of a process goes along a path to its result.\<close>

lemma run_path: "\<exists>es. path p es (fst (run E h p m))"
proof (induction p arbitrary: m)
  case (Return x)
  show ?case by (auto intro: path.intros)
qed (simp_all add: split_def, (blast intro: path.intros)+)

text \<open>A path through two processes in a row is a path through the first and one through the second.\<close>

lemma path_through:
  assumes "\<And>q es. q \<in> range k \<Longrightarrow> path (bind_proc q f) es y \<Longrightarrow>
      \<exists>es1 es2 x. es = es1 @ es2 \<and> path q es1 x \<and> path (f x) es2 y"
    and "\<exists>a es'. path (bind_proc (k a) f) es' y \<and> es = ev a # es'"
    and "\<And>a es x. path (k a) es x \<Longrightarrow> path p (ev a # es) x"
  shows "\<exists>es1 es2 x. es = es1 @ es2 \<and> path p es1 x \<and> path (f x) es2 y"
proof -
  obtain a es' where "path (bind_proc (k a) f) es' y" "es = ev a # es'" using assms(2) by blast
  with assms(1) [of "k a" es'] assms(3) [of a] show ?thesis by (metis append_Cons rangeI)
qed

lemma bind_path:
  "path (bind_proc p f) es y \<Longrightarrow> \<exists>es1 es2 x. es = es1 @ es2 \<and> path p es1 x \<and> path (f x) es2 y"
proof (induction p arbitrary: es)
  case (Return x)
  then have "es = [] @ es \<and> path (Return x) [] x \<and> path (f x) es y" by simp
  then show ?case by blast
next
  case (CtxErr k)
  show ?case
    by (rule path_through [where ev = "\<lambda>a. Observed", OF CtxErr.IH])
      (use CtxErr.prems in \<open>auto intro: path.intros\<close>)
next
  case (TimeNow k)
  show ?case
    by (rule path_through [where ev = "\<lambda>a. Clock a", OF TimeNow.IH])
      (use TimeNow.prems in \<open>auto intro: path.intros\<close>)
next
  case (Ticks k)
  show ?case
    by (rule path_through [where ev = "\<lambda>a. Observed", OF Ticks.IH])
      (use Ticks.prems in \<open>auto intro: path.intros\<close>)
next
  case (CallDispatch i n k)
  show ?case
    by (rule path_through [where ev = "\<lambda>a. Observed", OF CallDispatch.IH])
      (use CallDispatch.prems in \<open>auto intro: path.intros\<close>)
next
  case (CallClaimNext i w l k)
  show ?case
    by (rule path_through [where ev = "\<lambda>a. Claimed (case a of Inr (Some j) \<Rightarrow> [j] | _ \<Rightarrow> [])", OF CallClaimNext.IH])
      (use CallClaimNext.prems in \<open>auto intro: path.intros\<close>)
next
  case (CallClaimNextBatch i w n l k)
  show ?case
    by (rule path_through [where ev = "\<lambda>a. Claimed (case a of Inr js \<Rightarrow> js | Inl _ \<Rightarrow> [])", OF CallClaimNextBatch.IH])
      (use CallClaimNextBatch.prems in \<open>auto intro: path.intros\<close>)
next
  case (CallRenewLease i w l k)
  show ?case
    by (rule path_through [where ev = "\<lambda>a. Renewal i w a", OF CallRenewLease.IH])
      (use CallRenewLease.prems in \<open>auto intro: path.intros\<close>)
next
  case (CallMarkSynced i w g k)
  show ?case
    by (rule path_through [where ev = "\<lambda>a. Synced i w g a", OF CallMarkSynced.IH])
      (use CallMarkSynced.prems in \<open>auto intro: path.intros\<close>)
next
  case (CallMarkRetrying i w e t k)
  show ?case
    by (rule path_through [where ev = "\<lambda>a. Retrying i w e t a", OF CallMarkRetrying.IH])
      (use CallMarkRetrying.prems in \<open>auto intro: path.intros\<close>)
next
  case (CallRequeueClaimed i w e t k)
  show ?case
    by (rule path_through [where ev = "\<lambda>a. Requeued i w e t a", OF CallRequeueClaimed.IH])
      (use CallRequeueClaimed.prems in \<open>auto intro: path.intros\<close>)
next
  case (CallMarkDead i w e k)
  show ?case
    by (rule path_through [where ev = "\<lambda>a. Dead i w e a", OF CallMarkDead.IH])
      (use CallMarkDead.prems in \<open>auto intro: path.intros\<close>)
next
  case (CallProject c d k)
  show ?case
    by (rule path_through [where ev = "\<lambda>a. Projected d a", OF CallProject.IH])
      (use CallProject.prems in \<open>auto intro: path.intros\<close>)
next
  case (CallApply c q k)
  show ?case
    by (rule path_through [where ev = "\<lambda>a. Applied q a", OF CallApply.IH])
      (use CallApply.prems in \<open>auto intro: path.intros\<close>)
qed

section \<open>One job\<close>

text \<open>The operation a projection answer leads to, and its ghost flag.\<close>

definition operation_for :: "projection_identity \<Rightarrow> error + projection \<Rightarrow> (projection_operation \<times> bool) option"
where
  "operation_for d r =
     (case r of
        Inr p \<Rightarrow> Some (\<lparr>op_Type = ProjectionOpUpsert, op_Identity = d, op_Projection = Some p\<rparr>, False)
      | Inl e \<Rightarrow> if errors_Is e ErrProjectionNotFound
          then Some (\<lparr>op_Type = ProjectionOpDelete, op_Identity = d, op_Projection = None\<rparr>, True)
          else None)"

text \<open>
  What the heartbeat does in the meantime: renewals of the lease of this job in the name of the
  worker. The first one that fails leaves its error.
\<close>

definition heartbeat_log :: "SyncJobID \<Rightarrow> string \<Rightarrow> event list \<Rightarrow> bool" where
  "heartbeat_log i w es \<longleftrightarrow>
     list_all (\<lambda>ev. case ev of Observed \<Rightarrow> True | Renewal i' w' r \<Rightarrow> i' = i \<and> w' = w | _ \<Rightarrow> False) es"

fun renewal_failure :: "event list \<Rightarrow> error option" where
  "renewal_failure [] = None"
| "renewal_failure (Renewal i w (Some e) # es) = Some (Wrapped ''lease renewal failed: '' e [])"
| "renewal_failure (ev # es) = renewal_failure es"

definition first_error :: "error option \<Rightarrow> error option \<Rightarrow> error option" where
  "first_error a b = (case a of Some e \<Rightarrow> Some e | None \<Rightarrow> b)"

text \<open>The call that finalises a job, by the error that stands in the way of marking it synced.\<close>

definition final_call :: "sync_job \<Rightarrow> string \<Rightarrow> bool \<Rightarrow> error option \<Rightarrow> event list \<Rightarrow> error option \<Rightarrow> bool" where
  "final_call job w ghost cause es r =
     (case cause of
        None \<Rightarrow> es = [Synced (j_ID job) w ghost r]
      | Some e \<Rightarrow>
          if j_MaxAttempts job \<le> j_AttemptCount job + 1 then es = [Dead (j_ID job) w e r]
          else (\<exists>now. es = [Clock now, Retrying (j_ID job) w e (now + workerBackoff (j_AttemptCount job + 1)) r]))"

lemma renewal_failure_append: "renewal_failure (xs @ ys) = first_error (renewal_failure xs) (renewal_failure ys)"
  by (induction xs rule: renewal_failure.induct) (simp_all add: first_error_def)

lemma first_error_simps [simp]: "first_error None b = b" "first_error (Some e) b = Some e"
  by (simp_all add: first_error_def)

lemma heartbeat_log_simps [simp]:
  "heartbeat_log i w []" "heartbeat_log i w (xs @ ys) \<longleftrightarrow> heartbeat_log i w xs \<and> heartbeat_log i w ys"
  "heartbeat_log i w (Observed # es) = heartbeat_log i w es" "heartbeat_log i w (Renewal i w r # es) = heartbeat_log i w es"
  by (simp_all add: heartbeat_log_def)

lemma heartbeats_path:
  "path (heartbeats v w i n k) es r \<Longrightarrow>
    \<exists>hb rest. es = hb @ rest \<and> heartbeat_log i w hb \<and> path (k (renewal_failure hb)) rest r"
proof (induction n arbitrary: es)
  case 0
  then show ?case by (simp add: exI [of _ "[]"])
next
  case (Suc n)
  then obtain a es' where es: "es = Renewal i w a # es'"
    and tail: "path (case a of None \<Rightarrow> heartbeats v w i n k
        | Some e \<Rightarrow> k (Some (Wrapped ''lease renewal failed: '' e []))) es' r"
    by auto
  show ?case
  proof (cases a)
    case None
    with tail Suc.IH [of es'] obtain hb rest where "es' = hb @ rest" "heartbeat_log i w hb" "path (k (renewal_failure hb)) rest r"
      by auto
    then have "es = (Renewal i w a # hb) @ rest \<and> heartbeat_log i w (Renewal i w a # hb)
        \<and> path (k (renewal_failure (Renewal i w a # hb))) rest r" by (simp add: es None)
    then show ?thesis by blast
  next
    case (Some e)
    with tail have "es = [Renewal i w a] @ es' \<and> heartbeat_log i w [Renewal i w a]
        \<and> path (k (renewal_failure [Renewal i w a])) es' r" by (simp add: es)
    then show ?thesis by blast
  qed
qed

lemma heartbeat_path:
  assumes "path (heartbeatLeaseWithWorker v w i failed k) es r"
  obtains hb rest where "es = hb @ rest" and "heartbeat_log i w hb"
    and "path (k (first_error failed (renewal_failure hb))) rest r"
proof (cases failed)
  case None
  then obtain n es' where es: "es = Observed # es'" and tail: "path (heartbeats v w i n k) es' r"
    using assms by (auto simp: heartbeatLeaseWithWorker_def)
  from heartbeats_path [OF tail] obtain hb rest
    where "es' = hb @ rest" "heartbeat_log i w hb" "path (k (renewal_failure hb)) rest r" by blast
  with None show ?thesis by (intro that [of "Observed # hb" rest]) (simp_all add: es)
next
  case (Some e)
  with assms show ?thesis by (intro that [of "[]" es]) (simp_all add: heartbeatLeaseWithWorker_def)
qed

lemma finish_path:
  assumes "path (finish_job v job w he err g) es r"
  obtains hb final where "es = hb @ final" and "heartbeat_log (j_ID job) w hb"
    and "final_call job w g (first_error he err) final r"
proof -
  obtain hb rest where hb: "es = hb @ rest" "heartbeat_log (j_ID job) w hb"
    and p: "path (case (he, err) of (Some he, _) \<Rightarrow> failOrRetryWithWorker v job w he
        | (None, Some e) \<Rightarrow> failOrRetryWithWorker v job w e
        | (None, None) \<Rightarrow> worker_markSynced (j_ID job) w g) rest r"
    using assms unfolding finish_job_def by (rule heartbeat_path) blast
  have "final_call job w g (first_error he err) rest r"
    using p by (cases he; cases err)
      (auto simp: final_call_def failOrRetryWithWorker_def worker_markSynced_def Let_def split: if_splits)
  with hb show ?thesis by (rule that)
qed

lemma apply_path:
  assumes "path (apply_job v job w failed p g) es r"
  obtains ar hb late final where "es = Applied p ar # hb @ late @ final"
    and "heartbeat_log (j_ID job) w (hb @ late)"
    and "final_call job w g (first_error (first_error failed (renewal_failure hb)) ar) final r"
proof -
  obtain ar es1 where es: "es = Applied p ar # es1"
    and t: "path (heartbeatLeaseWithWorker v w (j_ID job) failed (\<lambda>he. finish_job v job w he ar g)) es1 r"
    using assms by (auto simp: apply_job_def)
  obtain hb rest where hb: "es1 = hb @ rest" "heartbeat_log (j_ID job) w hb"
    "path (finish_job v job w (first_error failed (renewal_failure hb)) ar g) rest r"
    using t by (rule heartbeat_path)
  from hb(3) obtain late final where "rest = late @ final" "heartbeat_log (j_ID job) w late"
    "final_call job w g (first_error (first_error failed (renewal_failure hb)) ar) final r" by (rule finish_path)
  with hb es show ?thesis by (intro that [of ar hb late final]) simp_all
qed

text \<open>A path through a job up to the point where it is known what to apply.\<close>

lemma processJob_parts:
  fixes d job
  defines "d \<equiv> \<lparr>pi_Type = j_ProjectionType job, pi_Key = j_ProjectionKey job\<rparr>"
  assumes "path (processJob v w job) es r"
  obtains answer hb rest where "es = Projected d answer # hb @ rest" and "heartbeat_log (j_ID job) w hb"
    and "case operation_for d answer of
        None \<Rightarrow> \<exists>e. answer = Inl e \<and> path (finish_job v job w (renewal_failure hb) (Some e) False) rest r
      | Some (p, ghost) \<Rightarrow> path (apply_job v job w (renewal_failure hb) p ghost) rest r"
proof -
  define go where "go answer = (\<lambda>he. case answer of
        Inl err \<Rightarrow>
          if errors_Is err ErrProjectionNotFound then
            apply_job v job w he \<lparr>op_Type = ProjectionOpDelete, op_Identity = d, op_Projection = None\<rparr> True
          else finish_job v job w he (Some err) False
      | Inr projection \<Rightarrow>
          apply_job v job w he
            \<lparr>op_Type = ProjectionOpUpsert, op_Identity = d, op_Projection = Some projection\<rparr> False)" for answer
  obtain answer es1 where es: "es = Projected d answer # es1"
    and t: "path (heartbeatLeaseWithWorker v w (j_ID job) None (go answer)) es1 r"
    using assms by (auto simp: processJob_def Let_def go_def)
  obtain hb rest where "es1 = hb @ rest" "heartbeat_log (j_ID job) w hb" "path (go answer (renewal_failure hb)) rest r"
    using t by (rule heartbeat_path) auto
  with es show ?thesis
    by (intro that [of answer hb rest]) (auto simp: operation_for_def go_def split: sum.splits)
qed

text \<open>
  C4: processJob does what projector, applier and heartbeat ask for. On every path, whatever
  the surroundings answer, it asks the projector once. When the answer is a projection, or
  that it is gone, it calls the applier once, with the upsert or the delete this asks for, and else
  not at all. Then it makes exactly one finalising call, the last, for the job in the name of
  the worker; all other events are renewals of its lease. The call is decided by the first
  renewal that failed before the look into the channel, or else the error of the applier (of the
  projector, when nothing was applied): without an error the job is marked synced, with the ghost
  flag of a delete; with one it is marked dead with this error when the attempts are used up, and
  otherwise retried with this error after the backoff of the attempt. Only renewals between
  the look and the final call (\<open>late\<close>) are not heeded. The result is that of the final call.
\<close>

theorem process_job_path:
  assumes "path (processJob v w job) es r"
  shows "\<exists>d answer hb late final. d = \<lparr>pi_Type = j_ProjectionType job, pi_Key = j_ProjectionKey job\<rparr>
    \<and> heartbeat_log (j_ID job) w (hb @ late)
    \<and> (case operation_for d answer of
         None \<Rightarrow> \<exists>e. answer = Inl e \<and> es = [Projected d answer] @ hb @ late @ final
           \<and> final_call job w False (first_error (renewal_failure hb) (Some e)) final r
       | Some (p, ghost) \<Rightarrow> \<exists>applied before after. hb = before @ after
           \<and> es = [Projected d answer] @ before @ [Applied p applied] @ after @ late @ final
           \<and> final_call job w ghost (first_error (renewal_failure hb) applied) final r)"
proof -
  let ?d = "\<lparr>pi_Type = j_ProjectionType job, pi_Key = j_ProjectionKey job\<rparr>"
  obtain answer hb rest where es: "es = Projected ?d answer # hb @ rest" "heartbeat_log (j_ID job) w hb"
    and parts: "case operation_for ?d answer of
        None \<Rightarrow> \<exists>e. answer = Inl e \<and> path (finish_job v job w (renewal_failure hb) (Some e) False) rest r
      | Some (p, ghost) \<Rightarrow> path (apply_job v job w (renewal_failure hb) p ghost) rest r"
    by (rule processJob_parts [OF assms])
  show ?thesis
  proof (cases "operation_for ?d answer")
    case None
    with parts obtain e where e: "answer = Inl e" "path (finish_job v job w (renewal_failure hb) (Some e) False) rest r"
      by auto
    obtain late final where "rest = late @ final" "heartbeat_log (j_ID job) w late"
        "final_call job w False (first_error (renewal_failure hb) (Some e)) final r"
      using e(2) by (rule finish_path)
    with None e es show ?thesis
      by (intro exI [of _ ?d] exI [of _ answer] exI [of _ hb] exI [of _ late] exI [of _ final]) simp
  next
    case (Some pg)
    obtain p g where pg: "pg = (p, g)" by (cases pg)
    with Some parts have "path (apply_job v job w (renewal_failure hb) p g) rest r" by simp
    then obtain ar after late final where "rest = Applied p ar # after @ late @ final"
        "heartbeat_log (j_ID job) w (after @ late)"
        "final_call job w g (first_error (first_error (renewal_failure hb) (renewal_failure after)) ar) final r"
      by (rule apply_path)
    with Some pg es show ?thesis
      by (intro exI [of _ ?d] exI [of _ answer] exI [of _ "hb @ after"] exI [of _ late] exI [of _ final])
        (auto simp: renewal_failure_append)
  qed
qed

definition sample_worker :: sync_worker where
  "sample_worker =
     \<lparr>sw_hasJobStore = True, sw_batchClaims = True, sw_hasDispatcher = True, sw_hasProjector = True,
      sw_hasApplier = True, sw_SyncID = ''contacts'', sw_WorkerID = ''w'', sw_LockFor = 7,
      sw_PullSize = 0, sw_BatchSize = 2, sw_Concurrency = 1\<rparr>"

lemma process_job_path_witness:
  "\<exists>es answer. path (processJob sample_worker ''w'' sample_leased) es None
     \<and> operation_for \<lparr>pi_Type = j_ProjectionType sample_leased, pi_Key = j_ProjectionKey sample_leased\<rparr> answer \<noteq> None
     \<and> Synced (j_ID sample_leased) ''w'' True None \<in> set es"
proof -
  let ?d = "\<lparr>pi_Type = j_ProjectionType sample_leased, pi_Key = j_ProjectionKey sample_leased\<rparr>"
  let ?op = "\<lparr>op_Type = ProjectionOpDelete, op_Identity = ?d, op_Projection = None\<rparr>"
  let ?es = "[Projected ?d (Inl ErrProjectionNotFound), Observed, Renewal (j_ID sample_leased) ''w'' None,
     Applied ?op None, Observed, Observed, Synced (j_ID sample_leased) ''w'' True None]"
  have p: "path (processJob sample_worker ''w'' sample_leased) ?es None"
    by (simp add: processJob_def apply_job_def finish_job_def heartbeatLeaseWithWorker_def worker_markSynced_def Let_def)
      (rule exI [of _ "Suc 0"], simp, rule exI [of _ 0], simp, rule exI [of _ 0],
        simp add: worker_markSynced_def)
  from process_job_path [OF p] obtain answer where "operation_for ?d answer \<noteq> None"
    by (auto split: option.splits simp: operation_for_def)
  with p show ?thesis by (intro exI [of _ ?es] exI [of _ answer]) simp
qed

section \<open>A batch\<close>

text \<open>The jobs that a path claims, and the jobs it makes a finalising or requeueing call for, in whose name.\<close>

definition claimed :: "event list \<Rightarrow> sync_job list" where
  "claimed es = concat (map (\<lambda>ev. case ev of Claimed js \<Rightarrow> js | _ \<Rightarrow> []) es)"

definition settled :: "event list \<Rightarrow> (SyncJobID \<times> string) list" where
  "settled es = concat (map (\<lambda>ev. case ev of Synced i w g r \<Rightarrow> [(i, w)] | Retrying i w e t r \<Rightarrow> [(i, w)]
     | Requeued i w e t r \<Rightarrow> [(i, w)] | Dead i w e r \<Rightarrow> [(i, w)] | _ \<Rightarrow> []) es)"

text \<open>Jobs are given back only for the error that ends the batch.\<close>

definition gives_back_for :: "error option \<Rightarrow> event list \<Rightarrow> bool" where
  "gives_back_for cause es \<longleftrightarrow> list_all (\<lambda>ev. case ev of Requeued i w e t r \<Rightarrow> cause = Some e | _ \<Rightarrow> True) es"

lemmas batch_defs = claimed_def settled_def gives_back_for_def

lemma batch_simps [simp]:
  "claimed [] = []" "claimed (xs @ ys) = claimed xs @ claimed ys" "claimed (Claimed js # es) = js @ claimed es"
  "claimed (Observed # es) = claimed es" "claimed (Clock t # es) = claimed es" "claimed (Projected d a # es) = claimed es"
  "claimed (Applied p ar # es) = claimed es" "claimed (Synced i w g r # es) = claimed es"
  "claimed (Retrying i w e t r # es) = claimed es" "claimed (Requeued i w e t r # es) = claimed es" "claimed (Dead i w e r # es) = claimed es"
  "settled [] = []" "settled (xs @ ys) = settled xs @ settled ys" "settled (Claimed js # es) = settled es"
  "settled (Observed # es) = settled es" "settled (Clock t # es) = settled es" "settled (Projected d a # es) = settled es"
  "settled (Applied p ar # es) = settled es" "settled (Synced i w g r # es) = (i, w) # settled es"
  "settled (Retrying i w e t r # es) = (i, w) # settled es"
  "settled (Requeued i w e t r # es) = (i, w) # settled es" "settled (Dead i w e r # es) = (i, w) # settled es"
  "gives_back_for c []" "gives_back_for c (xs @ ys) \<longleftrightarrow> gives_back_for c xs \<and> gives_back_for c ys"
  "gives_back_for c (Claimed js # es) = gives_back_for c es"
  "gives_back_for c (Observed # es) = gives_back_for c es" "gives_back_for c (Clock t # es) = gives_back_for c es"
  "gives_back_for c (Projected d a # es) = gives_back_for c es" "gives_back_for c (Applied p ar # es) = gives_back_for c es"
  "gives_back_for c (Synced i w g r # es) = gives_back_for c es" "gives_back_for c (Retrying i w e t r # es) = gives_back_for c es"
  "gives_back_for c (Requeued i w e t r # es) \<longleftrightarrow> c = Some e \<and> gives_back_for c es"
  "gives_back_for c (Dead i w e r # es) = gives_back_for c es"
  by (simp_all add: batch_defs)

lemma heartbeat_batch: "heartbeat_log i w es \<Longrightarrow> claimed es = [] \<and> settled es = [] \<and> gives_back_for c es"
  by (induction es) (auto simp: batch_defs heartbeat_log_def split: event.splits)

lemma final_batch: "final_call job w g cause es r \<Longrightarrow> claimed es = [] \<and> settled es = [(j_ID job, w)] \<and> gives_back_for c es"
  by (auto simp: final_call_def split: option.splits if_splits)

lemma processJob_batch:
  assumes "path (processJob v w job) es r"
  shows "claimed es = [] \<and> settled es = [(j_ID job, w)] \<and> gives_back_for c es"
proof (rule processJob_parts [OF assms])
  fix answer hb rest
  let ?d = "\<lparr>pi_Type = j_ProjectionType job, pi_Key = j_ProjectionKey job\<rparr>"
  assume es: "es = Projected ?d answer # hb @ rest" "heartbeat_log (j_ID job) w hb"
    and parts: "case operation_for ?d answer of
        None \<Rightarrow> \<exists>e. answer = Inl e \<and> path (finish_job v job w (renewal_failure hb) (Some e) False) rest r
      | Some (p, ghost) \<Rightarrow> path (apply_job v job w (renewal_failure hb) p ghost) rest r"
  have "claimed rest = [] \<and> settled rest = [(j_ID job, w)] \<and> gives_back_for c rest"
    using parts
    by (auto split: option.splits elim!: finish_path apply_path dest!: final_batch [where c = c] heartbeat_batch [where c = c])
  with es heartbeat_batch [OF es(2), of c] show ?thesis by simp
qed

lemma requeue_batch:
  assumes "path (requeueClaimedJobs w js e) es r"
  shows "claimed es = [] \<and> settled es = map (\<lambda>j. (j_ID j, w)) js \<and> gives_back_for (Some e) es"
proof -
  have "path (requeue_all w js e t) es r \<Longrightarrow> claimed es = [] \<and> settled es = map (\<lambda>j. (j_ID j, w)) js
      \<and> gives_back_for (Some e) es" for t es
    by (induction js arbitrary: es) auto
  with assms show ?thesis by (auto simp: requeueClaimedJobs_def split: if_splits)
qed

lemma drain_batch:
  "path (drain v w js) es r \<Longrightarrow> claimed es = [] \<and> settled es = map (\<lambda>j. (j_ID j, w)) js \<and> gives_back_for r es"
proof (induction js arbitrary: es)
  case (Cons j js)
  obtain c es1 where es: "es = Observed # es1" and t: "path (case c of
       Some err \<Rightarrow> bind_proc (requeueClaimedJobs w (j # js) err) (\<lambda>_. Return (Some err))
     | None \<Rightarrow> bind_proc (processJob v w j) (\<lambda>r.
         case r of
           Some err \<Rightarrow> bind_proc (requeueClaimedJobs w js err) (\<lambda>_. Return (Some err))
         | None \<Rightarrow> drain v w js)) es1 r"
    using Cons.prems by auto
  have given_back: "claimed xs = [] \<and> settled xs = map (\<lambda>j. (j_ID j, w)) ks \<and> gives_back_for r xs"
    if "path (bind_proc (requeueClaimedJobs w ks err) (\<lambda>_. Return (Some err))) xs r" for ks err xs
    using bind_path [OF that] by (auto dest!: requeue_batch)
  show ?case
  proof (cases c)
    case None
    with t obtain xs ys a where split: "es1 = xs @ ys" "path (processJob v w j) xs a"
        "path (case a of Some err \<Rightarrow> bind_proc (requeueClaimedJobs w js err) (\<lambda>_. Return (Some err)) | None \<Rightarrow> drain v w js) ys r"
      by (auto dest!: bind_path)
    have "claimed ys = [] \<and> settled ys = map (\<lambda>j. (j_ID j, w)) js \<and> gives_back_for r ys"
      using split(3) Cons.IH given_back by (cases a) auto
    with processJob_batch [OF split(2), of r] split(1) show ?thesis by (simp add: es)
  next
    case (Some err)
    with t given_back [of "j # js" err es1] show ?thesis by (simp add: es)
  qed
qed simp

lemma claim_loop_batch:
  "path (claim_loop v w n js) es r \<Longrightarrow> (case r of
       Inr ks \<Rightarrow> ks = js @ claimed es \<and> settled es = [] \<and> (\<forall>c. gives_back_for c es)
     | Inl e \<Rightarrow> settled es = map (\<lambda>j. (j_ID j, w)) (js @ claimed es) \<and> gives_back_for (Some e) es)"
proof (induction n arbitrary: js es)
  case (Suc n)
  obtain a es1 where es: "es = Claimed (case a of Inr (Some j) \<Rightarrow> [j] | _ \<Rightarrow> []) # es1" and t: "path (case a of
         Inl err \<Rightarrow> bind_proc (requeueClaimedJobs w js err) (\<lambda>_. Return (Inl err))
       | Inr None \<Rightarrow> Return (Inr js)
       | Inr (Some job) \<Rightarrow> claim_loop v w n (js @ [job])) es1 r"
    using Suc.prems by auto
  show ?case
  proof (cases a)
    case (Inl err)
    with t es show ?thesis by (auto dest!: bind_path requeue_batch)
  next
    case (Inr x)
    with t es Suc.IH [of "js @ [the x]" es1] show ?thesis by (cases x) (auto split: sum.splits)
  qed
qed simp

text \<open>
  C5: A routine settles what it has claimed, all of it and nothing else. On every path through
  a batch, whatever the surroundings answer and wherever an error or a cancellation breaks it off,
  the jobs it makes a finalising or requeueing call for are the jobs its claims were answered with,
  each once, in their order and in the routine's name; and a job is given back unprocessed only
  for the error that ends the batch, so never in a batch that ends without one.
\<close>

theorem claimed_jobs_settled:
  assumes "path (processBatch v w n) es r"
  shows "settled es = map (\<lambda>j. (j_ID j, w)) (claimed es) \<and> gives_back_for r es"
proof -
  obtain xs ys a where es: "es = xs @ ys" and claim: "path (claimBatch v w n) xs a"
    and rest: "path (case a of Inl err \<Rightarrow> Return (Some err) | Inr js \<Rightarrow> drain v w js) ys r"
    using bind_path [OF assms [unfolded processBatch_def]] by blast
  have xs: "case a of
      Inr ks \<Rightarrow> ks = claimed xs \<and> settled xs = [] \<and> (\<forall>c. gives_back_for c xs)
    | Inl e \<Rightarrow> settled xs = map (\<lambda>j. (j_ID j, w)) (claimed xs) \<and> gives_back_for (Some e) xs"
    using claim claim_loop_batch [of v w "nat n" "[]" xs a]
    by (auto simp: claimBatch_def split: if_splits sum.splits)
  show ?thesis
  proof (cases a)
    case (Inl e)
    with xs rest es show ?thesis by simp
  next
    case (Inr js)
    with rest have "claimed ys = [] \<and> settled ys = map (\<lambda>j. (j_ID j, w)) js \<and> gives_back_for r ys"
      by (simp add: drain_batch)
    with Inr xs es show ?thesis by simp
  qed
qed

lemma claimed_jobs_settled_witness:
  "path (processBatch sample_worker ''w'' 2)
       [Claimed [sample_leased], Observed, Clock 9, Requeued (j_ID sample_leased) ''w'' CtxCanceled 9 None] (Some CtxCanceled)
     \<and> gives_back_for (Some CtxCanceled) [Requeued (j_ID sample_leased) ''w'' CtxCanceled 9 None]"
proof -
  let ?es = "[Claimed [sample_leased], Observed, Clock 9, Requeued (j_ID sample_leased) ''w'' CtxCanceled 9 None]"
  have p: "path (processBatch sample_worker ''w'' 2) ?es (Some CtxCanceled)"
    by (simp add: processBatch_def claimBatch_def sample_worker_def)
      (rule exI [of _ "Inr [sample_leased]"], simp, rule exI [of _ "Some CtxCanceled"], simp add: requeueClaimedJobs_def)
  from claimed_jobs_settled [OF p] p show ?thesis by simp
qed

section \<open>Settings\<close>

lemma show_int_inj: "show_int (int a) = show_int (int b) \<longleftrightarrow> a = b"
  by (simp add: show_int_def)

text \<open>
  The routines of a worker act under different names: the name of a routine determines
  its number, so two routines of one cycle never own each other's leases.
\<close>

theorem routine_names_differ:
  assumes "WorkerIDForRoutine w (int i) = WorkerIDForRoutine w (int k)"
  shows "i = k"
  using assms by (auto simp: WorkerIDForRoutine_def show_int_inj split: if_splits)

lemma routine_names_differ_witness:
  "WorkerIDForRoutine sample_worker (int 3) = ''w-r3'' \<and> (3::nat) = 3"
proof -
  have "WorkerIDForRoutine sample_worker (int 3) = ''w-r3''"
    by code_simp
  then show ?thesis using routine_names_differ [of sample_worker 3 3] by simp
qed

text \<open>
  A cycle of a worker with an invalid configuration or a missing collaborator returns the
  validation error and touches nothing, and a valid one has a heartbeat that fires at least
  once before its lease of two nanoseconds or more is over.
\<close>

theorem settings_checked:
  "case validateRunOnceDependencies w of
     Some e \<Rightarrow> RunOnce E w picks m = (Some (Some e), m)
   | None \<Rightarrow> 0 < heartbeat_interval w \<and> heartbeat_interval w \<le> sw_LockFor w
       \<and> (2 \<le> sw_LockFor w \<longrightarrow> 2 * heartbeat_interval w \<le> sw_LockFor w)"
proof (cases "validateRunOnceDependencies w")
  case None
  then have "0 < sw_LockFor w"
    by (auto simp: validateRunOnceDependencies_def worker_Validate_def worker_config_def
        split: option.splits if_splits)
  with None show ?thesis by (auto simp: heartbeat_interval_def Let_def go_div_def)
qed (simp add: RunOnce_def)

lemma settings_checked_witness:
  "validateRunOnceDependencies sample_worker = None \<and> 2 * heartbeat_interval sample_worker \<le> 7"
proof -
  have "validateRunOnceDependencies sample_worker = None"
    by (simp add: validateRunOnceDependencies_def worker_Validate_def worker_config_def sample_worker_def)
  then show ?thesis using settings_checked [of sample_worker] by (simp add: sample_worker_def)
qed

text \<open>
  The backoff never shrinks with further attempts and stays between five seconds and five
  minutes.
\<close>

theorem backoff_grows:
  assumes "a \<le> b"
  shows "5 * second \<le> workerBackoff a \<and> workerBackoff a \<le> workerBackoff b \<and> workerBackoff b \<le> 5 * minute"
  using assms by (simp add: workerBackoff_def second_def minute_def)

lemma backoff_grows_witness: "workerBackoff 2 \<le> workerBackoff 7 \<and> workerBackoff 2 = 30 * second"
  using backoff_grows [of 2 7] by (simp add: workerBackoff_def)

end
