(* ===== verification/DF_Cycle.thy ===== *)
theory DF_Cycle
  imports DF_MemoryWorker DF_WorkerSpec
begin

text \<open>
  A worker cycle on the in-memory stores: no live lease is left behind, and in calm
  surroundings a batch is delivered; any interleaving of routines stays within the runs of the
  system.
\<close>

section \<open>A sample cycle\<close>

definition sample_env :: "(memory_system, unit) env" where
  "sample_env =
     \<lparr>en_ops = memory_ops, en_project = (\<lambda>c i x. (Inl ErrProjectionNotFound, x)),
      en_apply = (\<lambda>c p x. (None, x)),
      en_sched = \<lparr>sc_clock = (\<lambda>n. 10), sc_ctx = (\<lambda>n. None), sc_final = (\<lambda>n. None), sc_ticks = (\<lambda>n. 0)\<rparr>\<rparr>"

definition sample_machine :: "(memory_system, unit) machine" where
  "sample_machine =
     \<lparr>m_store = \<lparr>ms_deltas = NewDeltaMemoryStore, ms_jobs = sample_job_store\<rparr>, m_world = (), m_time = 0\<rparr>"

definition one_routine :: sync_worker where
  "one_routine = sample_worker\<lparr>sw_hasDispatcher := False\<rparr>"

lemma sample_machine_inv: "stores_inv (m_store sample_machine)"
  by (simp add: sample_machine_def stores_inv_def sample_job_store_inv NewDeltaMemoryStore_def
      NewDeltaMemoryStore_inv)

lemma sample_machine_jobs: "system_jobs (m_store sample_machine) = [job_id 1 \<mapsto> sample_created]"
  by (simp add: sample_machine_def system_jobs_def sample_job_store_jobs)

lemma sample_clock: "mono (sc_clock (en_sched sample_env))" "en_ops sample_env = memory_ops"
  by (simp_all add: sample_env_def mono_def)

section \<open>No live lease is left behind\<close>

text \<open>
  C3: A worker never walks away from a live lease: when a cycle of one routine is over,
  whatever the projector, the applier, the heartbeat and cancellation did on the way, every
  job still held in the worker's name has a lease that is over, so any other worker can claim
  it at once. The finalising calls have two seconds of their own; the hypothesis on them says
  that they are not cut off.
\<close>

theorem worker_leaves_no_live_lease:
  assumes "en_ops E = memory_ops" and "mono (sc_clock (en_sched E))"
    and "\<forall>n. sc_final (en_sched E) n = None"
    and "stores_inv (m_store m)" and "effectiveConcurrency v = 1"
    and "\<forall>i j. system_jobs (m_store m) i = Some j \<longrightarrow> \<not> held_by (sw_WorkerID v) j"
    and "RunOnce E v picks m = (r, m')"
  shows "\<forall>i j. system_jobs (m_store m') i = Some j \<longrightarrow> held_by (sw_WorkerID v) j \<longrightarrow>
    the (j_LockedUntil j) \<le> now_at E m'"
proof (intro allI impI)
  fix i j
  assume "system_jobs (m_store m') i = Some j" and "held_by (sw_WorkerID v) j"
  then show "the (j_LockedUntil j) \<le> now_at E m'"
    by (intro memory.RunOnce_leaves_no_live_lease [of E m v picks r m' i])
      (use assms in \<open>simp_all add: memory.clock_ok_def\<close>)
qed

lemma worker_leaves_no_live_lease_witness:
  "\<exists>m'. RunOnce sample_env one_routine [] sample_machine = (Some None, m')
     \<and> (\<forall>i j. system_jobs (m_store m') i = Some j \<longrightarrow> held_by ''w'' j \<longrightarrow> the (j_LockedUntil j) \<le> 10)"
proof -
  have r: "fst (RunOnce sample_env one_routine [] sample_machine) = Some None" by code_simp
  then obtain m' where run: "RunOnce sample_env one_routine [] sample_machine = (Some None, m')"
    by (metis prod.collapse)
  have "\<forall>i j. system_jobs (m_store sample_machine) i = Some j \<longrightarrow> \<not> held_by (sw_WorkerID one_routine) j"
    by (simp add: sample_machine_jobs held_by_def sample_created_def)
  from worker_leaves_no_live_lease [OF sample_clock(2,1) _ sample_machine_inv _ this run] run
  show ?thesis
    by (simp add: sample_env_def one_routine_def sample_worker_def effectiveConcurrency_def now_at_def)
qed

section \<open>Concurrent cycles\<close>

text \<open>
  After a cycle of any number of routines, interleaved call by call in any way, the stores are in
  a state that a sequence of store operations reaches, none of which decides the state of a
  delta or creates a job by hand. So what holds of such states (no delta is lost, one job per identity)
  holds after it, also while the cycle is under way.
\<close>

lemma cycle_reached:
  assumes "en_ops E = memory_ops" and "mono (sc_clock (en_sched E))" and "still_reached E M C m"
  shows "still_reached E M C (snd (RunOnce E w picks m))"
proof (rule RunOnce_invariant)
  show "still_reached E M C (snd (step_proc E h p m))" if "still_reached E M C m"
    for m h and p :: "error option proc"
    by (rule step_proc_reached [OF assms(1,2) that])
qed (rule assms(3))

section \<open>Delivery\<close>

text \<open>
  What one job does to the world around the worker: its identity is projected, and the
  operation that the answer leads to is applied.
\<close>

definition job_identity :: "sync_job \<Rightarrow> projection_identity" where
  "job_identity job = \<lparr>pi_Type = j_ProjectionType job, pi_Key = j_ProjectionKey job\<rparr>"

definition project_apply :: "('s, 'w) env \<Rightarrow> sync_job \<Rightarrow> 'w \<Rightarrow> 'w" where
  "project_apply E job x =
     (case en_project E None (job_identity job) x of
        (a, x1) \<Rightarrow>
          (case operation_for (job_identity job) a of
             None \<Rightarrow> x1
           | Some (p, g) \<Rightarrow> snd (en_apply E None p x1)))"

text \<open>
  The world works for an identity: in the worlds of \<open>W\<close>, which its calls keep, the projector
  answers with a projection or with not found, and the applier accepts the operation.
\<close>

definition works :: "('s, 'w) env \<Rightarrow> ('w \<Rightarrow> bool) \<Rightarrow> projection_identity \<Rightarrow> bool" where
  "works E W d \<longleftrightarrow> (\<forall>x. W x \<longrightarrow>
     (case en_project E None d x of
        (a, x1) \<Rightarrow>
          (case operation_for d a of
             None \<Rightarrow> False
           | Some (p, g) \<Rightarrow> fst (en_apply E None p x1) = None \<and> W (snd (en_apply E None p x1)))))"

text \<open>
  Calm surroundings: no cancellation, no heartbeat tick, and a clock within the leases of a
  worker that begins at the machine \<open>m\<close>.
\<close>

definition calm :: "(memory_system, 'w) env \<Rightarrow> duration \<Rightarrow> (memory_system, 'w) machine \<Rightarrow> bool" where
  "calm E lockFor m \<longleftrightarrow> en_ops E = memory_ops
     \<and> (\<forall>n. sc_ctx (en_sched E) n = None \<and> sc_final (en_sched E) n = None \<and> sc_ticks (en_sched E) n = 0
          \<and> sc_clock (en_sched E) n < now_at E m + lockFor)"

lemma works_world: "works E W (job_identity job) \<Longrightarrow> W x \<Longrightarrow> W (project_apply E job x)"
  by (fastforce simp: works_def project_apply_def split: prod.splits option.splits)

lemma calm_process:
  assumes "calm E l m0" and works: "works E W (job_identity job)" "W (m_world m)"
  shows "\<exists>g m'. m_store m' = m_store m \<and> m_world m' = project_apply E job (m_world m)
    \<and> run E None (processJob v w job) m = run E None (CallMarkSynced (j_ID job) w g Return) m'"
proof -
  have quiet: "ctx_at E None k = None" "sc_ticks (en_sched E) n = 0" for k n
    using assms(1) by (simp_all add: calm_def ctx_at_def)
  let ?d = "job_identity job"
  obtain a x where a: "en_project E None ?d (m_world m) = (a, x)" by (rule prod.exhaust)
  with works obtain p g where pg: "operation_for ?d a = Some (p, g)" "fst (en_apply E None p x) = None"
    by (fastforce simp: works_def split: option.splits)
  then obtain x' where x': "en_apply E None p x = (None, x')" by (metis prod.collapse)
  let ?k = "observe_once (observe_once (m\<lparr>m_world := x\<rparr>))"
  have k: "m_store ?k = m_store m" "m_world ?k = x" by (simp_all add: observe_once_def)
  let ?n = "observe_once (observe_once (observe_once (?k\<lparr>m_world := x'\<rparr>)))"
  have applied: "run E None (apply_job v job w None p g) ?k = run E None (CallMarkSynced (j_ID job) w g Return) ?n"
    by (simp add: apply_job_def finish_job_def heartbeatLeaseWithWorker_def worker_markSynced_def
        job_ctx_at_def quiet world_call_def x' k(2))
  have "run E None (processJob v w job) m = run E None (apply_job v job w None p g) ?k"
    using pg(1) by (cases a) (auto simp: processJob_def Let_def heartbeatLeaseWithWorker_def job_ctx_at_def
        operation_for_def quiet world_call_def a job_identity_def [symmetric] split: if_splits)
  moreover have "project_apply E job (m_world m) = x'" by (simp add: project_apply_def a pg(1) x')
  ultimately show ?thesis using applied by (intro exI [of _ g] exI [of _ ?n]) (simp add: observe_once_def)
qed

lemma calm_job:
  assumes E: "calm E l m0" and works: "works E W (job_identity job)" "W (m_world m)"
    and j: "system_jobs (m_store m) (j_ID job) = Some job"
    and held: "j_State job = StateProcessing" "j_LockedBy job = Some w" "j_LockedUntil job = Some (now_at E m0 + l)"
  shows "\<exists>m' j'. run E None (processJob v w job) m = (None, m') \<and> j_State j' = StateSynced
    \<and> system_jobs (m_store m') = (system_jobs (m_store m))(j_ID job \<mapsto> j')
    \<and> m_world m' = project_apply E job (m_world m)"
proof -
  obtain g k where k: "m_store k = m_store m" "m_world k = project_apply E job (m_world m)"
    and run: "run E None (processJob v w job) m = run E None (CallMarkSynced (j_ID job) w g Return) k"
    using calm_process [OF E works] by blast
  have "jobLeaseOwned job (now_at E k) w" using E held by (simp add: calm_def jobLeaseOwned_def now_at_def)
  with j k have "MarkSynced None (now_at E k) (j_ID job) w g (ms_jobs (m_store k)) =
    (None, observe [ObserveLeaseOwnershipCheck LeaseTelemetryTransitionMarkSynced LeaseTelemetryOwnershipOwned]
       (set_job (j_ID job) ((sync_job_done g job (now_at E k))\<lparr>j_UpdatedAt := now_at E k\<rparr>) (ms_jobs (m_store k))))"
    by (simp add: MarkSynced_def updateOwned_cases system_jobs_def)
  with E run k show ?thesis
    by (auto simp: calm_def final_at_def store_call_def lift_job_def system_jobs_def observe_once_def
        sync_job_done_def clearJobLock_def intro!: exI)
qed

lemma calm_drain:
  assumes E: "calm E l m0" and "\<forall>j \<in> set js. works E W (job_identity j)" and "W (m_world m)"
    and "\<forall>j \<in> set js. system_jobs (m_store m) (j_ID j) = Some j \<and> j_State j = StateProcessing
       \<and> j_LockedBy j = Some w \<and> j_LockedUntil j = Some (now_at E m0 + l)"
    and "distinct (map j_ID js)"
  shows "\<exists>m'. run E None (drain v w js) m = (None, m')
    \<and> (\<forall>j \<in> set js. \<exists>j'. system_jobs (m_store m') (j_ID j) = Some j' \<and> j_State j' = StateSynced)
    \<and> (\<forall>i. i \<notin> j_ID ` set js \<longrightarrow> system_jobs (m_store m') i = system_jobs (m_store m) i)
    \<and> m_world m' = fold (project_apply E) js (m_world m)"
  using assms(2-)
proof (induction js arbitrary: m)
  case (Cons j js)
  let ?k = "observe_once m"
  have live: "ctx_at E None m = None" using E by (simp add: calm_def ctx_at_def)
  have works: "works E W (job_identity j)" "W (m_world ?k)" using Cons.prems(1,2) by (simp_all add: observe_once_def)
  have "system_jobs (m_store ?k) (j_ID j) = Some j" using Cons.prems(3) by (simp add: observe_once_def)
  from calm_job [OF E works this, of w v] Cons.prems(3) obtain m1 j' where
    m1: "run E None (processJob v w j) ?k = (None, m1)" "j_State j' = StateSynced"
      "system_jobs (m_store m1) = (system_jobs (m_store m))(j_ID j \<mapsto> j')"
      "m_world m1 = project_apply E j (m_world m)"
    by (auto simp: observe_once_def)
  have W: "W (m_world m1)" using works_world [OF works] by (simp add: m1(4) observe_once_def)
  have "\<forall>j \<in> set js. system_jobs (m_store m1) (j_ID j) = Some j \<and> j_State j = StateProcessing
       \<and> j_LockedBy j = Some w \<and> j_LockedUntil j = Some (now_at E m0 + l)"
  proof
    fix k
    assume k: "k \<in> set js"
    then have "j_ID k \<noteq> j_ID j" using Cons.prems(4)
      by (metis distinct.simps(2) image_eqI list.set_map list.simps(9))
    then have "system_jobs (m_store m1) (j_ID k) = system_jobs (m_store m) (j_ID k)" by (simp add: m1(3))
    with k Cons.prems(3) show "system_jobs (m_store m1) (j_ID k) = Some k \<and> j_State k = StateProcessing
       \<and> j_LockedBy k = Some w \<and> j_LockedUntil k = Some (now_at E m0 + l)" by simp
  qed
  from Cons.IH [OF _ W this] Cons.prems(1,4) obtain m' where
    m': "run E None (drain v w js) m1 = (None, m')"
      "\<forall>j \<in> set js. \<exists>j'. system_jobs (m_store m') (j_ID j) = Some j' \<and> j_State j' = StateSynced"
      "\<forall>i. i \<notin> j_ID ` set js \<longrightarrow> system_jobs (m_store m') i = system_jobs (m_store m1) i"
      "m_world m' = fold (project_apply E) js (m_world m1)"
    by auto
  have "system_jobs (m_store m') (j_ID j) = Some j'" using m'(3) m1(3) Cons.prems(4) by simp
  with m' m1 live show ?case by (intro exI [of _ m']) (auto simp: run_bind)
qed simp

text \<open>The jobs that the worker's claim hands out, with their new lease.\<close>

definition claimed_jobs :: "(memory_system, 'w) env \<Rightarrow> sync_worker \<Rightarrow> string \<Rightarrow> int \<Rightarrow> (memory_system, 'w) machine \<Rightarrow> sync_job list"
where
  "claimed_jobs E v w n m =
     map (\<lambda>i. claim_job (now_at E m) w (sw_LockFor v) (job_at (js_jobs (ms_jobs (m_store m))) i))
       (take (nat n) (claimableJobIDsLocked (now_at E m) (sw_SyncID v) (ms_jobs (m_store m))))"

lemma claimed_jobs_ID:
  assumes "stores_inv (m_store m)" and "0 < n" and "job \<in> set (claimed_jobs E v w n m)"
  shows "j_ID job \<in> set (take (nat n) (claimableJobIDsLocked (now_at E m) (sw_SyncID v) (ms_jobs (m_store m))))"
proof -
  let ?s = "ms_jobs (m_store m)"
  have batch: "take (nat n) (claimableJobIDsLocked (now_at E m) (sw_SyncID v) ?s) = batch_ids (now_at E m) (sw_SyncID v) n ?s"
    by (simp add: batch_ids_def limit_ids_take [OF less_imp_le [OF assms(2)]])
  have inv: "job_store_inv ?s" using assms(1) by (simp add: stores_inv_def)
  show ?thesis using assms(3) batch_ids_ID [OF inv] unfolding claimed_jobs_def batch by (auto simp: claim_job_def)
qed

lemma calm_batch:
  assumes "calm E (sw_LockFor v) m" and "stores_inv (m_store m)"
    and "0 < sw_LockFor v" and "sw_batchClaims v" and "0 < n"
    and "list_all (\<lambda>j. works E W (job_identity j)) (claimed_jobs E v w n m)" and "W (m_world m)"
  shows "\<exists>m'. run E None (processBatch v w n) m = (None, m')
    \<and> (\<forall>i \<in> set (take (nat n) (claimableJobIDsLocked (now_at E m) (sw_SyncID v) (ms_jobs (m_store m)))).
         \<exists>j. system_jobs (m_store m') i = Some j \<and> j_State j = StateSynced)
    \<and> (\<forall>i. i \<notin> set (take (nat n) (claimableJobIDsLocked (now_at E m) (sw_SyncID v) (ms_jobs (m_store m)))) \<longrightarrow>
         system_jobs (m_store m') i = system_jobs (m_store m) i)
    \<and> m_world m' = fold (project_apply E) (claimed_jobs E v w n m) (m_world m)"
proof -
  let ?s = "ms_jobs (m_store m)" and ?now = "now_at E m" and ?l = "sw_LockFor v"
  let ?is = "batch_ids ?now (sw_SyncID v) n ?s" and ?claim = "\<lambda>i. claim_job ?now w ?l (job_at (js_jobs ?s) i)"
  have batch: "take (nat n) (claimableJobIDsLocked ?now (sw_SyncID v) ?s) = ?is"
    by (simp add: batch_ids_def limit_ids_take [OF less_imp_le [OF assms(5)]])
  have inv: "job_store_inv ?s" using assms(2) by (simp add: stores_inv_def)
  obtain r s' where claim: "ClaimNextBatch None ?now (sw_SyncID v) w n ?l ?s = (r, s')" by (rule prod.exhaust)
  note eff = ClaimNextBatch_effect [OF inv assms(3,5) claim]
  let ?m1 = "observe_once (m\<lparr>m_store := (m_store m)\<lparr>ms_jobs := s'\<rparr>\<rparr>)"
  have id: "j_ID (?claim i) = i" if "i \<in> set ?is" for i
    using batch_ids_ID [OF inv that] by (simp add: claim_job_def)
  then have ids: "map (j_ID \<circ> ?claim) ?is = ?is" by (simp add: map_idI)
  have m1: "system_jobs (m_store ?m1) = map_of (js_jobs s')" by (simp add: system_jobs_def observe_once_def)
  have live: "ctx_at E None m = None" and ops: "en_ops E = memory_ops"
    using assms(1) by (simp_all add: calm_def ctx_at_def)
  have held: "\<forall>j \<in> set (map ?claim ?is). system_jobs (m_store ?m1) (j_ID j) = Some j
       \<and> j_State j = StateProcessing \<and> j_LockedBy j = Some w \<and> j_LockedUntil j = Some (?now + ?l)"
  proof -
    have "j_State (claim_job ?now w ?l j) = StateProcessing"
        "j_LockedBy (claim_job ?now w ?l j) = Some w"
        "j_LockedUntil (claim_job ?now w ?l j) = Some (?now + ?l)" for j
      by (simp_all add: claim_job_def)
    then show ?thesis by (simp add: m1 eff(2) id)
  qed
  have dist: "distinct (map j_ID (map ?claim ?is))" using distinct_batch_ids [OF inv] by (simp add: ids)
  have works: "\<forall>j \<in> set (map ?claim ?is). works E W (job_identity j)" "W (m_world ?m1)"
    using assms(6,7) unfolding claimed_jobs_def list_all_iff batch by (simp_all add: observe_once_def)
  from calm_drain [OF assms(1) works held dist, of v] obtain m' where
    m': "run E None (drain v w (map ?claim ?is)) ?m1 = (None, m')"
      "\<forall>i \<in> set ?is. \<exists>j'. system_jobs (m_store m') i = Some j' \<and> j_State j' = StateSynced"
      "\<forall>i. i \<notin> set ?is \<longrightarrow> system_jobs (m_store m') i = system_jobs (m_store ?m1) i"
      "m_world m' = fold (project_apply E) (map ?claim ?is) (m_world m)"
    by (auto simp: id image_image observe_once_def)
  have "run E None (processBatch v w n) m = (None, m')"
    using m'(1) assms(4) by (simp add: processBatch_def claimBatch_def ops live store_call_def lift_job_def
        claim eff(1))
  moreover have "system_jobs (m_store m') i = system_jobs (m_store m) i" if "i \<notin> set ?is" for i
    using that m'(3) eff(2) by (simp add: system_jobs_def observe_once_def)
  ultimately show ?thesis using m'(2,4) unfolding claimed_jobs_def batch [symmetric] by metis
qed

text \<open>
  C7: Delivery: in calm surroundings one batch of a worker whose job store claims batches
  returns without an error, and every job of its sync that was claimable when it claimed, up
  to the batch size and oldest first, is synced afterwards. No other job is touched. The
  projector and the applier work for the identities of these jobs.
\<close>

theorem batch_is_delivered:
  assumes "calm E (sw_LockFor v) m" and "stores_inv (m_store m)"
    and "0 < sw_LockFor v" and "sw_batchClaims v" and "0 < n"
    and "list_all (\<lambda>j. works E W (job_identity j)) (claimed_jobs E v w n m)" and "W (m_world m)"
  shows "\<exists>m'. run E None (processBatch v w n) m = (None, m')
    \<and> (\<forall>i \<in> set (take (nat n) (claimableJobIDsLocked (now_at E m) (sw_SyncID v) (ms_jobs (m_store m)))).
         \<exists>j. system_jobs (m_store m') i = Some j \<and> j_State j = StateSynced)
    \<and> (\<forall>i. i \<notin> set (take (nat n) (claimableJobIDsLocked (now_at E m) (sw_SyncID v) (ms_jobs (m_store m)))) \<longrightarrow>
         system_jobs (m_store m') i = system_jobs (m_store m) i)"
  using calm_batch [OF assms] by blast

lemma sample_works: "works sample_env W d"
  by (simp add: works_def sample_env_def operation_for_def)

lemma batch_is_delivered_witness:
  "\<exists>m' j. run sample_env None (processBatch one_routine ''w'' 2) sample_machine = (None, m')
     \<and> system_jobs (m_store m') (job_id 1) = Some j \<and> j_State j = StateSynced"
proof -
  have calm: "calm sample_env (sw_LockFor one_routine) sample_machine"
    by (simp add: calm_def sample_env_def one_routine_def sample_worker_def now_at_def)
  have works: "list_all (\<lambda>j. works sample_env (\<lambda>x. True) (job_identity j))
      (claimed_jobs sample_env one_routine ''w'' 2 sample_machine)"
    by (simp add: sample_works list_all_iff)
  from batch_is_delivered [OF calm sample_machine_inv _ _ _ works]
  show ?thesis
    using sample_claimable
    by (auto simp: one_routine_def sample_worker_def sample_env_def sample_machine_def now_at_def)
qed

end
