(* ===== verification/DF_SqlBase.thy ===== *)
theory DF_SqlBase
  imports DF_Dedup
begin

text \<open>
  The helpers that the SQL stores share: \<open>pkg/connectors/delta_store_base.go\<close>,
  \<open>pkg/connectors/job_store_base.go\<close> and \<open>pkg/connectors/sqlite/ids.go\<close>. They prepare
  deltas and jobs for insertion, read projection keys and metadata back from their JSON
  columns, turn instants into whole microseconds, and recognise unique violations.

  The lemmas relate the columns to the values: a microsecond column is the instant rounded
  down, and it compares with the clock exactly as the instant read back does.
\<close>

section \<open>Instants as microseconds\<close>

text \<open>The Unix epoch, counted from the zero time.\<close>

definition unix_epoch :: time where "unix_epoch = 62135596800 * second"

text \<open>\<open>UnixMicro\<close> rounds down, also before the epoch.\<close>

definition microsFromTime :: "time \<Rightarrow> int" where
  "microsFromTime t = (t - unix_epoch) div 1000"

definition timeFromMicros :: "int \<Rightarrow> time" where
  "timeFromMicros v = v * 1000 + unix_epoch"

lemma micros_of_column [simp]: "microsFromTime (timeFromMicros v) = v"
  by (simp add: microsFromTime_def timeFromMicros_def)

lemma column_inj [simp]: "timeFromMicros u = timeFromMicros v \<longleftrightarrow> u = v"
  by (simp add: timeFromMicros_def)

lemma column_less [simp]: "timeFromMicros u < timeFromMicros v \<longleftrightarrow> u < v"
  by (simp add: timeFromMicros_def)

lemma column_le [simp]: "timeFromMicros u \<le> timeFromMicros v \<longleftrightarrow> u \<le> v"
  by (simp add: timeFromMicros_def)

lemma column_rounds_down:
  "timeFromMicros (microsFromTime t) \<le> t" "t < timeFromMicros (microsFromTime t) + 1000"
  by (simp_all add: microsFromTime_def timeFromMicros_def)

lemma micros_mono: "s \<le> t \<Longrightarrow> microsFromTime s \<le> microsFromTime t"
  by (simp add: microsFromTime_def zdiv_mono1)

text \<open>A column compares with the rounded clock as its instant compares with the clock.\<close>

lemma column_after: "microsFromTime now < u \<longleftrightarrow> now < timeFromMicros u"
  by (simp add: microsFromTime_def timeFromMicros_def) linarith

lemma column_not_after: "u \<le> microsFromTime now \<longleftrightarrow> timeFromMicros u \<le> now"
  using column_after [of now u] by linarith

section \<open>Generated identifiers\<close>

text \<open>\<open>newID\<close>: the eight random bytes, or the error of the random source, are an argument.\<close>

definition newID :: "string \<Rightarrow> time \<Rightarrow> error + string \<Rightarrow> error + string" where
  "newID prefix now rnd =
     (case rnd of
        Inl e \<Rightarrow> Inl e
      | Inr buf \<Rightarrow>
          Inr (prefix @ ''-'' @ show_int (microsFromTime now) @ ''-'' @ hexEncodeToString buf))"

text \<open>The verb \<open>%q\<close> on an identifier; those are printable and hold no quote or backslash.\<close>

definition quoted :: "string \<Rightarrow> string" where
  "quoted s = CHR 0x22 # s @ [CHR 0x22]"

section \<open>Errors of the drivers\<close>

fun strings_Contains :: "string \<Rightarrow> string \<Rightarrow> bool" where
  "strings_Contains [] sub \<longleftrightarrow> sub = []"
| "strings_Contains (c # cs) sub \<longleftrightarrow>
     take (length sub) (c # cs) = sub \<or> strings_Contains cs sub"

text \<open>\<open>strings.ToLower\<close> on the ASCII letters.\<close>

definition strings_ToLower :: "string \<Rightarrow> string" where
  "strings_ToLower s = map (\<lambda>c. if 65 \<le> byte c \<and> byte c \<le> 90 then char_of (byte c + 32) else c) s"

text \<open>\<open>errors.As(err, &provider)\<close>: the first error of the chain that has an SQL state.\<close>

fun sql_state :: "error \<Rightarrow> string option" where
  "sql_state (DriverError sqlState code s) = sqlState"
| "sql_state (Wrapped pre e post) = sql_state e"
| "sql_state _ = None"

definition IsUniqueViolation :: "error \<Rightarrow> bool" where
  "IsUniqueViolation err =
     (case sql_state err of
        Some state \<Rightarrow> state = ''23505''
      | None \<Rightarrow>
          (case err of DriverError sqlState code s \<Rightarrow> code = Some ''23505'' | _ \<Rightarrow> False)
          \<or> (let message = strings_ToLower (err_text err) in
              strings_Contains message ''duplicate key'' \<or> strings_Contains message ''unique constraint''))"

section \<open>Reading JSON columns\<close>

text \<open>
  \<open>json.Unmarshal\<close> first checks that the text is one JSON value. The members of a projection
  key keep their raw text; the last one of a name wins.
\<close>

definition raw_value :: "string \<Rightarrow> (string \<times> string) option" where
  "raw_value s =
     (let t = skip_ws s in
      case decode_value (Suc (2 * length t)) 1 t of
        None \<Rightarrow> None
      | Some (v, rest) \<Rightarrow> Some (take (length t - length rest) t, rest))"

fun raw_members :: "nat \<Rightarrow> (string \<times> string option) list \<Rightarrow> string \<Rightarrow> (string \<times> string option) list option"
where
  "raw_members 0 acc s = None"
| "raw_members (Suc n) acc s =
     (case skip_ws s of
        [] \<Rightarrow> None
      | q # qs \<Rightarrow>
          (case read_string qs of
             None \<Rightarrow> None
           | Some (k, s1) \<Rightarrow>
               (case skip_ws s1 of
                  [] \<Rightarrow> None
                | d # s2 \<Rightarrow>
                    (case raw_value s2 of
                       None \<Rightarrow> None
                     | Some (raw, s3) \<Rightarrow>
                         (case skip_ws s3 of
                            [] \<Rightarrow> None
                          | c # r \<Rightarrow>
                              if c = CHR '','' then raw_members n (put k (Some raw) acc) r
                              else Some (put k (Some raw) acc))))))"

definition json_Unmarshal_key :: "string \<Rightarrow> error + ProjectionKey" where
  "json_Unmarshal_key s =
     (if \<not> json_valid s then Inl JsonSyntax
      else
        (case skip_ws s of
           [] \<Rightarrow> Inl JsonSyntax
         | c # cs \<Rightarrow>
             if c = CHR ''n'' then Inr None
             else if c = CHR ''{'' then
               (if take 1 (skip_ws cs) = ''}'' then Inr (Some [])
                else (case raw_members (length cs) [] cs of
                        None \<Rightarrow> Inl JsonSyntax
                      | Some m \<Rightarrow> Inr (Some m)))
             else Inl (Errors_New ''json: cannot unmarshal into Go value of type deltaflow.ProjectionKey'')))"

text \<open>Metadata: the values are decoded; a number keeps its text here.\<close>

definition json_Unmarshal_metadata :: "string \<Rightarrow> error + metadata" where
  "json_Unmarshal_metadata s =
     (if \<not> json_valid s then Inl JsonSyntax
      else
        (case decode s of
           Some (JObj m, rest) \<Rightarrow> Inr (Some m)
         | Some (JNull, rest) \<Rightarrow> Inr None
         | _ \<Rightarrow> Inl (Errors_New ''json: cannot unmarshal into Go value of type map[string]interface {}'')))"

text \<open>\<open>json.Marshal(delta.Metadata)\<close>\<close>

definition json_Marshal_metadata :: "metadata \<Rightarrow> string" where
  "json_Marshal_metadata md = (case md of None \<Rightarrow> ''null'' | Some m \<Rightarrow> encode (JObj m))"

text \<open>A text that the encoder accepted for a key is read back as a key.\<close>

lemma skip_ws_idem [simp]: "skip_ws (skip_ws s) = skip_ws s"
  by (induction s) (simp_all add: skip_ws_def)

lemma decode_skip: "decode_value (Suc f) d (skip_ws s) = decode_value (Suc f) d s"
  by simp

lemma raw_value_decodes:
  assumes "decode_value f 1 s = Some (v, rest)" and "2 * length s < f"
  shows "\<exists>raw. raw_value s = Some (raw, rest)"
proof -
  let ?t = "skip_ws s"
  have "decode_value (Suc (2 * length ?t)) 1 ?t = decode_value (Suc (2 * length s)) 1 ?t"
    using decode_fuel(1) [of ?t "Suc (2 * length ?t)" "2 * length s - 2 * length ?t" 1] skip_ws_length [of s] by simp
  also have "\<dots> = decode_value (Suc (2 * length s)) 1 s" by (rule decode_skip)
  also have "\<dots> = decode_value f 1 s"
    using decode_fuel(1) [of s "Suc (2 * length s)" "f - Suc (2 * length s)" 1] assms(2)
    by (simp del: decode_value.simps)
  finally show ?thesis using assms(1) by (simp add: raw_value_def Let_def del: decode_value.simps)
qed

lemma raw_members_decode:
  assumes "decode_members f 1 acc s = Some (v, r)" and "Suc (2 * length s) < f" and "length s \<le> n"
  shows "\<exists>m. raw_members n acc' s = Some m"
  using assms
proof (induction f arbitrary: acc s n acc')
  case (Suc f)
  obtain q qs where qs: "skip_ws s = q # qs" using Suc.prems(1) by (auto split: list.splits)
  then obtain k s1 where s1: "read_string qs = Some (k, s1)"
    using Suc.prems(1) by (auto split: if_splits option.splits)
  obtain c s2 where s2: "skip_ws s1 = c # s2" using Suc.prems(1) qs s1
    by (auto split: if_splits list.splits)
  obtain w s3 where s3: "decode_value f 1 s2 = Some (w, s3)" using Suc.prems(1) qs s1 s2
    by (auto split: if_splits option.splits)
  obtain b r' where r': "skip_ws s3 = b # r'" using Suc.prems(1) qs s1 s2 s3
    by (auto split: if_splits list.splits)
  have len: "length s2 < length s" "length r' < length s2"
    using skip_ws_Cons [OF qs] read_string_length [OF s1] skip_ws_Cons [OF s2]
      decode_length(1) [OF s3] skip_ws_Cons [OF r'] by simp_all
  obtain raw where raw: "raw_value s2 = Some (raw, s3)"
    using raw_value_decodes [OF s3] len(1) Suc.prems(2) by auto
  obtain m where n: "n = Suc m" using Suc.prems(3) len by (cases n) simp_all
  have more: "\<exists>m'. raw_members m (put k (Some raw) acc') r' = Some m'" if "b = CHR '',''"
  proof (rule Suc.IH)
    show "decode_members f 1 (put k w acc) r' = Some (v, r)"
      using Suc.prems(1) qs s1 s2 s3 r' that by (auto split: if_splits)
  qed (use len Suc.prems(2,3) n in simp_all)
  then show ?case by (auto simp: n qs s1 s2 raw r')
qed simp

lemma marshal_parses:
  assumes "json_Marshal_key k = Inr s"
  shows "\<exists>key. json_Unmarshal_key s = Inr key"
proof -
  obtain kvs where s: "s = encode (JObj kvs)" and valid: "json_valid s"
    using assms by (auto simp: json_Marshal_key_def MarshalJSON_def Let_def split: sum.splits if_splits)
  obtain cs where cs: "s = CHR ''{'' # cs" by (auto simp: s encode_object_def)
  then have open_brace: "skip_ws s = CHR ''{'' # cs" by (simp add: skip_ws_def is_space_def)
  show ?thesis
  proof (cases "take 1 (skip_ws cs) = ''}''")
    case False
    have "decode s = (case skip_ws cs of [] \<Rightarrow> None
        | c # r \<Rightarrow> if c = CHR ''}'' then Some (JObj [], r) else decode_members (2 * length s) 1 [] cs)"
      unfolding decode_def decode_value.simps(2) open_brace One_nat_def by (simp add: maxNestingDepth_def)
    then obtain v r where "decode_members (2 * length s) 1 [] cs = Some (v, r)"
      using valid False by (auto simp: json_valid_def split: option.splits list.splits if_splits)
    then obtain m where "raw_members (length cs) [] cs = Some m"
      using raw_members_decode [of "2 * length s" "[]" cs v r "length cs" "[]"] cs by auto
    with valid show ?thesis by (simp add: json_Unmarshal_key_def open_brace del: raw_members.simps)
  qed (use valid in \<open>simp add: json_Unmarshal_key_def open_brace\<close>)
qed

section \<open>The base of the delta stores\<close>

text \<open>
  A base is a database, a clock and limits. The database is the state of the computations and
  a clock reading is an argument of them, so what the constructors leave to model is the
  default of the limit.
\<close>

definition NewDeltaStoreBase :: "int \<Rightarrow> int" where
  "NewDeltaStoreBase maxEnqueueBatchSize =
     (if maxEnqueueBatchSize \<le> 0 then DefaultMaxEnqueueBatchSize else maxEnqueueBatchSize)"

definition PrepareDeltaForEnqueue :: "time \<Rightarrow> delta \<Rightarrow> error + (delta \<times> string \<times> string)" where
  "PrepareDeltaForEnqueue now delta =
     (let d1 = delta\<lparr>d_State := (if d_State delta = [] then DeltaPending else d_State delta),
                     d_OccurredAt := default_time (d_OccurredAt delta) now,
                     d_CreatedAt := default_time (d_CreatedAt delta) now\<rparr>
      in case projectionKeyHash (d_ProjectionKey d1) of
           Inl e \<Rightarrow> Inl e
         | Inr hash \<Rightarrow>
             (let d2 = d1\<lparr>d_ProjectionKeyHash := hash,
                         d_DedupKey := (if d_DedupWindow d1 \<noteq> []
                           then ComputeDedupKey (d_DedupWindow d1) (d_ProjectionType d1) hash else [])\<rparr>
              in case json_Marshal_key (d_ProjectionKey d2) of
                   Inl e \<Rightarrow> Inl e
                 | Inr key \<Rightarrow> Inr (d2, key, json_Marshal_metadata (d_Metadata d2))))"

fun same_window :: "DedupWindow \<Rightarrow> delta list \<Rightarrow> error + DedupWindow" where
  "same_window window [] = Inr window"
| "same_window window (d # ds) =
     (if d_DedupWindow d = [] then Inl ErrDedupWindowRequired
      else if d_DedupWindow d \<noteq> window then Inl ErrMixedDedupWindows
      else same_window window ds)"

definition base_ValidateEnqueueBatch :: "int \<Rightarrow> ctx \<Rightarrow> delta list \<Rightarrow> error + DedupWindow" where
  "base_ValidateEnqueueBatch maxSize ctx deltas =
     (case ctx of Some e \<Rightarrow> Inl e | None \<Rightarrow>
      if maxSize < int (length deltas) then Inl ErrEnqueueBatchTooLarge
      else
        (case deltas of
           [] \<Rightarrow> Inr []
         | d # ds \<Rightarrow>
             if d_DedupWindow d = [] then Inl ErrDedupWindowRequired
             else same_window (d_DedupWindow d) ds))"

section \<open>The base of the job stores\<close>

definition defaultJobStoreMaxAttempts :: int where "defaultJobStoreMaxAttempts = 5"

definition NewJobStoreBase :: "int \<Rightarrow> int" where
  "NewJobStoreBase maxAttempts =
     (if maxAttempts \<le> 0 then defaultJobStoreMaxAttempts else maxAttempts)"

definition PrepareJobForCreate :: "int \<Rightarrow> time \<Rightarrow> sync_job \<Rightarrow> error + sync_job" where
  "PrepareJobForCreate maxAttempts now job =
     (case projectionKeyHash (j_ProjectionKey job) of
        Inl e \<Rightarrow> Inl e
      | Inr hash \<Rightarrow>
          (let j1 = job\<lparr>j_ProjectionKeyHash := hash,
                       j_Origin := (if j_Origin job = [] then JobOriginUnknown else j_Origin job)\<rparr>
           in if j_Origin j1 = JobOriginOutbox \<and> j_DeltaID j1 = None then Inl ErrOutboxJobNeedsDelta
              else Inr (j1\<lparr>j_State := (if j_State j1 = [] then StatePending else j_State j1),
                           j_MaxAttempts := (if j_MaxAttempts j1 = 0 then maxAttempts else j_MaxAttempts j1),
                           j_AvailableAt := default_time (j_AvailableAt j1) now,
                           j_CreatedAt := default_time (j_CreatedAt j1) now,
                           j_UpdatedAt := now\<rparr>)))"

definition base_ErrorMessage :: "error option \<Rightarrow> string" where
  "base_ErrorMessage err = (case err of None \<Rightarrow> [] | Some e \<Rightarrow> err_text e)"

end
