(* ===== verification/DF_SqlDb.thy ===== *)
theory DF_SqlDb
  imports DF_SqlBase
begin

text \<open>
  The SQLite database as the stores of \<open>pkg/connectors/sqlite\<close> use it: the tables of
  \<open>migrations/*.sql\<close> as lists of rows with their constraints, statements, and transactions.
  A statement can fail for reasons of its own (a closed connection, a full disk, a cancelled
  context): a fault script says which of the statements that reach the database do, and with
  what error. A failed statement has no effect, and a transaction that does not commit has
  none either; that is what SQLite documents, and what the stores rely on.
\<close>

section \<open>Rows\<close>

record delta_row =
  dr_id :: string
  dr_sync_id :: string
  dr_origin :: string
  dr_projection_type :: string
  dr_projection_key :: string
  dr_projection_key_hash :: string
  dr_dedup_window :: "string option"
  dr_dedup_key :: "string option"
  dr_state :: string
  dr_occurred_at_micros :: int
  dr_created_at_micros :: int
  dr_dispatched_at_micros :: "int option"
  dr_metadata :: "string option"

record job_row =
  jr_id :: string
  jr_sync_id :: string
  jr_delta_id :: "string option"
  jr_origin :: string
  jr_projection_type :: string
  jr_projection_key :: string
  jr_projection_key_hash :: string
  jr_state :: string
  jr_attempt_count :: int
  jr_max_attempts :: int
  jr_last_error :: "string option"
  jr_last_error_code :: "string option"
  jr_available_at_micros :: int
  jr_locked_by :: "string option"
  jr_locked_until_micros :: "int option"
  jr_ghost_detected :: int
  jr_synced_at_micros :: "int option"
  jr_dead_at_micros :: "int option"
  jr_created_at_micros :: int
  jr_updated_at_micros :: int

record lock_row =
  lr_worker_id :: string
  lr_acquired_at_micros :: int
  lr_expires_at_micros :: int

text \<open>
  The database. The lock table has one possible row, since its only lock name is
  \<open>singleton\<close>. Foreign keys are checked when the connection has switched them on.
  \<open>sq_calls\<close> counts the statements.
\<close>

record sql_db =
  sq_deltas :: "delta_row list"
  sq_jobs :: "job_row list"
  sq_lock :: "lock_row option"
  sq_foreign_keys :: bool
  sq_calls :: nat

definition empty_db :: "bool \<Rightarrow> sql_db" where
  "empty_db fk = \<lparr>sq_deltas = [], sq_jobs = [], sq_lock = None, sq_foreign_keys = fk, sq_calls = 0\<rparr>"

section \<open>Statements and transactions\<close>

type_synonym faults = "nat \<Rightarrow> error option"
type_synonym 'a sql = "faults \<Rightarrow> sql_db \<Rightarrow> (error + 'a) \<times> sql_db"

definition no_faults :: faults where "no_faults n = None"

definition sql_result :: "error + 'a \<Rightarrow> 'a sql" where
  "sql_result r F d = (r, d)"

definition sql_bind :: "'a sql \<Rightarrow> ('a \<Rightarrow> 'b sql) \<Rightarrow> 'b sql" where
  "sql_bind m f F d = (case m F d of (Inl e, d') \<Rightarrow> (Inl e, d') | (Inr x, d') \<Rightarrow> f x F d')"

definition statement :: "(sql_db \<Rightarrow> (error + 'a) \<times> sql_db) \<Rightarrow> 'a sql" where
  "statement f F d =
     (let d1 = d\<lparr>sq_calls := Suc (sq_calls d)\<rparr>
      in case F (sq_calls d) of Some e \<Rightarrow> (Inl e, d1) | None \<Rightarrow> f d1)"

definition query :: "(sql_db \<Rightarrow> 'a) \<Rightarrow> 'a sql" where
  "query f = statement (\<lambda>d. (Inr (f d), d))"

text \<open>
  \<open>BeginTx\<close>, a body, \<open>Commit\<close>, and \<open>Rollback\<close> when the body or the commit fails. Opening and
  committing are statements of their own. A commit that fails has not taken effect; one whose
  acknowledgement alone is lost is not represented.
\<close>

definition rollback :: "sql_db \<Rightarrow> sql_db \<Rightarrow> sql_db" where
  "rollback before d = before\<lparr>sq_calls := sq_calls d\<rparr>"

definition transaction :: "'a sql \<Rightarrow> 'a sql" where
  "transaction m F d =
     (case query (\<lambda>d. ()) F d of
        (Inl e, d1) \<Rightarrow> (Inl e, d1)
      | (Inr u, d1) \<Rightarrow>
          (case m F d1 of
             (Inl e, d2) \<Rightarrow> (Inl e, rollback d1 d2)
           | (Inr x, d2) \<Rightarrow>
               (case query (\<lambda>d. ()) F d2 of
                  (Inl e, d3) \<Rightarrow> (Inl e, rollback d1 d3)
                | (Inr u, d3) \<Rightarrow> (Inr x, d3))))"

text \<open>The tables, without the statement counter.\<close>

definition tables :: "sql_db \<Rightarrow> delta_row list \<times> job_row list \<times> lock_row option" where
  "tables d = (sq_deltas d, sq_jobs d, sq_lock d)"

lemma tables_calls [simp]: "tables (d\<lparr>sq_calls := n\<rparr>) = tables d"
  by (simp add: tables_def)

lemma tables_rollback [simp]: "tables (rollback d d') = tables d"
  by (simp add: rollback_def tables_def)

lemma query_tables: "query f F d = (r, d') \<Longrightarrow> tables d' = tables d"
  by (auto simp: query_def statement_def Let_def split: option.splits)

text \<open>A transaction that reports an error has changed no table, whatever fails inside.\<close>

lemma transaction_atomic:
  assumes "transaction m F d = (Inl e, d')"
  shows "tables d' = tables d"
proof -
  obtain r d1 where b: "query (\<lambda>d. ()) F d = (r, d1)" by (rule prod.exhaust)
  then have "tables d1 = tables d" by (rule query_tables)
  moreover have "tables d' = tables d1"
    using assms b by (auto simp: transaction_def split: sum.splits prod.splits)
  ultimately show ?thesis by simp
qed

text \<open>A transaction that answers has run its body on the same tables, and leaves the body's.\<close>

lemma transaction_done:
  assumes "transaction m F d = (Inr x, d')"
  shows "\<exists>d1 d2. tables d1 = tables d \<and> m F d1 = (Inr x, d2) \<and> tables d' = tables d2"
proof -
  obtain r d1 where b: "query (\<lambda>d. ()) F d = (r, d1)" by (rule prod.exhaust)
  moreover obtain s d2 where m: "m F d1 = (s, d2)" by (rule prod.exhaust)
  moreover obtain t d3 where c: "query (\<lambda>d. ()) F d2 = (t, d3)" by (rule prod.exhaust)
  ultimately have "s = Inr x" and "d' = d3"
    using assms by (auto simp: transaction_def split: sum.splits)
  with m query_tables [OF b] query_tables [OF c] show ?thesis by blast
qed

section \<open>Without faults\<close>

text \<open>What a statement does to the tables and answers when nothing fails.\<close>

lemma statement_no_faults [simp]:
  "statement f no_faults d = f (d\<lparr>sq_calls := Suc (sq_calls d)\<rparr>)"
  by (simp add: statement_def no_faults_def)

lemma query_no_faults [simp]:
  "query f no_faults d = (Inr (f (d\<lparr>sq_calls := Suc (sq_calls d)\<rparr>)), d\<lparr>sq_calls := Suc (sq_calls d)\<rparr>)"
  by (simp add: query_def)

section \<open>Constraints and insertion\<close>

text \<open>The texts are SQLite's; the drivers add a prefix, which the stores do not look at.\<close>

definition unique_failed :: "string \<Rightarrow> error" where
  "unique_failed column = DriverError None None (''UNIQUE constraint failed: '' @ column)"

definition check_failed :: error where
  "check_failed = DriverError None None ''CHECK constraint failed''"

definition foreign_key_failed :: error where
  "foreign_key_failed = DriverError None None ''FOREIGN KEY constraint failed''"

definition delta_row_ok :: "delta_row \<Rightarrow> bool" where
  "delta_row_ok r \<longleftrightarrow> dr_state r \<in> {''pending'', ''dispatched'', ''ignored''}"

text \<open>
  \<open>INSERT INTO deltaflow_deltas ... ON CONFLICT(dedup_key) WHERE dedup_key IS NOT NULL DO
  NOTHING\<close>: how many rows were inserted.
\<close>

definition insert_delta_row :: "delta_row \<Rightarrow> sql_db \<Rightarrow> (error + nat) \<times> sql_db" where
  "insert_delta_row r d =
     (if \<not> delta_row_ok r then (Inl check_failed, d)
      else if dr_dedup_key r \<noteq> None \<and> dr_dedup_key r \<in> set (map dr_dedup_key (sq_deltas d))
        then (Inr 0, d)
      else if dr_id r \<in> set (map dr_id (sq_deltas d))
        then (Inl (unique_failed ''deltaflow_deltas.id''), d)
      else (Inr 1, d\<lparr>sq_deltas := sq_deltas d @ [r]\<rparr>))"

definition job_row_ok :: "job_row \<Rightarrow> bool" where
  "job_row_ok r \<longleftrightarrow>
     jr_state r \<in> {''pending'', ''processing'', ''synced'', ''retrying'', ''dead''}
     \<and> jr_origin r \<in> {''backfill'', ''replay'', ''manual'', ''outbox'', ''unknown''}
     \<and> 0 \<le> jr_attempt_count r \<and> 0 < jr_max_attempts r"

text \<open>The unique index on the delta of outbox jobs.\<close>

definition outbox_conflict :: "job_row \<Rightarrow> sql_db \<Rightarrow> bool" where
  "outbox_conflict r d \<longleftrightarrow> jr_origin r = ''outbox'' \<and> jr_delta_id r \<noteq> None
     \<and> (\<exists>s \<in> set (sq_jobs d). jr_origin s = ''outbox'' \<and> jr_delta_id s = jr_delta_id r)"

definition foreign_key_ok :: "job_row \<Rightarrow> sql_db \<Rightarrow> bool" where
  "foreign_key_ok r d \<longleftrightarrow> \<not> sq_foreign_keys d
     \<or> (case jr_delta_id r of None \<Rightarrow> True | Some i \<Rightarrow> i \<in> set (map dr_id (sq_deltas d)))"

text \<open>
  \<open>INSERT INTO deltaflow_sync_jobs\<close>, with \<open>ON CONFLICT (delta_id) WHERE origin = 'outbox' DO
  NOTHING\<close> when the flag is set: whether the row was inserted.
\<close>

definition insert_job_row :: "bool \<Rightarrow> job_row \<Rightarrow> sql_db \<Rightarrow> (error + bool) \<times> sql_db" where
  "insert_job_row ignoreConflict r d =
     (if \<not> job_row_ok r then (Inl check_failed, d)
      else if outbox_conflict r d
        then (if ignoreConflict then Inr False
              else Inl (unique_failed ''deltaflow_sync_jobs.delta_id''), d)
      else if jr_id r \<in> set (map jr_id (sq_jobs d))
        then (Inl (unique_failed ''deltaflow_sync_jobs.id''), d)
      else if \<not> foreign_key_ok r d then (Inl foreign_key_failed, d)
      else (Inr True, d\<lparr>sq_jobs := sq_jobs d @ [r]\<rparr>))"

text \<open>\<open>UPDATE ... SET ... WHERE ...\<close>: how many rows matched.\<close>

definition update_job_rows ::
    "(job_row \<Rightarrow> bool) \<Rightarrow> (job_row \<Rightarrow> job_row) \<Rightarrow> sql_db \<Rightarrow> (error + nat) \<times> sql_db"
where
  "update_job_rows cond set_clause d =
     (Inr (length (filter cond (sq_jobs d))),
      d\<lparr>sq_jobs := map (\<lambda>r. if cond r then set_clause r else r) (sq_jobs d)\<rparr>)"

definition update_delta_rows ::
    "(delta_row \<Rightarrow> bool) \<Rightarrow> (delta_row \<Rightarrow> delta_row) \<Rightarrow> sql_db \<Rightarrow> (error + nat) \<times> sql_db"
where
  "update_delta_rows cond set_clause d =
     (Inr (length (filter cond (sq_deltas d))),
      d\<lparr>sq_deltas := map (\<lambda>r. if cond r then set_clause r else r) (sq_deltas d)\<rparr>)"

text \<open>The rows with an identifier; there is at most one, since the identifier is the key.\<close>

definition find_row :: "('r \<Rightarrow> string) \<Rightarrow> string \<Rightarrow> 'r list \<Rightarrow> 'r option" where
  "find_row f i rs = map_of (map (\<lambda>r. (f r, r)) rs) i"

lemma find_row_Nil [simp]: "find_row f i [] = None"
  and find_row_Cons [simp]: "find_row f i (r # rs) = (if f r = i then Some r else find_row f i rs)"
  by (simp_all add: find_row_def)

lemma find_row_append:
  "find_row f i (rs @ ss) = (case find_row f i rs of Some r \<Rightarrow> Some r | None \<Rightarrow> find_row f i ss)"
  by (induction rs) auto

lemma find_row_SomeD: "find_row f i rs = Some r \<Longrightarrow> r \<in> set rs \<and> f r = i"
  by (induction rs) (auto split: if_splits)

lemma find_row_None: "find_row f i rs = None \<longleftrightarrow> i \<notin> f ` set rs"
  by (induction rs) auto

lemma find_row_distinct:
  "distinct (map f rs) \<Longrightarrow> r \<in> set rs \<Longrightarrow> find_row f (f r) rs = Some r"
  by (induction rs) auto

lemma find_row_map:
  assumes "\<And>r. f (g r) = f r"
  shows "find_row f i (map (\<lambda>r. if P r then g r else r) rs)
    = map_option (\<lambda>r. if P r then g r else r) (find_row f i rs)"
  by (induction rs) (auto simp: assms)

section \<open>Invariants of the tables\<close>

text \<open>The two outcomes of a statement, and computations that keep a property of the tables.\<close>

lemma statement_cases:
  assumes "statement f F d = (x, d')"
  obtains (failed) e where "x = Inl e" "tables d' = tables d"
    | (run) d1 where "tables d1 = tables d" "f d1 = (x, d')"
proof (cases "F (sq_calls d)")
  case None
  with assms run [of "d\<lparr>sq_calls := Suc (sq_calls d)\<rparr>"] show thesis by (simp add: statement_def)
next
  case (Some e)
  with assms failed show thesis by (auto simp: statement_def)
qed

definition table_inv :: "(sql_db \<Rightarrow> bool) \<Rightarrow> bool" where
  "table_inv I \<longleftrightarrow> (\<forall>d d'. tables d' = tables d \<longrightarrow> I d' = I d)"

lemma table_invD: "table_inv I \<Longrightarrow> tables d' = tables d \<Longrightarrow> I d' = I d"
  unfolding table_inv_def by blast

definition keeps :: "(sql_db \<Rightarrow> bool) \<Rightarrow> 'a sql \<Rightarrow> bool" where
  "keeps I m \<longleftrightarrow> (\<forall>F d. I d \<longrightarrow> I (snd (m F d)))"

lemma keepsD: "keeps I m \<Longrightarrow> I d \<Longrightarrow> m F d = (x, d') \<Longrightarrow> I d'"
  unfolding keeps_def by (metis snd_conv)

lemma keeps_snd: "keeps I m \<Longrightarrow> I d \<Longrightarrow> I (snd (m F d))"
  by (simp add: keeps_def)

lemma keeps_result [inv_intros]: "keeps I (sql_result r)"
  by (simp add: keeps_def sql_result_def)

lemma keeps_bind [inv_intros]: "keeps I m \<Longrightarrow> (\<And>x. keeps I (f x)) \<Longrightarrow> keeps I (sql_bind m f)"
proof -
  assume m: "keeps I m" and f: "\<And>x. keeps I (f x)"
  have "I (snd (sql_bind m f F d))" if d: "I d" for F d
  proof (cases "m F d")
    case (Pair x d1)
    with keepsD [OF m d] f show ?thesis by (auto simp: sql_bind_def keeps_def split: sum.split)
  qed
  then show ?thesis by (simp add: keeps_def)
qed

lemma keeps_statement:
  assumes "table_inv I" and "\<And>d. I d \<Longrightarrow> I (snd (f d))"
  shows "keeps I (statement f)"
proof -
  have "I (d\<lparr>sq_calls := n\<rparr>) = I d" for d n by (rule table_invD [OF assms(1)]) simp
  then show ?thesis using assms(2) by (auto simp: keeps_def statement_def Let_def split: option.split)
qed

lemma keeps_query [inv_intros]: "table_inv I \<Longrightarrow> keeps I (query f)"
  unfolding query_def by (rule keeps_statement) simp_all

lemma keeps_transaction [inv_intros]:
  assumes "table_inv I" and m: "keeps I m"
  shows "keeps I (transaction m)"
proof -
  note same = table_invD [OF assms(1)]
  have "I (snd (transaction m F d))" if "I d" for F d
  proof (cases "transaction m F d")
    case (Pair x d')
    show ?thesis
    proof (cases x)
      case (Inl e)
      with Pair transaction_atomic [of m F d e d'] that show ?thesis using same [of d' d] by simp
    next
      case (Inr a)
      with Pair obtain d1 d2 where
        "tables d1 = tables d" "m F d1 = (Inr a, d2)" "tables d' = tables d2"
        using transaction_done [of m F d a d'] by auto
      with keepsD [OF m, of d1 F] that Pair show ?thesis
        using same [of d1 d] same [of d' d2] by simp
    qed
  qed
  then show ?thesis by (simp add: keeps_def)
qed

lemma keeps_case [inv_intros]:
  "(\<And>e. c = Some e \<Longrightarrow> keeps I (f e)) \<Longrightarrow> (c = None \<Longrightarrow> keeps I m) \<Longrightarrow> keeps I (case c of Some e \<Rightarrow> f e | None \<Rightarrow> m)"
  "(\<And>e. r = Inl e \<Longrightarrow> keeps I (g e)) \<Longrightarrow> (\<And>x. r = Inr x \<Longrightarrow> keeps I (h x)) \<Longrightarrow>
   keeps I (case r of Inl e \<Rightarrow> g e | Inr x \<Rightarrow> h x)"
  "(b \<Longrightarrow> keeps I p) \<Longrightarrow> (\<not> b \<Longrightarrow> keeps I q) \<Longrightarrow> keeps I (if b then p else q)"
  by (simp_all split: option.split sum.split)

end
