(* ===== verification/DF_SqliteJob.thy ===== *)
theory DF_SqliteJob
  imports DF_SqlDb DF_JobMemory
begin

text \<open>
  The SQLite job store (\<open>pkg/connectors/sqlite/job_store.go\<close>). An operation takes the state
  of its context, its clock reading and its arguments, and is a computation over the
  database: which of its statements fail is up to the fault script. The clauses of the SQL
  texts are predicates and updates of rows. The store makes no telemetry calls.
\<close>

section \<open>Columns and jobs\<close>

definition boolToInt :: "bool \<Rightarrow> int" where
  "boolToInt v = (if v then 1 else 0)"

definition timePtrMicros :: "time option \<Rightarrow> int option" where
  "timePtrMicros value = map_option microsFromTime value"

text \<open>The values \<open>Create\<close> passes to its \<open>INSERT\<close>.\<close>

definition job_columns :: "string \<Rightarrow> string \<Rightarrow> sync_job \<Rightarrow> job_row" where
  "job_columns rowID key job =
     \<lparr>jr_id = rowID, jr_sync_id = j_SyncID job, jr_delta_id = j_DeltaID job, jr_origin = j_Origin job,
      jr_projection_type = j_ProjectionType job, jr_projection_key = key,
      jr_projection_key_hash = j_ProjectionKeyHash job, jr_state = j_State job,
      jr_attempt_count = j_AttemptCount job, jr_max_attempts = j_MaxAttempts job,
      jr_last_error = j_LastError job, jr_last_error_code = j_LastErrorCode job,
      jr_available_at_micros = microsFromTime (j_AvailableAt job), jr_locked_by = j_LockedBy job,
      jr_locked_until_micros = timePtrMicros (j_LockedUntil job),
      jr_ghost_detected = boolToInt (j_GhostDetected job),
      jr_synced_at_micros = timePtrMicros (j_SyncedAt job),
      jr_dead_at_micros = timePtrMicros (j_DeadAt job),
      jr_created_at_micros = microsFromTime (j_CreatedAt job),
      jr_updated_at_micros = microsFromTime (j_UpdatedAt job)\<rparr>"

text \<open>The job that \<open>scanSyncJob\<close> builds once it has the key.\<close>

definition job_of_row :: "ProjectionKey \<Rightarrow> job_row \<Rightarrow> sync_job" where
  "job_of_row key r =
     \<lparr>j_ID = jr_id r, j_SyncID = jr_sync_id r, j_DeltaID = jr_delta_id r, j_Origin = jr_origin r,
      j_ProjectionType = jr_projection_type r, j_ProjectionKey = key,
      j_ProjectionKeyHash = jr_projection_key_hash r, j_State = jr_state r,
      j_AttemptCount = jr_attempt_count r, j_MaxAttempts = jr_max_attempts r,
      j_LastError = jr_last_error r, j_LastErrorCode = jr_last_error_code r,
      j_AvailableAt = timeFromMicros (jr_available_at_micros r), j_LockedBy = jr_locked_by r,
      j_LockedUntil = map_option timeFromMicros (jr_locked_until_micros r),
      j_GhostDetected = (jr_ghost_detected r \<noteq> 0),
      j_SyncedAt = map_option timeFromMicros (jr_synced_at_micros r),
      j_DeadAt = map_option timeFromMicros (jr_dead_at_micros r),
      j_CreatedAt = timeFromMicros (jr_created_at_micros r),
      j_UpdatedAt = timeFromMicros (jr_updated_at_micros r)\<rparr>"

definition scanSyncJob :: "job_row option \<Rightarrow> error + sync_job option" where
  "scanSyncJob row =
     (case row of
        None \<Rightarrow> Inr None
      | Some r \<Rightarrow>
          (case json_Unmarshal_key (jr_projection_key r) of
             Inl e \<Rightarrow> Inl e
           | Inr key \<Rightarrow> Inr (Some (job_of_row key r))))"

fun collectJobs :: "job_row list \<Rightarrow> error + sync_job list" where
  "collectJobs [] = Inr []"
| "collectJobs (r # rs) =
     (case scanSyncJob (Some r) of
        Inl e \<Rightarrow> Inl e
      | Inr None \<Rightarrow> collectJobs rs
      | Inr (Some job) \<Rightarrow> (case collectJobs rs of Inl e \<Rightarrow> Inl e | Inr jobs \<Rightarrow> Inr (job # jobs)))"

section \<open>Create and Get\<close>

definition isOutboxDeltaMappedViolation :: "error \<Rightarrow> bool" where
  "isOutboxDeltaMappedViolation err =
     (if \<not> IsUniqueViolation err then False
      else (let message = strings_ToLower (err_text err) in
            strings_Contains message ''deltaflow_sync_jobs.delta_id''
            \<or> strings_Contains message ''deltaflow_sync_jobs_outbox_delta_unique''))"

text \<open>\<open>syncJobSelectByID\<close>\<close>

definition select_job :: "string \<Rightarrow> job_row option sql" where
  "select_job jobID = query (\<lambda>d. find_row jr_id jobID (sq_jobs d))"

definition sqlite_Get :: "ctx \<Rightarrow> SyncJobID \<Rightarrow> sync_job option sql" where
  "sqlite_Get ctx jobID =
     (case ctx of Some e \<Rightarrow> sql_result (Inl e) | None \<Rightarrow>
      sql_bind (select_job jobID) (\<lambda>row. sql_result (scanSyncJob row)))"

definition on_error :: "'a sql \<Rightarrow> (error \<Rightarrow> error) \<Rightarrow> 'a sql" where
  "on_error m f F d = (case m F d of (Inl e, d') \<Rightarrow> (Inl (f e), d') | (Inr x, d') \<Rightarrow> (Inr x, d'))"

definition sqlite_Create :: "int \<Rightarrow> error + string \<Rightarrow> ctx \<Rightarrow> time \<Rightarrow> sync_job \<Rightarrow> sync_job sql" where
  "sqlite_Create maxAttempts rnd ctx now job =
     (case ctx of Some e \<Rightarrow> sql_result (Inl e) | None \<Rightarrow>
      if j_ID job \<noteq> [] then sql_result (Inl ErrJobIDProvided)
      else
        (case PrepareJobForCreate maxAttempts now job of
           Inl e \<Rightarrow> sql_result (Inl e)
         | Inr normalized \<Rightarrow>
             (case newID ''job'' (j_CreatedAt normalized) rnd of
                Inl e \<Rightarrow> sql_result (Inl e)
              | Inr rowID \<Rightarrow>
                  (case json_Marshal_key (j_ProjectionKey normalized) of
                     Inl e \<Rightarrow> sql_result (Inl e)
                   | Inr key \<Rightarrow>
                       sql_bind
                         (on_error (statement (insert_job_row False (job_columns rowID key normalized)))
                           (\<lambda>e. if isOutboxDeltaMappedViolation e then ErrDeltaAlreadyMapped else e))
                         (\<lambda>_. sql_bind (sqlite_Get ctx rowID) (\<lambda>found.
                            case found of
                              None \<Rightarrow> sql_result (Inl (Errors_New
                                (''sqlite create job read-back missing for id '' @ quoted rowID)))
                            | Some created \<Rightarrow> sql_result (Inr created)))))))"

section \<open>Claims\<close>

text \<open>The conditions and the order of the claim queries.\<close>

definition claimable_row :: "SyncID \<Rightarrow> int \<Rightarrow> job_row \<Rightarrow> bool" where
  "claimable_row syncID now r \<longleftrightarrow>
     jr_sync_id r = syncID
     \<and> ((jr_state r = ''pending'' \<or> jr_state r = ''retrying'') \<and> jr_available_at_micros r \<le> now
        \<or> jr_state r = ''processing''
          \<and> (case jr_locked_until_micros r of None \<Rightarrow> True | Some u \<Rightarrow> u \<le> now))"

definition row_order :: "job_row \<Rightarrow> order_key" where
  "row_order r = OrderKey (jr_available_at_micros r) (jr_created_at_micros r) (jr_id r)"

definition row_less :: "job_row \<Rightarrow> job_row \<Rightarrow> bool" where
  "row_less a b \<longleftrightarrow> row_order a < row_order b"

interpretation row_order: sort_order row_less row_order
  by unfold_locales (simp add: row_less_def)

definition candidate :: "SyncID \<Rightarrow> int \<Rightarrow> sql_db \<Rightarrow> string option" where
  "candidate syncID now d =
     (case sort_slice row_less (filter (claimable_row syncID now) (sq_jobs d)) of
        [] \<Rightarrow> None | r # _ \<Rightarrow> Some (jr_id r))"

definition claim_row :: "string \<Rightarrow> int \<Rightarrow> int \<Rightarrow> job_row \<Rightarrow> job_row" where
  "claim_row workerID lockedUntil now r =
     r\<lparr>jr_state := ''processing'', jr_locked_by := Some workerID,
       jr_locked_until_micros := Some lockedUntil, jr_updated_at_micros := now\<rparr>"

definition claimCandidateTx :: "SyncID \<Rightarrow> string \<Rightarrow> string \<Rightarrow> int \<Rightarrow> int \<Rightarrow> bool sql" where
  "claimCandidateTx syncID candidateID workerID now lockedUntil =
     sql_bind
       (statement (update_job_rows
          (\<lambda>r. jr_id r = candidateID \<and> claimable_row syncID now r) (claim_row workerID lockedUntil now)))
       (\<lambda>affected. sql_result (Inr (0 < affected)))"

definition sqlite_ClaimNext :: "ctx \<Rightarrow> time \<Rightarrow> SyncID \<Rightarrow> string \<Rightarrow> duration \<Rightarrow> sync_job option sql" where
  "sqlite_ClaimNext ctx now syncID workerID lockFor =
     (case ctx of Some e \<Rightarrow> sql_result (Inl e) | None \<Rightarrow>
      if lockFor \<le> 0 then sql_result (Inl ErrInvalidLockFor)
      else
        (let nowMicros = microsFromTime now; lockedUntilMicros = microsFromTime (now + lockFor) in
         transaction
           (sql_bind (query (candidate syncID nowMicros)) (\<lambda>c.
              case c of
                None \<Rightarrow> sql_result (Inr None)
              | Some candidateID \<Rightarrow>
                  sql_bind (claimCandidateTx syncID candidateID workerID nowMicros lockedUntilMicros)
                    (\<lambda>claimed.
                       if \<not> claimed then sql_result (Inr None)
                       else sql_bind (select_job candidateID) (\<lambda>row. sql_result (scanSyncJob row)))))))"

section \<open>Transitions of the owner\<close>

definition jobExists :: "ctx \<Rightarrow> SyncJobID \<Rightarrow> bool sql" where
  "jobExists ctx jobID =
     (case ctx of Some e \<Rightarrow> sql_result (Inl e) | None \<Rightarrow>
      query (\<lambda>d. jobID \<in> set (map jr_id (sq_jobs d))))"

text \<open>
  The computations that answer with an error only: \<open>exec_update\<close> is the common body of
  \<open>updateOwned\<close> and \<open>updateLeaseOperator\<close>, which differ in the error for a row that exists. The
  number of affected rows comes with the statement: asking the driver for it does not fail on its
  own.
\<close>

definition exec_update ::
    "ctx \<Rightarrow> SyncJobID \<Rightarrow> (job_row \<Rightarrow> bool) \<Rightarrow> (job_row \<Rightarrow> job_row) \<Rightarrow> error \<Rightarrow> unit sql"
where
  "exec_update ctx jobID cond set_clause refused =
     (case ctx of Some e \<Rightarrow> sql_result (Inl e) | None \<Rightarrow>
      sql_bind (statement (update_job_rows cond set_clause)) (\<lambda>affected.
        if 0 < affected then sql_result (Inr ())
        else sql_bind (jobExists ctx jobID) (\<lambda>exists.
          sql_result (Inl (if exists then refused else ErrJobNotFound)))))"

definition sqlite_updateOwned ::
    "ctx \<Rightarrow> SyncJobID \<Rightarrow> (job_row \<Rightarrow> bool) \<Rightarrow> (job_row \<Rightarrow> job_row) \<Rightarrow> unit sql"
where
  "sqlite_updateOwned ctx jobID cond set_clause =
     exec_update ctx jobID cond set_clause ErrJobLeaseNotOwned"

definition updateLeaseOperator ::
    "ctx \<Rightarrow> SyncJobID \<Rightarrow> (job_row \<Rightarrow> bool) \<Rightarrow> (job_row \<Rightarrow> job_row) \<Rightarrow> unit sql"
where
  "updateLeaseOperator ctx jobID cond set_clause =
     exec_update ctx jobID cond set_clause ErrJobLeaseNotExpired"

text \<open>The common \<open>WHERE\<close> clause of the owner's updates, and the columns they clear.\<close>

definition owned_row :: "SyncJobID \<Rightarrow> string \<Rightarrow> int \<Rightarrow> job_row \<Rightarrow> bool" where
  "owned_row jobID workerID now r \<longleftrightarrow>
     jr_state r = ''processing'' \<and> jr_locked_by r = Some workerID
     \<and> (case jr_locked_until_micros r of None \<Rightarrow> False | Some u \<Rightarrow> now < u) \<and> jr_id r = jobID"

definition unlock_row :: "int \<Rightarrow> job_row \<Rightarrow> job_row" where
  "unlock_row now r =
     r\<lparr>jr_locked_by := None, jr_locked_until_micros := None, jr_updated_at_micros := now\<rparr>"

definition sqlite_RenewLease :: "ctx \<Rightarrow> time \<Rightarrow> SyncJobID \<Rightarrow> string \<Rightarrow> duration \<Rightarrow> unit sql" where
  "sqlite_RenewLease ctx now jobID workerID lockFor =
     (case ctx of Some e \<Rightarrow> sql_result (Inl e) | None \<Rightarrow>
      if lockFor \<le> 0 then sql_result (Inl ErrInvalidLockFor)
      else sqlite_updateOwned ctx jobID (owned_row jobID workerID (microsFromTime now))
             (\<lambda>r. r\<lparr>jr_locked_until_micros := Some (microsFromTime (now + lockFor)),
                    jr_updated_at_micros := microsFromTime now\<rparr>))"

definition sqlite_MarkSynced :: "ctx \<Rightarrow> time \<Rightarrow> SyncJobID \<Rightarrow> string \<Rightarrow> bool \<Rightarrow> unit sql" where
  "sqlite_MarkSynced ctx now jobID workerID ghostDetected =
     sqlite_updateOwned ctx jobID (owned_row jobID workerID (microsFromTime now))
       (\<lambda>r. unlock_row (microsFromTime now)
              (r\<lparr>jr_state := ''synced'', jr_ghost_detected := boolToInt ghostDetected,
                 jr_synced_at_micros := Some (microsFromTime now)\<rparr>))"

definition sqlite_MarkRetrying ::
    "ctx \<Rightarrow> time \<Rightarrow> SyncJobID \<Rightarrow> string \<Rightarrow> error option \<Rightarrow> time \<Rightarrow> unit sql"
where
  "sqlite_MarkRetrying ctx now jobID workerID err nextRunAt =
     sqlite_updateOwned ctx jobID (owned_row jobID workerID (microsFromTime now))
       (\<lambda>r. unlock_row (microsFromTime now)
              (r\<lparr>jr_state := ''retrying'', jr_attempt_count := jr_attempt_count r + 1,
                 jr_last_error := Some (base_ErrorMessage err),
                 jr_available_at_micros := microsFromTime nextRunAt\<rparr>))"

definition sqlite_RequeueClaimed ::
    "ctx \<Rightarrow> time \<Rightarrow> SyncJobID \<Rightarrow> string \<Rightarrow> error option \<Rightarrow> time \<Rightarrow> unit sql"
where
  "sqlite_RequeueClaimed ctx now jobID workerID reason nextRunAt =
     sqlite_updateOwned ctx jobID (owned_row jobID workerID (microsFromTime now))
       (\<lambda>r. unlock_row (microsFromTime now)
              (r\<lparr>jr_state := ''retrying'', jr_last_error := Some (base_ErrorMessage reason),
                 jr_available_at_micros := microsFromTime nextRunAt\<rparr>))"

definition sqlite_MarkDead :: "ctx \<Rightarrow> time \<Rightarrow> SyncJobID \<Rightarrow> string \<Rightarrow> error option \<Rightarrow> unit sql" where
  "sqlite_MarkDead ctx now jobID workerID err =
     sqlite_updateOwned ctx jobID (owned_row jobID workerID (microsFromTime now))
       (\<lambda>r. unlock_row (microsFromTime now)
              (r\<lparr>jr_state := ''dead'', jr_attempt_count := jr_attempt_count r + 1,
                 jr_last_error := Some (base_ErrorMessage err),
                 jr_dead_at_micros := Some (microsFromTime now)\<rparr>))"

section \<open>Batch claims\<close>

text \<open>
  Every iteration of the loop reads the context and the clock again; the arguments give the
  k-th of these readings. After a failed claim the jobs claimed so far are requeued under a
  context that is not cancelled; errors of that are ignored.
\<close>

fun requeue_each :: "(nat \<Rightarrow> time) \<Rightarrow> nat \<Rightarrow> string \<Rightarrow> sync_job list \<Rightarrow> error \<Rightarrow> time \<Rightarrow> faults \<Rightarrow> sql_db \<Rightarrow> sql_db"
where
  "requeue_each clock k workerID [] reason nextRunAt F d = d"
| "requeue_each clock k workerID (job # jobs) reason nextRunAt F d =
     requeue_each clock (Suc k) workerID jobs reason nextRunAt F
       (snd (sqlite_RequeueClaimed None (clock k) (j_ID job) workerID (Some reason) nextRunAt F d))"

definition requeueClaimedBatch ::
    "(nat \<Rightarrow> time) \<Rightarrow> nat \<Rightarrow> string \<Rightarrow> sync_job list \<Rightarrow> error \<Rightarrow> faults \<Rightarrow> sql_db \<Rightarrow> sql_db"
where
  "requeueClaimedBatch clock k workerID jobs reason F d =
     (if jobs = [] then d else requeue_each clock (Suc k) workerID jobs reason (clock k) F d)"

fun claim_each ::
    "(nat \<Rightarrow> ctx) \<Rightarrow> (nat \<Rightarrow> time) \<Rightarrow> nat \<Rightarrow> SyncID \<Rightarrow> string \<Rightarrow> duration \<Rightarrow> nat \<Rightarrow> sync_job list \<Rightarrow> sync_job list sql"
where
  "claim_each ctxs clock k syncID workerID lockFor 0 jobs F d = (Inr jobs, d)"
| "claim_each ctxs clock k syncID workerID lockFor (Suc n) jobs F d =
     (case sqlite_ClaimNext (ctxs k) (clock k) syncID workerID lockFor F d of
        (Inl e, d1) \<Rightarrow> (Inl e, requeueClaimedBatch clock (Suc k) workerID jobs e F d1)
      | (Inr None, d1) \<Rightarrow> (Inr jobs, d1)
      | (Inr (Some job), d1) \<Rightarrow>
          claim_each ctxs clock (Suc k) syncID workerID lockFor n (jobs @ [job]) F d1)"

definition sqlite_ClaimNextBatch ::
    "(nat \<Rightarrow> ctx) \<Rightarrow> (nat \<Rightarrow> time) \<Rightarrow> SyncID \<Rightarrow> string \<Rightarrow> int \<Rightarrow> duration \<Rightarrow> sync_job list sql"
where
  "sqlite_ClaimNextBatch ctxs clock syncID workerID limit lockFor =
     (case ctxs 0 of Some e \<Rightarrow> sql_result (Inl e) | None \<Rightarrow>
      if lockFor \<le> 0 then sql_result (Inl ErrInvalidLockFor)
      else if limit \<le> 0 then sql_result (Inr [])
      else claim_each ctxs clock 1 syncID workerID lockFor (nat limit) [])"

section \<open>Leases\<close>

text \<open>\<open>ORDER BY locked_until_micros ASC, updated_at_micros ASC, id ASC\<close>; NULL comes first in SQLite.\<close>

definition row_lease_order :: "job_row \<Rightarrow> lease_key" where
  "row_lease_order r = LeaseKey (jr_locked_until_micros r) (jr_updated_at_micros r) (jr_id r)"

definition row_lease_less :: "job_row \<Rightarrow> job_row \<Rightarrow> bool" where
  "row_lease_less a b \<longleftrightarrow> row_lease_order a < row_lease_order b"

interpretation row_lease_order: sort_order row_lease_less row_lease_order
  by unfold_locales (simp add: row_lease_less_def)

definition listLeases :: "SyncID \<Rightarrow> (int option \<Rightarrow> bool) \<Rightarrow> int \<Rightarrow> sync_job list sql" where
  "listLeases syncID cond limit =
     sql_bind
       (query (\<lambda>d. take (nat limit) (sort_slice row_lease_less
          (filter (\<lambda>r. jr_state r = ''processing'' \<and> cond (jr_locked_until_micros r)
             \<and> (syncID \<noteq> [] \<longrightarrow> jr_sync_id r = syncID)) (sq_jobs d)))))
       (\<lambda>rows. sql_result (collectJobs rows))"

definition sqlite_ListActiveLeases :: "ctx \<Rightarrow> time \<Rightarrow> SyncID \<Rightarrow> int \<Rightarrow> sync_job list sql" where
  "sqlite_ListActiveLeases ctx now syncID limit =
     (case ctx of Some e \<Rightarrow> sql_result (Inl e) | None \<Rightarrow>
      if limit \<le> 0 then sql_result (Inr [])
      else listLeases syncID
             (\<lambda>until. case until of None \<Rightarrow> False | Some u \<Rightarrow> microsFromTime now < u) limit)"

definition sqlite_ListExpiredProcessingLeases :: "ctx \<Rightarrow> time \<Rightarrow> SyncID \<Rightarrow> int \<Rightarrow> sync_job list sql" where
  "sqlite_ListExpiredProcessingLeases ctx now syncID limit =
     (case ctx of Some e \<Rightarrow> sql_result (Inl e) | None \<Rightarrow>
      if limit \<le> 0 then sql_result (Inr [])
      else listLeases syncID
             (\<lambda>until. case until of None \<Rightarrow> True | Some u \<Rightarrow> u \<le> microsFromTime now) limit)"

definition sqlite_ListNearExpiryLeases ::
    "ctx \<Rightarrow> time \<Rightarrow> SyncID \<Rightarrow> duration \<Rightarrow> int \<Rightarrow> sync_job list sql"
where
  "sqlite_ListNearExpiryLeases ctx now syncID within limit =
     (case ctx of Some e \<Rightarrow> sql_result (Inl e) | None \<Rightarrow>
      if within < 0 then sql_result (Inl ErrInvalidLeaseWindow)
      else if limit \<le> 0 then sql_result (Inr [])
      else listLeases syncID
             (\<lambda>until. case until of None \<Rightarrow> False
                | Some u \<Rightarrow> microsFromTime now < u \<and> u \<le> microsFromTime (now + within)) limit)"

definition expired_row :: "SyncJobID \<Rightarrow> int \<Rightarrow> job_row \<Rightarrow> bool" where
  "expired_row jobID now r \<longleftrightarrow>
     jr_id r = jobID \<and> jr_state r = ''processing''
     \<and> (case jr_locked_until_micros r of None \<Rightarrow> True | Some u \<Rightarrow> u \<le> now)"

definition sqlite_ForceReleaseExpiredLease :: "ctx \<Rightarrow> time \<Rightarrow> SyncJobID \<Rightarrow> string \<Rightarrow> unit sql" where
  "sqlite_ForceReleaseExpiredLease ctx now jobID auditReason =
     (case ctx of Some e \<Rightarrow> sql_result (Inl e) | None \<Rightarrow>
      (let reason = TrimSpace auditReason in
       if reason = [] then sql_result (Inl ErrAuditReasonRequired)
       else updateLeaseOperator ctx jobID (expired_row jobID (microsFromTime now))
              (\<lambda>r. unlock_row (microsFromTime now)
                     (r\<lparr>jr_last_error := Some (''operator_force_release: '' @ reason)\<rparr>))))"

definition sqlite_RequeueExpiredLease :: "ctx \<Rightarrow> time \<Rightarrow> SyncJobID \<Rightarrow> time \<Rightarrow> string \<Rightarrow> unit sql" where
  "sqlite_RequeueExpiredLease ctx now jobID nextRunAt auditReason =
     (case ctx of Some e \<Rightarrow> sql_result (Inl e) | None \<Rightarrow>
      (let reason = TrimSpace auditReason in
       if reason = [] then sql_result (Inl ErrAuditReasonRequired)
       else updateLeaseOperator ctx jobID (expired_row jobID (microsFromTime now))
              (\<lambda>r. unlock_row (microsFromTime now)
                     (r\<lparr>jr_state := ''retrying'', jr_available_at_micros := microsFromTime nextRunAt,
                        jr_last_error := Some (''operator_requeue: '' @ reason)\<rparr>))))"

end
