(* ===== verification/DF_SqliteDelta.thy ===== *)
theory DF_SqliteDelta
  imports DF_SqliteJob
begin

text \<open>
  The SQLite delta store and dispatcher (\<open>pkg/connectors/sqlite/delta_store.go\<close>,
  \<open>pkg/connectors/sqlite/dispatch_store.go\<close>) and the worker lock
  (\<open>pkg/connectors/sqlite/worker_lock.go\<close>), as computations over the database.
\<close>

section \<open>Columns and deltas\<close>

definition nullif_empty :: "string \<Rightarrow> string option" where
  "nullif_empty s = (if s = [] then None else Some s)"

text \<open>The values of the insertions; they differ in how they treat an empty window or key.\<close>

definition delta_columns :: "(string \<Rightarrow> string option) \<Rightarrow> string \<Rightarrow> string \<Rightarrow> string \<Rightarrow> delta \<Rightarrow> delta_row" where
  "delta_columns opt rowID key meta delta =
     \<lparr>dr_id = rowID, dr_sync_id = d_SyncID delta, dr_origin = d_Origin delta,
      dr_projection_type = d_ProjectionType delta, dr_projection_key = key,
      dr_projection_key_hash = d_ProjectionKeyHash delta,
      dr_dedup_window = opt (d_DedupWindow delta), dr_dedup_key = opt (d_DedupKey delta),
      dr_state = d_State delta, dr_occurred_at_micros = microsFromTime (d_OccurredAt delta),
      dr_created_at_micros = microsFromTime (d_CreatedAt delta), dr_dispatched_at_micros = None,
      dr_metadata = Some meta\<rparr>"

definition null_string :: "string option \<Rightarrow> string" where
  "null_string v = (case v of None \<Rightarrow> [] | Some s \<Rightarrow> s)"

definition delta_of_row :: "ProjectionKey \<Rightarrow> metadata \<Rightarrow> delta_row \<Rightarrow> delta" where
  "delta_of_row key meta r =
     \<lparr>d_ID = dr_id r, d_SyncID = dr_sync_id r, d_Origin = dr_origin r,
      d_ProjectionType = dr_projection_type r, d_ProjectionKey = key,
      d_ProjectionKeyHash = dr_projection_key_hash r, d_DedupWindow = null_string (dr_dedup_window r),
      d_DedupKey = null_string (dr_dedup_key r), d_State = dr_state r,
      d_OccurredAt = timeFromMicros (dr_occurred_at_micros r),
      d_CreatedAt = timeFromMicros (dr_created_at_micros r),
      d_DispatchedAt = map_option timeFromMicros (dr_dispatched_at_micros r), d_Metadata = meta\<rparr>"

definition scan_metadata :: "string option \<Rightarrow> error + metadata" where
  "scan_metadata text =
     (case text of
        None \<Rightarrow> Inr None
      | Some s \<Rightarrow> if s = [] \<or> s = ''null'' then Inr None else json_Unmarshal_metadata s)"

definition scanDelta :: "delta_row \<Rightarrow> error + delta" where
  "scanDelta r =
     (case json_Unmarshal_key (dr_projection_key r) of
        Inl e \<Rightarrow> Inl e
      | Inr key \<Rightarrow>
          (case scan_metadata (dr_metadata r) of
             Inl e \<Rightarrow> Inl e
           | Inr meta \<Rightarrow> Inr (delta_of_row key meta r)))"

fun scan_deltas :: "delta_row list \<Rightarrow> error + delta list" where
  "scan_deltas [] = Inr []"
| "scan_deltas (r # rs) =
     (case scanDelta r of
        Inl e \<Rightarrow> Inl e
      | Inr delta \<Rightarrow> (case scan_deltas rs of Inl e \<Rightarrow> Inl e | Inr ds \<Rightarrow> Inr (delta # ds)))"

section \<open>Enqueue\<close>

definition getWithQueryer :: "ctx \<Rightarrow> DeltaID \<Rightarrow> delta option sql" where
  "getWithQueryer ctx deltaID =
     (case ctx of Some e \<Rightarrow> sql_result (Inl e) | None \<Rightarrow>
      sql_bind (query (\<lambda>d. find_row dr_id deltaID (sq_deltas d))) (\<lambda>row.
        sql_result (case row of
          None \<Rightarrow> Inr None
        | Some r \<Rightarrow> (case scanDelta r of Inl e \<Rightarrow> Inl e | Inr delta \<Rightarrow> Inr (Some delta)))))"

definition sqlite_delta_Get :: "ctx \<Rightarrow> DeltaID \<Rightarrow> delta option sql" where
  "sqlite_delta_Get ctx deltaID = getWithQueryer ctx deltaID"

text \<open>\<open>SELECT id FROM deltaflow_deltas WHERE dedup_key = ?\<close>; no row is an error of \<open>Scan\<close>.\<close>

definition sql_ErrNoRows :: error where
  "sql_ErrNoRows = Errors_New ''sql: no rows in result set''"

definition select_dedup :: "DedupKey \<Rightarrow> string sql" where
  "select_dedup key =
     statement (\<lambda>d.
       (case find (\<lambda>r. dr_dedup_key r = Some key) (sq_deltas d) of
          None \<Rightarrow> Inl sql_ErrNoRows | Some r \<Rightarrow> Inr (dr_id r), d))"

definition sqlite_enqueue :: "error + string \<Rightarrow> ctx \<Rightarrow> time \<Rightarrow> delta \<Rightarrow> delta sql" where
  "sqlite_enqueue rnd ctx now delta =
     (case ctx of Some e \<Rightarrow> sql_result (Inl e) | None \<Rightarrow>
      if d_ID delta \<noteq> [] then sql_result (Inl ErrDeltaIDProvided)
      else
        (case PrepareDeltaForEnqueue now delta of
           Inl e \<Rightarrow> sql_result (Inl e)
         | Inr (normalized, key, meta) \<Rightarrow>
             (case newID ''delta'' (d_CreatedAt normalized) rnd of
                Inl e \<Rightarrow> sql_result (Inl e)
              | Inr rowID \<Rightarrow>
                  sql_bind (statement (insert_delta_row (delta_columns nullif_empty rowID key meta normalized)))
                    (\<lambda>affected.
                      sql_bind
                        (if affected = 0 \<and> d_DedupKey normalized \<noteq> []
                         then select_dedup (d_DedupKey normalized) else sql_result (Inr rowID))
                        (\<lambda>found.
                          sql_bind (getWithQueryer ctx found) (\<lambda>inserted.
                            sql_result (case inserted of
                              None \<Rightarrow> Inl (Errors_New
                                (''sqlite enqueue delta read-back missing for id '' @ quoted found))
                            | Some d \<Rightarrow> Inr d)))))))"

text \<open>
  \<open>Enqueue\<close> runs the insertion on its own; \<open>EnqueueInTx\<close> runs it inside the caller's
  transaction, which the caller commits or rolls back.
\<close>

definition sqlite_Enqueue :: "error + string \<Rightarrow> ctx \<Rightarrow> time \<Rightarrow> delta \<Rightarrow> delta sql" where
  "sqlite_Enqueue rnd ctx now delta = sqlite_enqueue rnd ctx now delta"

definition EnqueueInTx :: "bool \<Rightarrow> error + string \<Rightarrow> ctx \<Rightarrow> time \<Rightarrow> delta \<Rightarrow> delta sql" where
  "EnqueueInTx hasTx rnd ctx now delta =
     (if \<not> hasTx then sql_result (Inl (Errors_New ''delta store requires transaction''))
      else sqlite_enqueue rnd ctx now delta)"

section \<open>EnqueueBatch\<close>

text \<open>
  The preparation of a batch: the clock is read once per delta, and every delta draws random
  bytes of its own.
\<close>

fun prepare_deltas ::
    "(nat \<Rightarrow> error + string) \<Rightarrow> (nat \<Rightarrow> time) \<Rightarrow> nat \<Rightarrow> delta list \<Rightarrow> error + (string \<times> string \<times> string \<times> delta) list"
where
  "prepare_deltas rnd clock k [] = Inr []"
| "prepare_deltas rnd clock k (delta # deltas) =
     (if d_ID delta \<noteq> [] then Inl ErrDeltaIDProvided
      else
        (case PrepareDeltaForEnqueue (clock k) delta of
           Inl e \<Rightarrow> Inl e
         | Inr (normalized, key, meta) \<Rightarrow>
             (case newID ''delta'' (d_CreatedAt normalized) (rnd k) of
                Inl e \<Rightarrow> Inl e
              | Inr rowID \<Rightarrow>
                  (case prepare_deltas rnd clock (Suc k) deltas of
                     Inl e \<Rightarrow> Inl e
                   | Inr prepared \<Rightarrow> Inr ((rowID, key, meta, normalized) # prepared)))))"

fun insert_deltas :: "(string \<times> string \<times> string \<times> delta) list \<Rightarrow> enqueue_batch_result \<Rightarrow> enqueue_batch_result sql"
where
  "insert_deltas [] result F d = (Inr result, d)"
| "insert_deltas ((rowID, key, meta, delta) # items) result F d =
     (case statement (insert_delta_row (delta_columns Some rowID key meta delta)) F d of
        (Inl e, d1) \<Rightarrow> (Inl e, d1)
      | (Inr affected, d1) \<Rightarrow>
          insert_deltas items
            (if affected = 1 then result\<lparr>InsertedCount := Suc (InsertedCount result)\<rparr>
             else result\<lparr>DuplicateCount := Suc (DuplicateCount result)\<rparr>) F d1)"

definition EnqueueBatchTx ::
    "bool \<Rightarrow> int \<Rightarrow> (nat \<Rightarrow> error + string) \<Rightarrow> ctx \<Rightarrow> (nat \<Rightarrow> time) \<Rightarrow> delta list \<Rightarrow> enqueue_batch_result sql"
where
  "EnqueueBatchTx hasTx maxSize rnd ctx clock deltas =
     (if \<not> hasTx then sql_result (Inl (Errors_New ''delta store requires transaction''))
      else
        (case base_ValidateEnqueueBatch maxSize ctx deltas of
           Inl e \<Rightarrow> sql_result (Inl e)
         | Inr window \<Rightarrow>
             (let result = \<lparr>RequestedCount = length deltas, InsertedCount = 0, DuplicateCount = 0,
                            BatchDedupWindow = window\<rparr>
              in if deltas = [] then sql_result (Inr result)
                 else
                   (case prepare_deltas rnd clock 0 deltas of
                      Inl e \<Rightarrow> sql_result (Inl e)
                    | Inr prepared \<Rightarrow>
                        sql_bind (query (\<lambda>d. ())) (\<lambda>stmt. insert_deltas prepared result)))))"

definition sqlite_EnqueueBatch ::
    "int \<Rightarrow> (nat \<Rightarrow> error + string) \<Rightarrow> ctx \<Rightarrow> (nat \<Rightarrow> time) \<Rightarrow> delta list \<Rightarrow> enqueue_batch_result sql"
where
  "sqlite_EnqueueBatch maxSize rnd ctx clock deltas =
     transaction (EnqueueBatchTx True maxSize rnd ctx clock deltas)"

section \<open>Pull and dispatch\<close>

text \<open>
  \<open>WHERE state = 'pending' AND sync_id = ? ORDER BY occurred_at_micros ASC, created_at_micros
  ASC, id ASC LIMIT ?\<close>
\<close>

definition delta_row_order :: "delta_row \<Rightarrow> order_key" where
  "delta_row_order r = OrderKey (dr_occurred_at_micros r) (dr_created_at_micros r) (dr_id r)"

definition delta_row_less :: "delta_row \<Rightarrow> delta_row \<Rightarrow> bool" where
  "delta_row_less a b \<longleftrightarrow> delta_row_order a < delta_row_order b"

interpretation delta_row_order: sort_order delta_row_less delta_row_order
  by unfold_locales (simp add: delta_row_less_def)

definition pending_rows :: "SyncID \<Rightarrow> int \<Rightarrow> sql_db \<Rightarrow> delta_row list" where
  "pending_rows syncID limit d =
     take (nat limit) (sort_slice delta_row_less
       (filter (\<lambda>r. dr_state r = ''pending'' \<and> dr_sync_id r = syncID) (sq_deltas d)))"

definition sqlite_Pull :: "ctx \<Rightarrow> SyncID \<Rightarrow> int \<Rightarrow> delta list sql" where
  "sqlite_Pull ctx syncID limit =
     (case ctx of Some e \<Rightarrow> sql_result (Inl e) | None \<Rightarrow>
      if limit \<le> 0 then sql_result (Inr [])
      else sql_bind (query (pending_rows syncID limit)) (\<lambda>rows. sql_result (scan_deltas rows)))"

definition dispatched_row :: "int \<Rightarrow> delta_row \<Rightarrow> delta_row" where
  "dispatched_row at r =
     r\<lparr>dr_state := (if dr_state r = ''dispatched'' then dr_state r else ''dispatched''),
       dr_dispatched_at_micros := (if dr_state r = ''dispatched'' then dr_dispatched_at_micros r else Some at)\<rparr>"

definition markDispatchedTx :: "DeltaID \<Rightarrow> time \<Rightarrow> unit sql" where
  "markDispatchedTx deltaID at =
     sql_bind (statement (update_delta_rows (\<lambda>r. dr_id r = deltaID) (dispatched_row (microsFromTime at))))
       (\<lambda>affected. sql_result (if affected = 0 then Inl ErrDeltaNotFound else Inr ()))"

definition sqlite_MarkDispatched :: "ctx \<Rightarrow> time \<Rightarrow> DeltaID \<Rightarrow> unit sql" where
  "sqlite_MarkDispatched ctx now deltaID =
     (case ctx of Some e \<Rightarrow> sql_result (Inl e) | None \<Rightarrow> markDispatchedTx deltaID now)"

text \<open>The row that \<open>createOutboxFromDeltaTx\<close> inserts.\<close>

definition outbox_row :: "int \<Rightarrow> string \<Rightarrow> int \<Rightarrow> delta_row \<Rightarrow> job_row" where
  "outbox_row maxAttempts rowID now r =
     \<lparr>jr_id = rowID, jr_sync_id = dr_sync_id r, jr_delta_id = Some (dr_id r), jr_origin = ''outbox'',
      jr_projection_type = dr_projection_type r, jr_projection_key = dr_projection_key r,
      jr_projection_key_hash = dr_projection_key_hash r, jr_state = ''pending'',
      jr_attempt_count = 0, jr_max_attempts = maxAttempts, jr_last_error = None,
      jr_last_error_code = None, jr_available_at_micros = now, jr_locked_by = None,
      jr_locked_until_micros = None, jr_ghost_detected = 0, jr_synced_at_micros = None,
      jr_dead_at_micros = None, jr_created_at_micros = now, jr_updated_at_micros = now\<rparr>"

definition createOutboxFromDeltaTx ::
    "int \<Rightarrow> error + string \<Rightarrow> delta_row \<Rightarrow> time \<Rightarrow> sync_job option sql"
where
  "createOutboxFromDeltaTx maxAttempts rnd r now =
     (case newID ''job'' now rnd of
        Inl e \<Rightarrow> sql_result (Inl e)
      | Inr rowID \<Rightarrow>
          (let row = outbox_row maxAttempts rowID (microsFromTime now) r in
           sql_bind (statement (insert_job_row True row)) (\<lambda>inserted.
             sql_result (scanSyncJob (if inserted then Some row else None)))))"

fun dispatch_rows ::
    "int \<Rightarrow> (nat \<Rightarrow> error + string) \<Rightarrow> time \<Rightarrow> nat \<Rightarrow> delta_row list \<Rightarrow> sync_job list \<Rightarrow> sync_job list sql"
where
  "dispatch_rows maxAttempts rnd now k [] jobs F d = (Inr jobs, d)"
| "dispatch_rows maxAttempts rnd now k (r # rs) jobs F d =
     (case createOutboxFromDeltaTx maxAttempts (rnd k) r now F d of
        (Inl e, d1) \<Rightarrow> (Inl e, d1)
      | (Inr job, d1) \<Rightarrow>
          (case markDispatchedTx (dr_id r) now F d1 of
             (Inl e, d2) \<Rightarrow> (Inl e, d2)
           | (Inr u, d2) \<Rightarrow>
               dispatch_rows maxAttempts rnd now (Suc k) rs
                 (case job of None \<Rightarrow> jobs | Some j \<Rightarrow> jobs @ [j]) F d2))"

text \<open>
  The flags say whether the two stores are set, have a database, and share it.
\<close>

definition sqlite_DispatchPending ::
    "bool \<Rightarrow> bool \<Rightarrow> bool \<Rightarrow> int \<Rightarrow> (nat \<Rightarrow> error + string) \<Rightarrow> ctx \<Rightarrow> time \<Rightarrow> SyncID \<Rightarrow> int \<Rightarrow> sync_job list sql"
where
  "sqlite_DispatchPending hasStores hasDatabases sharedDatabase maxAttempts rnd ctx now syncID limit =
     (case ctx of Some e \<Rightarrow> sql_result (Inl e) | None \<Rightarrow>
      if limit \<le> 0 then sql_result (Inr [])
      else if \<not> hasStores
        then sql_result (Inl (Errors_New ''dispatch store requires delta and job stores''))
      else if \<not> hasDatabases
        then sql_result (Inl (Errors_New ''dispatch store requires configured databases''))
      else if \<not> sharedDatabase
        then sql_result (Inl (Errors_New
          ''dispatch store requires delta and job stores sharing same database''))
      else
        transaction
          (sql_bind (query (pending_rows syncID limit)) (\<lambda>pending.
             dispatch_rows maxAttempts rnd now 0 pending [])))"

section \<open>The worker lock\<close>

definition ErrWorkerAlreadyRunning :: error where
  "ErrWorkerAlreadyRunning = Errors_New ''sqlite worker lock is already held''"

definition ErrWorkerLockNotOwned :: error where
  "ErrWorkerLockNotOwned = Errors_New ''sqlite worker lock is not owned by worker''"

definition lock_arguments :: "bool \<Rightarrow> string \<Rightarrow> duration \<Rightarrow> error option" where
  "lock_arguments hasDB workerID leaseFor =
     (if \<not> hasDB then Some (Errors_New ''sqlite worker lock requires database'')
      else if workerID = [] then Some (Errors_New ''sqlite worker lock requires worker id'')
      else if leaseFor \<le> 0 then Some (Errors_New ''sqlite worker lock requires positive lease'')
      else None)"

text \<open>
  \<open>INSERT ... ON CONFLICT(lock_name) DO UPDATE ... WHERE expires_at_micros <= ?\<close>: how many
  rows were written.
\<close>

definition upsert_lock :: "lock_row \<Rightarrow> sql_db \<Rightarrow> (error + nat) \<times> sql_db" where
  "upsert_lock row d =
     (case sq_lock d of
        None \<Rightarrow> (Inr 1, d\<lparr>sq_lock := Some row\<rparr>)
      | Some held \<Rightarrow>
          if lr_expires_at_micros held \<le> lr_acquired_at_micros row
          then (Inr 1, d\<lparr>sq_lock := Some row\<rparr>) else (Inr 0, d))"

definition AcquireWorkerLock :: "bool \<Rightarrow> time \<Rightarrow> string \<Rightarrow> duration \<Rightarrow> unit sql" where
  "AcquireWorkerLock hasDB now workerID leaseFor =
     (case lock_arguments hasDB workerID leaseFor of
        Some e \<Rightarrow> sql_result (Inl e)
      | None \<Rightarrow>
          sql_bind
            (statement (upsert_lock
               \<lparr>lr_worker_id = workerID, lr_acquired_at_micros = microsFromTime now,
                lr_expires_at_micros = microsFromTime (now + leaseFor)\<rparr>))
            (\<lambda>affected. sql_result (if affected = 0 then Inl ErrWorkerAlreadyRunning else Inr ())))"

text \<open>The function that \<open>AcquireWorkerLock\<close> returns.\<close>

definition release_lock :: "string \<Rightarrow> unit sql" where
  "release_lock workerID =
     statement (\<lambda>d. (Inr (), d\<lparr>sq_lock := (case sq_lock d of
        None \<Rightarrow> None | Some row \<Rightarrow> if lr_worker_id row = workerID then None else Some row)\<rparr>))"

definition RenewWorkerLock :: "bool \<Rightarrow> time \<Rightarrow> string \<Rightarrow> duration \<Rightarrow> unit sql" where
  "RenewWorkerLock hasDB now workerID leaseFor =
     (case lock_arguments hasDB workerID leaseFor of
        Some e \<Rightarrow> sql_result (Inl e)
      | None \<Rightarrow>
          sql_bind
            (statement (\<lambda>d.
               (case sq_lock d of
                  Some row \<Rightarrow>
                    if lr_worker_id row = workerID
                    then (Inr (1::nat), d\<lparr>sq_lock := Some
                            (row\<lparr>lr_expires_at_micros := microsFromTime (now + leaseFor)\<rparr>)\<rparr>)
                    else (Inr 0, d)
                | None \<Rightarrow> (Inr 0, d))))
            (\<lambda>affected. sql_result (if affected = 0 then Inl ErrWorkerLockNotOwned else Inr ())))"

end
