(* ===== verification/DF_SqliteRefine.thy ===== *)
theory DF_SqliteRefine
  imports DF_SqliteDelta
begin

text \<open>
  The SQLite job store implements the in-memory one. A database reads as a map of jobs; the
  clauses of the SQL texts say of a row what the predicates of the in-memory store say of the
  job the row holds; and every transition of the SQLite store answers and leaves what the
  in-memory store does, with instants rounded down to whole microseconds. The in-memory store
  is the specification here: it is the one whose life cycle, leases and attempts are proved.
\<close>

section \<open>A database as a map of jobs\<close>

definition row_key :: "job_row \<Rightarrow> ProjectionKey" where
  "row_key r = (case json_Unmarshal_key (jr_projection_key r) of Inl e \<Rightarrow> None | Inr key \<Rightarrow> key)"

definition job_view :: "job_row \<Rightarrow> sync_job" where
  "job_view r = job_of_row (row_key r) r"

definition jobs_view :: "sql_db \<Rightarrow> (SyncJobID \<times> sync_job) list" where
  "jobs_view d = map (\<lambda>r. (jr_id r, job_view r)) (sq_jobs d)"

definition memory_view :: "sql_db \<Rightarrow> job_memory_store" where
  "memory_view d = NewJobMemoryStore\<lparr>js_jobs := jobs_view d\<rparr>"

lemma memory_view_sel [simp]:
  "js_jobs (memory_view d) = jobs_view d" "js_telemetry (memory_view d) = []"
  by (simp_all add: memory_view_def NewJobMemoryStore_def)

text \<open>
  The invariant: the identifier is the key of the job table, and the projection keys parse,
  in both tables.
\<close>

definition parses :: "string \<Rightarrow> bool" where
  "parses s \<longleftrightarrow> (\<exists>key. json_Unmarshal_key s = Inr key)"

definition rows_ok :: "job_row list \<Rightarrow> bool" where
  "rows_ok rs \<longleftrightarrow> distinct (map jr_id rs) \<and> (\<forall>r \<in> set rs. parses (jr_projection_key r))"

lemma keys_jobs_view [simp]: "keys (jobs_view d) = map jr_id (sq_jobs d)"
  by (simp add: jobs_view_def)

lemma map_of_jobs_view: "map_of (jobs_view d) i = map_option job_view (find_row jr_id i (sq_jobs d))"
proof -
  have "map_of (map (\<lambda>r. (jr_id r, job_view r)) rs) i = map_option job_view (find_row jr_id i rs)" for rs
    by (induction rs) auto
  then show ?thesis by (simp add: jobs_view_def)
qed

lemma jobs_view_eq: "sq_jobs d' = sq_jobs d \<Longrightarrow> jobs_view d' = jobs_view d"
  by (simp add: jobs_view_def)

lemma scan_row: "parses (jr_projection_key r) \<Longrightarrow> scanSyncJob (Some r) = Inr (Some (job_view r))"
  by (auto simp: parses_def scanSyncJob_def job_view_def row_key_def)

section \<open>Rows and jobs agree\<close>

definition round_time :: "time \<Rightarrow> time" where
  "round_time t = timeFromMicros (microsFromTime t)"

definition round_job :: "sync_job \<Rightarrow> sync_job" where
  "round_job j =
     j\<lparr>j_AvailableAt := round_time (j_AvailableAt j), j_LockedUntil := map_option round_time (j_LockedUntil j),
       j_SyncedAt := map_option round_time (j_SyncedAt j), j_DeadAt := map_option round_time (j_DeadAt j),
       j_CreatedAt := round_time (j_CreatedAt j), j_UpdatedAt := round_time (j_UpdatedAt j)\<rparr>"

lemma round_column [simp]: "round_time (timeFromMicros v) = timeFromMicros v"
  by (simp add: round_time_def)

lemma round_columns [simp]:
  "map_option round_time (map_option timeFromMicros v) = map_option timeFromMicros v"
  by (cases v) simp_all

lemma round_job_id [simp]: "j_ID (round_job j) = j_ID j" "j_State (round_job j) = j_State j"
  "j_LockedBy (round_job j) = j_LockedBy j"
  by (simp_all add: round_job_def)

lemma job_view_sel [simp]:
  "j_ID (job_view r) = jr_id r" "j_SyncID (job_view r) = jr_sync_id r"
  "j_State (job_view r) = jr_state r" "j_LockedBy (job_view r) = jr_locked_by r"
  "j_LockedUntil (job_view r) = map_option timeFromMicros (jr_locked_until_micros r)"
  "j_AvailableAt (job_view r) = timeFromMicros (jr_available_at_micros r)"
  "j_CreatedAt (job_view r) = timeFromMicros (jr_created_at_micros r)"
  "j_UpdatedAt (job_view r) = timeFromMicros (jr_updated_at_micros r)"
  "j_ProjectionKey (job_view r) = row_key r" "j_Origin (job_view r) = jr_origin r"
  "j_DeltaID (job_view r) = jr_delta_id r" "j_AttemptCount (job_view r) = jr_attempt_count r"
  by (simp_all add: job_view_def job_of_row_def)

lemma round_view [simp]: "round_job (job_view r) = job_view r"
  by (simp add: round_job_def job_view_def job_of_row_def)

lemma claimable_view: "claimableJob (job_view r) now syncID \<longleftrightarrow> claimable_row syncID (microsFromTime now) r"
  by (auto simp: claimableJob_def claimable_row_def lease_over_def column_not_after not_less
      const_defs split: option.splits)

lemma owned_view: "owned_row i w (microsFromTime now) r \<longleftrightarrow> jr_id r = i \<and> jobLeaseOwned (job_view r) now w"
  by (auto simp: owned_row_def jobLeaseOwned_def column_after const_defs split: option.splits)

lemma expired_view:
  "expired_row i (microsFromTime now) r \<longleftrightarrow>
     jr_id r = i \<and> j_State (job_view r) = StateProcessing \<and> lease_over now (job_view r)"
  by (auto simp: expired_row_def lease_over_def column_not_after not_less const_defs split: option.splits)

lemma order_view: "job_order (job_view a) < job_order (job_view b) \<longleftrightarrow> row_order a < row_order b"
  by (simp add: job_order_def row_order_def less_order_key_def)

lemma lease_order_view:
  "lease_order (job_view a) < lease_order (job_view b) \<longleftrightarrow> row_lease_order a < row_lease_order b"
  by (auto simp: lease_order_def row_lease_order_def less_lease_key_def split: option.splits)

section \<open>The rows that the statements write\<close>

lemmas view_defs = job_view_def job_of_row_def round_job_def round_time_def row_key_def

lemma claim_row_view:
  "job_view (claim_row w (microsFromTime (now + l)) (microsFromTime now) r)
     = round_job (claim_job now w l (job_view r))"
  by (simp add: view_defs claim_row_def claim_job_def const_defs)

lemma renew_row_view:
  "job_view (r\<lparr>jr_locked_until_micros := Some (microsFromTime (now + l)), jr_updated_at_micros := microsFromTime now\<rparr>)
     = round_job ((renew_job l (job_view r) now)\<lparr>j_UpdatedAt := now\<rparr>)"
  by (simp add: view_defs renew_job_def)

lemma unlock_row_view:
  "job_view (unlock_row (microsFromTime now) (r\<lparr>jr_state := ''synced'', jr_ghost_detected := boolToInt g,
       jr_synced_at_micros := Some (microsFromTime now)\<rparr>))
     = round_job ((sync_job_done g (job_view r) now)\<lparr>j_UpdatedAt := now\<rparr>)"
  "job_view (unlock_row (microsFromTime now) (r\<lparr>jr_state := ''retrying'',
       jr_attempt_count := jr_attempt_count r + 1, jr_last_error := Some (base_ErrorMessage e),
       jr_available_at_micros := microsFromTime t\<rparr>))
     = round_job ((retry_job e t (job_view r) now)\<lparr>j_UpdatedAt := now\<rparr>)"
  "job_view (unlock_row (microsFromTime now) (r\<lparr>jr_state := ''retrying'',
       jr_last_error := Some (base_ErrorMessage e), jr_available_at_micros := microsFromTime t\<rparr>))
     = round_job ((requeue_job e t (job_view r) now)\<lparr>j_UpdatedAt := now\<rparr>)"
  "job_view (unlock_row (microsFromTime now) (r\<lparr>jr_state := ''dead'',
       jr_attempt_count := jr_attempt_count r + 1, jr_last_error := Some (base_ErrorMessage e),
       jr_dead_at_micros := Some (microsFromTime now)\<rparr>))
     = round_job ((kill_job e (job_view r) now)\<lparr>j_UpdatedAt := now\<rparr>)"
  "job_view (unlock_row (microsFromTime now) (r\<lparr>jr_last_error := Some (''operator_force_release: '' @ x)\<rparr>))
     = round_job (force_release_job x now (job_view r))"
  "job_view (unlock_row (microsFromTime now) (r\<lparr>jr_state := ''retrying'', jr_available_at_micros := microsFromTime t,
       jr_last_error := Some (''operator_requeue: '' @ x)\<rparr>))
     = round_job (requeue_expired_job x t now (job_view r))"
  by (simp_all add: view_defs unlock_row_def sync_job_done_def retry_job_def requeue_job_def kill_job_def
      force_release_job_def requeue_expired_job_def clearJobLock_def boolToInt_def base_ErrorMessage_def
      errorMessage_def const_defs)

section \<open>Updates by identifier\<close>

lemma exec_update_no_faults:
  assumes "\<And>r. cond r \<Longrightarrow> jr_id r = i" and "\<And>r. jr_id (f r) = jr_id r" and "distinct (map jr_id (sq_jobs d))"
  shows "fst (exec_update None i cond f e no_faults d) =
      (case find_row jr_id i (sq_jobs d) of
         None \<Rightarrow> Inl ErrJobNotFound | Some r \<Rightarrow> if cond r then Inr () else Inl e)"
    and "sq_jobs (snd (exec_update None i cond f e no_faults d)) = map (\<lambda>r. if cond r then f r else r) (sq_jobs d)"
    and "sq_deltas (snd (exec_update None i cond f e no_faults d)) = sq_deltas d"
proof -
  have hit: "filter cond (sq_jobs d) \<noteq> [] \<longleftrightarrow> (\<exists>r. find_row jr_id i (sq_jobs d) = Some r \<and> cond r)"
  proof
    assume "filter cond (sq_jobs d) \<noteq> []"
    then obtain r where r: "r \<in> set (sq_jobs d)" "cond r" by (auto simp: filter_empty_conv)
    with find_row_distinct [OF assms(3), of r] assms(1) [of r]
    show "\<exists>r. find_row jr_id i (sq_jobs d) = Some r \<and> cond r" by auto
  qed (auto simp: filter_empty_conv dest: find_row_SomeD)
  have ids: "map jr_id (map (\<lambda>r. if cond r then f r else r) (sq_jobs d)) = map jr_id (sq_jobs d)"
    by (simp add: assms(2))
  have known: "i \<in> set (map jr_id (sq_jobs d)) \<longleftrightarrow> find_row jr_id i (sq_jobs d) \<noteq> None"
    by (simp add: find_row_None)
  show "fst (exec_update None i cond f e no_faults d) =
      (case find_row jr_id i (sq_jobs d) of
         None \<Rightarrow> Inl ErrJobNotFound | Some r \<Rightarrow> if cond r then Inr () else Inl e)"
    and "sq_jobs (snd (exec_update None i cond f e no_faults d)) = map (\<lambda>r. if cond r then f r else r) (sq_jobs d)"
    and "sq_deltas (snd (exec_update None i cond f e no_faults d)) = sq_deltas d"
    using hit known
    by (auto simp: exec_update_def sql_bind_def sql_result_def update_job_rows_def jobExists_def ids
        simp del: set_map map_map list.set_map split: option.splits)
qed

section \<open>The owner's and the operator's transitions\<close>

definition error_of :: "error + 'a \<Rightarrow> error option" where
  "error_of r = (case r of Inl e \<Rightarrow> Some e | Inr x \<Rightarrow> None)"

lemma error_of_simps [simp]: "error_of (Inl e) = Some e" "error_of (Inr x) = None"
  by (simp_all add: error_of_def)

text \<open>The jobs of a database are those of an in-memory store, rounded.\<close>

definition same_jobs :: "sql_db \<Rightarrow> job_memory_store \<Rightarrow> bool" where
  "same_jobs d s \<longleftrightarrow> map_of (jobs_view d) = map_option round_job \<circ> map_of (js_jobs s)"

text \<open>An update of the row with an identifier is an update of the map of jobs.\<close>

lemma jobs_view_update:
  assumes "sq_jobs d' = map (\<lambda>r. if cond r then f r else r) (sq_jobs d)"
    and "\<And>r. cond r \<Longrightarrow> jr_id r = i" and "\<And>r. jr_id (f r) = jr_id r"
  shows "map_of (jobs_view d') = (case find_row jr_id i (sq_jobs d) of
      Some r \<Rightarrow> if cond r then (map_of (jobs_view d))(i \<mapsto> job_view (f r)) else map_of (jobs_view d)
    | None \<Rightarrow> map_of (jobs_view d))"
proof
  fix k
  have found: "find_row jr_id j (sq_jobs d') =
      map_option (\<lambda>r. if cond r then f r else r) (find_row jr_id j (sq_jobs d))" for j
    by (simp add: assms(1) find_row_map [where f = jr_id and g = f, OF assms(3)])
  have other: "\<not> cond r" if "find_row jr_id k (sq_jobs d) = Some r" "k \<noteq> i" for r
    using find_row_SomeD [OF that(1)] assms(2) [of r] that(2) by auto
  show "map_of (jobs_view d') k = (case find_row jr_id i (sq_jobs d) of
      Some r \<Rightarrow> if cond r then (map_of (jobs_view d))(i \<mapsto> job_view (f r)) else map_of (jobs_view d)
    | None \<Rightarrow> map_of (jobs_view d)) k"
    using other by (cases "k = i"; cases "find_row jr_id k (sq_jobs d)")
      (auto simp: found map_of_jobs_view split: option.split)
qed

text \<open>What such an update answers and does, read on the jobs.\<close>

lemma exec_update_jobs:
  assumes "rows_ok (sq_jobs d)" and run: "exec_update None i cond f e no_faults d = (x, d')"
    and cond: "\<And>r. cond r \<longleftrightarrow> jr_id r = i \<and> P (job_view r)"
    and id: "\<And>r. jr_id (f r) = jr_id r" and view: "\<And>r. job_view (f r) = round_job (g (job_view r))"
  shows "case map_of (jobs_view d) i of
      None \<Rightarrow> x = Inl ErrJobNotFound \<and> map_of (jobs_view d') = map_of (jobs_view d)
    | Some j \<Rightarrow>
        if P j then x = Inr () \<and> map_of (jobs_view d') = (map_of (jobs_view d))(i \<mapsto> round_job (g j))
        else x = Inl e \<and> map_of (jobs_view d') = map_of (jobs_view d)"
proof -
  have dist: "distinct (map jr_id (sq_jobs d))" using assms(1) by (simp add: rows_ok_def)
  have hit: "cond r \<Longrightarrow> jr_id r = i" for r by (simp add: cond)
  note eff = exec_update_no_faults [where cond = cond and i = i and f = f and e = e, OF hit id dist]
  have rows: "sq_jobs d' = map (\<lambda>r. if cond r then f r else r) (sq_jobs d)" using eff(2) run by simp
  note jobs = jobs_view_update [OF rows hit id]
  show ?thesis
  proof (cases "find_row jr_id i (sq_jobs d)")
    case (Some r)
    then have "jr_id r = i" by (auto dest: find_row_SomeD)
    with Some show ?thesis using eff(1) run jobs cond [of r] view [of r] by (simp add: map_of_jobs_view)
  qed (use eff(1) run jobs in \<open>simp add: map_of_jobs_view\<close>)
qed

lemma round_jobs_view: "map_option round_job (map_of (jobs_view d) k) = map_of (jobs_view d) k"
  by (simp add: map_of_jobs_view option.map_comp o_def)

lemma same_jobs_unchanged:
  "map_of (jobs_view d') = map_of (jobs_view d) \<Longrightarrow> js_jobs s = jobs_view d \<Longrightarrow> same_jobs d' s"
  by (simp add: same_jobs_def fun_eq_iff round_jobs_view)

lemma same_jobs_put:
  "map_of (jobs_view d') = (map_of (jobs_view d))(i \<mapsto> round_job j) \<Longrightarrow> js_jobs s = put i j (jobs_view d) \<Longrightarrow>
   same_jobs d' s"
  by (simp add: same_jobs_def fun_eq_iff round_jobs_view)

lemma owner_refines:
  assumes ok: "rows_ok (sq_jobs d)" and id: "\<And>r. jr_id (f r) = jr_id r"
    and view: "\<And>r. job_view (f r) = round_job ((fn (job_view r) now)\<lparr>j_UpdatedAt := now\<rparr>)"
    and run: "sqlite_updateOwned c i (owned_row i w (microsFromTime now)) f no_faults d = (x, d')"
    and spec: "updateOwned c now i w tr fn (memory_view d) = (e, s)"
  shows "error_of x = e \<and> same_jobs d' s"
proof (cases c)
  case None
  with run have "exec_update None i (owned_row i w (microsFromTime now)) f ErrJobLeaseNotOwned no_faults d = (x, d')"
    by (simp add: sqlite_updateOwned_def)
  note eff = exec_update_jobs [OF ok this owned_view id view]
  show ?thesis using eff spec None
    by (auto simp: updateOwned_cases split: option.splits if_splits
        intro: same_jobs_unchanged same_jobs_put)
next
  case (Some e')
  with run spec show ?thesis
    by (auto simp: sqlite_updateOwned_def exec_update_def sql_result_def updateOwned_cases
        intro!: same_jobs_unchanged)
qed

lemma operator_refines:
  assumes ok: "rows_ok (sq_jobs d)" and id: "\<And>r. jr_id (f r) = jr_id r"
    and view: "\<And>r. job_view (f r) = round_job (g (job_view r))"
    and run: "updateLeaseOperator None i (expired_row i (microsFromTime now)) f no_faults d = (x, d')"
  shows "case map_of (jobs_view d) i of
      None \<Rightarrow> x = Inl ErrJobNotFound \<and> map_of (jobs_view d') = map_of (jobs_view d)
    | Some j \<Rightarrow>
        if j_State j = StateProcessing \<and> lease_over now j
        then x = Inr () \<and> map_of (jobs_view d') = (map_of (jobs_view d))(i \<mapsto> round_job (g j))
        else x = Inl ErrJobLeaseNotExpired \<and> map_of (jobs_view d') = map_of (jobs_view d)"
  by (rule exec_update_jobs [OF ok run [unfolded updateLeaseOperator_def] expired_view id view])

section \<open>Claims\<close>

definition row_candidates :: "SyncID \<Rightarrow> int \<Rightarrow> job_row list \<Rightarrow> job_row list" where
  "row_candidates syncID now rs = sort_slice row_less (filter (claimable_row syncID now) rs)"

lemma candidate_first:
  "candidate syncID now d = (case row_candidates syncID now (sq_jobs d) of [] \<Rightarrow> None | r # _ \<Rightarrow> Some (jr_id r))"
  by (simp add: candidate_def row_candidates_def)

lemma set_row_candidates [simp]:
  "set (row_candidates syncID now rs) = {r \<in> set rs. claimable_row syncID now r}"
  by (simp add: row_candidates_def)

lemma distinct_row_candidates:
  "distinct (map jr_id rs) \<Longrightarrow> distinct (map jr_id (row_candidates syncID now rs))"
  using mset_sort_slice [of row_less "filter (claimable_row syncID now) rs"]
  by (metis distinct_map_filter mset_eq_imp_distinct_iff mset_map row_candidates_def)

lemma job_at_view:
  "distinct (map jr_id (sq_jobs d)) \<Longrightarrow> r \<in> set (sq_jobs d) \<Longrightarrow> job_at (jobs_view d) (jr_id r) = job_view r"
  by (simp add: job_at_def map_of_jobs_view find_row_distinct)

lemma claimable_ids_view:
  assumes "distinct (map jr_id (sq_jobs d))"
  shows "claimableJobIDsLocked now syncID (memory_view d)
    = map jr_id (row_candidates syncID (microsFromTime now) (sq_jobs d))"
proof -
  let ?rs = "filter (claimable_row syncID (microsFromTime now)) (sq_jobs d)"
  let ?m = "jobs_view d" and ?cs = "row_candidates syncID (microsFromTime now) (sq_jobs d)"
  let ?is = "keys (filter (\<lambda>(i, job). claimableJob job now syncID) ?m)"
  have ids: "?is = map jr_id ?rs"
    by (simp add: jobs_view_def filter_map o_def claimable_view)
  have at: "job_order (job_at ?m (jr_id r)) = job_order (job_view r)" if "r \<in> set ?rs" for r
    using that assms by (simp add: job_at_view)
  have "sorted_wrt (\<lambda>a b. row_order a \<le> row_order b) ?cs"
    using row_order.sorted_sort [of ?rs] by (simp add: row_candidates_def sorted_map)
  then have "sorted_wrt (\<lambda>a b. job_order (job_at ?m (jr_id a)) \<le> job_order (job_at ?m (jr_id b))) ?cs"
    by (rule sorted_wrt_mono_rel [rotated]) (use at order_view in \<open>simp add: not_less [symmetric]\<close>)
  then have "sorted (map (\<lambda>i. job_order (job_at ?m i)) (map jr_id ?cs))"
    by (simp add: sorted_map sorted_wrt_map)
  moreover have "mset (map jr_id ?cs) = mset ?is" by (simp add: ids row_candidates_def)
  moreover have "inj_on (\<lambda>i. job_order (job_at ?m i)) (set ?is)"
    by (rule inj_onI) (use at in \<open>auto simp: ids job_order_def\<close>)
  ultimately have "map jr_id ?cs = sort_slice (\<lambda>i j. job_less (job_at ?m i) (job_at ?m j)) ?is"
    by (intro claim_order.sort_unique)
  then show ?thesis by (simp add: claimableJobIDsLocked_def)
qed

lemma rows_ok_map:
  assumes "\<And>r. jr_id (f r) = jr_id r" and "\<And>r. jr_projection_key (f r) = jr_projection_key r"
  shows "rows_ok (map f rs) = rows_ok rs"
  by (simp add: rows_ok_def assms o_def)

lemma claim_row_sel [simp]:
  "jr_id (claim_row w u now r) = jr_id r" "jr_projection_key (claim_row w u now r) = jr_projection_key r"
  "jr_sync_id (claim_row w u now r) = jr_sync_id r" "claim_row w u now (claim_row w u now r) = claim_row w u now r"
  "claimable_row syncID t (claim_row w u now r) \<longleftrightarrow> jr_sync_id r = syncID \<and> u \<le> t"
  by (simp_all add: claim_row_def claimable_row_def)

text \<open>The rows after the claims of a set of identifiers.\<close>

definition claim_rows :: "SyncJobID set \<Rightarrow> string \<Rightarrow> int \<Rightarrow> int \<Rightarrow> job_row list \<Rightarrow> job_row list" where
  "claim_rows S w u now rs = map (\<lambda>r. if jr_id r \<in> S then claim_row w u now r else r) rs"

lemma claim_rows_ok [simp]: "rows_ok (claim_rows S w u now rs) = rows_ok rs"
  unfolding claim_rows_def by (rule rows_ok_map) simp_all

lemma claim_rows_empty [simp]: "claim_rows {} w u now rs = rs"
  by (simp add: claim_rows_def)

lemma claim_rows_twice: "claim_rows T w u now (claim_rows S w u now rs) = claim_rows (S \<union> T) w u now rs"
  by (simp add: claim_rows_def)

lemma find_claim_rows:
  "find_row jr_id i (claim_rows S w u now rs) =
     map_option (\<lambda>r. if i \<in> S then claim_row w u now r else r) (find_row jr_id i rs)"
  by (induction rs) (auto simp: claim_rows_def)

lemma sqlite_ClaimNext_effect:
  assumes ok: "rows_ok (sq_jobs d)" and "0 < l"
    and run: "sqlite_ClaimNext None now syncID w l no_faults d = (x, d')"
  shows "case row_candidates syncID (microsFromTime now) (sq_jobs d) of
      [] \<Rightarrow> x = Inr None \<and> sq_jobs d' = sq_jobs d
    | r # _ \<Rightarrow> x = Inr (Some (job_view (claim_row w (microsFromTime (now + l)) (microsFromTime now) r)))
        \<and> sq_jobs d' = claim_rows {jr_id r} w (microsFromTime (now + l)) (microsFromTime now) (sq_jobs d)"
    and "sq_deltas d' = sq_deltas d"
proof -
  let ?now = "microsFromTime now" and ?u = "microsFromTime (now + l)"
  let ?tx = "\<lambda>c. case c of
                None \<Rightarrow> sql_result (Inr None)
              | Some candidateID \<Rightarrow>
                  sql_bind (claimCandidateTx syncID candidateID w ?now ?u)
                    (\<lambda>claimed. if \<not> claimed then sql_result (Inr None)
                       else sql_bind (select_job candidateID) (\<lambda>row. sql_result (scanSyncJob row)))"
  have run': "transaction (sql_bind (query (candidate syncID ?now)) ?tx) no_faults d = (x, d')"
    using run assms(2) by (simp add: sqlite_ClaimNext_def Let_def)
  have "(case row_candidates syncID ?now (sq_jobs d) of
      [] \<Rightarrow> x = Inr None \<and> sq_jobs d' = sq_jobs d
    | r # _ \<Rightarrow> x = Inr (Some (job_view (claim_row w ?u ?now r)))
        \<and> sq_jobs d' = claim_rows {jr_id r} w ?u ?now (sq_jobs d)) \<and> sq_deltas d' = sq_deltas d"
  proof (cases "row_candidates syncID ?now (sq_jobs d)")
    case Nil
    with run' show ?thesis
      by (auto simp: transaction_def sql_bind_def candidate_first sql_result_def)
  next
    case (Cons r rs)
    then have "r \<in> set (row_candidates syncID ?now (sq_jobs d))" by simp
    then have r: "r \<in> set (sq_jobs d)" "claimable_row syncID ?now r" by simp_all
    have only: "jr_id s = jr_id r \<and> claimable_row syncID ?now s \<longleftrightarrow> jr_id s = jr_id r" if "s \<in> set (sq_jobs d)" for s
      using find_row_distinct [of jr_id "sq_jobs d"] ok r that by (metis option.inject rows_ok_def)
    have hit: "filter (\<lambda>s. jr_id s = jr_id r \<and> claimable_row syncID ?now s) (sq_jobs d) \<noteq> []"
      using r by (auto simp: filter_empty_conv)
    have rows: "map (\<lambda>s. if jr_id s = jr_id r \<and> claimable_row syncID ?now s then claim_row w ?u ?now s else s) (sq_jobs d)
      = claim_rows {jr_id r} w ?u ?now (sq_jobs d)"
      unfolding claim_rows_def by (rule map_cong) (use only in auto)
    have scan: "scanSyncJob (find_row jr_id (jr_id r) (claim_rows {jr_id r} w ?u ?now (sq_jobs d))) =
      Inr (Some (job_view (claim_row w ?u ?now r)))"
      using ok r(1) by (simp add: find_claim_rows find_row_distinct rows_ok_def scan_row)
    show ?thesis using run' Cons hit scan
      by (auto simp: transaction_def sql_bind_def candidate_first sql_result_def claimCandidateTx_def
          update_job_rows_def rows select_job_def)
  qed
  then show "case row_candidates syncID ?now (sq_jobs d) of
      [] \<Rightarrow> x = Inr None \<and> sq_jobs d' = sq_jobs d
    | r # _ \<Rightarrow> x = Inr (Some (job_view (claim_row w ?u ?now r)))
        \<and> sq_jobs d' = claim_rows {jr_id r} w ?u ?now (sq_jobs d)"
    and "sq_deltas d' = sq_deltas d" by blast+
qed

text \<open>A lease of at least a microsecond takes its job out of the candidates.\<close>

lemma micros_later: "1000 \<le> l \<Longrightarrow> microsFromTime now < microsFromTime (now + l)"
proof -
  assume "1000 \<le> l"
  then have "microsFromTime (now + 1000) \<le> microsFromTime (now + l)" by (intro micros_mono) simp
  moreover have "microsFromTime (now + 1000) = microsFromTime now + 1"
    by (simp add: microsFromTime_def)
  ultimately show ?thesis by simp
qed

lemma candidates_after_claim:
  assumes "rows_ok rs" and "row_candidates syncID now rs = r # cs" and "now < u"
  shows "row_candidates syncID now (claim_rows {jr_id r} w u now rs) = cs"
proof -
  have dist: "distinct (map jr_id (r # cs))"
    using distinct_row_candidates [of rs syncID now] assms(1,2) by (simp add: rows_ok_def)
  have sync: "r \<in> set rs" using set_row_candidates [of syncID now rs] assms(2) by auto
  have "filter (claimable_row syncID now) (claim_rows {jr_id r} w u now rs)
      = filter (\<lambda>s. jr_id s \<noteq> jr_id r) (filter (claimable_row syncID now) rs)"
    using assms(3) by (induction rs) (auto simp: claim_rows_def)
  then have "row_candidates syncID now (claim_rows {jr_id r} w u now rs)
      = filter (\<lambda>s. jr_id s \<noteq> jr_id r) (row_candidates syncID now rs)"
    by (simp add: row_candidates_def row_order.sort_slice_sort_key filter_sort)
  also have "\<dots> = cs"
    using dist assms(2) by (auto simp: filter_id_conv) (metis image_eqI)
  finally show ?thesis .
qed

lemma claim_each_effect:
  assumes "rows_ok (sq_jobs d)" and "0 < l"
    and "claim_each (\<lambda>_. None) (\<lambda>_. now) k syncID w l n acc no_faults d = (x, d')"
  defines "claimed \<equiv> \<lambda>r. claim_row w (microsFromTime (now + l)) (microsFromTime now) r"
  shows "\<exists>rs. set rs \<subseteq> set (sq_jobs d) \<and> x = Inr (acc @ map (\<lambda>r. job_view (claimed r)) rs)
      \<and> sq_jobs d' = claim_rows (jr_id ` set rs) w (microsFromTime (now + l)) (microsFromTime now) (sq_jobs d)
      \<and> sq_deltas d' = sq_deltas d
      \<and> (microsFromTime now < microsFromTime (now + l)
           \<longrightarrow> rs = take n (row_candidates syncID (microsFromTime now) (sq_jobs d)))"
  using assms(1,3)
proof (induction n arbitrary: k acc d)
  case (Suc n)
  let ?now = "microsFromTime now" and ?u = "microsFromTime (now + l)"
  obtain y d1 where first: "sqlite_ClaimNext None now syncID w l no_faults d = (y, d1)" by (rule prod.exhaust)
  note eff = sqlite_ClaimNext_effect [OF Suc.prems(1) assms(2) first]
  show ?case
  proof (cases "row_candidates syncID ?now (sq_jobs d)")
    case Nil
    with eff Suc.prems(2) first show ?thesis by (intro exI [of _ "[]"]) auto
  next
    case (Cons r cs)
    have rest: "claim_each (\<lambda>_. None) (\<lambda>_. now) (Suc k) syncID w l n (acc @ [job_view (claimed r)]) no_faults d1 = (x, d')"
      using Suc.prems(2) first eff(1) Cons by (simp add: claimed_def)
    have d1: "sq_jobs d1 = claim_rows {jr_id r} w ?u ?now (sq_jobs d)" using eff(1) Cons by simp
    have r: "r \<in> set (sq_jobs d)" using set_row_candidates [of syncID ?now "sq_jobs d"] Cons by auto
    from Suc.IH [OF _ rest] Suc.prems(1) obtain rs where
      rs: "set rs \<subseteq> set (sq_jobs d1)" "x = Inr ((acc @ [job_view (claimed r)]) @ map (\<lambda>r. job_view (claimed r)) rs)"
        "sq_jobs d' = claim_rows (jr_id ` set rs) w ?u ?now (sq_jobs d1)" "sq_deltas d' = sq_deltas d1"
        "?now < ?u \<longrightarrow> rs = take n (row_candidates syncID ?now (sq_jobs d1))"
      by (auto simp: d1)
    txt \<open>Rows claimed twice in the batch are unchanged by the second claim.\<close>
    have "\<forall>s \<in> set rs. \<exists>q \<in> set (sq_jobs d). jr_id q = jr_id s \<and> claimed q = claimed s
        \<and> (jr_id s \<noteq> jr_id r \<longrightarrow> q = s)"
      using rs(1) by (fastforce simp: d1 claim_rows_def claimed_def)
    then obtain q where q: "\<forall>s \<in> set rs. q s \<in> set (sq_jobs d) \<and> jr_id (q s) = jr_id s \<and> claimed (q s) = claimed s
        \<and> (jr_id s \<noteq> jr_id r \<longrightarrow> q s = s)"
      by metis
    show ?thesis
    proof (intro exI [of _ "r # map q rs"] conjI impI)
      show "set (r # map q rs) \<subseteq> set (sq_jobs d)" using q r by auto
      show "x = Inr (acc @ map (\<lambda>r. job_view (claimed r)) (r # map q rs))"
        using rs(2) q by simp
      show "sq_jobs d' = claim_rows (jr_id ` set (r # map q rs)) w ?u ?now (sq_jobs d)"
        using rs(3) q by (simp add: d1 claim_rows_twice image_image cong: image_cong)
      show "sq_deltas d' = sq_deltas d" using rs(4) eff(2) by simp
      assume later: "?now < ?u"
      then have cs: "rs = take n cs"
        using rs(5) candidates_after_claim [OF Suc.prems(1) Cons later] by (simp add: d1)
      have "jr_id s \<noteq> jr_id r" if "s \<in> set rs" for s
        using distinct_row_candidates [of "sq_jobs d" syncID ?now] Suc.prems(1) that
        by (auto simp: Cons cs rows_ok_def dest!: in_set_takeD) (metis image_eqI)
      then have "map q rs = rs" using q by (simp add: map_idI)
      then show "r # map q rs = take (Suc n) (row_candidates syncID ?now (sq_jobs d))"
        by (simp add: Cons cs)
    qed
  qed
qed auto

section \<open>Keys that were read back are copies\<close>

lemma raw_value_nonempty: "raw_value s = Some (raw, rest) \<Longrightarrow> raw \<noteq> []"
  by (auto simp: raw_value_def Let_def simp del: decode_value.simps split: option.splits dest!: decode_length(1))

lemma put_subset: "x \<in> set (put k v m) \<Longrightarrow> x = (k, v) \<or> x \<in> set m"
  by (induction m) (auto split: if_splits)

lemma raw_members_clone:
  "raw_members n acc s = Some m \<Longrightarrow> map (\<lambda>(k, v). (k, clone_raw v)) acc = acc \<Longrightarrow>
   map (\<lambda>(k, v). (k, clone_raw v)) m = m"
proof (induction n acc s arbitrary: m rule: raw_members.induct)
  case (2 n acc s)
  have step: "map (\<lambda>(k, v). (k, clone_raw v)) (put k (Some raw) acc) = put k (Some raw) acc"
    if "raw_value t = Some (raw, r)" for k t raw r
    using raw_value_nonempty [OF that] 2(3)
    by (intro map_idI) (auto simp: clone_raw_def map_eq_conv [where g = id, simplified] dest!: put_subset)
  show ?case
  proof (cases "skip_ws s")
    case (Cons q qs)
    with 2(2) show ?thesis
      by (auto simp del: raw_members.simps simp: raw_members.simps(2) split: list.splits option.splits prod.splits if_splits
          dest: step 2(1))
  qed (use 2(2) in simp)
qed simp

lemma unmarshal_clone: "json_Unmarshal_key s = Inr key \<Longrightarrow> cloneProjectionKey key = key"
proof -
  assume key: "json_Unmarshal_key s = Inr key"
  show ?thesis
  proof (cases key)
    case (Some m)
    have "m = [] \<or> (\<exists>n cs. raw_members n [] cs = Some m)"
      using key unfolding Some json_Unmarshal_key_def
      by (simp split: list.split_asm if_split_asm option.split_asm del: raw_members.simps) blast
    then show ?thesis using raw_members_clone [of _ "[]"] by (auto simp: Some cloneProjectionKey_def)
  qed (simp add: cloneProjectionKey_def)
qed

lemma clone_row_key [simp]: "cloneProjectionKey (row_key r) = row_key r"
  by (auto simp: row_key_def cloneProjectionKey_def split: sum.split dest: unmarshal_clone [unfolded cloneProjectionKey_def])

lemma clone_view [simp]: "cloneSyncJob (job_view r) = job_view r"
  by (rule cloneSyncJob_copied) simp

lemma clone_claim_view [simp]: "cloneSyncJob (claim_job now w l (job_view r)) = claim_job now w l (job_view r)"
  by (rule cloneSyncJob_copied) (simp add: claim_job_def)

section \<open>The transitions as one function\<close>

text \<open>
  The operations of a job store but \<open>Create\<close>, with their answers: on the in-memory store, and
  on a database whose statements do not fail. The clock of a batch claim stands still, since
  the in-memory store reads it once.
\<close>

datatype job_answer =
    Answer "error option"
  | Answer_Job "error + sync_job option"
  | Answer_Jobs "error + sync_job list"

definition round_answer :: "job_answer \<Rightarrow> job_answer" where
  "round_answer a =
     (case a of
        Answer e \<Rightarrow> Answer e
      | Answer_Job r \<Rightarrow> Answer_Job (map_sum id (map_option round_job) r)
      | Answer_Jobs r \<Rightarrow> Answer_Jobs (map_sum id (map round_job) r))"

fun memory_run :: "ctx \<Rightarrow> time \<Rightarrow> job_op \<Rightarrow> job_memory_store \<Rightarrow> job_answer \<times> job_memory_store" where
  "memory_run c now (Op_Create j) s = apfst (\<lambda>r. Answer_Job (map_sum id Some r)) (job_Create c now j s)"
| "memory_run c now (Op_ClaimNext i w l) s = apfst Answer_Job (ClaimNext c now i w l s)"
| "memory_run c now (Op_ClaimNextBatch i w n l) s = apfst Answer_Jobs (ClaimNextBatch c now i w n l s)"
| "memory_run c now (Op_RenewLease i w l) s = apfst Answer (RenewLease c now i w l s)"
| "memory_run c now (Op_MarkSynced i w g) s = apfst Answer (MarkSynced c now i w g s)"
| "memory_run c now (Op_MarkRetrying i w e t) s = apfst Answer (MarkRetrying c now i w e t s)"
| "memory_run c now (Op_RequeueClaimed i w e t) s = apfst Answer (RequeueClaimed c now i w e t s)"
| "memory_run c now (Op_MarkDead i w e) s = apfst Answer (MarkDead c now i w e s)"
| "memory_run c now (Op_ForceReleaseExpiredLease i r) s = apfst Answer (ForceReleaseExpiredLease c now i r s)"
| "memory_run c now (Op_RequeueExpiredLease i t r) s = apfst Answer (RequeueExpiredLease c now i t r s)"

definition sqlite_answer :: "unit sql \<Rightarrow> sql_db \<Rightarrow> job_answer \<times> sql_db" where
  "sqlite_answer m d = apfst (\<lambda>r. Answer (error_of r)) (m no_faults d)"

fun sqlite_run :: "int \<Rightarrow> error + string \<Rightarrow> ctx \<Rightarrow> time \<Rightarrow> job_op \<Rightarrow> sql_db \<Rightarrow> job_answer \<times> sql_db" where
  "sqlite_run n rnd c now (Op_Create j) d =
     apfst (\<lambda>r. Answer_Job (map_sum id Some r)) (sqlite_Create n rnd c now j no_faults d)"
| "sqlite_run n rnd c now (Op_ClaimNext i w l) d = apfst Answer_Job (sqlite_ClaimNext c now i w l no_faults d)"
| "sqlite_run n rnd c now (Op_ClaimNextBatch i w k l) d =
     apfst Answer_Jobs (sqlite_ClaimNextBatch (\<lambda>_. c) (\<lambda>_. now) i w k l no_faults d)"
| "sqlite_run n rnd c now (Op_RenewLease i w l) d = sqlite_answer (sqlite_RenewLease c now i w l) d"
| "sqlite_run n rnd c now (Op_MarkSynced i w g) d = sqlite_answer (sqlite_MarkSynced c now i w g) d"
| "sqlite_run n rnd c now (Op_MarkRetrying i w e t) d = sqlite_answer (sqlite_MarkRetrying c now i w e t) d"
| "sqlite_run n rnd c now (Op_RequeueClaimed i w e t) d = sqlite_answer (sqlite_RequeueClaimed c now i w e t) d"
| "sqlite_run n rnd c now (Op_MarkDead i w e) d = sqlite_answer (sqlite_MarkDead c now i w e) d"
| "sqlite_run n rnd c now (Op_ForceReleaseExpiredLease i r) d =
     sqlite_answer (sqlite_ForceReleaseExpiredLease c now i r) d"
| "sqlite_run n rnd c now (Op_RequeueExpiredLease i t r) d =
     sqlite_answer (sqlite_RequeueExpiredLease c now i t r) d"

text \<open>
  What a claim by identifiers leaves and answers is what the in-memory claim does, telemetry
  included.
\<close>

lemma claim_next_view:
  assumes ok: "rows_ok (sq_jobs d)" and "0 < l"
    and eff: "case row_candidates syncID (microsFromTime now) (sq_jobs d) of
        [] \<Rightarrow> x = Inr None \<and> sq_jobs d' = sq_jobs d
      | r # _ \<Rightarrow> x = Inr (Some (job_view (claim_row w (microsFromTime (now + l)) (microsFromTime now) r)))
          \<and> sq_jobs d' = claim_rows {jr_id r} w (microsFromTime (now + l)) (microsFromTime now) (sq_jobs d)"
    and spec: "ClaimNext None now syncID w l (memory_view d) = (y, s)"
  shows "x = map_sum id (map_option round_job) y \<and> same_jobs d' s
    \<and> js_telemetry s = (case row_candidates syncID (microsFromTime now) (sq_jobs d) of
         [] \<Rightarrow> [ObserveLeaseClaim LeaseTelemetryResultEmpty] | r # _ \<Rightarrow> claim_events now (job_view r))"
proof -
  have dist: "distinct (map jr_id (sq_jobs d))" using ok by (simp add: rows_ok_def)
  note ids = claimable_ids_view [OF dist, of now syncID]
  show ?thesis
  proof (cases "row_candidates syncID (microsFromTime now) (sq_jobs d)")
    case Nil
    with eff ids spec assms(2) show ?thesis
      by (auto simp: ClaimNext_def intro!: same_jobs_unchanged jobs_view_eq [THEN arg_cong])
  next
    case (Cons r rs)
    then have r: "r \<in> set (sq_jobs d)" using set_row_candidates [of syncID "microsFromTime now" "sq_jobs d"] by auto
    let ?f = "claim_row w (microsFromTime (now + l)) (microsFromTime now)"
    have "sq_jobs d' = map (\<lambda>q. if jr_id q = jr_id r then ?f q else q) (sq_jobs d)"
      using eff Cons by (simp add: claim_rows_def)
    from jobs_view_update [OF this] have jobs: "map_of (jobs_view d') =
      (map_of (jobs_view d))(jr_id r \<mapsto> round_job (claim_job now w l (job_view r)))"
      by (simp add: find_row_distinct [OF dist r] claim_row_view)
    show ?thesis
      using eff ids spec assms(2) Cons
      by (auto simp: ClaimNext_def Let_def job_at_view [OF dist r] claim_row_view intro!: same_jobs_put [OF jobs])
  qed
qed

lemma claim_batch_view:
  assumes ok: "rows_ok (sq_jobs d)" and "0 < l" and "0 < n"
    and rs: "rs = take (nat n) (row_candidates syncID (microsFromTime now) (sq_jobs d))"
    and x: "x = Inr (map (\<lambda>r. job_view (claim_row w (microsFromTime (now + l)) (microsFromTime now) r)) rs)"
    and d': "sq_jobs d' = claim_rows (jr_id ` set rs) w (microsFromTime (now + l)) (microsFromTime now) (sq_jobs d)"
    and spec: "ClaimNextBatch None now syncID w n l (memory_view d) = (y, s)"
  shows "x = map_sum id (map round_job) y \<and> same_jobs d' s
    \<and> js_telemetry s = (if rs = [] then [ObserveLeaseClaim LeaseTelemetryResultEmpty]
         else concat (map (\<lambda>r. claim_events now (job_view r)) rs))"
proof -
  let ?now = "microsFromTime now"
  have dist: "distinct (map jr_id (sq_jobs d))" using ok by (simp add: rows_ok_def)
  have sub: "set rs \<subseteq> set (sq_jobs d)"
    using set_row_candidates [of syncID ?now "sq_jobs d"] by (auto simp: rs dest: in_set_takeD)
  have at: "job_at (jobs_view d) (jr_id r) = job_view r" if "r \<in> set rs" for r
    using job_at_view [OF dist] sub that by blast
  have ids: "limit_ids n (claimableJobIDsLocked now syncID (memory_view d)) = map jr_id rs"
    using assms(3) by (simp add: claimable_ids_view [OF dist] limit_ids_take take_map rs)
  have dist_rs: "distinct (map jr_id rs)"
    unfolding rs using distinct_row_candidates [OF dist] by (simp flip: take_map)
  obtain claimed logs s1 where all: "claim_all now w l (map jr_id rs) (memory_view d) = (claimed, logs, s1)"
    by (metis prod.exhaust)
  note eff = claim_all_effect [OF all dist_rs]
  have "y = Inr claimed \<and> (if rs = [] then s = observe [ObserveLeaseClaim LeaseTelemetryResultEmpty] (memory_view d)
      else s = observe logs s1)"
    using spec assms(2,3) ids all
    by (cases "rs = []") (auto simp: ClaimNextBatch_def Let_def)
  then have y: "y = Inr claimed" and s: "js_jobs s = js_jobs s1"
    and tel: "js_telemetry s = (if rs = [] then [ObserveLeaseClaim LeaseTelemetryResultEmpty] else js_telemetry s1 @ logs)"
    using all by (auto split: if_splits)
  have "claimed = map (\<lambda>r. claim_job now w l (job_view r)) rs"
    using at by (simp add: eff(1))
  then have "x = map_sum id (map round_job) y" by (simp add: x y claim_row_view)
  moreover have "same_jobs d' s"
    unfolding same_jobs_def
  proof
    fix i
    show "map_of (jobs_view d') i = (map_option round_job \<circ> map_of (js_jobs s)) i"
    proof (cases "i \<in> jr_id ` set rs")
      case True
      then obtain r where r: "r \<in> set rs" "i = jr_id r" by blast
      then have "find_row jr_id i (sq_jobs d) = Some r" using find_row_distinct [OF dist] sub by blast
      with True r at [OF r(1)] show ?thesis
        by (simp add: map_of_jobs_view d' find_claim_rows s eff(3) claim_row_view)
    next
      case False
      then have "i \<notin> set (map jr_id rs)" by simp
      with False show ?thesis
        by (simp add: map_of_jobs_view d' find_claim_rows s eff(3) option.map_comp o_def del: set_map list.set_map)
    qed
  qed
  moreover have "logs = concat (map (\<lambda>r. claim_events now (job_view r)) rs)"
    using at by (simp add: eff(2) o_def cong: map_cong)
  ultimately show ?thesis using tel eff(6) by simp
qed

lemma claim_next_refines:
  assumes ok: "rows_ok (sq_jobs d)" and run: "sqlite_ClaimNext c now syncID w l no_faults d = (x, d')"
    and spec: "ClaimNext c now syncID w l (memory_view d) = (y, s)"
  shows "x = map_sum id (map_option round_job) y \<and> same_jobs d' s"
proof (cases "c = None \<and> 0 < l")
  case True
  with claim_next_view [OF ok _ sqlite_ClaimNext_effect(1) [OF ok, of l now syncID w x d']] run spec
  show ?thesis by blast
qed (use run spec in \<open>auto simp: ClaimNext_def sqlite_ClaimNext_def sql_result_def split: option.splits
      intro!: same_jobs_unchanged\<close>)

lemma claim_batch_refines:
  assumes ok: "rows_ok (sq_jobs d)" and "1000 \<le> l"
    and run: "sqlite_ClaimNextBatch (\<lambda>_. c) (\<lambda>_. now) syncID w n l no_faults d = (x, d')"
    and spec: "ClaimNextBatch c now syncID w n l (memory_view d) = (y, s)"
  shows "x = map_sum id (map round_job) y \<and> same_jobs d' s"
proof (cases "c = None \<and> 0 < n")
  case True
  have run': "claim_each (\<lambda>_. None) (\<lambda>_. now) 1 syncID w l (nat n) [] no_faults d = (x, d')"
    using run True assms(2) by (simp add: sqlite_ClaimNextBatch_def)
  have l: "0 < l" using assms(2) by simp
  show ?thesis
    using claim_each_effect [OF ok l run'] micros_later [OF assms(2), of now]
      claim_batch_view [OF ok l, of n _ syncID now x w d' y s] True spec by auto
qed (use run spec assms(2) in \<open>auto simp: ClaimNextBatch_def sqlite_ClaimNextBatch_def sql_result_def
      split: option.splits if_splits intro!: same_jobs_unchanged\<close>)

text \<open>The operator's calls on both sides.\<close>

lemma operator_answer:
  assumes ok: "rows_ok (sq_jobs d)" and id: "\<And>r. jr_id (f r) = jr_id r"
    and view: "\<And>r. job_view (f r) = round_job (g (job_view r))"
    and run: "updateLeaseOperator None i (expired_row i (microsFromTime now)) f no_faults d = (x, d')"
    and spec: "(case map_of (jobs_view d) i of
         None \<Rightarrow> (Some ErrJobNotFound, memory_view d)
       | Some job \<Rightarrow>
           if j_State job \<noteq> StateProcessing \<or> \<not> lease_over now job
           then (Some ErrJobLeaseNotExpired, memory_view d)
           else (None, set_job i (g job) (memory_view d))) = (e, s)"
  shows "error_of x = e \<and> same_jobs d' s"
  using operator_refines [OF ok id view run] spec
  by (auto split: option.splits if_splits intro: same_jobs_unchanged same_jobs_put)

section \<open>Refinement\<close>

fun comparable_op :: "job_op \<Rightarrow> bool" where
  "comparable_op (Op_Create j) \<longleftrightarrow> False"
| "comparable_op (Op_ClaimNextBatch i w n l) \<longleftrightarrow> 1000 \<le> l"
| "comparable_op _ \<longleftrightarrow> True"

lemma unlock_row_sel [simp]:
  "jr_id (unlock_row now r) = jr_id r" "jr_projection_key (unlock_row now r) = jr_projection_key r"
  by (simp_all add: unlock_row_def)

lemma exec_update_rows_ok:
  assumes "rows_ok (sq_jobs d)" and "exec_update c i cond f e no_faults d = (x, d')"
    and "\<And>r. jr_id (f r) = jr_id r" and "\<And>r. jr_projection_key (f r) = jr_projection_key r"
  shows "rows_ok (sq_jobs d')"
proof -
  have "sq_jobs d' = sq_jobs d \<or> sq_jobs d' = map (\<lambda>r. if cond r then f r else r) (sq_jobs d)"
    using assms(2) by (auto simp: exec_update_def sql_bind_def sql_result_def update_job_rows_def jobExists_def
        split: option.splits if_splits)
  with assms(1,3,4) show ?thesis by (auto simp: rows_ok_map)
qed

lemma unanswered [simp]: "same_jobs d (memory_view d)"
  by (rule same_jobs_unchanged) simp_all

lemma operators_refine:
  assumes ok: "rows_ok (sq_jobs d)"
  shows "sqlite_ForceReleaseExpiredLease c now i r no_faults d = (x, d') \<Longrightarrow>
      ForceReleaseExpiredLease c now i r (memory_view d) = (e, s) \<Longrightarrow> error_of x = e \<and> same_jobs d' s"
    and "sqlite_RequeueExpiredLease c now i t r no_faults d = (x, d') \<Longrightarrow>
      RequeueExpiredLease c now i t r (memory_view d) = (e, s) \<Longrightarrow> error_of x = e \<and> same_jobs d' s"
proof -
  assume run: "sqlite_ForceReleaseExpiredLease c now i r no_faults d = (x, d')"
    and spec: "ForceReleaseExpiredLease c now i r (memory_view d) = (e, s)"
  show "error_of x = e \<and> same_jobs d' s"
  proof (cases "c = None \<and> TrimSpace r \<noteq> []")
    case True
    from run True have run': "updateLeaseOperator None i (expired_row i (microsFromTime now))
        (\<lambda>r'. unlock_row (microsFromTime now) (r'\<lparr>jr_last_error := Some (''operator_force_release: '' @ TrimSpace r)\<rparr>)) no_faults d = (x, d')"
      by (simp add: sqlite_ForceReleaseExpiredLease_def Let_def)
    show ?thesis
      by (rule operator_answer [OF ok _ unlock_row_view(5) run'])
        (use spec True in \<open>simp_all add: ForceReleaseExpiredLease_def\<close>)
  qed (use run spec in \<open>auto simp: sqlite_ForceReleaseExpiredLease_def ForceReleaseExpiredLease_def Let_def
      sql_result_def split: option.splits\<close>)
next
  assume run: "sqlite_RequeueExpiredLease c now i t r no_faults d = (x, d')"
    and spec: "RequeueExpiredLease c now i t r (memory_view d) = (e, s)"
  show "error_of x = e \<and> same_jobs d' s"
  proof (cases "c = None \<and> TrimSpace r \<noteq> []")
    case True
    from run True have run': "updateLeaseOperator None i (expired_row i (microsFromTime now))
        (\<lambda>r'. unlock_row (microsFromTime now) (r'\<lparr>jr_state := ''retrying'', jr_available_at_micros := microsFromTime t,
           jr_last_error := Some (''operator_requeue: '' @ TrimSpace r)\<rparr>)) no_faults d = (x, d')"
      by (simp add: sqlite_RequeueExpiredLease_def Let_def)
    show ?thesis
      by (rule operator_answer [OF ok _ unlock_row_view(6) run'])
        (use spec True in \<open>simp_all add: RequeueExpiredLease_def\<close>)
  qed (use run spec in \<open>auto simp: sqlite_RequeueExpiredLease_def RequeueExpiredLease_def Let_def
      sql_result_def split: option.splits\<close>)
qed

lemma owners_refine:
  assumes ok: "rows_ok (sq_jobs d)"
  shows "sqlite_MarkSynced c now i w g no_faults d = (x, d') \<Longrightarrow> MarkSynced c now i w g (memory_view d) = (e, s) \<Longrightarrow>
      error_of x = e \<and> same_jobs d' s"
    and "sqlite_MarkRetrying c now i w r t no_faults d = (x, d') \<Longrightarrow>
      MarkRetrying c now i w r t (memory_view d) = (e, s) \<Longrightarrow> error_of x = e \<and> same_jobs d' s"
    and "sqlite_RequeueClaimed c now i w r t no_faults d = (x, d') \<Longrightarrow>
      RequeueClaimed c now i w r t (memory_view d) = (e, s) \<Longrightarrow> error_of x = e \<and> same_jobs d' s"
    and "sqlite_MarkDead c now i w r no_faults d = (x, d') \<Longrightarrow> MarkDead c now i w r (memory_view d) = (e, s) \<Longrightarrow>
      error_of x = e \<and> same_jobs d' s"
    and "sqlite_RenewLease c now i w l no_faults d = (x, d') \<Longrightarrow> RenewLease c now i w l (memory_view d) = (e, s) \<Longrightarrow>
      error_of x = e \<and> same_jobs d' s"
proof -
  assume run: "sqlite_RenewLease c now i w l no_faults d = (x, d')" and spec: "RenewLease c now i w l (memory_view d) = (e, s)"
  show "error_of x = e \<and> same_jobs d' s"
  proof (cases "c = None \<and> 0 < l")
    case True
    obtain s1 where s1: "updateOwned c now i w LeaseTelemetryTransitionRenewLease (renew_job l) (memory_view d) = (e, s1)"
      and s: "js_jobs s = js_jobs s1"
      using spec True by (auto simp: RenewLease_def split: prod.splits)
    from run True have run': "sqlite_updateOwned c i (owned_row i w (microsFromTime now))
        (\<lambda>r. r\<lparr>jr_locked_until_micros := Some (microsFromTime (now + l)), jr_updated_at_micros := microsFromTime now\<rparr>)
        no_faults d = (x, d')"
      by (simp add: sqlite_RenewLease_def)
    have "error_of x = e \<and> same_jobs d' s1"
      by (rule owner_refines [OF ok _ _ run' s1]) (simp, rule renew_row_view)
    with s show ?thesis by (simp add: same_jobs_def)
  qed (use run spec in \<open>auto simp: sqlite_RenewLease_def RenewLease_def sql_result_def
      intro: same_jobs_unchanged split: option.splits\<close>)
qed (unfold sqlite_MarkSynced_def sqlite_MarkRetrying_def sqlite_RequeueClaimed_def sqlite_MarkDead_def
    MarkSynced_def MarkRetrying_def RequeueClaimed_def MarkDead_def,
    erule (1) owner_refines [OF ok, rotated 2]; simp add: unlock_row_view)+

lemma apfst_eq: "apfst f p = (a, s) \<longleftrightarrow> (\<exists>x. p = (x, s) \<and> a = f x)"
  by (cases p) auto

lemma sqlite_run_rows_ok:
  assumes ok: "rows_ok (sq_jobs d)" and "comparable_op op"
  shows "rows_ok (sq_jobs (snd (sqlite_run n rnd c now op d)))"
proof -
  have claims: "rows_ok (sq_jobs (snd (sqlite_ClaimNext c now i w l no_faults d)))" for i w l
    using sqlite_ClaimNext_effect [OF ok _ prod.collapse [symmetric], of l now i w] ok
    by (cases "c = None \<and> 0 < l")
      (auto simp: sqlite_ClaimNext_def sql_result_def split: list.splits option.splits if_splits)
  have batches: "rows_ok (sq_jobs (snd (sqlite_ClaimNextBatch (\<lambda>_. c) (\<lambda>_. now) i w k l no_faults d)))" for i w k l
    using claim_each_effect [OF ok _ prod.collapse [symmetric], of l now 1 i w "nat k" "[]"] ok
    by (auto simp: sqlite_ClaimNextBatch_def sql_result_def split: option.splits if_splits)
  show ?thesis
    using assms claims batches
    by (cases op)
      (auto simp: sqlite_answer_def sqlite_RenewLease_def sqlite_MarkSynced_def sqlite_MarkRetrying_def
        sqlite_RequeueClaimed_def sqlite_MarkDead_def sqlite_ForceReleaseExpiredLease_def
        sqlite_RequeueExpiredLease_def sqlite_updateOwned_def updateLeaseOperator_def Let_def sql_result_def
        split: option.split intro!: exec_update_rows_ok [OF ok prod.collapse [symmetric]])
qed

section \<open>Reading\<close>

text \<open>The operations that only read, on both sides.\<close>

datatype job_read =
    Read_Get SyncJobID
  | Read_ActiveLeases SyncID int
  | Read_ExpiredLeases SyncID int
  | Read_NearExpiryLeases SyncID duration int

datatype read_answer =
    Found "error + sync_job option"
  | Listed "error + sync_job list"

fun memory_read :: "ctx \<Rightarrow> time \<Rightarrow> job_read \<Rightarrow> job_memory_store \<Rightarrow> read_answer" where
  "memory_read c now (Read_Get i) s = Found (job_Get c i s)"
| "memory_read c now (Read_ActiveLeases i n) s = Listed (ListActiveLeases c now i n s)"
| "memory_read c now (Read_ExpiredLeases i n) s = Listed (ListExpiredProcessingLeases c now i n s)"
| "memory_read c now (Read_NearExpiryLeases i l n) s = Listed (ListNearExpiryLeases c now i l n s)"

fun sqlite_read :: "ctx \<Rightarrow> time \<Rightarrow> job_read \<Rightarrow> sql_db \<Rightarrow> read_answer \<times> sql_db" where
  "sqlite_read c now (Read_Get i) d = apfst Found (sqlite_Get c i no_faults d)"
| "sqlite_read c now (Read_ActiveLeases i n) d = apfst Listed (sqlite_ListActiveLeases c now i n no_faults d)"
| "sqlite_read c now (Read_ExpiredLeases i n) d = apfst Listed (sqlite_ListExpiredProcessingLeases c now i n no_faults d)"
| "sqlite_read c now (Read_NearExpiryLeases i l n) d = apfst Listed (sqlite_ListNearExpiryLeases c now i l n no_faults d)"

definition lease_rows :: "SyncID \<Rightarrow> (int option \<Rightarrow> bool) \<Rightarrow> int \<Rightarrow> sql_db \<Rightarrow> job_row list" where
  "lease_rows syncID cond limit d =
     take (nat limit) (sort_slice row_lease_less
       (filter (\<lambda>r. jr_state r = ''processing'' \<and> cond (jr_locked_until_micros r)
          \<and> (syncID \<noteq> [] \<longrightarrow> jr_sync_id r = syncID)) (sq_jobs d)))"

lemma set_lease_rows: "set (lease_rows syncID cond limit d) \<subseteq> set (sq_jobs d)"
  by (auto simp: lease_rows_def dest!: in_set_takeD)

lemma collect_rows: "\<forall>r \<in> set rs. parses (jr_projection_key r) \<Longrightarrow> collectJobs rs = Inr (map job_view rs)"
  by (induction rs) (simp_all add: scan_row)

lemma leases_view:
  assumes dist: "distinct (map jr_id (sq_jobs d))" and "0 < limit"
    and P: "\<And>r. P (job_view r) \<longleftrightarrow> cond (jr_locked_until_micros r)"
  shows "selectProcessingLeasesLocked syncID limit P (memory_view d) = map job_view (lease_rows syncID cond limit d)"
proof -
  let ?sel = "\<lambda>r. jr_state r = ''processing'' \<and> cond (jr_locked_until_micros r) \<and> (syncID \<noteq> [] \<longrightarrow> jr_sync_id r = syncID)"
  let ?rs = "filter ?sel (sq_jobs d)" and ?m = "jobs_view d"
  let ?cs = "sort_slice row_lease_less ?rs"
  let ?is = "keys (filter (\<lambda>(i, job). lease_selected syncID P job) ?m)"
  have sel: "lease_selected syncID P (job_view r) = ?sel r" for r
    by (auto simp: lease_selected_def P const_defs)
  have ids: "?is = map jr_id ?rs" by (simp add: jobs_view_def filter_map o_def sel)
  have at: "job_at ?m (jr_id r) = job_view r" if "r \<in> set ?rs" for r
    using that dist by (simp add: job_at_view)
  have "sorted_wrt (\<lambda>a b. row_lease_order a \<le> row_lease_order b) ?cs"
    using row_lease_order.sorted_sort [of ?rs] by (simp add: sorted_map)
  then have "sorted_wrt (\<lambda>a b. lease_order (job_at ?m (jr_id a)) \<le> lease_order (job_at ?m (jr_id b))) ?cs"
    by (rule sorted_wrt_mono_rel [rotated]) (use at lease_order_view in \<open>simp add: not_less [symmetric]\<close>)
  then have "sorted (map (\<lambda>i. lease_order (job_at ?m i)) (map jr_id ?cs))"
    by (simp add: sorted_map sorted_wrt_map)
  moreover have "mset (map jr_id ?cs) = mset ?is" by (simp add: ids)
  moreover have "inj_on (\<lambda>i. lease_order (job_at ?m i)) (set ?is)"
    by (rule inj_onI) (use at in \<open>auto simp: ids lease_order_def\<close>)
  ultimately have "map jr_id ?cs = sort_slice (\<lambda>i j. lease_less (job_at ?m i) (job_at ?m j)) ?is"
    by (intro lease_order.sort_unique)
  then have "selectProcessingLeasesLocked syncID limit P (memory_view d)
      = map (\<lambda>i. cloneSyncJob (job_at ?m i)) (take (nat limit) (map jr_id ?cs))"
    using assms(2) by (simp add: selectProcessingLeasesLocked_def limit_ids_take)
  also have "\<dots> = map job_view (take (nat limit) ?cs)"
    using at by (auto simp: take_map dest!: in_set_takeD)
  finally show ?thesis by (simp add: lease_rows_def)
qed

lemma lease_rows_calls [simp]: "lease_rows syncID cond limit (d\<lparr>sq_calls := n\<rparr>) = lease_rows syncID cond limit d"
  by (simp add: lease_rows_def)

lemma listLeases_rows:
  "rows_ok (sq_jobs d) \<Longrightarrow> fst (listLeases syncID cond limit no_faults d) = Inr (map job_view (lease_rows syncID cond limit d))"
  using set_lease_rows [of syncID cond limit d]
  by (auto simp: listLeases_def sql_bind_def sql_result_def rows_ok_def
      lease_rows_def [symmetric] lease_rows_calls intro!: collect_rows)

lemma lease_conditions:
  "(case j_LockedUntil (job_view r) of None \<Rightarrow> False | Some t \<Rightarrow> now < t)
     \<longleftrightarrow> (case jr_locked_until_micros r of None \<Rightarrow> False | Some v \<Rightarrow> microsFromTime now < v)"
  "lease_over now (job_view r)
     \<longleftrightarrow> (case jr_locked_until_micros r of None \<Rightarrow> True | Some v \<Rightarrow> v \<le> microsFromTime now)"
  "(case j_LockedUntil (job_view r) of None \<Rightarrow> False | Some t \<Rightarrow> now < t \<and> \<not> now + l < t)
     \<longleftrightarrow> (case jr_locked_until_micros r of None \<Rightarrow> False | Some v \<Rightarrow> microsFromTime now < v \<and> v \<le> microsFromTime (now + l))"
  by (auto simp: lease_over_def column_after column_not_after not_less split: option.split)

text \<open>The lists of leases, which the Postgres store answers from the same rows.\<close>

lemma lease_lists:
  assumes "rows_ok (sq_jobs d)" and "0 < n"
  shows "ListActiveLeases None now i n (memory_view d) = Inr (map job_view (lease_rows i
      (\<lambda>until. case until of None \<Rightarrow> False | Some u \<Rightarrow> microsFromTime now < u) n d))"
    and "ListExpiredProcessingLeases None now i n (memory_view d) = Inr (map job_view (lease_rows i
      (\<lambda>until. case until of None \<Rightarrow> True | Some u \<Rightarrow> u \<le> microsFromTime now) n d))"
    and "0 \<le> l \<Longrightarrow> ListNearExpiryLeases None now i l n (memory_view d) = Inr (map job_view (lease_rows i
      (\<lambda>until. case until of None \<Rightarrow> False | Some u \<Rightarrow> microsFromTime now < u \<and> u \<le> microsFromTime (now + l)) n d))"
proof -
  have dist: "distinct (map jr_id (sq_jobs d))" using assms(1) by (simp add: rows_ok_def)
  note view = leases_view [OF dist assms(2)]
  show "ListActiveLeases None now i n (memory_view d) = Inr (map job_view (lease_rows i
      (\<lambda>until. case until of None \<Rightarrow> False | Some u \<Rightarrow> microsFromTime now < u) n d))"
    using assms(2) by (simp add: ListActiveLeases_def) (rule view, rule lease_conditions)
  show "ListExpiredProcessingLeases None now i n (memory_view d) = Inr (map job_view (lease_rows i
      (\<lambda>until. case until of None \<Rightarrow> True | Some u \<Rightarrow> u \<le> microsFromTime now) n d))"
    using assms(2) by (simp add: ListExpiredProcessingLeases_def) (rule view, rule lease_conditions)
  show "ListNearExpiryLeases None now i l n (memory_view d) = Inr (map job_view (lease_rows i
      (\<lambda>until. case until of None \<Rightarrow> False | Some u \<Rightarrow> microsFromTime now < u \<and> u \<le> microsFromTime (now + l)) n d))" if "0 \<le> l"
    using assms(2) that by (simp add: ListNearExpiryLeases_def) (rule view, rule lease_conditions)
qed

lemma Get_view:
  "job_Get None i (memory_view d) = Inr (map_option job_view (find_row jr_id i (sq_jobs d)))"
  by (cases "find_row jr_id i (sq_jobs d)") (simp_all add: job_Get_def map_of_jobs_view)

lemma memory_reads_cancelled:
  "job_Get (Some e) i s = Inl e" "ListActiveLeases (Some e) now i n s = Inl e"
  "ListExpiredProcessingLeases (Some e) now i n s = Inl e" "ListNearExpiryLeases (Some e) now i l n s = Inl e"
  "n \<le> 0 \<Longrightarrow> ListActiveLeases None now i n s = Inr []" "n \<le> 0 \<Longrightarrow> ListExpiredProcessingLeases None now i n s = Inr []"
  "l < 0 \<Longrightarrow> ListNearExpiryLeases None now i l n s = Inl ErrInvalidLeaseWindow"
  "0 \<le> l \<Longrightarrow> n \<le> 0 \<Longrightarrow> ListNearExpiryLeases None now i l n s = Inr []"
  by (simp_all add: job_Get_def ListActiveLeases_def ListExpiredProcessingLeases_def ListNearExpiryLeases_def)

lemma find_row_parses:
  "rows_ok (sq_jobs d) \<Longrightarrow> find_row jr_id i (sq_jobs d) = Some r \<Longrightarrow> parses (jr_projection_key r)"
  by (auto simp: rows_ok_def dest: find_row_SomeD)

lemmas reads_on_memory = Get_view lease_lists memory_reads_cancelled

lemma sqlite_reads:
  assumes ok: "rows_ok (sq_jobs d)"
  shows "fst (sqlite_read c now q d) = memory_read c now q (memory_view d)"
proof (cases c)
  case None
  show ?thesis
  proof (cases q)
    case (Read_Get i)
    then show ?thesis using find_row_parses [OF ok, of i] None
      by (cases "find_row jr_id i (sq_jobs d)")
        (auto simp: sqlite_Get_def reads_on_memory select_job_def sql_bind_def sql_result_def scan_row scanSyncJob_def [of None])
  next
    case (Read_ActiveLeases i n)
    then show ?thesis using None
      by (cases "0 < n") (simp_all add: sqlite_ListActiveLeases_def reads_on_memory listLeases_rows ok sql_result_def)
  next
    case (Read_ExpiredLeases i n)
    then show ?thesis using None
      by (cases "0 < n") (simp_all add: sqlite_ListExpiredProcessingLeases_def reads_on_memory listLeases_rows ok sql_result_def)
  next
    case (Read_NearExpiryLeases i l n)
    then show ?thesis using None
      by (cases "0 < n"; cases "l < 0")
        (simp_all add: sqlite_ListNearExpiryLeases_def reads_on_memory listLeases_rows ok sql_result_def)
  qed
qed (cases q; simp add: sqlite_Get_def sqlite_ListActiveLeases_def sqlite_ListExpiredProcessingLeases_def
    sqlite_ListNearExpiryLeases_def reads_on_memory sql_result_def)

lemma sqlite_reads_only: "sq_jobs (snd (sqlite_read c now q d)) = sq_jobs d"
  by (cases q) (auto simp: sqlite_Get_def select_job_def sqlite_ListActiveLeases_def sqlite_ListExpiredProcessingLeases_def
      sqlite_ListNearExpiryLeases_def listLeases_def sql_bind_def sql_result_def Let_def
      split: option.split sum.split)

text \<open>
  C13: The SQLite job store implements the in-memory one, on a database whose statements do not
  fail. Every transition but Create answers what the in-memory store answers on the jobs
  of the database, errors included, and leaves the jobs that it leaves, with instants rounded
  down to whole microseconds; a batch claim only when the lease lasts at least a
  microsecond (a shorter one is over at once in this rounding). Get and the three lists of leases
  answer exactly as in memory and change no job. The identifiers stay unique and the keys
  readable. Create is left out: the stores check and default different fields of a new job.
\<close>

theorem sqlite_refines_memory:
  assumes "rows_ok (sq_jobs d)" and "comparable_op op"
    and "memory_run c now op (memory_view d) = (a, s)" and "sqlite_run n rnd c now op d = (b, d')"
  shows "b = round_answer a \<and> map_of (jobs_view d') = map_option round_job \<circ> map_of (js_jobs s)
    \<and> rows_ok (sq_jobs d')
    \<and> (\<forall>q. fst (sqlite_read c now q d) = memory_read c now q (memory_view d)
         \<and> sq_jobs (snd (sqlite_read c now q d)) = sq_jobs d)"
proof -
  note refine = claim_next_refines [OF assms(1)] claim_batch_refines [OF assms(1)] owners_refine [OF assms(1)]
    operators_refine [OF assms(1)]
  have "b = round_answer a \<and> same_jobs d' s"
    using assms(2-4)
    by - (cases op; clarsimp simp: sqlite_answer_def apfst_eq; (drule (2) refine | drule (1) refine);
        simp add: round_answer_def)
  then show ?thesis using sqlite_run_rows_ok [OF assms(1,2), of n rnd c now] assms(4)
    by (simp add: same_jobs_def sqlite_reads [OF assms(1)] sqlite_reads_only)
qed

definition sample_row :: job_row where
  "sample_row =
     \<lparr>jr_id = ''job-1'', jr_sync_id = ''contacts'', jr_delta_id = None, jr_origin = ''manual'',
      jr_projection_type = ''contact'', jr_projection_key = ''{}'', jr_projection_key_hash = ''h'',
      jr_state = ''pending'', jr_attempt_count = 0, jr_max_attempts = 5, jr_last_error = None,
      jr_last_error_code = None, jr_available_at_micros = 3, jr_locked_by = None,
      jr_locked_until_micros = None, jr_ghost_detected = 0, jr_synced_at_micros = None,
      jr_dead_at_micros = None, jr_created_at_micros = 3, jr_updated_at_micros = 3\<rparr>"

definition sample_db :: sql_db where
  "sample_db = (empty_db True)\<lparr>sq_jobs := [sample_row]\<rparr>"

lemma sample_db_ok: "rows_ok (sq_jobs sample_db)"
proof -
  have "json_Unmarshal_key ''{}'' = Inr (Some [])" by code_simp
  then show ?thesis by (simp add: sample_db_def empty_db_def sample_row_def rows_ok_def parses_def)
qed

lemma sqlite_refines_memory_witness:
  "\<exists>a s b d'. memory_run None (timeFromMicros 7 + 5) (Op_ClaimNext ''contacts'' ''w'' 3000) (memory_view sample_db) = (a, s)
     \<and> sqlite_run 5 (Inr []) None (timeFromMicros 7 + 5) (Op_ClaimNext ''contacts'' ''w'' 3000) sample_db = (b, d')
     \<and> b = round_answer a \<and> map_option j_LockedUntil (map_of (jobs_view d') ''job-1'') = Some (Some (timeFromMicros 10))
     \<and> map_of (jobs_view d') = map_option round_job \<circ> map_of (js_jobs s)"
proof -
  let ?op = "Op_ClaimNext ''contacts'' ''w'' 3000" and ?now = "timeFromMicros 7 + 5"
  obtain a s where spec: "memory_run None ?now ?op (memory_view sample_db) = (a, s)" by (rule prod.exhaust)
  obtain b d' where run: "sqlite_run 5 (Inr []) None ?now ?op sample_db = (b, d')" by (rule prod.exhaust)
  have "map_option j_LockedUntil (map_of (jobs_view (snd (sqlite_run 5 (Inr []) None ?now ?op sample_db))) ''job-1'')
    = Some (Some (timeFromMicros 10))" by code_simp
  with sqlite_refines_memory [OF sample_db_ok _ spec run] spec run show ?thesis by auto
qed

end
