(* ===== verification/DF_SqliteSpec.thy ===== *)
theory DF_SqliteSpec
  imports DF_SqliteRefine
begin

text \<open>
  What the SQLite stores keep and promise when any statement may fail. The invariant collects
  what the constraints of the tables enforce; every operation keeps it under every fault
  script. Insertions of a batch and dispatches happen completely or not at all; a dispatch
  gives every pending delta exactly one outbox job; a repeated delta of a window is answered
  with the stored one; and one worker at a time holds the worker lock.
\<close>

section \<open>The invariant\<close>

text \<open>The outbox jobs of a delta, and the deltas with a dedup key.\<close>

definition outbox_jobs :: "DeltaID \<Rightarrow> job_row list \<Rightarrow> job_row list" where
  "outbox_jobs i rs = filter (\<lambda>r. jr_origin r = ''outbox'' \<and> jr_delta_id r = Some i) rs"

definition dedup_rows :: "DedupKey \<Rightarrow> delta_row list \<Rightarrow> delta_row list" where
  "dedup_rows k rs = filter (\<lambda>r. dr_dedup_key r = Some k) rs"

definition deltas_ok :: "delta_row list \<Rightarrow> bool" where
  "deltas_ok rs \<longleftrightarrow> distinct (map dr_id rs) \<and> (\<forall>r \<in> set rs. parses (dr_projection_key r))
     \<and> (\<forall>k. length (dedup_rows k rs) \<le> 1)"

definition jobs_ok :: "job_row list \<Rightarrow> bool" where
  "jobs_ok rs \<longleftrightarrow> rows_ok rs \<and> (\<forall>i. length (outbox_jobs i rs) \<le> 1)"

definition db_ok :: "sql_db \<Rightarrow> bool" where
  "db_ok d \<longleftrightarrow> deltas_ok (sq_deltas d) \<and> jobs_ok (sq_jobs d)"

lemma db_ok_tables [inv_intros]: "table_inv db_ok"
  by (simp add: table_inv_def tables_def db_ok_def)

text \<open>The fields that an update of a row may not touch.\<close>

definition job_key_fields :: "job_row \<Rightarrow> string \<times> string \<times> string option \<times> string" where
  "job_key_fields r = (jr_id r, jr_projection_key r, jr_delta_id r, jr_origin r)"

lemma jobs_ok_map:
  assumes "jobs_ok rs" and "\<And>r. job_key_fields (f r) = job_key_fields r"
  shows "jobs_ok (map f rs)"
proof -
  have sel: "jr_id (f r) = jr_id r" "jr_projection_key (f r) = jr_projection_key r"
    "jr_delta_id (f r) = jr_delta_id r" "jr_origin (f r) = jr_origin r" for r
    using assms(2) [of r] by (simp_all add: job_key_fields_def)
  have "length (outbox_jobs i (map f rs)) = length (outbox_jobs i rs)" for i
    by (simp add: outbox_jobs_def filter_map o_def sel)
  with assms(1) show ?thesis by (simp add: jobs_ok_def rows_ok_map sel)
qed

lemma jobs_ok_add:
  assumes "jobs_ok (sq_jobs d)" and "\<not> outbox_conflict r d" and "jr_id r \<notin> jr_id ` set (sq_jobs d)"
    and "parses (jr_projection_key r)"
  shows "jobs_ok (sq_jobs d @ [r])"
  using assms
  by (auto simp: jobs_ok_def rows_ok_def outbox_jobs_def outbox_conflict_def filter_empty_conv)

lemma insert_job_cases:
  assumes "insert_job_row b r d = (x, d')"
  obtains (failed) e where "x = Inl e" "d' = d"
    | (ignored) "b" "x = Inr False" "outbox_conflict r d" "d' = d"
    | (inserted) "x = Inr True" "\<not> outbox_conflict r d" "jr_id r \<notin> jr_id ` set (sq_jobs d)"
        "d' = d\<lparr>sq_jobs := sq_jobs d @ [r]\<rparr>"
proof -
  from assms have "(\<exists>e. x = Inl e \<and> d' = d) \<or> (b \<and> x = Inr False \<and> outbox_conflict r d \<and> d' = d)
    \<or> (x = Inr True \<and> \<not> outbox_conflict r d \<and> jr_id r \<notin> jr_id ` set (sq_jobs d)
        \<and> d' = d\<lparr>sq_jobs := sq_jobs d @ [r]\<rparr>)"
    by (auto simp: insert_job_row_def split: if_splits)
  with failed ignored inserted show thesis by blast
qed

lemma insert_delta_cases:
  assumes "insert_delta_row r d = (x, d')"
  obtains (failed) e where "x = Inl e" "d' = d"
    | (duplicate) k where "x = Inr 0" "dr_dedup_key r = Some k" "dedup_rows k (sq_deltas d) \<noteq> []" "d' = d"
    | (inserted) "x = Inr 1" "\<forall>k. dr_dedup_key r = Some k \<longrightarrow> dedup_rows k (sq_deltas d) = []"
        "dr_id r \<notin> dr_id ` set (sq_deltas d)" "d' = d\<lparr>sq_deltas := sq_deltas d @ [r]\<rparr>"
proof -
  have known: "dr_dedup_key r \<noteq> None \<and> dr_dedup_key r \<in> set (map dr_dedup_key (sq_deltas d)) \<longleftrightarrow>
      (\<exists>k. dr_dedup_key r = Some k \<and> dedup_rows k (sq_deltas d) \<noteq> [])"
    by (auto simp: dedup_rows_def filter_empty_conv image_iff) metis+
  from assms have "(\<exists>e. x = Inl e \<and> d' = d)
    \<or> (\<exists>k. x = Inr 0 \<and> dr_dedup_key r = Some k \<and> dedup_rows k (sq_deltas d) \<noteq> [] \<and> d' = d)
    \<or> (x = Inr 1 \<and> (\<forall>k. dr_dedup_key r = Some k \<longrightarrow> dedup_rows k (sq_deltas d) = [])
        \<and> dr_id r \<notin> dr_id ` set (sq_deltas d) \<and> d' = d\<lparr>sq_deltas := sq_deltas d @ [r]\<rparr>)"
    unfolding insert_delta_row_def known by (auto split: if_splits)
  with failed duplicate inserted show thesis by blast
qed

section \<open>Every operation keeps it\<close>

lemma keeps_on_error [inv_intros]: "keeps I m \<Longrightarrow> keeps I (on_error m f)"
  by (auto simp: on_error_def keeps_def [of I "on_error m f"] split: prod.split sum.split dest: keepsD)

lemma keeps_insert_job [inv_intros]:
  assumes "parses (jr_projection_key r)"
  shows "keeps db_ok (statement (insert_job_row b r))"
proof (rule keeps_statement [OF db_ok_tables])
  fix d
  assume d: "db_ok d"
  obtain x d' where ins: "insert_job_row b r d = (x, d')" by (rule prod.exhaust)
  then have "db_ok d'"
    using d jobs_ok_add [OF _ _ _ assms, of d] by (cases rule: insert_job_cases) (simp_all add: db_ok_def)
  then show "db_ok (snd (insert_job_row b r d))" by (simp add: ins)
qed

lemma deltas_ok_add:
  assumes "deltas_ok rs" and "dr_id r \<notin> dr_id ` set rs" and "parses (dr_projection_key r)"
    and "\<forall>k. dr_dedup_key r = Some k \<longrightarrow> dedup_rows k rs = []"
  shows "deltas_ok (rs @ [r])"
  using assms by (auto simp: deltas_ok_def dedup_rows_def)

lemma keeps_insert_delta [inv_intros]:
  assumes "parses (dr_projection_key r)"
  shows "keeps db_ok (statement (insert_delta_row r))"
proof (rule keeps_statement [OF db_ok_tables])
  fix d
  assume d: "db_ok d"
  obtain x d' where ins: "insert_delta_row r d = (x, d')" by (rule prod.exhaust)
  then have "db_ok d'"
    using d deltas_ok_add [OF _ _ assms, of "sq_deltas d"]
    by (cases rule: insert_delta_cases) (simp_all add: db_ok_def)
  then show "db_ok (snd (insert_delta_row r d))" by (simp add: ins)
qed

lemma keeps_update_jobs [inv_intros]:
  assumes "\<And>r. job_key_fields (f r) = job_key_fields r"
  shows "keeps db_ok (statement (update_job_rows cond f))"
  by (rule keeps_statement [OF db_ok_tables]) (auto simp: update_job_rows_def db_ok_def assms intro: jobs_ok_map)

lemma keeps_update_deltas [inv_intros]:
  assumes "\<And>r. dr_id (f r) = dr_id r \<and> dr_projection_key (f r) = dr_projection_key r
      \<and> dr_dedup_key (f r) = dr_dedup_key r"
  shows "keeps db_ok (statement (update_delta_rows cond f))"
proof (rule keeps_statement [OF db_ok_tables])
  fix d
  let ?g = "\<lambda>r. if cond r then f r else r"
  assume "db_ok d"
  moreover have "length (dedup_rows k (map ?g rs)) = length (dedup_rows k rs)" for k rs
    by (induction rs) (auto simp: dedup_rows_def assms)
  moreover have "map dr_id (map ?g rs) = map dr_id rs" for rs by (simp add: assms)
  moreover have "(\<forall>r \<in> set (map ?g rs). parses (dr_projection_key r)) = (\<forall>r \<in> set rs. parses (dr_projection_key r))" for rs
    by (simp only: set_map ball_simps) (simp add: assms)
  ultimately show "db_ok (snd (update_delta_rows cond f d))"
    by (simp add: update_delta_rows_def db_ok_def deltas_ok_def del: set_map list.set_map map_map)
qed

lemma marshalled: "json_Marshal_key k = Inr s \<Longrightarrow> parses s"
  using marshal_parses by (simp add: parses_def)

lemma keeps_select [inv_intros]: "keeps db_ok (select_job i)"
  unfolding select_job_def by (intro inv_intros)

lemma keeps_exists [inv_intros]: "keeps db_ok (jobExists c i)"
  unfolding jobExists_def by (intro inv_intros)

lemma keeps_Get [inv_intros]: "keeps db_ok (sqlite_Get c i)"
  unfolding sqlite_Get_def by (intro inv_intros)

lemma keeps_Create [inv_intros]: "keeps db_ok (sqlite_Create n rnd c now job)"
  unfolding sqlite_Create_def
  by (intro inv_intros) (auto simp: job_columns_def dest: marshalled)

lemma keeps_exec_update [inv_intros]:
  "(\<And>r. job_key_fields (f r) = job_key_fields r) \<Longrightarrow> keeps db_ok (exec_update c i cond f e)"
  unfolding exec_update_def by (intro inv_intros)

lemma keeps_owner [inv_intros]:
  "keeps db_ok (sqlite_RenewLease c now i w l)" "keeps db_ok (sqlite_MarkSynced c now i w g)"
  "keeps db_ok (sqlite_MarkRetrying c now i w e t)" "keeps db_ok (sqlite_RequeueClaimed c now i w e t)"
  "keeps db_ok (sqlite_MarkDead c now i w e)" "keeps db_ok (sqlite_ForceReleaseExpiredLease c now i a)"
  "keeps db_ok (sqlite_RequeueExpiredLease c now i t a)"
  unfolding sqlite_RenewLease_def sqlite_MarkSynced_def sqlite_MarkRetrying_def sqlite_RequeueClaimed_def
    sqlite_MarkDead_def sqlite_ForceReleaseExpiredLease_def sqlite_RequeueExpiredLease_def
    sqlite_updateOwned_def updateLeaseOperator_def Let_def
  by (intro inv_intros; simp add: job_key_fields_def unlock_row_def)+

lemma keeps_ClaimNext [inv_intros]: "keeps db_ok (sqlite_ClaimNext c now syncID w l)"
  unfolding sqlite_ClaimNext_def claimCandidateTx_def Let_def
  by (intro inv_intros) (simp add: job_key_fields_def claim_row_def)

lemma requeue_each_ok: "db_ok d \<Longrightarrow> db_ok (requeue_each clock k w jobs e t F d)"
  by (induction jobs arbitrary: d k) (auto simp: keeps_owner [unfolded keeps_def])

lemma keeps_claim_each: "keeps db_ok (claim_each ctxs clock k syncID w l n jobs)"
proof (induction n arbitrary: k jobs)
  case (Suc n)
  have "db_ok (snd (claim_each ctxs clock k syncID w l (Suc n) jobs F d))" if d: "db_ok d" for F d
  proof -
    obtain x d1 where first: "sqlite_ClaimNext (ctxs k) (clock k) syncID w l F d = (x, d1)" by (rule prod.exhaust)
    have "db_ok d1" by (rule keepsD [OF keeps_ClaimNext d first])
    with first Suc.IH show ?thesis
      by (auto simp: keeps_def requeueClaimedBatch_def requeue_each_ok split: sum.split option.split)
  qed
  then show ?case by (simp add: keeps_def)
qed (simp add: keeps_def)

lemma keeps_ClaimNextBatch [inv_intros]: "keeps db_ok (sqlite_ClaimNextBatch ctxs clock syncID w n l)"
  unfolding sqlite_ClaimNextBatch_def by (intro inv_intros keeps_claim_each)

lemma prepared_key: "PrepareDeltaForEnqueue now delta = Inr (d, key, meta) \<Longrightarrow> parses key"
  by (auto simp: PrepareDeltaForEnqueue_def Let_def dest: marshalled split: sum.splits)

lemma delta_columns_key [simp]: "dr_projection_key (delta_columns opt i key meta d) = key"
  by (simp add: delta_columns_def)

lemma keeps_get_delta [inv_intros]: "keeps db_ok (getWithQueryer c i)" "keeps db_ok (sqlite_delta_Get c i)"
  unfolding sqlite_delta_Get_def getWithQueryer_def by (intro inv_intros)+

lemma keeps_select_dedup [inv_intros]: "keeps db_ok (select_dedup k)"
  unfolding select_dedup_def by (rule keeps_statement [OF db_ok_tables]) simp

lemma keeps_enqueue [inv_intros]: "keeps db_ok (sqlite_enqueue rnd c now delta)"
  unfolding sqlite_enqueue_def
  by (intro inv_intros) (auto dest: prepared_key split: prod.split intro!: inv_intros)

lemma prepare_deltas_keys:
  "prepare_deltas rnd clock k deltas = Inr prepared \<Longrightarrow> \<forall>(i, key, meta, d) \<in> set prepared. parses key"
proof (induction deltas arbitrary: k prepared)
  case (Cons x deltas)
  then obtain delta key meta i rest where
    x: "PrepareDeltaForEnqueue (clock k) x = Inr (delta, key, meta)" "newID ''delta'' (d_CreatedAt delta) (rnd k) = Inr i"
      "prepare_deltas rnd clock (Suc k) deltas = Inr rest" "prepared = (i, key, meta, delta) # rest"
    by (auto split: if_splits sum.splits prod.splits)
  with Cons.IH [OF x(3)] prepared_key [OF x(1)] show ?case by simp
qed simp

lemma keeps_insert_deltas [inv_intros]:
  "\<forall>(i, key, meta, d) \<in> set items. parses key \<Longrightarrow> keeps db_ok (insert_deltas items result)"
proof (induction items arbitrary: result)
  case (Cons item items)
  obtain i key meta delta where item: "item = (i, key, meta, delta)" by (metis surj_pair)
  have "keeps db_ok (statement (insert_delta_row (delta_columns Some i key meta delta)))"
    using Cons.prems by (intro inv_intros) (simp add: item)
  then show ?case using Cons by (auto simp: keeps_def item split: prod.split sum.split) (metis snd_conv)+
qed (simp add: keeps_def)

lemma keeps_EnqueueBatch [inv_intros]:
  "keeps db_ok (EnqueueBatchTx h n rnd c clock deltas)" "keeps db_ok (sqlite_EnqueueBatch n rnd c clock deltas)"
  unfolding sqlite_EnqueueBatch_def EnqueueBatchTx_def Let_def
  by (intro inv_intros prepare_deltas_keys; assumption)+

lemma keeps_mark [inv_intros]: "keeps db_ok (markDispatchedTx i at)" "keeps db_ok (sqlite_MarkDispatched c now i)"
  unfolding sqlite_MarkDispatched_def markDispatchedTx_def
  by (intro inv_intros; simp add: dispatched_row_def)+

lemma keeps_dispatch_rows:
  "\<forall>r \<in> set rows. parses (dr_projection_key r) \<Longrightarrow> keeps db_ok (dispatch_rows n rnd now k rows jobs)"
proof (induction rows arbitrary: k jobs)
  case (Cons r rows)
  have "keeps db_ok (createOutboxFromDeltaTx n (rnd k) r now)"
    unfolding createOutboxFromDeltaTx_def Let_def
    by (intro inv_intros) (use Cons.prems in \<open>simp add: outbox_row_def\<close>)
  note made = keepsD [OF this] and marked = keepsD [OF keeps_mark(1)]
  have rest: "keeps db_ok (dispatch_rows n rnd now (Suc k) rows jobs)" for jobs using Cons by simp
  have "db_ok (snd (dispatch_rows n rnd now k (r # rows) jobs F d))" if "db_ok d" for F d
    using that by (auto split: prod.split sum.split dest: made marked intro: keeps_snd [OF rest])
  then show ?case by (simp add: keeps_def)
qed (simp add: keeps_def)

lemma keeps_dispatch [inv_intros]: "keeps db_ok (sqlite_DispatchPending a b s n rnd c now syncID limit)"
proof -
  let ?tx = "sql_bind (query (pending_rows syncID limit)) (\<lambda>pending. dispatch_rows n rnd now 0 pending [])"
  have "db_ok (snd (?tx F d))" if d: "db_ok d" for F d
  proof (cases "query (pending_rows syncID limit) F d")
    case (Pair x d1)
    then have d1: "db_ok d1" using keepsD [OF keeps_query [OF db_ok_tables] d] by blast
    have "parses (dr_projection_key r)" if "x = Inr rows" "r \<in> set rows" for rows r
    proof -
      have "r \<in> set (sq_deltas d)" using Pair that
        by (auto simp: query_def statement_def pending_rows_def Let_def split: option.splits dest!: in_set_takeD)
      with d show ?thesis by (simp add: db_ok_def deltas_ok_def)
    qed
    then show ?thesis using Pair d1 keeps_dispatch_rows
      by (auto simp: sql_bind_def keeps_def split: sum.split)
  qed
  then have tx: "keeps db_ok ?tx" by (simp add: keeps_def)
  show ?thesis unfolding sqlite_DispatchPending_def
    by (intro keeps_case keeps_result keeps_transaction [OF db_ok_tables tx])
qed

lemma keeps_lock: "keeps db_ok (AcquireWorkerLock h now w l)" "keeps db_ok (release_lock w)" "keeps db_ok (RenewWorkerLock h now w l)"
proof -
  have same: "db_ok (d\<lparr>sq_lock := x\<rparr>) = db_ok d" for d x by (simp add: db_ok_def)
  show "keeps db_ok (AcquireWorkerLock h now w l)" "keeps db_ok (release_lock w)" "keeps db_ok (RenewWorkerLock h now w l)"
    unfolding AcquireWorkerLock_def release_lock_def RenewWorkerLock_def
    by (intro inv_intros keeps_statement [OF db_ok_tables]; simp add: upsert_lock_def same split: option.split)+
qed

text \<open>
  The databases that the stores' operations can produce, from an empty one, with any of the
  statements failing.
\<close>

inductive sqlite_reached :: "sql_db \<Rightarrow> bool" where
  empty: "sqlite_reached (empty_db foreign_keys)"
| Create: "sqlite_reached d \<Longrightarrow> sqlite_reached (snd (sqlite_Create n rnd c now job F d))"
| ClaimNext: "sqlite_reached d \<Longrightarrow> sqlite_reached (snd (sqlite_ClaimNext c now syncID w l F d))"
| ClaimNextBatch: "sqlite_reached d \<Longrightarrow> sqlite_reached (snd (sqlite_ClaimNextBatch ctxs clock syncID w limit l F d))"
| RenewLease: "sqlite_reached d \<Longrightarrow> sqlite_reached (snd (sqlite_RenewLease c now i w l F d))"
| MarkSynced: "sqlite_reached d \<Longrightarrow> sqlite_reached (snd (sqlite_MarkSynced c now i w g F d))"
| MarkRetrying: "sqlite_reached d \<Longrightarrow> sqlite_reached (snd (sqlite_MarkRetrying c now i w e t F d))"
| RequeueClaimed: "sqlite_reached d \<Longrightarrow> sqlite_reached (snd (sqlite_RequeueClaimed c now i w e t F d))"
| MarkDead: "sqlite_reached d \<Longrightarrow> sqlite_reached (snd (sqlite_MarkDead c now i w e F d))"
| ForceRelease: "sqlite_reached d \<Longrightarrow> sqlite_reached (snd (sqlite_ForceReleaseExpiredLease c now i a F d))"
| RequeueExpired: "sqlite_reached d \<Longrightarrow> sqlite_reached (snd (sqlite_RequeueExpiredLease c now i t a F d))"
| Enqueue: "sqlite_reached d \<Longrightarrow> sqlite_reached (snd (sqlite_Enqueue rnd c now delta F d))"
| EnqueueBatch: "sqlite_reached d \<Longrightarrow> sqlite_reached (snd (sqlite_EnqueueBatch m rnds c clock deltas F d))"
| MarkDispatched: "sqlite_reached d \<Longrightarrow> sqlite_reached (snd (sqlite_MarkDispatched c now i F d))"
| Dispatch: "sqlite_reached d \<Longrightarrow>
    sqlite_reached (snd (sqlite_DispatchPending a b s n rnds c now syncID limit F d))"
| AcquireLock: "sqlite_reached d \<Longrightarrow> sqlite_reached (snd (AcquireWorkerLock h now w l F d))"
| ReleaseLock: "sqlite_reached d \<Longrightarrow> sqlite_reached (snd (release_lock w F d))"
| RenewLock: "sqlite_reached d \<Longrightarrow> sqlite_reached (snd (RenewWorkerLock h now w l F d))"

lemma sqlite_reached_ok: "sqlite_reached d \<Longrightarrow> db_ok d"
proof (induction rule: sqlite_reached.induct)
  case (empty foreign_keys)
  then show ?case by (simp add: empty_db_def db_ok_def deltas_ok_def jobs_ok_def rows_ok_def outbox_jobs_def dedup_rows_def)
qed (auto simp: sqlite_Enqueue_def intro!: keeps_snd inv_intros keeps_lock)

text \<open>
  C16: Whatever operations ran on a SQLite database, and whichever of their statements failed:
  identifiers are unique in both tables, a delta has at most one outbox job, a dedup key has
  at most one delta, and the projection key of every row can be read back.
\<close>

theorem sqlite_constraints_kept:
  assumes "sqlite_reached d"
  shows "distinct (map jr_id (sq_jobs d)) \<and> distinct (map dr_id (sq_deltas d))
    \<and> (\<forall>i. length (outbox_jobs i (sq_jobs d)) \<le> 1) \<and> (\<forall>k. length (dedup_rows k (sq_deltas d)) \<le> 1)
    \<and> (\<forall>r \<in> set (sq_jobs d). \<exists>j. scanSyncJob (Some r) = Inr (Some j))
    \<and> (\<forall>r \<in> set (sq_deltas d). \<exists>key. json_Unmarshal_key (dr_projection_key r) = Inr key)"
  using sqlite_reached_ok [OF assms] scan_row
  by (simp add: db_ok_def jobs_ok_def deltas_ok_def rows_ok_def parses_def)

lemma sqlite_constraints_kept_witness:
  "\<forall>i. length (outbox_jobs i (sq_jobs (snd (sqlite_Create 5 (Inr []) None 7 sample_job (\<lambda>n. None) (empty_db True))))) \<le> 1"
  using sqlite_constraints_kept [OF sqlite_reached.Create [OF sqlite_reached.empty]] by blast

section \<open>Dispatching\<close>

lemma outbox_jobs_append [simp]: "outbox_jobs i (rs @ ss) = outbox_jobs i rs @ outbox_jobs i ss"
  by (simp add: outbox_jobs_def)

lemma dispatched_row_sel [simp]:
  "dr_id (dispatched_row at r) = dr_id r" "dispatched_row at (dispatched_row at r) = dispatched_row at r"
  by (simp_all add: dispatched_row_def)

definition dispatch_deltas :: "DeltaID set \<Rightarrow> int \<Rightarrow> delta_row list \<Rightarrow> delta_row list" where
  "dispatch_deltas S at rs = map (\<lambda>r. if dr_id r \<in> S then dispatched_row at r else r) rs"

lemma dispatch_deltas_twice [simp]:
  "dispatch_deltas T at (dispatch_deltas S at rs) = dispatch_deltas (S \<union> T) at rs" "dispatch_deltas {} at rs = rs"
  by (simp_all add: dispatch_deltas_def)

text \<open>An outbox job carries what its delta says.\<close>

definition outbox_of :: "delta_row \<Rightarrow> job_row \<Rightarrow> bool" where
  "outbox_of r s \<longleftrightarrow> jr_origin s = ''outbox'' \<and> jr_delta_id s = Some (dr_id r) \<and> jr_state s = ''pending''
     \<and> jr_sync_id s = dr_sync_id r \<and> jr_projection_type s = dr_projection_type r
     \<and> jr_projection_key s = dr_projection_key r \<and> jr_projection_key_hash s = dr_projection_key_hash r"

lemma create_outbox_effect:
  assumes "createOutboxFromDeltaTx n rnd r now F d = (Inr job, d')" and "parses (dr_projection_key r)"
  shows "sq_deltas d' = sq_deltas d \<and> sq_lock d' = sq_lock d \<and> outbox_jobs (dr_id r) (sq_jobs d') \<noteq> []
    \<and> (case job of None \<Rightarrow> sq_jobs d' = sq_jobs d
        | Some j \<Rightarrow> \<exists>s. sq_jobs d' = sq_jobs d @ [s] \<and> outbox_of r s \<and> j = job_view s)"
proof -
  from assms(1) obtain i where i: "newID ''job'' now rnd = Inr i"
    by (auto simp: createOutboxFromDeltaTx_def sql_result_def split: sum.splits)
  let ?row = "outbox_row n i (microsFromTime now) r"
  obtain b d1 where ins: "statement (insert_job_row True ?row) F d = (Inr b, d1)" and d': "d' = d1"
    and job: "scanSyncJob (if b then Some ?row else None) = Inr job"
    using assms(1) i by (auto simp: createOutboxFromDeltaTx_def sql_bind_def sql_result_def Let_def split: prod.splits sum.splits)
  have scan: "scanSyncJob (Some ?row) = Inr (Some (job_view ?row))"
    by (rule scan_row) (use assms(2) in \<open>simp add: outbox_row_def\<close>)
  show ?thesis
    using ins
  proof (cases rule: statement_cases)
    case (run d2)
    from run(2) show ?thesis
    proof (cases rule: insert_job_cases)
      case ignored
      with run(1) d' job show ?thesis
        by (auto simp: tables_def outbox_conflict_def outbox_row_def outbox_jobs_def scanSyncJob_def filter_empty_conv)
    next
      case inserted
      with run(1) d' job scan show ?thesis
        by (auto simp: tables_def outbox_of_def outbox_row_def outbox_jobs_def)
    qed simp
  qed simp
qed

lemma mark_effect:
  assumes "markDispatchedTx i now F d = (Inr u, d')"
  shows "sq_jobs d' = sq_jobs d \<and> sq_lock d' = sq_lock d \<and> sq_deltas d' = dispatch_deltas {i} (microsFromTime now) (sq_deltas d)"
  using assms
  by (auto simp: markDispatchedTx_def sql_bind_def sql_result_def statement_def Let_def update_delta_rows_def
      dispatch_deltas_def split: option.splits if_splits)

lemma dispatch_rows_effect:
  assumes "dispatch_rows n rnd now k rows jobs F d = (Inr js, d')"
    and "\<forall>r \<in> set rows. parses (dr_projection_key r)"
  shows "sq_deltas d' = dispatch_deltas (dr_id ` set rows) (microsFromTime now) (sq_deltas d)
    \<and> (\<forall>r \<in> set rows. outbox_jobs (dr_id r) (sq_jobs d') \<noteq> [])
    \<and> (\<exists>new. sq_jobs d' = sq_jobs d @ new \<and> js = jobs @ map job_view new
          \<and> (\<forall>s \<in> set new. \<exists>r \<in> set rows. outbox_of r s))"
  using assms
proof (induction rows arbitrary: k jobs d)
  case (Cons r rows)
  obtain job d1 where c: "createOutboxFromDeltaTx n (rnd k) r now F d = (Inr job, d1)"
    using Cons.prems(1) by (auto split: prod.splits sum.splits)
  obtain u d2 where m: "markDispatchedTx (dr_id r) now F d1 = (Inr u, d2)"
    using Cons.prems(1) c by (auto split: prod.splits sum.splits)
  let ?jobs = "case job of None \<Rightarrow> jobs | Some j \<Rightarrow> jobs @ [j]"
  have rest: "dispatch_rows n rnd now (Suc k) rows ?jobs F d2 = (Inr js, d')"
    using Cons.prems(1) c m by simp
  note one = create_outbox_effect [OF c] mark_effect [OF m]
  obtain new where new: "sq_jobs d' = sq_jobs d2 @ new" "js = ?jobs @ map job_view new"
      "\<forall>s \<in> set new. \<exists>r \<in> set rows. outbox_of r s"
    and more: "sq_deltas d' = dispatch_deltas (dr_id ` set rows) (microsFromTime now) (sq_deltas d2)"
      "\<forall>r \<in> set rows. outbox_jobs (dr_id r) (sq_jobs d') \<noteq> []"
    using Cons.IH [OF rest] Cons.prems(2) by auto
  have "\<exists>first. sq_jobs d2 = sq_jobs d @ first \<and> ?jobs = jobs @ map job_view first \<and> (\<forall>s \<in> set first. outbox_of r s)"
    using one Cons.prems(2) by (cases job) auto
  then obtain first where first: "sq_jobs d2 = sq_jobs d @ first" "?jobs = jobs @ map job_view first"
    "\<forall>s \<in> set first. outbox_of r s" by blast
  have "outbox_jobs (dr_id r) (sq_jobs d') \<noteq> []"
    using one Cons.prems(2) new(1) by auto
  moreover have "sq_deltas d' = dispatch_deltas (dr_id ` set (r # rows)) (microsFromTime now) (sq_deltas d)"
    using one Cons.prems(2) more(1) by simp
  moreover have "\<exists>new. sq_jobs d' = sq_jobs d @ new \<and> js = jobs @ map job_view new
      \<and> (\<forall>s \<in> set new. \<exists>r \<in> set (r # rows). outbox_of r s)"
    by (rule exI [of _ "first @ new"]) (use first new in auto)
  ultimately show ?case using more(2) by auto
qed simp

lemma dispatch_effect:
  assumes "db_ok d" and "0 < limit"
    and "sqlite_DispatchPending True True True n rnd None now syncID limit F d = (r, d')"
  shows "case r of
      Inl e \<Rightarrow> tables d' = tables d
    | Inr js \<Rightarrow>
        (let rows = pending_rows syncID limit d in
         sq_deltas d' = dispatch_deltas (dr_id ` set rows) (microsFromTime now) (sq_deltas d)
         \<and> (\<forall>r \<in> set rows. length (outbox_jobs (dr_id r) (sq_jobs d')) = 1)
         \<and> (\<exists>new. sq_jobs d' = sq_jobs d @ new \<and> js = map job_view new
               \<and> (\<forall>s \<in> set new. \<exists>r \<in> set rows. outbox_of r s)))"
proof -
  let ?tx = "sql_bind (query (pending_rows syncID limit)) (\<lambda>pending. dispatch_rows n rnd now 0 pending [])"
  have run: "transaction ?tx F d = (r, d')" using assms(2,3) by (simp add: sqlite_DispatchPending_def)
  note ok = assms(1)
  show ?thesis
  proof (cases r)
    case (Inl e)
    with transaction_atomic [of ?tx F d e d'] run show ?thesis by simp
  next
    case (Inr js)
    from run Inr obtain d1 d2 where d1: "tables d1 = tables d" and tx: "?tx F d1 = (Inr js, d2)"
      and d2: "tables d' = tables d2"
      using transaction_done [of ?tx F d js d'] by auto
    let ?rows = "pending_rows syncID limit d"
    let ?d3 = "d1\<lparr>sq_calls := Suc (sq_calls d1)\<rparr>"
    have rows: "dispatch_rows n rnd now 0 ?rows [] F ?d3 = (Inr js, d2)"
      using tx d1 by (auto simp: sql_bind_def query_def statement_def Let_def tables_def pending_rows_def split: option.splits)
    have "\<forall>r \<in> set ?rows. parses (dr_projection_key r)"
      using ok by (auto simp: db_ok_def deltas_ok_def pending_rows_def dest!: in_set_takeD)
    note eff = dispatch_rows_effect [OF rows this]
    have same: "sq_deltas d' = sq_deltas d2" "sq_jobs d' = sq_jobs d2" "sq_deltas d1 = sq_deltas d" "sq_jobs d1 = sq_jobs d"
      using d1 d2 by (simp_all add: tables_def)
    have "db_ok d'" using keeps_snd [OF keeps_dispatch ok, of True True True n rnd None now syncID limit F] assms(3) by simp
    then have one: "length (outbox_jobs i (sq_jobs d')) \<le> 1" for i by (simp add: db_ok_def jobs_ok_def)
    have "length (outbox_jobs (dr_id r) (sq_jobs d')) = 1" if "r \<in> set ?rows" for r
      using eff that one [of "dr_id r"] by (simp add: same le_Suc_eq)
    then show ?thesis using Inr eff by (simp add: Let_def same)
  qed
qed

lemma sqlite_dispatch_jobs_added:
  assumes "db_ok d" and "0 < limit"
    and "sqlite_DispatchPending True True True n rnd None now syncID limit F d = (r, d')"
  shows "\<exists>new. sq_jobs d' = sq_jobs d @ new \<and> (\<forall>q \<in> set new. jr_state q = ''pending'')"
  using dispatch_effect [OF assms]
  by (cases r) (auto simp: tables_def Let_def outbox_of_def)

text \<open>
  C14: A dispatch happens completely or not at all, whichever statement fails: after an error
  no table has changed; otherwise exactly the pulled deltas are dispatched, each of them has
  exactly one outbox job, and the answer lists the jobs that were added, which carry the
  identity of their deltas.
\<close>

theorem sqlite_dispatch_all_or_nothing:
  assumes "db_ok d" and "0 < limit"
    and "sqlite_DispatchPending True True True n rnd None now syncID limit F d = (r, d')"
  shows "case r of
      Inl e \<Rightarrow> tables d' = tables d
    | Inr js \<Rightarrow>
        (let rows = pending_rows syncID limit d in
         sq_deltas d' = dispatch_deltas (dr_id ` set rows) (microsFromTime now) (sq_deltas d)
         \<and> (\<forall>r \<in> set rows. length (outbox_jobs (dr_id r) (sq_jobs d')) = 1)
         \<and> (\<exists>new. sq_jobs d' = sq_jobs d @ new \<and> js = map job_view new
               \<and> (\<forall>s \<in> set new. \<exists>r \<in> set rows. outbox_of r s)))"
  by (rule dispatch_effect [OF assms])

definition sample_delta_row :: delta_row where
  "sample_delta_row =
     \<lparr>dr_id = ''delta-1'', dr_sync_id = ''contacts'', dr_origin = ''updated'', dr_projection_type = ''contact'',
      dr_projection_key = ''{}'', dr_projection_key_hash = ''h'', dr_dedup_window = None, dr_dedup_key = None,
      dr_state = ''pending'', dr_occurred_at_micros = 3, dr_created_at_micros = 3,
      dr_dispatched_at_micros = None, dr_metadata = None\<rparr>"

definition sample_deltas_db :: sql_db where
  "sample_deltas_db = (empty_db True)\<lparr>sq_deltas := [sample_delta_row]\<rparr>"

lemma sample_deltas_db_ok: "db_ok sample_deltas_db"
proof -
  have "json_Unmarshal_key ''{}'' = Inr (Some [])" by code_simp
  then show ?thesis
    by (simp add: sample_deltas_db_def sample_delta_row_def empty_db_def db_ok_def deltas_ok_def jobs_ok_def
        rows_ok_def parses_def outbox_jobs_def dedup_rows_def)
qed

lemma sqlite_dispatch_all_or_nothing_witness:
  "\<exists>js d'. sqlite_DispatchPending True True True 5 (\<lambda>k. Inr []) None (timeFromMicros 7) ''contacts'' 3 no_faults sample_deltas_db
       = (Inr js, d')
     \<and> length js = 1 \<and> length (outbox_jobs ''delta-1'' (sq_jobs d')) = 1"
proof -
  let ?call = "sqlite_DispatchPending True True True 5 (\<lambda>k. Inr []) None (timeFromMicros 7) ''contacts'' 3 no_faults sample_deltas_db"
  have answer: "case fst ?call of Inl e \<Rightarrow> False | Inr js \<Rightarrow> length js = 1" by code_simp
  moreover obtain r d' where run: "?call = (r, d')" by (rule prod.exhaust)
  ultimately obtain js where r: "r = Inr js" and js: "length js = 1" by (auto split: sum.splits)
  have "map dr_id (pending_rows ''contacts'' 3 sample_deltas_db) = [''delta-1'']" by code_simp
  then have "\<exists>r \<in> set (pending_rows ''contacts'' 3 sample_deltas_db). dr_id r = ''delta-1''" by (auto simp: map_eq_Cons_conv)
  with sqlite_dispatch_all_or_nothing [OF sample_deltas_db_ok _ run] js run r show ?thesis by (auto simp: Let_def)
qed

section \<open>Enqueueing\<close>

lemma insert_deltas_effect:
  assumes "insert_deltas items res F d = (Inr res', d')"
  shows "\<exists>new. sq_deltas d' = sq_deltas d @ new \<and> sq_jobs d' = sq_jobs d \<and> sq_lock d' = sq_lock d
     \<and> InsertedCount res' = InsertedCount res + length new
     \<and> InsertedCount res' + DuplicateCount res' = InsertedCount res + DuplicateCount res + length items
     \<and> RequestedCount res' = RequestedCount res \<and> BatchDedupWindow res' = BatchDedupWindow res
     \<and> set new \<subseteq> (\<lambda>(i, key, meta, delta). delta_columns Some i key meta delta) ` set items
     \<and> (\<forall>(i, key, meta, delta) \<in> set items. dedup_rows (d_DedupKey delta) (sq_deltas d') \<noteq> [])"
  using assms
proof (induction items arbitrary: res d)
  case (Cons item items)
  obtain i key meta delta where item: "item = (i, key, meta, delta)" by (metis surj_pair)
  let ?row = "delta_columns Some i key meta delta"
  obtain k d1 where ins: "statement (insert_delta_row ?row) F d = (Inr k, d1)"
    using Cons.prems item by (auto split: prod.splits sum.splits)
  let ?res = "if k = 1 then res\<lparr>InsertedCount := Suc (InsertedCount res)\<rparr>
     else res\<lparr>DuplicateCount := Suc (DuplicateCount res)\<rparr>"
  have rest: "insert_deltas items ?res F d1 = (Inr res', d')" using Cons.prems item ins by simp
  have one: "\<exists>new1. sq_deltas d1 = sq_deltas d @ new1 \<and> sq_jobs d1 = sq_jobs d \<and> sq_lock d1 = sq_lock d
      \<and> InsertedCount ?res = InsertedCount res + length new1 \<and> set new1 \<subseteq> {?row}
      \<and> dedup_rows (d_DedupKey delta) (sq_deltas d1) \<noteq> []"
    using ins
  proof (cases rule: statement_cases)
    case (run d2)
    from run(2) show ?thesis
    proof (cases rule: insert_delta_cases)
      case (duplicate k')
      with run(1) show ?thesis by (auto simp: tables_def delta_columns_def)
    next
      case inserted
      with run(1) show ?thesis by (auto simp: tables_def delta_columns_def dedup_rows_def)
    qed simp
  qed simp
  obtain new1 where one: "sq_deltas d1 = sq_deltas d @ new1" "sq_jobs d1 = sq_jobs d" "sq_lock d1 = sq_lock d"
      "InsertedCount ?res = InsertedCount res + length new1" "set new1 \<subseteq> {?row}"
      "dedup_rows (d_DedupKey delta) (sq_deltas d1) \<noteq> []"
    using one by blast
  obtain new2 where two: "sq_deltas d' = sq_deltas d1 @ new2" "sq_jobs d' = sq_jobs d1" "sq_lock d' = sq_lock d1"
      "InsertedCount res' = InsertedCount ?res + length new2"
      "InsertedCount res' + DuplicateCount res' = InsertedCount ?res + DuplicateCount ?res + length items"
      "RequestedCount res' = RequestedCount ?res" "BatchDedupWindow res' = BatchDedupWindow ?res"
      "set new2 \<subseteq> (\<lambda>(i, key, meta, delta). delta_columns Some i key meta delta) ` set items"
      "\<forall>(i, key, meta, delta) \<in> set items. dedup_rows (d_DedupKey delta) (sq_deltas d') \<noteq> []"
    using Cons.IH [OF rest] by blast
  have "dedup_rows (d_DedupKey delta) (sq_deltas d') \<noteq> []"
    using one(6) two(1) by (simp add: dedup_rows_def)
  then show ?case using one two item
    by (intro exI [of _ "new1 @ new2"]) (auto split: if_splits)
qed simp

lemma prepared_delta:
  assumes "PrepareDeltaForEnqueue now x = Inr (delta, key, meta)" and "d_DedupWindow x \<noteq> []"
  shows "\<exists>h. projectionKeyHash (d_ProjectionKey x) = Inr h
    \<and> d_DedupKey delta = ComputeDedupKey (d_DedupWindow x) (d_ProjectionType x) h"
  using assms by (auto simp: PrepareDeltaForEnqueue_def Let_def split: sum.splits)

lemma prepare_deltas_items:
  assumes "prepare_deltas rnd clock k deltas = Inr prepared" and "\<forall>x \<in> set deltas. d_DedupWindow x \<noteq> []"
  shows "length prepared = length deltas \<and> (\<forall>x \<in> set deltas. \<exists>h. projectionKeyHash (d_ProjectionKey x) = Inr h
    \<and> (\<exists>(i, key, meta, delta) \<in> set prepared.
          d_DedupKey delta = ComputeDedupKey (d_DedupWindow x) (d_ProjectionType x) h))"
  using assms
proof (induction deltas arbitrary: k prepared)
  case (Cons x deltas)
  obtain delta key meta where p: "PrepareDeltaForEnqueue (clock k) x = Inr (delta, key, meta)"
    using Cons.prems(1) by (auto split: if_splits sum.splits prod.splits)
  obtain i rest where rest: "prepare_deltas rnd clock (Suc k) deltas = Inr rest" "prepared = (i, key, meta, delta) # rest"
    using Cons.prems(1) p by (auto split: if_splits sum.splits)
  from Cons.IH [OF rest(1)] Cons.prems(2) prepared_delta [OF p] show ?case
    by (fastforce simp: rest(2))
qed simp

lemma same_window_all: "same_window w deltas = Inr v \<Longrightarrow> v = w \<and> (\<forall>x \<in> set deltas. d_DedupWindow x = w)"
  by (induction deltas) (auto split: if_splits)

lemma validated:
  "base_ValidateEnqueueBatch m c deltas = Inr w \<Longrightarrow> \<forall>x \<in> set deltas. d_DedupWindow x = w \<and> w \<noteq> []"
  by (auto simp: base_ValidateEnqueueBatch_def split: option.splits if_splits list.splits dest: same_window_all)

text \<open>
  A batch of deltas is inserted completely or not at all, whichever statement fails:
  after an error no table has changed; otherwise every delta of the batch has exactly one row
  with its dedup key, old or new, the deltas stored before are untouched, and the counts add
  up to the size of the batch.
\<close>

theorem sqlite_batch_all_or_nothing:
  assumes "db_ok d" and "sqlite_EnqueueBatch m rnd c clock deltas F d = (r, d')"
  shows "case r of
      Inl e \<Rightarrow> tables d' = tables d
    | Inr res \<Rightarrow> (\<exists>new. sq_deltas d' = sq_deltas d @ new \<and> sq_jobs d' = sq_jobs d \<and> length new = InsertedCount res)
        \<and> InsertedCount res + DuplicateCount res = length deltas \<and> RequestedCount res = length deltas
        \<and> (\<forall>x \<in> set deltas. \<exists>h. projectionKeyHash (d_ProjectionKey x) = Inr h
             \<and> length (dedup_rows (ComputeDedupKey (BatchDedupWindow res) (d_ProjectionType x) h) (sq_deltas d')) = 1)"
proof (cases r)
  case (Inl e)
  with assms(2) transaction_atomic [of "EnqueueBatchTx True m rnd c clock deltas" F d e d'] show ?thesis
    by (simp add: sqlite_EnqueueBatch_def)
next
  case (Inr res)
  let ?tx = "EnqueueBatchTx True m rnd c clock deltas"
  from assms(2) Inr obtain d1 d2 where d1: "tables d1 = tables d" and tx: "?tx F d1 = (Inr res, d2)"
    and d2: "tables d' = tables d2"
    using transaction_done [of ?tx F d res d'] by (auto simp: sqlite_EnqueueBatch_def)
  obtain w where w: "base_ValidateEnqueueBatch m c deltas = Inr w"
    using tx by (auto simp: EnqueueBatchTx_def sql_result_def split: sum.splits)
  have windows: "\<forall>x \<in> set deltas. d_DedupWindow x = w \<and> w \<noteq> []" by (rule validated [OF w])
  show ?thesis
  proof (cases "deltas = []")
    case True
    with tx w d1 d2 Inr show ?thesis by (auto simp: EnqueueBatchTx_def sql_result_def Let_def tables_def)
  next
    case False
    let ?res = "\<lparr>RequestedCount = length deltas, InsertedCount = 0, DuplicateCount = 0, BatchDedupWindow = w\<rparr>"
    obtain prepared where p: "prepare_deltas rnd clock 0 deltas = Inr prepared"
      using tx w False by (auto simp: EnqueueBatchTx_def sql_result_def Let_def split: sum.splits)
    from tx w False p obtain d3 where d3: "tables d3 = tables d1" and ins: "insert_deltas prepared ?res F d3 = (Inr res, d2)"
      by (auto simp: EnqueueBatchTx_def sql_bind_def Let_def split: prod.splits sum.splits dest!: query_tables)
    have items: "length prepared = length deltas" "\<forall>x \<in> set deltas. \<exists>h. projectionKeyHash (d_ProjectionKey x) = Inr h
        \<and> (\<exists>(i, key, meta, delta) \<in> set prepared. d_DedupKey delta = ComputeDedupKey w (d_ProjectionType x) h)"
      using prepare_deltas_items [OF p] windows by auto
    have same: "sq_deltas d' = sq_deltas d2" "sq_jobs d' = sq_jobs d2" "sq_deltas d3 = sq_deltas d" "sq_jobs d3 = sq_jobs d"
      using d1 d2 d3 by (simp_all add: tables_def)
    have "db_ok d'" using keeps_snd [OF keeps_EnqueueBatch(2) assms(1), of m rnd c clock deltas F] assms(2) by simp
    then have one: "dedup_rows k (sq_deltas d') \<noteq> [] \<Longrightarrow> length (dedup_rows k (sq_deltas d')) = 1" for k
      by (metis One_nat_def db_ok_def deltas_ok_def le_Suc_eq le_zero_eq length_0_conv)
    obtain new where new: "sq_deltas d' = sq_deltas d @ new" "sq_jobs d' = sq_jobs d" "InsertedCount res = length new"
        "InsertedCount res + DuplicateCount res = length prepared" "RequestedCount res = length deltas"
        "BatchDedupWindow res = w"
        "\<forall>(i, key, meta, delta) \<in> set prepared. dedup_rows (d_DedupKey delta) (sq_deltas d') \<noteq> []"
      using insert_deltas_effect [OF ins] by (auto simp: same)
    have "\<exists>h. projectionKeyHash (d_ProjectionKey x) = Inr h
        \<and> length (dedup_rows (ComputeDedupKey w (d_ProjectionType x) h) (sq_deltas d')) = 1" if x: "x \<in> set deltas" for x
      using items(2) x new(7) one by fastforce
    then show ?thesis using new items(1) Inr by auto
  qed
qed

definition sample_prepared :: "time \<Rightarrow> delta" where
  "sample_prepared now = sample_delta\<lparr>d_State := DeltaPending, d_OccurredAt := now, d_CreatedAt := now,
     d_ProjectionKeyHash := sample_hash, d_DedupKey := ComputeDedupKey ''w1'' ''Contact'' sample_hash\<rparr>"

lemma sample_prepare:
  "PrepareDeltaForEnqueue now sample_delta = Inr (sample_prepared now, ''{\"id\":42}'', ''null'')"
proof -
  have "json_Marshal_key sample_key = Inr ''{\"id\":42}''" by code_simp
  then show ?thesis
    by (simp add: PrepareDeltaForEnqueue_def sample_prepared_def json_Marshal_metadata_def)
      (simp add: sample_delta_def sample_prepared_def)
qed

lemma sample_prepared_sel [simp]:
  "d_DedupKey (sample_prepared now) = ComputeDedupKey ''w1'' ''Contact'' sample_hash"
  "d_State (sample_prepared now) = ''pending''" "d_CreatedAt (sample_prepared now) = now"
  "d_DedupWindow (sample_prepared now) = ''w1''"
  by (simp_all add: sample_prepared_def sample_delta_def const_defs)

lemma sqlite_batch_all_or_nothing_witness:
  "\<exists>res d'. sqlite_EnqueueBatch 10 (\<lambda>k. Inr []) None (\<lambda>k. 7) [sample_delta, sample_delta] no_faults (empty_db True) = (Inr res, d')
     \<and> InsertedCount res = 1 \<and> DuplicateCount res = 1
     \<and> length (dedup_rows (ComputeDedupKey (BatchDedupWindow res) ''Contact'' sample_hash) (sq_deltas d')) = 1"
proof -
  let ?call = "sqlite_EnqueueBatch 10 (\<lambda>k. Inr []) None (\<lambda>k. 7) [sample_delta, sample_delta] no_faults (empty_db True)"
  have ok: "db_ok (empty_db True)" by (rule sqlite_reached_ok [OF sqlite_reached.empty])
  have "fst ?call = Inr \<lparr>RequestedCount = 2, InsertedCount = 1, DuplicateCount = 1, BatchDedupWindow = ''w1''\<rparr>"
    by (simp add: sqlite_EnqueueBatch_def transaction_def EnqueueBatchTx_def base_ValidateEnqueueBatch_def sample_prepare
        newID_def sql_bind_def insert_delta_row_def delta_row_ok_def delta_columns_def empty_db_def Let_def)
  then obtain d' where run: "?call = (Inr \<lparr>RequestedCount = 2, InsertedCount = 1, DuplicateCount = 1, BatchDedupWindow = ''w1''\<rparr>, d')"
    by (metis prod.collapse)
  from sqlite_batch_all_or_nothing [OF ok run] run show ?thesis by auto
qed

text \<open>A row is found by its dedup key and by its identifier.\<close>

lemma dedup_found:
  assumes "deltas_ok rs" and "r \<in> set rs" and "dr_dedup_key r = Some k"
  shows "find (\<lambda>r. dr_dedup_key r = Some k) rs = Some r" and "find_row dr_id (dr_id r) rs = Some r"
proof -
  obtain s where s: "find (\<lambda>r. dr_dedup_key r = Some k) rs = Some s"
    using assms(2,3) by (cases "find (\<lambda>r. dr_dedup_key r = Some k) rs") (auto simp: find_None_iff)
  then have "s \<in> set (dedup_rows k rs)" "r \<in> set (dedup_rows k rs)"
    using assms(2,3) by (auto simp: dedup_rows_def find_Some_iff)
  moreover have "length (dedup_rows k rs) \<le> 1" using assms(1) by (simp add: deltas_ok_def)
  ultimately have "s = r" by (cases "dedup_rows k rs") auto
  with s show "find (\<lambda>r. dr_dedup_key r = Some k) rs = Some r" by simp
  show "find_row dr_id (dr_id r) rs = Some r"
    using assms(1,2) by (intro find_row_distinct) (simp_all add: deltas_ok_def)
qed

text \<open>
  What an insertion with a dedup key does when no statement fails: it answers with the row
  that has the key, an old one or the one it adds.
\<close>

definition insert_by_key :: "delta_row \<Rightarrow> delta_row list \<Rightarrow> delta_row list" where
  "insert_by_key r rs = (if dr_dedup_key r \<in> set (map dr_dedup_key rs) then rs else rs @ [r])"

lemma enqueue_by_key:
  assumes "db_ok d" and p: "PrepareDeltaForEnqueue now x = Inr (delta, key, meta)"
    and i: "newID ''delta'' (d_CreatedAt delta) rnd = Inr i" and "d_ID x = []" and "d_DedupWindow x \<noteq> []"
    and "delta_row_ok r" and r: "r = delta_columns nullif_empty i key meta delta"
    and fresh: "dr_dedup_key r \<notin> set (map dr_dedup_key (sq_deltas d)) \<Longrightarrow> i \<notin> dr_id ` set (sq_deltas d)"
    and run: "sqlite_Enqueue rnd None now x no_faults d = (y, d')"
  shows "sq_deltas d' = insert_by_key r (sq_deltas d)" and "sq_jobs d' = sq_jobs d" and "sq_lock d' = sq_lock d"
    and "\<exists>s \<in> set (sq_deltas d'). dr_dedup_key s = dr_dedup_key r \<and> y = scanDelta s"
proof -
  obtain h where k: "d_DedupKey delta = ComputeDedupKey (d_DedupWindow x) (d_ProjectionType x) h"
    using prepared_delta [OF p assms(5)] by blast
  have rk: "dr_dedup_key r = Some (d_DedupKey delta)" "dr_id r = i"
    by (simp_all add: r delta_columns_def nullif_empty_def k)
  have ok': "deltas_ok (sq_deltas d')"
    using keeps_snd [OF keeps_enqueue assms(1), of rnd None now x no_faults] run
    by (simp add: sqlite_Enqueue_def db_ok_def)
  have "sq_deltas d' = insert_by_key r (sq_deltas d) \<and> sq_jobs d' = sq_jobs d \<and> sq_lock d' = sq_lock d
    \<and> (\<exists>s \<in> set (sq_deltas d'). dr_dedup_key s = dr_dedup_key r \<and> y = scanDelta s)"
  proof (cases "dr_dedup_key r \<in> set (map dr_dedup_key (sq_deltas d))")
    case True
    then obtain s where s: "s \<in> set (sq_deltas d)" "dr_dedup_key s = Some (d_DedupKey delta)"
      by (auto simp: rk)
    have "deltas_ok (sq_deltas d)" using assms(1) by (simp add: db_ok_def)
    note found = dedup_found [OF this s]
    have hit: "Some (d_DedupKey delta) \<in> dr_dedup_key ` set (sq_deltas d)" using s by (metis imageI)
    have "sq_deltas d' = sq_deltas d \<and> sq_jobs d' = sq_jobs d \<and> sq_lock d' = sq_lock d \<and> y = scanDelta s"
      using run
      by (cases "scanDelta s")
        (auto simp: sqlite_Enqueue_def sqlite_enqueue_def assms(4,6) p i r [symmetric] sql_bind_def
          insert_delta_row_def rk hit select_dedup_def found k [symmetric] getWithQueryer_def sql_result_def
          ComputeDedupKey_nonempty [of "d_DedupWindow x" "d_ProjectionType x" h, folded k])
    then show ?thesis using s by (auto simp: insert_by_key_def rk hit)
  next
    case False
    with fresh have new: "i \<notin> dr_id ` set (sq_deltas d)" by simp
    then have found: "find_row dr_id i (sq_deltas d @ [r]) = Some r"
      by (simp add: find_row_append find_row_None [THEN iffD2] rk)
    show ?thesis using run False new found rk
      by (auto simp: sqlite_Enqueue_def sqlite_enqueue_def assms(4,6) p i r [symmetric] sql_bind_def insert_delta_row_def
          insert_by_key_def k getWithQueryer_def sql_result_def split: sum.splits)
  qed
  then show "sq_deltas d' = insert_by_key r (sq_deltas d)" and "sq_jobs d' = sq_jobs d" and "sq_lock d' = sq_lock d"
    and "\<exists>s \<in> set (sq_deltas d'). dr_dedup_key s = dr_dedup_key r \<and> y = scanDelta s" by blast+
qed

text \<open>An enqueue that answers got past every check.\<close>

lemma insert_delta_accepts:
  "fst (insert_delta_row r d) = Inr n \<Longrightarrow> delta_row_ok r
    \<and> (dr_dedup_key r \<notin> set (map dr_dedup_key (sq_deltas d)) \<longrightarrow> dr_id r \<notin> dr_id ` set (sq_deltas d))"
  by (auto simp: insert_delta_row_def split: if_splits)

lemma enqueue_passed:
  assumes "sqlite_Enqueue rnd None now x no_faults d = (Inr y, d')"
  shows "\<exists>delta key meta i. d_ID x = [] \<and> PrepareDeltaForEnqueue now x = Inr (delta, key, meta)
    \<and> newID ''delta'' (d_CreatedAt delta) rnd = Inr i
    \<and> (let r = delta_columns nullif_empty i key meta delta in delta_row_ok r
         \<and> (dr_dedup_key r \<notin> set (map dr_dedup_key (sq_deltas d)) \<longrightarrow> i \<notin> dr_id ` set (sq_deltas d)))"
proof -
  obtain delta key meta i where p: "d_ID x = []" "PrepareDeltaForEnqueue now x = Inr (delta, key, meta)"
      "newID ''delta'' (d_CreatedAt delta) rnd = Inr i"
    using assms by (auto simp: sqlite_Enqueue_def sqlite_enqueue_def sql_result_def split: if_splits sum.splits)
  let ?r = "delta_columns nullif_empty i key meta delta"
  obtain n where "fst (insert_delta_row ?r (d\<lparr>sq_calls := Suc (sq_calls d)\<rparr>)) = Inr n"
    using assms p by (auto simp: sqlite_Enqueue_def sqlite_enqueue_def sql_bind_def split: prod.splits sum.splits)
  from insert_delta_accepts [OF this]
  have "delta_row_ok ?r \<and> (dr_dedup_key ?r \<notin> set (map dr_dedup_key (sq_deltas d)) \<longrightarrow> i \<notin> dr_id ` set (sq_deltas d))"
    by (simp add: delta_columns_def)
  with p show ?thesis by (auto simp: Let_def)
qed

text \<open>
  Producers may repeat themselves: once a delta with a dedup window is stored, enqueueing
  any delta of the same window, projection type and key answers with the stored delta and
  changes no table.
\<close>

theorem sqlite_enqueue_repeated:
  assumes "db_ok d" and first: "sqlite_Enqueue rnd None now x no_faults d = (Inr y, d1)"
    and again: "sqlite_Enqueue (Inr b) None later x' no_faults d1 = (z, d2)"
    and "d_DedupWindow x \<noteq> []" and "d_DedupWindow x' = d_DedupWindow x" and "d_ProjectionType x' = d_ProjectionType x"
    and "projectionKeyHash (d_ProjectionKey x') = projectionKeyHash (d_ProjectionKey x)"
    and "d_ID x' = []" and "d_State x' = []"
  shows "z = Inr y \<and> tables d2 = tables d1"
proof -
  obtain delta key meta i r where p: "d_ID x = []" "PrepareDeltaForEnqueue now x = Inr (delta, key, meta)"
      "newID ''delta'' (d_CreatedAt delta) rnd = Inr i" "r = delta_columns nullif_empty i key meta delta" "delta_row_ok r"
      "dr_dedup_key r \<notin> set (map dr_dedup_key (sq_deltas d)) \<longrightarrow> i \<notin> dr_id ` set (sq_deltas d)"
    using enqueue_passed [OF first] unfolding Let_def by blast
  obtain h where h: "projectionKeyHash (d_ProjectionKey x) = Inr h"
    and k: "d_DedupKey delta = ComputeDedupKey (d_DedupWindow x) (d_ProjectionType x) h"
    using prepared_delta [OF p(2) assms(4)] by blast
  note one = enqueue_by_key [OF assms(1) p(2,3,1) assms(4) p(5,4) _ first]
  obtain s where s: "s \<in> set (sq_deltas d1)" "dr_dedup_key s = dr_dedup_key r" "Inr y = scanDelta s"
    using one(4) p(6) by blast
  have ok: "db_ok d1" using keeps_snd [OF keeps_enqueue assms(1), of rnd None now x no_faults] first
    by (simp add: sqlite_Enqueue_def)
  obtain key' where "json_Marshal_key (d_ProjectionKey x') = Inr key'"
    using h assms(7) by (auto simp: projectionKeyHash_def split: sum.splits)
  then obtain delta' meta' where p': "PrepareDeltaForEnqueue later x' = Inr (delta', key', meta')"
      "d_State delta' = DeltaPending" "d_DedupKey delta' = d_DedupKey delta"
    using h assms(4-9) k by (auto simp: PrepareDeltaForEnqueue_def Let_def)
  obtain i' where i': "newID ''delta'' (d_CreatedAt delta') (Inr b) = Inr i'" by (simp add: newID_def)
  let ?r' = "delta_columns nullif_empty i' key' meta' delta'"
  have r': "delta_row_ok ?r'" "dr_dedup_key ?r' = dr_dedup_key r"
    using p' p(4) by (simp_all add: delta_columns_def delta_row_ok_def const_defs)
  have known: "dr_dedup_key ?r' \<in> set (map dr_dedup_key (sq_deltas d1))"
    using s r'(2) by (metis image_eqI set_map)
  have window: "d_DedupWindow x' \<noteq> []" using assms(4,5) by simp
  note two = enqueue_by_key [OF ok p'(1) i' assms(8) window r'(1) refl _ again]
  have same: "sq_deltas d2 = sq_deltas d1" using two(1) known by (simp add: insert_by_key_def del: set_map list.set_map)
  obtain s' where s': "s' \<in> set (sq_deltas d1)" "dr_dedup_key s' = dr_dedup_key r" "z = scanDelta s'"
    using two(4) known same r'(2) by auto
  have "dr_dedup_key r = Some (d_DedupKey delta)" by (simp add: p(4) delta_columns_def nullif_empty_def k)
  moreover have "deltas_ok (sq_deltas d1)" using ok by (simp add: db_ok_def)
  ultimately have "s' = s" using dedup_found(1) s s' by (metis option.inject)
  then show ?thesis using s(3) s'(3) same two(2,3) known by (simp add: tables_def)
qed

lemma sqlite_enqueue_repeated_witness:
  "\<exists>y d1 d2. sqlite_Enqueue (Inr []) None 7 sample_delta no_faults (empty_db True) = (Inr y, d1)
     \<and> sqlite_Enqueue (Inr ''x'') None 9 sample_delta no_faults d1 = (Inr y, d2) \<and> tables d2 = tables d1"
proof -
  let ?call = "sqlite_Enqueue (Inr []) None 7 sample_delta no_faults (empty_db True)"
  have ok: "db_ok (empty_db True)" by (rule sqlite_reached_ok [OF sqlite_reached.empty])
  have key: "json_Unmarshal_key ''{\"id\":42}'' = Inr (Some [(''id'', Some ''42'')])" by code_simp
  have "\<exists>y. fst ?call = Inr y"
    by (simp add: sqlite_Enqueue_def sqlite_enqueue_def sample_prepare newID_def sql_bind_def insert_delta_row_def
        delta_row_ok_def delta_columns_def empty_db_def getWithQueryer_def scanDelta_def scan_metadata_def key sql_result_def)
  then obtain y d1 where first: "?call = (Inr y, d1)" by (metis prod.collapse)
  obtain z d2 where again: "sqlite_Enqueue (Inr ''x'') None 9 sample_delta no_faults d1 = (z, d2)" by (rule prod.exhaust)
  from sqlite_enqueue_repeated [OF ok first again] first again show ?thesis by simp
qed

section \<open>The worker lock\<close>

datatype lock_call =
    Call_Acquire time string duration
  | Call_Release string
  | Call_Renew time string duration

fun lock_do :: "lock_call \<Rightarrow> faults \<Rightarrow> sql_db \<Rightarrow> sql_db" where
  "lock_do (Call_Acquire now w l) F d = snd (AcquireWorkerLock True now w l F d)"
| "lock_do (Call_Release w) F d = snd (release_lock w F d)"
| "lock_do (Call_Renew now w l) F d = snd (RenewWorkerLock True now w l F d)"

text \<open>A call that another worker makes before an instant.\<close>

fun foreign_call :: "string \<Rightarrow> int \<Rightarrow> lock_call \<Rightarrow> bool" where
  "foreign_call w u (Call_Acquire now v l) \<longleftrightarrow> v \<noteq> w \<and> microsFromTime now < u"
| "foreign_call w u (Call_Release v) \<longleftrightarrow> v \<noteq> w"
| "foreign_call w u (Call_Renew now v l) \<longleftrightarrow> v \<noteq> w"

lemma foreign_call_keeps:
  assumes "sq_lock d = Some row" and "foreign_call (lr_worker_id row) (lr_expires_at_micros row) call"
  shows "sq_lock (lock_do call F d) = Some row"
  using assms
  by (cases call)
    (auto simp: AcquireWorkerLock_def release_lock_def RenewWorkerLock_def sql_bind_def sql_result_def statement_def
      upsert_lock_def Let_def split: option.splits prod.splits sum.splits if_splits)

text \<open>
  C15: One worker at a time: from the moment a worker has the lock to the end of its lease,
  whatever other workers call in any order, and whichever of their statements fail, the lock
  stays with the worker, another worker's attempt to take or to renew it is refused with its
  own error, and the worker itself can renew it.
\<close>

theorem worker_lock_is_exclusive:
  assumes "AcquireWorkerLock True now w l F d = (Inr (), d1)"
    and "list_all (\<lambda>(call, F). foreign_call w (microsFromTime (now + l)) call) calls"
    and "microsFromTime t < microsFromTime (now + l)" and "0 < l'" and "v \<noteq> []" and "v \<noteq> w"
  shows "let d2 = foldl (\<lambda>d (call, F). lock_do call F d) d1 calls in
      map_option lr_worker_id (sq_lock d2) = Some w
      \<and> fst (AcquireWorkerLock True t v l' no_faults d2) = Inl ErrWorkerAlreadyRunning
      \<and> fst (RenewWorkerLock True t v l' no_faults d2) = Inl ErrWorkerLockNotOwned
      \<and> fst (RenewWorkerLock True t w l' no_faults d2) = Inr ()"
proof -
  have w: "w \<noteq> []" using assms(1) by (auto simp: AcquireWorkerLock_def lock_arguments_def sql_result_def split: if_splits)
  obtain row where row: "sq_lock d1 = Some row" "lr_worker_id row = w" "lr_expires_at_micros row = microsFromTime (now + l)"
    using assms(1)
    by (auto simp: AcquireWorkerLock_def sql_bind_def sql_result_def statement_def upsert_lock_def Let_def
        split: option.splits prod.splits sum.splits if_splits)
  have "sq_lock (foldl (\<lambda>d (call, F). lock_do call F d) d1 calls) = Some row"
    using row assms(2)
    by (induction calls arbitrary: d1) (auto simp: foreign_call_keeps)
  then show ?thesis using row assms(3-6) w
    by (simp add: Let_def AcquireWorkerLock_def RenewWorkerLock_def lock_arguments_def sql_bind_def sql_result_def upsert_lock_def)
qed

lemma worker_lock_is_exclusive_witness:
  "\<exists>d1. AcquireWorkerLock True (timeFromMicros 5) ''a'' 9000 no_faults (empty_db True) = (Inr (), d1)
     \<and> fst (AcquireWorkerLock True (timeFromMicros 8) ''b'' 1000 no_faults
          (lock_do (Call_Release ''b'') no_faults d1)) = Inl ErrWorkerAlreadyRunning"
proof -
  let ?call = "AcquireWorkerLock True (timeFromMicros 5) ''a'' 9000 no_faults (empty_db True)"
  have "fst ?call = Inr ()" by code_simp
  then obtain d1 where run: "?call = (Inr (), d1)" by (metis prod.collapse)
  have "microsFromTime (timeFromMicros 5 + 9000) = 14" by code_simp
  with worker_lock_is_exclusive [OF run, of "[(Call_Release ''b'', no_faults)]" "timeFromMicros 8" 1000 "''b''"] run
  show ?thesis by (simp add: Let_def)
qed

end
