(* ===== verification/DF_SqliteWorker.thy ===== *)
theory DF_SqliteWorker
  imports DF_SqliteSpec DF_WorkerRun
begin

text \<open>
  The worker on the SQLite stores: the stores' operations as a provider of the worker's
  interface, the interpretation of the store contract on them, and what a worker cycle leaves
  in the database.
\<close>

section \<open>The provider\<close>

text \<open>
  The random source is indexed by the number of statements so far and, within a dispatch, by
  the delta. A batch claim reads the clock and its context once here: its loop makes its
  claims without other calls in between. The statements do not fail here; what a store call does
  when one fails is stated of the operations themselves in DF_SqliteSpec. A worker whose mark
  of a job fails leaves the lease of this job to run out.
\<close>

definition sqlite_ops :: "(nat \<Rightarrow> nat \<Rightarrow> error + string) \<Rightarrow> int \<Rightarrow> sql_db job_store_ops" where
  "sqlite_ops rnd maxAttempts =
     \<lparr>jo_DispatchPending = (\<lambda>c now i n d.
        sqlite_DispatchPending True True True maxAttempts (rnd (sq_calls d)) c now i n no_faults d),
      jo_ClaimNext = (\<lambda>c now i w l. sqlite_ClaimNext c now i w l no_faults),
      jo_ClaimNextBatch = (\<lambda>c now i w n l. sqlite_ClaimNextBatch (\<lambda>_. c) (\<lambda>_. now) i w n l no_faults),
      jo_RenewLease = (\<lambda>c now i w l d. apfst error_of (sqlite_RenewLease c now i w l no_faults d)),
      jo_MarkSynced = (\<lambda>c now i w g d. apfst error_of (sqlite_MarkSynced c now i w g no_faults d)),
      jo_MarkRetrying = (\<lambda>c now i w e t d. apfst error_of (sqlite_MarkRetrying c now i w e t no_faults d)),
      jo_RequeueClaimed = (\<lambda>c now i w e t d. apfst error_of (sqlite_RequeueClaimed c now i w e t no_faults d)),
      jo_MarkDead = (\<lambda>c now i w e d. apfst error_of (sqlite_MarkDead c now i w e no_faults d))\<rparr>"

definition db_jobs :: "sql_db \<Rightarrow> SyncJobID \<Rightarrow> sync_job option" where
  "db_jobs d = map_of (jobs_view d)"

section \<open>The laws\<close>

lemma db_ok_rows: "db_ok d \<Longrightarrow> rows_ok (sq_jobs d)"
  by (simp add: db_ok_def jobs_ok_def)

lemma held_claim_row: "held_by w (job_view (claim_row w u now r))"
  by (simp add: held_by_def claim_row_def const_defs)

lemma sqlite_claim_batch:
  assumes ok: "db_ok d" and run: "sqlite_ClaimNextBatch (\<lambda>_. c) (\<lambda>_. now) syncID w n l no_faults d = (r, d')"
  shows "db_ok d' \<and>
      (case r of
         Inl e \<Rightarrow> db_jobs d' = db_jobs d
       | Inr js \<Rightarrow> (\<forall>j \<in> set js. db_jobs d' (j_ID j) = Some j \<and> held_by w j)
           \<and> (\<forall>i. i \<notin> set (map j_ID js) \<longrightarrow> db_jobs d' i = db_jobs d i))"
proof -
  have "db_ok d'" using keeps_snd [OF keeps_ClaimNextBatch ok, of "\<lambda>_. c" "\<lambda>_. now" syncID w n l no_faults] run by simp
  moreover have "case r of
         Inl e \<Rightarrow> db_jobs d' = db_jobs d
       | Inr js \<Rightarrow> (\<forall>j \<in> set js. db_jobs d' (j_ID j) = Some j \<and> held_by w j)
           \<and> (\<forall>i. i \<notin> set (map j_ID js) \<longrightarrow> db_jobs d' i = db_jobs d i)"
  proof (cases "c = None \<and> 0 < l \<and> 0 < n")
    case True
    let ?claimed = "claim_row w (microsFromTime (now + l)) (microsFromTime now)"
    have rows: "rows_ok (sq_jobs d)" by (rule db_ok_rows [OF ok])
    have "claim_each (\<lambda>_. None) (\<lambda>_. now) 1 syncID w l (nat n) [] no_faults d = (r, d')"
      using run True by (simp add: sqlite_ClaimNextBatch_def)
    from claim_each_effect [OF rows _ this] True obtain rs where
      rs: "set rs \<subseteq> set (sq_jobs d)" "r = Inr (map (\<lambda>r. job_view (?claimed r)) rs)"
        "sq_jobs d' = claim_rows (jr_id ` set rs) w (microsFromTime (now + l)) (microsFromTime now) (sq_jobs d)"
      by auto
    have "find_row jr_id (jr_id q) (sq_jobs d) = Some q" if "q \<in> set rs" for q
      using rows rs(1) that by (auto simp: rows_ok_def intro: find_row_distinct)
    then show ?thesis using rs
      by (auto simp: db_jobs_def map_of_jobs_view find_claim_rows held_claim_row image_image option.map_comp o_def
          intro!: option.map_cong0)
  qed (use run in \<open>auto simp: sqlite_ClaimNextBatch_def sql_result_def split: option.splits if_splits\<close>)
  ultimately show ?thesis by blast
qed

lemma sqlite_claim_next:
  assumes ok: "db_ok d" and run: "sqlite_ClaimNext c now syncID w l no_faults d = (r, d')"
  shows "db_ok d' \<and>
      (case r of
         Inr (Some j) \<Rightarrow> db_jobs d' = (db_jobs d)(j_ID j \<mapsto> j) \<and> held_by w j
       | _ \<Rightarrow> db_jobs d' = db_jobs d)"
proof -
  have "db_ok d'" using keeps_snd [OF keeps_ClaimNext ok, of c now syncID w l no_faults] run by simp
  moreover have "case r of
         Inr (Some j) \<Rightarrow> db_jobs d' = (db_jobs d)(j_ID j \<mapsto> j) \<and> held_by w j
       | _ \<Rightarrow> db_jobs d' = db_jobs d"
  proof (cases "c = None \<and> 0 < l")
    case True
    have rows: "rows_ok (sq_jobs d)" by (rule db_ok_rows [OF ok])
    have eff: "case row_candidates syncID (microsFromTime now) (sq_jobs d) of
        [] \<Rightarrow> r = Inr None \<and> sq_jobs d' = sq_jobs d
      | q # _ \<Rightarrow> r = Inr (Some (job_view (claim_row w (microsFromTime (now + l)) (microsFromTime now) q)))
          \<and> sq_jobs d' = claim_rows {jr_id q} w (microsFromTime (now + l)) (microsFromTime now) (sq_jobs d)"
      using sqlite_ClaimNext_effect(1) [OF rows, of l now syncID w r d'] run True by simp
    show ?thesis
    proof (cases "row_candidates syncID (microsFromTime now) (sq_jobs d)")
      case (Cons q qs)
      have "q \<in> set (sq_jobs d)" using set_row_candidates [of syncID "microsFromTime now" "sq_jobs d"] Cons by auto
      then have "find_row jr_id (jr_id q) (sq_jobs d) = Some q"
        using rows by (auto simp: rows_ok_def intro: find_row_distinct)
      moreover have "sq_jobs d' = claim_rows {jr_id q} w (microsFromTime (now + l)) (microsFromTime now) (sq_jobs d)"
        and r: "r = Inr (Some (job_view (claim_row w (microsFromTime (now + l)) (microsFromTime now) q)))"
        using eff Cons by simp_all
      ultimately have "db_jobs d' = (db_jobs d)(jr_id q \<mapsto> job_view (claim_row w (microsFromTime (now + l)) (microsFromTime now) q))"
        by (intro ext) (simp add: db_jobs_def map_of_jobs_view find_claim_rows option.map_comp o_def)
      then show ?thesis by (simp add: r held_claim_row)
    qed (use eff in \<open>simp add: db_jobs_def jobs_view_def\<close>)
  next
    case False
    then have "\<exists>e. r = Inl e \<and> d' = d" using run
      by (cases c) (auto simp: sqlite_ClaimNext_def sql_result_def not_less)
    then show ?thesis by auto
  qed
  ultimately show ?thesis by blast
qed

lemma sqlite_owner_final:
  assumes "db_ok d" and "\<And>r. jr_id (f r) = jr_id r"
    and "\<And>r. job_view (f r) = round_job (g (job_view r))" and "\<And>j. j_State (g j) \<noteq> StateProcessing"
    and "sqlite_updateOwned None i (owned_row i w (microsFromTime now)) f no_faults d = (x, d')"
  shows "finalised now i w (db_jobs d) (error_of x) (db_jobs d')"
proof -
  have "exec_update None i (owned_row i w (microsFromTime now)) f ErrJobLeaseNotOwned no_faults d = (x, d')"
    using assms(5) by (simp add: sqlite_updateOwned_def)
  from exec_update_jobs [OF db_ok_rows [OF assms(1)] this owned_view assms(2,3)] show ?thesis
    using assms(4) by (auto simp: finalised_def db_jobs_def split: option.splits if_splits)
qed

lemma sqlite_finals:
  assumes "db_ok d"
  shows "sqlite_MarkSynced None now i w g no_faults d = (x, d') \<Longrightarrow> finalised now i w (db_jobs d) (error_of x) (db_jobs d')"
    and "sqlite_MarkRetrying None now i w e t no_faults d = (x, d') \<Longrightarrow> finalised now i w (db_jobs d) (error_of x) (db_jobs d')"
    and "sqlite_RequeueClaimed None now i w e t no_faults d = (x, d') \<Longrightarrow> finalised now i w (db_jobs d) (error_of x) (db_jobs d')"
    and "sqlite_MarkDead None now i w e no_faults d = (x, d') \<Longrightarrow> finalised now i w (db_jobs d) (error_of x) (db_jobs d')"
proof -
  note final = sqlite_owner_final [OF assms, where now = now and i = i and w = w]
  note changes = sync_job_done_def retry_job_def requeue_job_def kill_job_def clearJobLock_def
  show "finalised now i w (db_jobs d) (error_of x) (db_jobs d')" if "sqlite_MarkSynced None now i w g no_faults d = (x, d')"
    by (rule final [where g = "\<lambda>j. (sync_job_done g j now)\<lparr>j_UpdatedAt := now\<rparr>",
          OF _ unlock_row_view(1) _ that [unfolded sqlite_MarkSynced_def]]) (simp_all add: changes)
  show "finalised now i w (db_jobs d) (error_of x) (db_jobs d')" if "sqlite_MarkRetrying None now i w e t no_faults d = (x, d')"
    by (rule final [where g = "\<lambda>j. (retry_job e t j now)\<lparr>j_UpdatedAt := now\<rparr>",
          OF _ unlock_row_view(2) _ that [unfolded sqlite_MarkRetrying_def]]) (simp_all add: changes)
  show "finalised now i w (db_jobs d) (error_of x) (db_jobs d')" if "sqlite_RequeueClaimed None now i w e t no_faults d = (x, d')"
    by (rule final [where g = "\<lambda>j. (requeue_job e t j now)\<lparr>j_UpdatedAt := now\<rparr>",
          OF _ unlock_row_view(3) _ that [unfolded sqlite_RequeueClaimed_def]]) (simp_all add: changes)
  show "finalised now i w (db_jobs d) (error_of x) (db_jobs d')" if "sqlite_MarkDead None now i w e no_faults d = (x, d')"
    by (rule final [where g = "\<lambda>j. (kill_job e j now)\<lparr>j_UpdatedAt := now\<rparr>",
          OF _ unlock_row_view(4) _ that [unfolded sqlite_MarkDead_def]]) (simp_all add: changes)
qed

lemma sqlite_renew:
  assumes ok: "db_ok d" and run: "sqlite_RenewLease c now i w l no_faults d = (x, d')"
  shows "db_jobs d' = db_jobs d \<or> (\<exists>j j'. db_jobs d i = Some j \<and> held_by w j \<and> held_by w j'
      \<and> db_jobs d' = (db_jobs d)(i \<mapsto> j'))"
proof (cases "c = None \<and> 0 < l")
  case True
  let ?f = "\<lambda>r. r\<lparr>jr_locked_until_micros := Some (microsFromTime (now + l)), jr_updated_at_micros := microsFromTime now\<rparr>"
  let ?g = "\<lambda>j. (renew_job l j now)\<lparr>j_UpdatedAt := now\<rparr>"
  have run': "exec_update None i (owned_row i w (microsFromTime now)) ?f ErrJobLeaseNotOwned no_faults d = (x, d')"
    using run True by (simp add: sqlite_RenewLease_def sqlite_updateOwned_def)
  have held: "held_by w (round_job (?g j))" if "held_by w j" for j
    using that by (simp add: held_by_def round_job_def renew_job_def)
  have id: "jr_id (?f r) = jr_id r" for r by simp
  from exec_update_jobs [where g = ?g, OF db_ok_rows [OF ok] run' owned_view id renew_row_view] held show ?thesis
    by (auto simp: db_jobs_def jobLeaseOwned_held split: option.splits if_splits)
next
  case False
  then have "d' = d" using run
    by (cases c) (auto simp: sqlite_RenewLease_def sql_result_def not_less)
  then show ?thesis by simp
qed

lemma sqlite_dispatch_jobs:
  assumes ok: "db_ok d" and run: "sqlite_DispatchPending a b s n rnd c now syncID limit no_faults d = (r, d')"
  shows "(\<forall>i j. db_jobs d i = Some j \<longrightarrow> db_jobs d' i = Some j)
      \<and> (\<forall>i j. db_jobs d i = None \<longrightarrow> db_jobs d' i = Some j \<longrightarrow> j_State j \<noteq> StateProcessing)"
proof -
  have "\<exists>new. sq_jobs d' = sq_jobs d @ new \<and> (\<forall>q \<in> set new. jr_state q = ''pending'')"
  proof (cases "c = None \<and> 0 < limit \<and> a \<and> b \<and> s")
    case True
    with run have "sqlite_DispatchPending True True True n rnd None now syncID limit no_faults d = (r, d')" by simp
    with sqlite_dispatch_jobs_added [OF ok _ this] True show ?thesis by blast
  next
    case False
    then have "d' = d" using run
      by (cases c) (auto simp: sqlite_DispatchPending_def sql_result_def not_less split: if_splits)
    then show ?thesis by (intro exI [of _ "[]"]) simp
  qed
  then obtain new where new: "sq_jobs d' = sq_jobs d @ new" "\<forall>q \<in> set new. jr_state q = ''pending''" by blast
  then show ?thesis
    by (auto simp: db_jobs_def map_of_jobs_view find_row_append const_defs split: option.splits dest!: find_row_SomeD)
qed

section \<open>The contract\<close>

interpretation sqlite: job_store "sqlite_ops rnd n" db_jobs db_ok
proof
  fix c now syncID w k l r and d d' :: sql_db
  assume "db_ok d" and "jo_ClaimNextBatch (sqlite_ops rnd n) c now syncID w k l d = (r, d')"
  then show "db_ok d' \<and> (case r of Inl e \<Rightarrow> db_jobs d' = db_jobs d
       | Inr js \<Rightarrow> (\<forall>j \<in> set js. db_jobs d' (j_ID j) = Some j \<and> held_by w j)
           \<and> (\<forall>i. i \<notin> set (map j_ID js) \<longrightarrow> db_jobs d' i = db_jobs d i))"
    by (intro sqlite_claim_batch) (simp_all add: sqlite_ops_def)
next
  fix c now syncID w l r and d d' :: sql_db
  assume "db_ok d" and "jo_ClaimNext (sqlite_ops rnd n) c now syncID w l d = (r, d')"
  then show "db_ok d' \<and> (case r of Inr (Some j) \<Rightarrow> db_jobs d' = (db_jobs d)(j_ID j \<mapsto> j) \<and> held_by w j
       | _ \<Rightarrow> db_jobs d' = db_jobs d)"
    by (intro sqlite_claim_next) (simp_all add: sqlite_ops_def)
next
  fix c now i w l e and d d' :: sql_db
  assume ok: "db_ok d" and "jo_RenewLease (sqlite_ops rnd n) c now i w l d = (e, d')"
  then obtain x where "sqlite_RenewLease c now i w l no_faults d = (x, d')"
    by (auto simp: sqlite_ops_def apfst_eq)
  with sqlite_renew [OF ok] keepsD [OF keeps_owner(1) ok]
  show "db_ok d' \<and> (db_jobs d' = db_jobs d \<or> (\<exists>j j'. db_jobs d i = Some j \<and> held_by w j \<and> held_by w j'
      \<and> db_jobs d' = (db_jobs d)(i \<mapsto> j')))" by blast
next
  fix now i w g e and d d' :: sql_db
  assume ok: "db_ok d" and "jo_MarkSynced (sqlite_ops rnd n) None now i w g d = (e, d')"
  then obtain x where "sqlite_MarkSynced None now i w g no_faults d = (x, d')" "e = error_of x"
    by (auto simp: sqlite_ops_def apfst_eq)
  with sqlite_finals(1) [OF ok] keepsD [OF keeps_owner(2) ok]
  show "db_ok d' \<and> finalised now i w (db_jobs d) e (db_jobs d')" by blast
next
  fix now i w y t e and d d' :: sql_db
  assume ok: "db_ok d" and "jo_MarkRetrying (sqlite_ops rnd n) None now i w y t d = (e, d')"
  then obtain x where "sqlite_MarkRetrying None now i w y t no_faults d = (x, d')" "e = error_of x"
    by (auto simp: sqlite_ops_def apfst_eq)
  with sqlite_finals(2) [OF ok] keepsD [OF keeps_owner(3) ok]
  show "db_ok d' \<and> finalised now i w (db_jobs d) e (db_jobs d')" by blast
next
  fix now i w y t e and d d' :: sql_db
  assume ok: "db_ok d" and "jo_RequeueClaimed (sqlite_ops rnd n) None now i w y t d = (e, d')"
  then obtain x where "sqlite_RequeueClaimed None now i w y t no_faults d = (x, d')" "e = error_of x"
    by (auto simp: sqlite_ops_def apfst_eq)
  with sqlite_finals(3) [OF ok] keepsD [OF keeps_owner(4) ok]
  show "db_ok d' \<and> finalised now i w (db_jobs d) e (db_jobs d')" by blast
next
  fix now i w y e and d d' :: sql_db
  assume ok: "db_ok d" and "jo_MarkDead (sqlite_ops rnd n) None now i w y d = (e, d')"
  then obtain x where "sqlite_MarkDead None now i w y no_faults d = (x, d')" "e = error_of x"
    by (auto simp: sqlite_ops_def apfst_eq)
  with sqlite_finals(4) [OF ok] keepsD [OF keeps_owner(5) ok]
  show "db_ok d' \<and> finalised now i w (db_jobs d) e (db_jobs d')" by blast
next
  fix c now syncID k r and d d' :: sql_db
  assume ok: "db_ok d" and "jo_DispatchPending (sqlite_ops rnd n) c now syncID k d = (r, d')"
  then have "sqlite_DispatchPending True True True n (rnd (sq_calls d)) c now syncID k no_faults d = (r, d')"
    by (simp add: sqlite_ops_def)
  note sqlite_dispatch_jobs [OF ok this] keepsD [OF keeps_dispatch ok this]
  then show "db_ok d' \<and> (\<forall>i j. db_jobs d i = Some j \<longrightarrow> db_jobs d' i = Some j)
      \<and> (\<forall>i j. db_jobs d i = None \<longrightarrow> db_jobs d' i = Some j \<longrightarrow> j_State j \<noteq> StateProcessing)"
    by blast
qed

section \<open>What a cycle leaves in the database\<close>

text \<open>
  On the SQLite stores, too, a worker never walks away from a live lease: when a cycle of
  one routine is over, whatever the projector, the applier, the heartbeat and cancellation did
  on the way, every job still held in the worker's name has a lease that is over, and the
  constraints of the tables hold.
\<close>

theorem sqlite_worker_leaves_no_live_lease:
  assumes "en_ops E = sqlite_ops rnd n" and "mono (sc_clock (en_sched E))"
    and "\<forall>n. sc_final (en_sched E) n = None"
    and "db_ok (m_store m)" and "effectiveConcurrency v = 1"
    and "\<forall>i j. db_jobs (m_store m) i = Some j \<longrightarrow> \<not> held_by (sw_WorkerID v) j"
    and "RunOnce E v picks m = (r, m')"
  shows "\<forall>i j. db_jobs (m_store m') i = Some j \<longrightarrow> held_by (sw_WorkerID v) j \<longrightarrow>
    the (j_LockedUntil j) \<le> now_at E m'"
proof (intro allI impI)
  fix i j
  assume "db_jobs (m_store m') i = Some j" and "held_by (sw_WorkerID v) j"
  then show "the (j_LockedUntil j) \<le> now_at E m'"
    by (intro sqlite.RunOnce_leaves_no_live_lease [where E = E and m = m and r = r and picks = picks])
      (use assms in \<open>simp_all add: sqlite.clock_ok_def\<close>)
qed

definition sample_sqlite_env :: "(sql_db, unit) env" where
  "sample_sqlite_env =
     \<lparr>en_ops = sqlite_ops (\<lambda>k i. Inr []) 5, en_project = (\<lambda>c i x. (Inl ErrProjectionNotFound, x)),
      en_apply = (\<lambda>c p x. (None, x)),
      en_sched = \<lparr>sc_clock = (\<lambda>n. timeFromMicros 10), sc_ctx = (\<lambda>n. None), sc_final = (\<lambda>n. None),
                  sc_ticks = (\<lambda>n. 0)\<rparr>\<rparr>"

definition sample_sqlite_worker :: sync_worker where
  "sample_sqlite_worker =
     \<lparr>sw_hasJobStore = True, sw_batchClaims = True, sw_hasDispatcher = True, sw_hasProjector = True,
      sw_hasApplier = True, sw_SyncID = ''contacts'', sw_WorkerID = ''w'', sw_LockFor = 7000,
      sw_PullSize = 0, sw_BatchSize = 2, sw_Concurrency = 1\<rparr>"

definition sample_sqlite_machine :: "(sql_db, unit) machine" where
  "sample_sqlite_machine = \<lparr>m_store = sample_db\<lparr>sq_deltas := [sample_delta_row]\<rparr>, m_world = (), m_time = 0\<rparr>"

lemma sample_sqlite_machine_ok: "db_ok (m_store sample_sqlite_machine)"
  using sample_db_ok sample_deltas_db_ok
  by (simp add: sample_sqlite_machine_def sample_db_def sample_deltas_db_def empty_db_def db_ok_def jobs_ok_def
      outbox_jobs_def sample_row_def)

lemma sqlite_worker_leaves_no_live_lease_witness:
  "\<exists>m'. RunOnce sample_sqlite_env sample_sqlite_worker [] sample_sqlite_machine = (Some None, m')
     \<and> map jr_state (sq_jobs (m_store m')) = [''synced'', ''synced'']
     \<and> (\<forall>i j. db_jobs (m_store m') i = Some j \<longrightarrow> held_by ''w'' j \<longrightarrow> the (j_LockedUntil j) \<le> timeFromMicros 10)"
proof -
  let ?call = "RunOnce sample_sqlite_env sample_sqlite_worker [] sample_sqlite_machine"
  have r: "fst ?call = Some None" by code_simp
  have s: "map jr_state (sq_jobs (m_store (snd ?call))) = [''synced'', ''synced'']" by code_simp
  obtain m' where run: "?call = (Some None, m')" using r by (metis prod.collapse)
  have "\<forall>i j. db_jobs (m_store sample_sqlite_machine) i = Some j \<longrightarrow> \<not> held_by (sw_WorkerID sample_sqlite_worker) j"
    by (simp add: db_jobs_def map_of_jobs_view sample_sqlite_machine_def sample_db_def empty_db_def sample_row_def held_by_def)
  from sqlite_worker_leaves_no_live_lease [OF _ _ _ sample_sqlite_machine_ok _ this run] run s
  show ?thesis
    by (simp add: sample_sqlite_env_def sample_sqlite_worker_def effectiveConcurrency_def now_at_def mono_def)
qed

end
