(* ===== verification/DF_PgDb.thy ===== *)
theory DF_PgDb
  imports DF_SqliteDelta
begin

text \<open>
  What the Postgres stores (\<open>pkg/connectors/postgres\<close>) rely on: the tables of
  \<open>migrations/*.sql\<close> with their constraints, and the readers of rows of
  \<open>pkg/connectors/delta_store_base.go\<close> and \<open>pkg/connectors/job_store_base.go\<close>.

  The columns are those of the SQLite tables, so the rows are the same records: a
  \<open>timestamptz\<close> holds whole microseconds, \<open>ghost_detected\<close> is 0 or 1 for a boolean. What
  differs is the server: identifiers are UUIDs that the server generates, keys and metadata are
  normalised by the type \<open>jsonb\<close>, counters are 32-bit integers, and rows can be locked by
  other transactions. The server and the driver are parameters of the model.
\<close>

section \<open>Server and driver\<close>

text \<open>
  \<open>pg_uuid\<close>: the cast \<open>$n::uuid\<close>, with the canonical text of the result; \<open>pg_jsonb\<close>: the cast
  \<open>$n::jsonb\<close>, with the text of the result; \<open>pg_key_argument\<close>: what the driver sends for an
  argument that is a projection key, nothing standing for \<open>NULL\<close>; \<open>pg_new_id\<close>: the
  \<open>uuidv7()\<close> of the n-th statement; \<open>pg_locked\<close>: the rows that other transactions hold locked
  while the call runs.
\<close>

record postgres =
  pg_uuid :: "string \<Rightarrow> string option"
  pg_jsonb :: "string \<Rightarrow> string option"
  pg_key_argument :: "ProjectionKey \<Rightarrow> error + string option"
  pg_new_id :: "nat \<Rightarrow> string"
  pg_locked :: "string \<Rightarrow> bool"

text \<open>The errors of the server, by their SQL states; the stores look at the constraint's name.\<close>

definition pg_error :: "string \<Rightarrow> string \<Rightarrow> error" where
  "pg_error code message =
     DriverError (Some code) (Some code) (''ERROR: '' @ message @ '' (SQLSTATE '' @ code @ '')'')"

definition pg_unique_failed :: "string \<Rightarrow> error" where
  "pg_unique_failed name =
     pg_error ''23505'' (''duplicate key value violates unique constraint '' @ quoted name)"

definition pg_check_failed :: error where
  "pg_check_failed = pg_error ''23514'' ''new row violates check constraint''"

definition pg_not_null_failed :: error where
  "pg_not_null_failed = pg_error ''23502'' ''null value violates not-null constraint''"

definition pg_foreign_key_failed :: error where
  "pg_foreign_key_failed = pg_error ''23503'' ''insert violates foreign key constraint''"

definition pg_invalid_text :: error where
  "pg_invalid_text = pg_error ''22P02'' ''invalid input syntax''"

definition pg_out_of_range :: error where
  "pg_out_of_range = pg_error ''22003'' ''integer out of range''"

text \<open>The columns \<open>attempt_count\<close> and \<open>max_attempts\<close> are of type \<open>INTEGER\<close>.\<close>

definition int4_ok :: "int \<Rightarrow> bool" where
  "int4_ok n \<longleftrightarrow> - 2147483648 \<le> n \<and> n \<le> 2147483647"

section \<open>Constraints and insertion\<close>

text \<open>
  \<open>INSERT INTO deltaflow_sync_jobs ... RETURNING\<close>, with \<open>ON CONFLICT (delta_id) WHERE (origin =
  'outbox') DO NOTHING\<close> when the flag is set: the row, if one was inserted.
\<close>

definition pg_insert_job :: "bool \<Rightarrow> job_row \<Rightarrow> sql_db \<Rightarrow> (error + job_row option) \<times> sql_db" where
  "pg_insert_job ignoreConflict r d =
     (if \<not> (int4_ok (jr_attempt_count r) \<and> int4_ok (jr_max_attempts r)) then (Inl pg_out_of_range, d)
      else if \<not> job_row_ok r then (Inl pg_check_failed, d)
      else if ignoreConflict \<and> outbox_conflict r d then (Inr None, d)
      else if jr_id r \<in> set (map jr_id (sq_jobs d))
        then (Inl (pg_unique_failed ''deltaflow_sync_jobs_pkey''), d)
      else if outbox_conflict r d
        then (Inl (pg_unique_failed ''deltaflow_sync_jobs_outbox_delta_unique''), d)
      else if (case jr_delta_id r of None \<Rightarrow> False | Some i \<Rightarrow> i \<notin> set (map dr_id (sq_deltas d)))
        then (Inl pg_foreign_key_failed, d)
      else (Inr (Some r), d\<lparr>sq_jobs := sq_jobs d @ [r]\<rparr>))"

text \<open>
  \<open>INSERT INTO deltaflow_deltas ... ON CONFLICT (dedup_key) WHERE dedup_key IS NOT NULL DO
  NOTHING RETURNING\<close>
\<close>

definition pg_insert_delta :: "delta_row \<Rightarrow> sql_db \<Rightarrow> (error + delta_row option) \<times> sql_db" where
  "pg_insert_delta r d =
     (if \<not> delta_row_ok r then (Inl pg_check_failed, d)
      else if dr_dedup_key r \<noteq> None \<and> dr_dedup_key r \<in> set (map dr_dedup_key (sq_deltas d))
        then (Inr None, d)
      else if dr_id r \<in> set (map dr_id (sq_deltas d))
        then (Inl (pg_unique_failed ''deltaflow_deltas_pkey''), d)
      else (Inr (Some r), d\<lparr>sq_deltas := sq_deltas d @ [r]\<rparr>))"

text \<open>
  \<open>UPDATE deltaflow_sync_jobs SET ... WHERE id = $1::uuid AND ...\<close>: the rows that it wrote. A
  counter that leaves its range fails the statement.
\<close>

definition pg_update ::
    "postgres \<Rightarrow> SyncJobID \<Rightarrow> (job_row \<Rightarrow> bool) \<Rightarrow> (job_row \<Rightarrow> job_row) \<Rightarrow> sql_db
       \<Rightarrow> (error + job_row list) \<times> sql_db"
where
  "pg_update pg jobID cond set_clause d =
     (case pg_uuid pg jobID of
        None \<Rightarrow> (Inl pg_invalid_text, d)
      | Some u \<Rightarrow>
          (let written = map set_clause (filter (\<lambda>r. jr_id r = u \<and> cond r) (sq_jobs d))
           in if \<not> list_all (\<lambda>r. int4_ok (jr_attempt_count r)) written then (Inl pg_out_of_range, d)
              else (Inr written,
                    d\<lparr>sq_jobs := map (\<lambda>r. if jr_id r = u \<and> cond r then set_clause r else r) (sq_jobs d)\<rparr>)))"

section \<open>Reading rows\<close>

text \<open>
  \<open>ScanSyncJobWithExtras\<close>: the extra targets are filled along with the columns. A row that
  cannot be decoded is an error, no row is none.
\<close>

definition key_of_column :: "string \<Rightarrow> error + ProjectionKey" where
  "key_of_column text = (if text = [] then Inr None else json_Unmarshal_key text)"

definition ScanSyncJobWithExtras :: "(job_row \<times> 'e) option \<Rightarrow> error + (sync_job \<times> 'e) option" where
  "ScanSyncJobWithExtras row =
     (case row of
        None \<Rightarrow> Inr None
      | Some (r, extras) \<Rightarrow>
          (case key_of_column (jr_projection_key r) of
             Inl e \<Rightarrow> Inl e
           | Inr key \<Rightarrow> Inr (Some (job_of_row key r, extras))))"

definition ScanSyncJob :: "job_row option \<Rightarrow> error + sync_job option" where
  "ScanSyncJob row =
     (case ScanSyncJobWithExtras (map_option (\<lambda>r. (r, ())) row) of
        Inl e \<Rightarrow> Inl e | Inr found \<Rightarrow> Inr (map_option fst found))"

text \<open>The copies of the package \<open>connectors\<close>; they are those of \<open>internal/store.go\<close> once more.\<close>

definition base_cloneProjectionKey :: "ProjectionKey \<Rightarrow> ProjectionKey" where
  "base_cloneProjectionKey key =
     (case key of
        None \<Rightarrow> None
      | Some m \<Rightarrow>
          Some (map (\<lambda>(k, v). (k, case v of None \<Rightarrow> None
                                  | Some raw \<Rightarrow> if raw = [] then None else Some raw)) m))"

fun cloneMetadataReflect :: "json \<Rightarrow> json" where
  "cloneMetadataReflect (JObj kvs) = JObj (map (\<lambda>(k, v). (k, cloneMetadataReflect v)) kvs)"
| "cloneMetadataReflect (JArr vs) = JArr (map cloneMetadataReflect vs)"
| "cloneMetadataReflect v = v"

definition base_cloneMetadata :: "metadata \<Rightarrow> metadata" where
  "base_cloneMetadata md =
     (case md of None \<Rightarrow> None | Some m \<Rightarrow> Some (map (\<lambda>(k, v). (k, cloneMetadataReflect v)) m))"

definition base_cloneDelta :: "delta \<Rightarrow> delta" where
  "base_cloneDelta d =
     d\<lparr>d_ProjectionKey := base_cloneProjectionKey (d_ProjectionKey d),
       d_Metadata := base_cloneMetadata (d_Metadata d)\<rparr>"

text \<open>\<open>ScanDelta\<close>; \<open>Scan\<close> reports a missing row as an error.\<close>

definition ScanDelta :: "delta_row option \<Rightarrow> error + delta" where
  "ScanDelta row =
     (case row of
        None \<Rightarrow> Inl sql_ErrNoRows
      | Some r \<Rightarrow>
          (case key_of_column (dr_projection_key r) of
             Inl e \<Rightarrow> Inl e
           | Inr key \<Rightarrow>
               (case scan_metadata (dr_metadata r) of
                  Inl e \<Rightarrow> Inl e
                | Inr meta \<Rightarrow> Inr (base_cloneDelta (delta_of_row key meta r)))))"

section \<open>The readers of both SQL stores agree\<close>

lemma key_of_column_parses: "json_Unmarshal_key s = Inr key \<Longrightarrow> key_of_column s = Inr key"
  by (auto simp: key_of_column_def json_Unmarshal_key_def json_valid_def decode_def skip_ws_def
      split: option.splits)

lemma ScanSyncJob_agrees:
  "json_Unmarshal_key (jr_projection_key r) = Inr key \<Longrightarrow> ScanSyncJob (Some r) = scanSyncJob (Some r)"
  by (simp add: ScanSyncJob_def ScanSyncJobWithExtras_def scanSyncJob_def key_of_column_parses)

lemma cloneMetadataReflect_id [simp]: "cloneMetadataReflect v = v"
proof (induction v rule: cloneMetadataReflect.induct)
  case (1 kvs)
  then show ?case by (auto intro!: map_idI)
qed (auto intro: map_idI)

lemma base_cloneDelta_is_cloneDelta: "base_cloneDelta d = cloneDelta d"
  by (auto simp: base_cloneDelta_def cloneDelta_def base_cloneProjectionKey_def cloneProjectionKey_def
      clone_raw_def base_cloneMetadata_def cloneMetadata_def split: option.split)

end
