(* ===== verification/DF_PgJob.thy ===== *)
theory DF_PgJob
  imports DF_PgDb
begin

text \<open>
  The Postgres job store (\<open>pkg/connectors/postgres/job_store.go\<close>). A call that is a single
  statement is atomic on the server; \<open>FOR UPDATE SKIP LOCKED\<close> passes over the rows that other
  transactions have locked, which the server record names. Operations that observe telemetry
  return their telemetry calls in order; log records are not modelled, but the query that is
  made for one is.
\<close>

section \<open>Statements\<close>

type_synonym 'a observed = "faults \<Rightarrow> sql_db \<Rightarrow> (error + 'a) \<times> lease_event list \<times> sql_db"

definition observed :: "'a sql \<Rightarrow> (error option \<Rightarrow> lease_event list) \<Rightarrow> 'a observed" where
  "observed m events F d =
     (case m F d of (r, d') \<Rightarrow> (r, events (case r of Inl e \<Rightarrow> Some e | Inr x \<Rightarrow> None), d'))"

text \<open>\<open>WHERE id = $1::uuid\<close>\<close>

definition by_id :: "postgres \<Rightarrow> string \<Rightarrow> (string \<Rightarrow> sql_db \<Rightarrow> 'a) \<Rightarrow> 'a sql" where
  "by_id pg i f =
     statement (\<lambda>d. (case pg_uuid pg i of None \<Rightarrow> Inl pg_invalid_text | Some u \<Rightarrow> Inr (f u d), d))"

section \<open>Create and Get\<close>

text \<open>The row that \<open>Create\<close> inserts, or what is wrong with its arguments.\<close>

definition pg_job_row :: "postgres \<Rightarrow> string \<Rightarrow> string option \<Rightarrow> sync_job \<Rightarrow> error + job_row" where
  "pg_job_row pg rowID key job =
     (case map_option (pg_uuid pg) (j_DeltaID job) of
        Some None \<Rightarrow> Inl pg_invalid_text
      | deltaID \<Rightarrow>
          (case key of
             None \<Rightarrow> Inl pg_not_null_failed
           | Some text \<Rightarrow>
               (case pg_jsonb pg text of
                  None \<Rightarrow> Inl pg_invalid_text
                | Some stored \<Rightarrow>
                    Inr ((job_columns rowID stored job)\<lparr>jr_delta_id := Option.bind deltaID id\<rparr>))))"

definition pg_isOutboxDeltaMappedViolation :: "error \<Rightarrow> bool" where
  "pg_isOutboxDeltaMappedViolation err =
     (if \<not> IsUniqueViolation err then False
      else strings_Contains (strings_ToLower (err_text err)) ''deltaflow_sync_jobs_outbox_delta_unique'')"

definition pg_Create :: "postgres \<Rightarrow> int \<Rightarrow> ctx \<Rightarrow> time \<Rightarrow> sync_job \<Rightarrow> sync_job option sql" where
  "pg_Create pg maxAttempts ctx now job =
     (case ctx of Some e \<Rightarrow> sql_result (Inl e) | None \<Rightarrow>
      if j_ID job \<noteq> [] then sql_result (Inl ErrJobIDProvided)
      else
        (case PrepareJobForCreate maxAttempts now job of
           Inl e \<Rightarrow> sql_result (Inl e)
         | Inr normalized \<Rightarrow>
             (case pg_key_argument pg (j_ProjectionKey normalized) of
                Inl e \<Rightarrow> sql_result (Inl e)
              | Inr key \<Rightarrow>
                  on_error
                    (sql_bind
                      (statement (\<lambda>d.
                        (case pg_job_row pg (pg_new_id pg (sq_calls d)) key normalized of
                           Inl e \<Rightarrow> (Inl e, d)
                         | Inr row \<Rightarrow> pg_insert_job False row d)))
                      (\<lambda>row. sql_result (ScanSyncJob row)))
                    (\<lambda>e. if pg_isOutboxDeltaMappedViolation e then ErrDeltaAlreadyMapped else e))))"

definition pg_Get :: "postgres \<Rightarrow> ctx \<Rightarrow> SyncJobID \<Rightarrow> sync_job option sql" where
  "pg_Get pg ctx jobID =
     (case ctx of Some e \<Rightarrow> sql_result (Inl e) | None \<Rightarrow>
      sql_bind (by_id pg jobID (\<lambda>u d. find_row jr_id u (sq_jobs d)))
        (\<lambda>row. sql_result (ScanSyncJob row)))"

definition pg_jobExists :: "postgres \<Rightarrow> ctx \<Rightarrow> SyncJobID \<Rightarrow> bool sql" where
  "pg_jobExists pg ctx jobID =
     (case ctx of Some e \<Rightarrow> sql_result (Inl e) | None \<Rightarrow>
      by_id pg jobID (\<lambda>u d. u \<in> set (map jr_id (sq_jobs d))))"

section \<open>Leases\<close>

fun pg_collectJobs :: "job_row list \<Rightarrow> error + sync_job list" where
  "pg_collectJobs [] = Inr []"
| "pg_collectJobs (r # rs) =
     (case ScanSyncJob (Some r) of
        Inl e \<Rightarrow> Inl e
      | Inr None \<Rightarrow> pg_collectJobs rs
      | Inr (Some job) \<Rightarrow> (case pg_collectJobs rs of Inl e \<Rightarrow> Inl e | Inr jobs \<Rightarrow> Inr (job # jobs)))"

text \<open>
  The lease queries, with and without a sync: \<open>WHERE state = 'processing' AND ... ORDER BY
  locked_until ASC NULLS FIRST, updated_at ASC, id ASC LIMIT $n\<close>. Where the text does not say
  \<open>NULLS FIRST\<close> the condition leaves no null.
\<close>

definition pg_lease_query :: "SyncID \<Rightarrow> (int option \<Rightarrow> bool) \<Rightarrow> int \<Rightarrow> sql_db \<Rightarrow> job_row list" where
  "pg_lease_query syncID cond limit d =
     take (nat limit) (sort_slice row_lease_less
       (filter (\<lambda>r. jr_state r = ''processing'' \<and> cond (jr_locked_until_micros r)
          \<and> (if syncID \<noteq> [] then jr_sync_id r = syncID else True)) (sq_jobs d)))"

definition pg_ListActiveLeases :: "ctx \<Rightarrow> time \<Rightarrow> SyncID \<Rightarrow> int \<Rightarrow> sync_job list sql" where
  "pg_ListActiveLeases ctx now syncID limit =
     (case ctx of Some e \<Rightarrow> sql_result (Inl e) | None \<Rightarrow>
      if limit \<le> 0 then sql_result (Inr [])
      else
        sql_bind
          (query (pg_lease_query syncID
             (\<lambda>until. case until of None \<Rightarrow> False | Some u \<Rightarrow> microsFromTime now < u) limit))
          (\<lambda>rows. sql_result (pg_collectJobs rows)))"

definition pg_ListExpiredProcessingLeases :: "ctx \<Rightarrow> time \<Rightarrow> SyncID \<Rightarrow> int \<Rightarrow> sync_job list sql" where
  "pg_ListExpiredProcessingLeases ctx now syncID limit =
     (case ctx of Some e \<Rightarrow> sql_result (Inl e) | None \<Rightarrow>
      if limit \<le> 0 then sql_result (Inr [])
      else
        sql_bind
          (query (pg_lease_query syncID
             (\<lambda>until. case until of None \<Rightarrow> True | Some u \<Rightarrow> u \<le> microsFromTime now) limit))
          (\<lambda>rows. sql_result (pg_collectJobs rows)))"

definition pg_ListNearExpiryLeases :: "ctx \<Rightarrow> time \<Rightarrow> SyncID \<Rightarrow> duration \<Rightarrow> int \<Rightarrow> sync_job list sql" where
  "pg_ListNearExpiryLeases ctx now syncID within limit =
     (case ctx of Some e \<Rightarrow> sql_result (Inl e) | None \<Rightarrow>
      if within < 0 then sql_result (Inl ErrInvalidLeaseWindow)
      else if limit \<le> 0 then sql_result (Inr [])
      else
        sql_bind
          (query (pg_lease_query syncID
             (\<lambda>until. case until of None \<Rightarrow> False
                | Some u \<Rightarrow> microsFromTime now < u \<and> u \<le> microsFromTime (now + within)) limit))
          (\<lambda>rows. sql_result (pg_collectJobs rows)))"

section \<open>Claims\<close>

text \<open>
  The common table expressions of the claims: the first rows in order that are claimable and
  not locked by others are written, and returned in that order, each with whether its lease
  had run out. Canonical texts of UUIDs are ordered as the UUIDs are.
\<close>

definition pg_candidates :: "postgres \<Rightarrow> SyncID \<Rightarrow> int \<Rightarrow> int \<Rightarrow> sql_db \<Rightarrow> job_row list" where
  "pg_candidates pg syncID now limit d =
     take (nat limit)
       (filter (\<lambda>r. \<not> pg_locked pg (jr_id r))
         (sort_slice row_less (filter (claimable_row syncID now) (sq_jobs d))))"

definition reclaimed_row :: "int \<Rightarrow> job_row \<Rightarrow> bool" where
  "reclaimed_row now r \<longleftrightarrow>
     jr_state r = ''processing'' \<and> (case jr_locked_until_micros r of None \<Rightarrow> True | Some u \<Rightarrow> u \<le> now)"

definition pg_claim ::
    "postgres \<Rightarrow> SyncID \<Rightarrow> string \<Rightarrow> int \<Rightarrow> int \<Rightarrow> int \<Rightarrow> (job_row \<times> bool) list sql"
where
  "pg_claim pg syncID workerID limit now lockedUntil =
     statement (\<lambda>d.
       (let candidate = pg_candidates pg syncID now limit d; ids = map jr_id candidate
        in (Inr (map (\<lambda>r. (claim_row workerID lockedUntil now r, reclaimed_row now r)) candidate),
            d\<lparr>sq_jobs := map (\<lambda>r. if jr_id r \<in> set ids then claim_row workerID lockedUntil now r else r)
                            (sq_jobs d)\<rparr>)))"

definition claim_success :: "bool \<Rightarrow> lease_event list" where
  "claim_success reclaimed =
     ObserveLeaseClaim LeaseTelemetryResultSuccess # (if reclaimed then [ObserveLeaseReclaim] else [])"

definition pg_ClaimNext ::
    "postgres \<Rightarrow> ctx \<Rightarrow> time \<Rightarrow> SyncID \<Rightarrow> string \<Rightarrow> duration \<Rightarrow> sync_job option observed"
where
  "pg_ClaimNext pg ctx now syncID workerID lockFor F d =
     (case ctx of Some e \<Rightarrow> (Inl e, [], d) | None \<Rightarrow>
      if lockFor \<le> 0 then (Inl ErrInvalidLockFor, [ObserveLeaseClaim LeaseTelemetryResultInvalidLockFor], d)
      else
        (let (rows, d1) = pg_claim pg syncID workerID 1 (microsFromTime now) (microsFromTime (now + lockFor)) F d
         in case (case rows of
                    Inl e \<Rightarrow> Inl e
                  | Inr [] \<Rightarrow> Inr None
                  | Inr (row # _) \<Rightarrow> ScanSyncJobWithExtras (Some row)) of
              Inl e \<Rightarrow> (Inl e, [ObserveLeaseClaim LeaseTelemetryResultError], d1)
            | Inr None \<Rightarrow> (Inr None, [ObserveLeaseClaim LeaseTelemetryResultEmpty], d1)
            | Inr (Some (job, reclaimed)) \<Rightarrow> (Inr (Some job), claim_success reclaimed, d1)))"

text \<open>The loop over the rows of a batch claim: a row that cannot be scanned ends it.\<close>

fun scan_claimed :: "(job_row \<times> bool) list \<Rightarrow> error + (sync_job \<times> bool) list" where
  "scan_claimed [] = Inr []"
| "scan_claimed (row # rows) =
     (case ScanSyncJobWithExtras (Some row) of
        Inl e \<Rightarrow> Inl e
      | Inr None \<Rightarrow> scan_claimed rows
      | Inr (Some job) \<Rightarrow>
          (case scan_claimed rows of Inl e \<Rightarrow> Inl e | Inr jobs \<Rightarrow> Inr (job # jobs)))"

definition pg_ClaimNextBatch ::
    "postgres \<Rightarrow> ctx \<Rightarrow> time \<Rightarrow> SyncID \<Rightarrow> string \<Rightarrow> int \<Rightarrow> duration \<Rightarrow> sync_job list observed"
where
  "pg_ClaimNextBatch pg ctx now syncID workerID limit lockFor F d =
     (case ctx of Some e \<Rightarrow> (Inl e, [], d) | None \<Rightarrow>
      if lockFor \<le> 0 then (Inl ErrInvalidLockFor, [ObserveLeaseClaim LeaseTelemetryResultInvalidLockFor], d)
      else if limit \<le> 0 then (Inr [], [], d)
      else
        (let (rows, d1) = pg_claim pg syncID workerID limit (microsFromTime now) (microsFromTime (now + lockFor)) F d
         in case (case rows of Inl e \<Rightarrow> Inl e | Inr rs \<Rightarrow> scan_claimed rs) of
              Inl e \<Rightarrow> (Inl e, [ObserveLeaseClaim LeaseTelemetryResultError], d1)
            | Inr [] \<Rightarrow> (Inr [], [ObserveLeaseClaim LeaseTelemetryResultEmpty], d1)
            | Inr jobs \<Rightarrow> (Inr (map fst jobs), concat (map (\<lambda>(job, reclaimed). claim_success reclaimed) jobs), d1)))"

section \<open>Updates by identifier\<close>

text \<open>
  \<open>exec_by_id\<close> is the common body of \<open>update\<close> and \<open>updateLeaseOperator\<close>, which differ in the
  error for a row that exists.
\<close>

definition exec_by_id ::
    "postgres \<Rightarrow> ctx \<Rightarrow> SyncJobID \<Rightarrow> (job_row \<Rightarrow> bool) \<Rightarrow> (job_row \<Rightarrow> job_row) \<Rightarrow> error \<Rightarrow> unit sql"
where
  "exec_by_id pg ctx jobID cond set_clause refused =
     (case ctx of Some e \<Rightarrow> sql_result (Inl e) | None \<Rightarrow>
      sql_bind (statement (pg_update pg jobID cond set_clause)) (\<lambda>written.
        if written \<noteq> [] then sql_result (Inr ())
        else sql_bind (pg_jobExists pg ctx jobID) (\<lambda>exists.
          sql_result (Inl (if exists then refused else ErrJobNotFound)))))"

definition pg_updateLeaseOperator ::
    "postgres \<Rightarrow> ctx \<Rightarrow> SyncJobID \<Rightarrow> (job_row \<Rightarrow> bool) \<Rightarrow> (job_row \<Rightarrow> job_row) \<Rightarrow> unit sql"
where
  "pg_updateLeaseOperator pg ctx jobID cond set_clause =
     exec_by_id pg ctx jobID cond set_clause ErrJobLeaseNotExpired"

definition pg_execUpdate ::
    "postgres \<Rightarrow> ctx \<Rightarrow> SyncJobID \<Rightarrow> (job_row \<Rightarrow> bool) \<Rightarrow> (job_row \<Rightarrow> job_row) \<Rightarrow> unit sql"
where
  "pg_execUpdate pg ctx jobID cond set_clause =
     exec_by_id pg ctx jobID cond set_clause ErrJobLeaseNotOwned"

definition updateAndReturn ::
    "postgres \<Rightarrow> ctx \<Rightarrow> SyncJobID \<Rightarrow> (job_row \<Rightarrow> bool) \<Rightarrow> (job_row \<Rightarrow> job_row) \<Rightarrow> sync_job sql"
where
  "updateAndReturn pg ctx jobID cond set_clause =
     (case ctx of Some e \<Rightarrow> sql_result (Inl e) | None \<Rightarrow>
      sql_bind (statement (pg_update pg jobID cond set_clause)) (\<lambda>written.
        sql_bind (sql_result (ScanSyncJob (case written of [] \<Rightarrow> None | r # _ \<Rightarrow> Some r))) (\<lambda>job.
          case job of
            Some j \<Rightarrow> sql_result (Inr j)
          | None \<Rightarrow>
              sql_bind (pg_jobExists pg ctx jobID) (\<lambda>exists.
                sql_result (Inl (if exists then ErrJobLeaseNotOwned else ErrJobNotFound))))))"

section \<open>Transitions of the owner\<close>

definition observeOwnershipResult :: "string \<Rightarrow> error option \<Rightarrow> lease_event list" where
  "observeOwnershipResult transition err =
     (case err of
        None \<Rightarrow> [ObserveLeaseOwnershipCheck transition LeaseTelemetryOwnershipOwned]
      | Some e \<Rightarrow>
          if errors_Is e ErrJobLeaseNotOwned
          then [ObserveLeaseOwnershipCheck transition LeaseTelemetryOwnershipRejected] else [])"

text \<open>\<open>logLeaseTransitionRejected\<close>: the job is read for the log record, and the error stays.\<close>

definition logLeaseTransitionRejected :: "postgres \<Rightarrow> ctx \<Rightarrow> SyncJobID \<Rightarrow> error \<Rightarrow> 'a sql" where
  "logLeaseTransitionRejected pg ctx jobID err F d =
     (case pg_Get pg ctx jobID F d of (found, d') \<Rightarrow> (Inl err, d'))"

definition owner_transition ::
    "postgres \<Rightarrow> ctx \<Rightarrow> SyncJobID \<Rightarrow> string \<Rightarrow> (job_row \<Rightarrow> bool) \<Rightarrow> (job_row \<Rightarrow> job_row) \<Rightarrow> unit observed"
where
  "owner_transition pg ctx jobID transition cond set_clause =
     observed
       (\<lambda>F d. case updateAndReturn pg ctx jobID cond set_clause F d of
          (Inl e, d1) \<Rightarrow> logLeaseTransitionRejected pg ctx jobID e F d1
        | (Inr updated, d1) \<Rightarrow> (Inr (), d1))
       (observeOwnershipResult transition)"

text \<open>\<open>AND state = 'processing' AND locked_by = $n AND locked_until > $m\<close>\<close>

definition pg_owned :: "string \<Rightarrow> int \<Rightarrow> job_row \<Rightarrow> bool" where
  "pg_owned workerID now r \<longleftrightarrow>
     jr_state r = ''processing'' \<and> jr_locked_by r = Some workerID
     \<and> (case jr_locked_until_micros r of None \<Rightarrow> False | Some u \<Rightarrow> now < u)"

definition pg_RenewLease :: "postgres \<Rightarrow> ctx \<Rightarrow> time \<Rightarrow> SyncJobID \<Rightarrow> string \<Rightarrow> duration \<Rightarrow> unit observed" where
  "pg_RenewLease pg ctx now jobID workerID lockFor F d =
     (case ctx of Some e \<Rightarrow> (Inl e, [], d) | None \<Rightarrow>
      if lockFor \<le> 0 then (Inl ErrInvalidLockFor, [ObserveLeaseRenew LeaseTelemetryResultInvalidLockFor], d)
      else
        observed
          (pg_execUpdate pg ctx jobID (pg_owned workerID (microsFromTime now))
             (\<lambda>r. r\<lparr>jr_locked_until_micros := Some (microsFromTime (now + lockFor)),
                    jr_updated_at_micros := microsFromTime now\<rparr>))
          (\<lambda>err. ObserveLeaseRenew (leaseResult err)
             # observeOwnershipResult LeaseTelemetryTransitionRenewLease err) F d)"

definition pg_MarkSynced :: "postgres \<Rightarrow> ctx \<Rightarrow> time \<Rightarrow> SyncJobID \<Rightarrow> string \<Rightarrow> bool \<Rightarrow> unit observed" where
  "pg_MarkSynced pg ctx now jobID workerID ghostDetected =
     owner_transition pg ctx jobID LeaseTelemetryTransitionMarkSynced (pg_owned workerID (microsFromTime now))
       (\<lambda>r. unlock_row (microsFromTime now)
              (r\<lparr>jr_state := ''synced'', jr_ghost_detected := boolToInt ghostDetected,
                 jr_synced_at_micros := Some (microsFromTime now)\<rparr>))"

definition pg_MarkRetrying ::
    "postgres \<Rightarrow> ctx \<Rightarrow> time \<Rightarrow> SyncJobID \<Rightarrow> string \<Rightarrow> error option \<Rightarrow> time \<Rightarrow> unit observed"
where
  "pg_MarkRetrying pg ctx now jobID workerID err nextRunAt =
     owner_transition pg ctx jobID LeaseTelemetryTransitionMarkRetrying (pg_owned workerID (microsFromTime now))
       (\<lambda>r. unlock_row (microsFromTime now)
              (r\<lparr>jr_state := ''retrying'', jr_attempt_count := jr_attempt_count r + 1,
                 jr_last_error := Some (base_ErrorMessage err),
                 jr_available_at_micros := microsFromTime nextRunAt\<rparr>))"

definition pg_RequeueClaimed ::
    "postgres \<Rightarrow> ctx \<Rightarrow> time \<Rightarrow> SyncJobID \<Rightarrow> string \<Rightarrow> error option \<Rightarrow> time \<Rightarrow> unit observed"
where
  "pg_RequeueClaimed pg ctx now jobID workerID reason nextRunAt =
     owner_transition pg ctx jobID LeaseTelemetryTransitionRequeueClaimed (pg_owned workerID (microsFromTime now))
       (\<lambda>r. unlock_row (microsFromTime now)
              (r\<lparr>jr_state := ''retrying'', jr_last_error := Some (base_ErrorMessage reason),
                 jr_available_at_micros := microsFromTime nextRunAt\<rparr>))"

definition pg_MarkDead :: "postgres \<Rightarrow> ctx \<Rightarrow> time \<Rightarrow> SyncJobID \<Rightarrow> string \<Rightarrow> error option \<Rightarrow> unit observed" where
  "pg_MarkDead pg ctx now jobID workerID err =
     owner_transition pg ctx jobID LeaseTelemetryTransitionMarkDead (pg_owned workerID (microsFromTime now))
       (\<lambda>r. unlock_row (microsFromTime now)
              (r\<lparr>jr_state := ''dead'', jr_attempt_count := jr_attempt_count r + 1,
                 jr_last_error := Some (base_ErrorMessage err),
                 jr_dead_at_micros := Some (microsFromTime now)\<rparr>))"

section \<open>Actions of operators\<close>

definition pg_expired :: "int \<Rightarrow> job_row \<Rightarrow> bool" where
  "pg_expired now r \<longleftrightarrow>
     jr_state r = ''processing'' \<and> (case jr_locked_until_micros r of None \<Rightarrow> True | Some u \<Rightarrow> u \<le> now)"

definition pg_ForceReleaseExpiredLease :: "postgres \<Rightarrow> ctx \<Rightarrow> time \<Rightarrow> SyncJobID \<Rightarrow> string \<Rightarrow> unit sql" where
  "pg_ForceReleaseExpiredLease pg ctx now jobID auditReason =
     (case ctx of Some e \<Rightarrow> sql_result (Inl e) | None \<Rightarrow>
      (let reason = TrimSpace auditReason in
       if reason = [] then sql_result (Inl ErrAuditReasonRequired)
       else pg_updateLeaseOperator pg ctx jobID (pg_expired (microsFromTime now))
              (\<lambda>r. unlock_row (microsFromTime now)
                     (r\<lparr>jr_last_error := Some (''operator_force_release: '' @ reason)\<rparr>))))"

definition pg_RequeueExpiredLease :: "postgres \<Rightarrow> ctx \<Rightarrow> time \<Rightarrow> SyncJobID \<Rightarrow> time \<Rightarrow> string \<Rightarrow> unit sql" where
  "pg_RequeueExpiredLease pg ctx now jobID nextRunAt auditReason =
     (case ctx of Some e \<Rightarrow> sql_result (Inl e) | None \<Rightarrow>
      (let reason = TrimSpace auditReason in
       if reason = [] then sql_result (Inl ErrAuditReasonRequired)
       else pg_updateLeaseOperator pg ctx jobID (pg_expired (microsFromTime now))
              (\<lambda>r. unlock_row (microsFromTime now)
                     (r\<lparr>jr_state := ''retrying'', jr_available_at_micros := microsFromTime nextRunAt,
                        jr_last_error := Some (''operator_requeue: '' @ reason)\<rparr>))))"

end
