(* ===== verification/DF_PgDelta.thy ===== *)
theory DF_PgDelta
  imports DF_PgJob
begin

text \<open>
  The Postgres delta store and dispatcher (\<open>pkg/connectors/postgres/delta_store.go\<close>,
  \<open>pkg/connectors/postgres/dispatch_store.go\<close>), as computations over the tables.
\<close>

section \<open>Enqueue\<close>

text \<open>
  The row of an insertion. The projection key and the metadata are cast to \<open>jsonb\<close>; the
  window and the dedup key pass through \<open>NULLIF\<close> or are bound as they are.
\<close>

definition pg_delta_row ::
    "postgres \<Rightarrow> (string \<Rightarrow> string option) \<Rightarrow> string \<Rightarrow> string \<Rightarrow> string \<Rightarrow> delta \<Rightarrow> error + delta_row"
where
  "pg_delta_row pg opt rowID key meta delta =
     (case pg_jsonb pg key of
        None \<Rightarrow> Inl pg_invalid_text
      | Some stored \<Rightarrow>
          (case pg_jsonb pg meta of
             None \<Rightarrow> Inl pg_invalid_text
           | Some metadata \<Rightarrow> Inr (delta_columns opt rowID stored metadata delta)))"

definition pg_insert_delta_stmt ::
    "postgres \<Rightarrow> (string \<Rightarrow> string option) \<Rightarrow> string \<Rightarrow> string \<Rightarrow> delta \<Rightarrow> delta_row option sql"
where
  "pg_insert_delta_stmt pg opt key meta delta =
     statement (\<lambda>d.
       (case pg_delta_row pg opt (pg_new_id pg (sq_calls d)) key meta delta of
          Inl e \<Rightarrow> (Inl e, d)
        | Inr row \<Rightarrow> pg_insert_delta row d))"

text \<open>
  \<open>row.Scan\<close>: an insertion that met a conflict returns no row, which is an error of \<open>Scan\<close>;
  then the stored delta is read.
\<close>

definition pg_enqueue :: "postgres \<Rightarrow> ctx \<Rightarrow> time \<Rightarrow> delta \<Rightarrow> delta sql" where
  "pg_enqueue pg ctx now delta =
     (case ctx of Some e \<Rightarrow> sql_result (Inl e) | None \<Rightarrow>
      if d_ID delta \<noteq> [] then sql_result (Inl ErrDeltaIDProvided)
      else
        (case PrepareDeltaForEnqueue now delta of
           Inl e \<Rightarrow> sql_result (Inl e)
         | Inr (normalized, key, meta) \<Rightarrow>
             (\<lambda>F d.
               (case sql_bind (pg_insert_delta_stmt pg nullif_empty key meta normalized)
                       (\<lambda>row. sql_result (ScanDelta row)) F d of
                  (Inl e, d1) \<Rightarrow>
                    if errors_Is e sql_ErrNoRows \<and> d_DedupKey normalized \<noteq> []
                    then sql_bind
                           (query (\<lambda>d. find (\<lambda>r. dr_dedup_key r = Some (d_DedupKey normalized)) (sq_deltas d)))
                           (\<lambda>row. sql_result (ScanDelta row)) F d1
                    else (Inl e, d1)
                | (Inr inserted, d1) \<Rightarrow> (Inr inserted, d1)))))"

definition pg_Enqueue :: "postgres \<Rightarrow> ctx \<Rightarrow> time \<Rightarrow> delta \<Rightarrow> delta sql" where
  "pg_Enqueue pg ctx now delta = pg_enqueue pg ctx now delta"

definition pg_EnqueueInTx :: "postgres \<Rightarrow> bool \<Rightarrow> ctx \<Rightarrow> time \<Rightarrow> delta \<Rightarrow> delta sql" where
  "pg_EnqueueInTx pg hasTx ctx now delta =
     (if \<not> hasTx then sql_result (Inl (Errors_New ''delta store requires transaction''))
      else pg_enqueue pg ctx now delta)"

section \<open>EnqueueBatch\<close>

fun pg_prepare_deltas :: "(nat \<Rightarrow> time) \<Rightarrow> nat \<Rightarrow> delta list \<Rightarrow> error + (delta \<times> string \<times> string) list" where
  "pg_prepare_deltas clock k [] = Inr []"
| "pg_prepare_deltas clock k (delta # deltas) =
     (if d_ID delta \<noteq> [] then Inl ErrDeltaIDProvided
      else
        (case PrepareDeltaForEnqueue (clock k) delta of
           Inl e \<Rightarrow> Inl e
         | Inr item \<Rightarrow>
             (case pg_prepare_deltas clock (Suc k) deltas of
                Inl e \<Rightarrow> Inl e
              | Inr prepared \<Rightarrow> Inr (item # prepared))))"

fun pg_insert_deltas ::
    "postgres \<Rightarrow> (delta \<times> string \<times> string) list \<Rightarrow> enqueue_batch_result \<Rightarrow> enqueue_batch_result sql"
where
  "pg_insert_deltas pg [] result F d = (Inr result, d)"
| "pg_insert_deltas pg ((delta, key, meta) # items) result F d =
     (case pg_insert_delta_stmt pg Some key meta delta F d of
        (Inl e, d1) \<Rightarrow> (Inl e, d1)
      | (Inr row, d1) \<Rightarrow>
          pg_insert_deltas pg items
            (if row \<noteq> None then result\<lparr>InsertedCount := Suc (InsertedCount result)\<rparr>
             else result\<lparr>DuplicateCount := Suc (DuplicateCount result)\<rparr>) F d1)"

definition pg_EnqueueBatchTx ::
    "postgres \<Rightarrow> bool \<Rightarrow> int \<Rightarrow> ctx \<Rightarrow> (nat \<Rightarrow> time) \<Rightarrow> delta list \<Rightarrow> enqueue_batch_result sql"
where
  "pg_EnqueueBatchTx pg hasTx maxSize ctx clock deltas =
     (if \<not> hasTx then sql_result (Inl (Errors_New ''delta store requires transaction''))
      else
        (case base_ValidateEnqueueBatch maxSize ctx deltas of
           Inl e \<Rightarrow> sql_result (Inl e)
         | Inr window \<Rightarrow>
             (let result = \<lparr>RequestedCount = length deltas, InsertedCount = 0, DuplicateCount = 0,
                            BatchDedupWindow = window\<rparr>
              in if deltas = [] then sql_result (Inr result)
                 else
                   (case pg_prepare_deltas clock 0 deltas of
                      Inl e \<Rightarrow> sql_result (Inl e)
                    | Inr prepared \<Rightarrow>
                        sql_bind (query (\<lambda>d. ())) (\<lambda>stmt. pg_insert_deltas pg prepared result)))))"

definition pg_EnqueueBatch ::
    "postgres \<Rightarrow> int \<Rightarrow> ctx \<Rightarrow> (nat \<Rightarrow> time) \<Rightarrow> delta list \<Rightarrow> enqueue_batch_result sql"
where
  "pg_EnqueueBatch pg maxSize ctx clock deltas =
     transaction (pg_EnqueueBatchTx pg True maxSize ctx clock deltas)"

section \<open>Get, Pull, MarkDispatched\<close>

definition pg_delta_Get :: "postgres \<Rightarrow> ctx \<Rightarrow> DeltaID \<Rightarrow> delta option sql" where
  "pg_delta_Get pg ctx deltaID =
     (case ctx of Some e \<Rightarrow> sql_result (Inl e) | None \<Rightarrow>
      (\<lambda>F d.
        (case sql_bind (by_id pg deltaID (\<lambda>u d. find_row dr_id u (sq_deltas d)))
                (\<lambda>row. sql_result (ScanDelta row)) F d of
           (Inl e, d1) \<Rightarrow> (if errors_Is e sql_ErrNoRows then Inr None else Inl e, d1)
         | (Inr delta, d1) \<Rightarrow> (Inr (Some delta), d1))))"

definition pg_pending :: "SyncID \<Rightarrow> sql_db \<Rightarrow> delta_row list" where
  "pg_pending syncID d =
     sort_slice delta_row_less
       (filter (\<lambda>r. dr_state r = ''pending'' \<and> dr_sync_id r = syncID) (sq_deltas d))"

fun pg_scan_deltas :: "delta_row list \<Rightarrow> error + delta list" where
  "pg_scan_deltas [] = Inr []"
| "pg_scan_deltas (r # rs) =
     (case ScanDelta (Some r) of
        Inl e \<Rightarrow> Inl e
      | Inr delta \<Rightarrow> (case pg_scan_deltas rs of Inl e \<Rightarrow> Inl e | Inr ds \<Rightarrow> Inr (delta # ds)))"

definition pg_Pull :: "ctx \<Rightarrow> SyncID \<Rightarrow> int \<Rightarrow> delta list sql" where
  "pg_Pull ctx syncID limit =
     (case ctx of Some e \<Rightarrow> sql_result (Inl e) | None \<Rightarrow>
      if limit \<le> 0 then sql_result (Inr [])
      else sql_bind (query (\<lambda>d. take (nat limit) (pg_pending syncID d)))
             (\<lambda>rows. sql_result (pg_scan_deltas rows)))"

definition pullPendingForDispatchTx :: "postgres \<Rightarrow> SyncID \<Rightarrow> int \<Rightarrow> delta_row list sql" where
  "pullPendingForDispatchTx pg syncID limit =
     query (\<lambda>d. take (nat limit)
       (filter (\<lambda>r. \<not> pg_locked pg (dr_id r)) (pg_pending syncID d)))"

definition pg_markDispatchedTx :: "postgres \<Rightarrow> DeltaID \<Rightarrow> time \<Rightarrow> unit sql" where
  "pg_markDispatchedTx pg deltaID at =
     sql_bind
       (statement (\<lambda>d.
         (case pg_uuid pg deltaID of
            None \<Rightarrow> (Inl pg_invalid_text, d)
          | Some u \<Rightarrow> update_delta_rows (\<lambda>r. dr_id r = u) (dispatched_row (microsFromTime at)) d)))
       (\<lambda>affected. sql_result (if affected = 0 then Inl ErrDeltaNotFound else Inr ()))"

definition pg_MarkDispatched :: "postgres \<Rightarrow> ctx \<Rightarrow> time \<Rightarrow> DeltaID \<Rightarrow> unit sql" where
  "pg_MarkDispatched pg ctx now deltaID =
     (case ctx of Some e \<Rightarrow> sql_result (Inl e) | None \<Rightarrow> pg_markDispatchedTx pg deltaID now)"

section \<open>Dispatch\<close>

text \<open>
  The row that \<open>createOutboxFromDeltaTx\<close> inserts for a pulled delta: its identifier and its key
  are cast once more.
\<close>

definition pg_outbox_row :: "postgres \<Rightarrow> int \<Rightarrow> string \<Rightarrow> int \<Rightarrow> delta_row \<Rightarrow> error + job_row" where
  "pg_outbox_row pg maxAttempts rowID now r =
     (case (pg_uuid pg (dr_id r), pg_jsonb pg (dr_projection_key r)) of
        (Some u, Some key) \<Rightarrow>
          Inr ((outbox_row maxAttempts rowID now r)\<lparr>jr_delta_id := Some u, jr_projection_key := key\<rparr>)
      | _ \<Rightarrow> Inl pg_invalid_text)"

definition pg_createOutboxFromDeltaTx :: "postgres \<Rightarrow> int \<Rightarrow> delta_row \<Rightarrow> time \<Rightarrow> sync_job option sql" where
  "pg_createOutboxFromDeltaTx pg maxAttempts r now =
     sql_bind
       (statement (\<lambda>d.
         (case pg_outbox_row pg maxAttempts (pg_new_id pg (sq_calls d)) (microsFromTime now) r of
            Inl e \<Rightarrow> (Inl e, d)
          | Inr row \<Rightarrow> pg_insert_job True row d)))
       (\<lambda>row. sql_result (ScanSyncJob row))"

fun pg_dispatch_rows ::
    "postgres \<Rightarrow> int \<Rightarrow> time \<Rightarrow> delta_row list \<Rightarrow> sync_job list \<Rightarrow> sync_job list sql"
where
  "pg_dispatch_rows pg maxAttempts now [] jobs F d = (Inr jobs, d)"
| "pg_dispatch_rows pg maxAttempts now (r # rs) jobs F d =
     (case pg_createOutboxFromDeltaTx pg maxAttempts r now F d of
        (Inl e, d1) \<Rightarrow> (Inl e, d1)
      | (Inr job, d1) \<Rightarrow>
          (case pg_markDispatchedTx pg (dr_id r) now F d1 of
             (Inl e, d2) \<Rightarrow> (Inl e, d2)
           | (Inr u, d2) \<Rightarrow>
               pg_dispatch_rows pg maxAttempts now rs
                 (case job of None \<Rightarrow> jobs | Some j \<Rightarrow> jobs @ [j]) F d2))"

text \<open>The flags say whether the two stores are set, have a database, and share it.\<close>

definition pg_DispatchPending ::
    "postgres \<Rightarrow> bool \<Rightarrow> bool \<Rightarrow> bool \<Rightarrow> int \<Rightarrow> ctx \<Rightarrow> time \<Rightarrow> SyncID \<Rightarrow> int \<Rightarrow> sync_job list sql"
where
  "pg_DispatchPending pg hasStores hasDatabases sharedDatabase maxAttempts ctx now syncID limit =
     (case ctx of Some e \<Rightarrow> sql_result (Inl e) | None \<Rightarrow>
      if limit \<le> 0 then sql_result (Inr [])
      else if \<not> hasStores
        then sql_result (Inl (Errors_New ''dispatch store requires delta and job stores''))
      else if \<not> hasDatabases
        then sql_result (Inl (Errors_New ''dispatch store requires configured databases''))
      else if \<not> sharedDatabase
        then sql_result (Inl (Errors_New
          ''dispatch store requires delta and job stores sharing same database''))
      else
        transaction
          (sql_bind (pullPendingForDispatchTx pg syncID limit) (\<lambda>pending.
             pg_dispatch_rows pg maxAttempts now pending [])))"

end
