(* ===== verification/DF_PgRefine.thy ===== *)
theory DF_PgRefine
  imports DF_PgDelta DF_SqliteRefine
begin

text \<open>
  The Postgres job store implements the in-memory one, telemetry included: where its statements
  do not fail they do what the statements of the SQLite store do, so its updates inherit the
  refinement proved there, and its claims, which are single statements, are compared with the
  in-memory claims directly. What is particular to Postgres is proved next: a claim that passes
  over rows locked by a claim in progress answers as if it ran after that claim.
\<close>

section \<open>Updates\<close>

text \<open>The counters are inside the range of their columns, with room for one more attempt.\<close>

definition counters_ok :: "job_row list \<Rightarrow> bool" where
  "counters_ok rs \<longleftrightarrow> list_all (\<lambda>r. - 2147483648 \<le> jr_attempt_count r \<and> jr_attempt_count r < 2147483647) rs"

definition one_more :: "(job_row \<Rightarrow> job_row) \<Rightarrow> bool" where
  "one_more f \<longleftrightarrow> (\<forall>r. jr_attempt_count (f r) = jr_attempt_count r \<or> jr_attempt_count (f r) = jr_attempt_count r + 1)"

lemma counters_in_range:
  "counters_ok rs \<Longrightarrow> one_more f \<Longrightarrow> r \<in> set rs \<Longrightarrow> int4_ok (jr_attempt_count (f r))"
  by (auto simp: counters_ok_def one_more_def int4_ok_def list_all_iff dest!: spec [of _ r])

lemma one_more_simps [simp]:
  "one_more (\<lambda>r. r\<lparr>jr_locked_until_micros := u, jr_updated_at_micros := t\<rparr>)"
  "one_more (\<lambda>r. unlock_row now (r\<lparr>jr_state := st, jr_ghost_detected := g, jr_synced_at_micros := m\<rparr>))"
  "one_more (\<lambda>r. unlock_row now (r\<lparr>jr_state := st, jr_attempt_count := jr_attempt_count r + 1,
     jr_last_error := e, jr_available_at_micros := t\<rparr>))"
  "one_more (\<lambda>r. unlock_row now (r\<lparr>jr_state := st, jr_last_error := e, jr_available_at_micros := t\<rparr>))"
  "one_more (\<lambda>r. unlock_row now (r\<lparr>jr_state := st, jr_attempt_count := jr_attempt_count r + 1,
     jr_last_error := e, jr_dead_at_micros := t'\<rparr>))"
  "one_more (\<lambda>r. unlock_row now (r\<lparr>jr_last_error := e\<rparr>))"
  "one_more (\<lambda>r. unlock_row now (r\<lparr>jr_state := st, jr_available_at_micros := t, jr_last_error := e\<rparr>))"
  by (simp_all add: one_more_def unlock_row_def)

lemma pg_update_agrees:
  assumes "pg_uuid pg i = Some i" and "counters_ok (sq_jobs d)" and "one_more f"
  shows "pg_update pg i cond f d =
    (Inr (map f (filter (\<lambda>r. jr_id r = i \<and> cond r) (sq_jobs d))),
     snd (update_job_rows (\<lambda>r. jr_id r = i \<and> cond r) f d))"
  using assms counters_in_range [OF assms(2,3)]
  by (auto simp: pg_update_def update_job_rows_def list_all_iff Let_def)

lemma exec_by_id_agrees:
  assumes "pg_uuid pg i = Some i" and "counters_ok (sq_jobs d)" and "one_more f"
  shows "exec_by_id pg c i cond f e no_faults d = exec_update c i (\<lambda>r. jr_id r = i \<and> cond r) f e no_faults d"
  using assms
  by (auto simp: exec_by_id_def exec_update_def sql_bind_def sql_result_def pg_update_agrees update_job_rows_def
      pg_jobExists_def jobExists_def by_id_def query_def filter_empty_conv split: option.splits)

text \<open>An update that returns its row answers as one that does not, when the rows can be read.\<close>

lemma updateAndReturn_agrees:
  assumes ok: "rows_ok (sq_jobs d)" and pg: "pg_uuid pg i = Some i" "counters_ok (sq_jobs d)" "one_more f"
    and key: "\<And>r. jr_projection_key (f r) = jr_projection_key r"
  shows "map_prod (map_sum id (\<lambda>j. ())) id (updateAndReturn pg c i cond f no_faults d)
    = exec_update c i (\<lambda>r. jr_id r = i \<and> cond r) f ErrJobLeaseNotOwned no_faults d"
proof (cases "filter (\<lambda>r. jr_id r = i \<and> cond r) (sq_jobs d)")
  case Nil
  with pg show ?thesis
    by (auto simp: updateAndReturn_def exec_update_def sql_bind_def sql_result_def pg_update_agrees update_job_rows_def
        pg_jobExists_def jobExists_def by_id_def query_def ScanSyncJob_def ScanSyncJobWithExtras_def split: option.splits)
next
  case (Cons r rs)
  then have r: "r \<in> set (sq_jobs d)" by (metis (no_types, lifting) list.set_intros(1) mem_Collect_eq set_filter)
  with ok obtain k where "json_Unmarshal_key (jr_projection_key (f r)) = Inr k"
    by (auto simp: rows_ok_def parses_def key)
  from key_of_column_parses [OF this] Cons pg show ?thesis
    by (auto simp: updateAndReturn_def exec_update_def sql_bind_def sql_result_def pg_update_agrees update_job_rows_def
        ScanSyncJob_def ScanSyncJobWithExtras_def split: option.splits)
qed

text \<open>The owner's transitions answer, leave and observe what the in-memory ones do.\<close>

lemma pg_Get_jobs: "sq_jobs (snd (pg_Get pg c i no_faults d)) = sq_jobs d"
  by (simp add: pg_Get_def sql_bind_def sql_result_def by_id_def split: option.split sum.split prod.split)

lemma same_jobs_rows: "sq_jobs d' = sq_jobs d \<Longrightarrow> same_jobs d s \<Longrightarrow> same_jobs d' s"
  by (simp add: same_jobs_def jobs_view_def)

lemma owned_by_id: "(jr_id r = i \<and> pg_owned w now r) = owned_row i w now r"
  by (auto simp: pg_owned_def owned_row_def)

lemma expired_by_id: "(jr_id r = i \<and> pg_expired now r) = expired_row i now r"
  by (auto simp: pg_expired_def expired_row_def)

lemma observed_update:
  assumes "updateOwned c now i w tr fn (memory_view d) = (e, s)"
  shows "js_telemetry s = (if c = None then observeOwnershipResult tr e else [])"
    and "c \<noteq> None \<Longrightarrow> e = c"
    and "c = None \<Longrightarrow> e \<in> {None, Some ErrJobNotFound, Some ErrJobLeaseNotOwned}"
  using assms by (auto simp: updateOwned_cases observeOwnershipResult_def split: option.splits if_splits)

text \<open>What \<open>Err\<close> of a context returns, as its documentation says.\<close>

definition ctx_error :: "ctx \<Rightarrow> bool" where
  "ctx_error c \<longleftrightarrow> c \<in> {None, Some CtxCanceled, Some CtxDeadlineExceeded}"

lemma observed_telemetry:
  assumes "updateOwned c now i w tr fn (memory_view d) = (e, s)" and "ctx_error c"
  shows "observeOwnershipResult tr e = js_telemetry s"
  using assms observed_update [OF assms(1)] by (cases c) (auto simp: observeOwnershipResult_def ctx_error_def)

lemma error_of_map [simp]: "error_of (map_sum id f r) = error_of r"
  by (cases r) simp_all

lemma owner_transition_refines:
  assumes ok: "rows_ok (sq_jobs d)" and pg: "pg_uuid pg i = Some i" "counters_ok (sq_jobs d)" "one_more f"
    and row: "\<And>r. jr_id (f r) = jr_id r" "\<And>r. jr_projection_key (f r) = jr_projection_key r"
    and view: "\<And>r. job_view (f r) = round_job ((fn (job_view r) now)\<lparr>j_UpdatedAt := now\<rparr>)"
    and c: "ctx_error c"
    and run: "owner_transition pg c i tr (pg_owned w (microsFromTime now)) f no_faults d = (x, es, d')"
    and spec: "updateOwned c now i w tr fn (memory_view d) = (e, s)"
  shows "error_of x = e \<and> same_jobs d' s \<and> es = js_telemetry s \<and> rows_ok (sq_jobs d')"
proof -
  obtain u d1 where u: "updateAndReturn pg c i (pg_owned w (microsFromTime now)) f no_faults d = (u, d1)"
    by (rule prod.exhaust)
  have exec: "exec_update c i (owned_row i w (microsFromTime now)) f ErrJobLeaseNotOwned no_faults d
    = (map_sum id (\<lambda>j. ()) u, d1)"
    using updateAndReturn_agrees [OF ok pg row(2), of c "pg_owned w (microsFromTime now)"] u by (simp add: owned_by_id)
  have step: "error_of u = e \<and> same_jobs d1 s"
    using owner_refines [OF ok row(1) view exec [folded sqlite_updateOwned_def] spec] by simp
  have d': "sq_jobs d' = sq_jobs d1" and x: "error_of x = error_of u" and es: "es = observeOwnershipResult tr e"
    using run u step pg_Get_jobs [of pg c i d1]
    by (auto simp: owner_transition_def observed_def logLeaseTransitionRejected_def error_of_def
        split: sum.splits prod.splits)
  have "rows_ok (sq_jobs d')"
    unfolding d' by (rule exec_update_rows_ok [OF ok exec row])
  with step x es same_jobs_rows [OF d'] observed_telemetry [OF spec c] show ?thesis by simp
qed

text \<open>
  A renewal is observed before the transition it is reported as; in memory it is the other way
  round.
\<close>

definition renew_first :: "lease_event list \<Rightarrow> lease_event list" where
  "renew_first es = (if es = [] then [] else last es # butlast es)"

fun pg_telemetry :: "job_op \<Rightarrow> lease_event list \<Rightarrow> lease_event list" where
  "pg_telemetry (Op_RenewLease i w l) es = renew_first es"
| "pg_telemetry _ es = es"

lemma pg_owners_refine:
  assumes ok: "rows_ok (sq_jobs d)" and pg: "pg_uuid pg i = Some i" "counters_ok (sq_jobs d)" and c: "ctx_error c"
  defines "agrees \<equiv> \<lambda>(x :: error + unit) es d' e s.
      error_of x = e \<and> same_jobs d' s \<and> es = js_telemetry s \<and> rows_ok (sq_jobs d')"
  shows "pg_MarkSynced pg c now i w g no_faults d = (x, es, d') \<Longrightarrow>
      MarkSynced c now i w g (memory_view d) = (e, s) \<Longrightarrow> agrees x es d' e s"
    and "pg_MarkRetrying pg c now i w r t no_faults d = (x, es, d') \<Longrightarrow>
      MarkRetrying c now i w r t (memory_view d) = (e, s) \<Longrightarrow> agrees x es d' e s"
    and "pg_RequeueClaimed pg c now i w r t no_faults d = (x, es, d') \<Longrightarrow>
      RequeueClaimed c now i w r t (memory_view d) = (e, s) \<Longrightarrow> agrees x es d' e s"
    and "pg_MarkDead pg c now i w r no_faults d = (x, es, d') \<Longrightarrow>
      MarkDead c now i w r (memory_view d) = (e, s) \<Longrightarrow> agrees x es d' e s"
    and "pg_RenewLease pg c now i w l no_faults d = (x, es, d') \<Longrightarrow>
      RenewLease c now i w l (memory_view d) = (e, s) \<Longrightarrow> error_of x = e \<and> same_jobs d' s
        \<and> es = renew_first (js_telemetry s) \<and> rows_ok (sq_jobs d')"
proof -
  assume run: "pg_RenewLease pg c now i w l no_faults d = (x, es, d')"
    and spec: "RenewLease c now i w l (memory_view d) = (e, s)"
  show "error_of x = e \<and> same_jobs d' s \<and> es = renew_first (js_telemetry s) \<and> rows_ok (sq_jobs d')"
  proof (cases "c = None \<and> 0 < l")
    case True
    let ?f = "\<lambda>r. r\<lparr>jr_locked_until_micros := Some (microsFromTime (now + l)), jr_updated_at_micros := microsFromTime now\<rparr>"
    obtain s1 where s1: "updateOwned c now i w LeaseTelemetryTransitionRenewLease (renew_job l) (memory_view d) = (e, s1)"
      and s: "js_jobs s = js_jobs s1" "js_telemetry s = js_telemetry s1 @ [ObserveLeaseRenew (leaseResult e)]"
      using spec True by (auto simp: RenewLease_def split: prod.splits)
    have exec: "exec_update c i (owned_row i w (microsFromTime now)) ?f ErrJobLeaseNotOwned no_faults d = (x, d')"
      and es: "es = ObserveLeaseRenew (leaseResult (error_of x)) # observeOwnershipResult LeaseTelemetryTransitionRenewLease (error_of x)"
      using run True exec_by_id_agrees [OF pg, of ?f c "pg_owned w (microsFromTime now)" ErrJobLeaseNotOwned]
      by (auto simp: pg_RenewLease_def observed_def pg_execUpdate_def owned_by_id error_of_def split: prod.splits)
    have "error_of x = e \<and> same_jobs d' s1"
      by (rule owner_refines [OF ok _ renew_row_view exec [folded sqlite_updateOwned_def] s1]) simp
    moreover have "rows_ok (sq_jobs d')" by (rule exec_update_rows_ok [OF ok exec]) simp_all
    ultimately show ?thesis using es s observed_telemetry [OF s1 c] by (simp add: same_jobs_def renew_first_def)
  qed (use run spec ok in \<open>auto simp: renew_first_def pg_RenewLease_def RenewLease_def same_jobs_unchanged split: option.splits\<close>)
qed (unfold agrees_def pg_MarkSynced_def pg_MarkRetrying_def pg_RequeueClaimed_def pg_MarkDead_def
    MarkSynced_def MarkRetrying_def RequeueClaimed_def MarkDead_def,
    erule (1) owner_transition_refines [OF ok pg, rotated -2]; simp add: unlock_row_view c)+

lemma pg_operators_agree:
  assumes "pg_uuid pg i = Some i" and "counters_ok (sq_jobs d)"
  shows "pg_ForceReleaseExpiredLease pg c now i r no_faults d = sqlite_ForceReleaseExpiredLease c now i r no_faults d"
    and "pg_RequeueExpiredLease pg c now i t r no_faults d = sqlite_RequeueExpiredLease c now i t r no_faults d"
  using exec_by_id_agrees [OF assms, of _ _ "pg_expired (microsFromTime now)" ErrJobLeaseNotExpired]
  by (simp_all add: pg_ForceReleaseExpiredLease_def sqlite_ForceReleaseExpiredLease_def pg_RequeueExpiredLease_def
      sqlite_RequeueExpiredLease_def pg_updateLeaseOperator_def updateLeaseOperator_def expired_by_id Let_def
      split: option.split)

lemma sqlite_operators_rows_ok:
  assumes ok: "rows_ok (sq_jobs d)"
  shows "sqlite_ForceReleaseExpiredLease c now i r no_faults d = (x, d') \<Longrightarrow> rows_ok (sq_jobs d')"
    and "sqlite_RequeueExpiredLease c now i t r no_faults d = (x, d') \<Longrightarrow> rows_ok (sq_jobs d')"
  using ok
  by (auto simp: sqlite_ForceReleaseExpiredLease_def sqlite_RequeueExpiredLease_def updateLeaseOperator_def Let_def
      sql_result_def split: option.splits if_splits dest!: exec_update_rows_ok [OF ok])

section \<open>Claims\<close>

definition unlocked :: "postgres \<Rightarrow> job_row list \<Rightarrow> job_row list" where
  "unlocked pg rs = filter (\<lambda>r. \<not> pg_locked pg (jr_id r)) rs"

lemma scan_claimed_row:
  assumes "parses (jr_projection_key r)"
  shows "ScanSyncJobWithExtras (Some (claim_row w u now r, g)) = Inr (Some (job_view (claim_row w u now r), g))"
proof -
  from assms obtain k where "json_Unmarshal_key (jr_projection_key (claim_row w u now r)) = Inr k"
    by (auto simp: parses_def)
  from key_of_column_parses [OF this] this show ?thesis
    by (simp add: ScanSyncJobWithExtras_def job_view_def row_key_def)
qed

lemma scan_claimed_rows:
  assumes "\<forall>r \<in> set rs. parses (jr_projection_key r)"
  shows "scan_claimed (map (\<lambda>r. (claim_row w u now r, g r)) rs) = Inr (map (\<lambda>r. (job_view (claim_row w u now r), g r)) rs)"
  using assms by (induction rs) (simp_all add: scan_claimed_row)

text \<open>The rows that a claim takes: the first unlocked candidates, whatever else is locked.\<close>

lemma pg_claim_effect:
  assumes "rows_ok (sq_jobs d)" and "pg_claim pg syncID w n now u no_faults d = (x, d')"
  defines "rs \<equiv> take (nat n) (unlocked pg (row_candidates syncID now (sq_jobs d)))"
  shows "x = Inr (map (\<lambda>r. (claim_row w u now r, reclaimed_row now r)) rs)
    \<and> sq_jobs d' = claim_rows (jr_id ` set rs) w u now (sq_jobs d) \<and> sq_deltas d' = sq_deltas d
    \<and> set rs \<subseteq> set (sq_jobs d)"
  using assms(2)
  by (auto simp: pg_claim_def pg_candidates_def unlocked_def row_candidates_def claim_rows_def Let_def rs_def
      dest!: in_set_takeD)

lemma reclaimed_view: "claim_success (reclaimed_row (microsFromTime now) r) = claim_events now (job_view r)"
  using expired_view [of "jr_id r" now r]
  by (simp add: claim_success_def claim_events_def reclaimed_row_def expired_row_def)

lemma pg_ClaimNextBatch_effect:
  assumes ok: "rows_ok (sq_jobs d)" and "0 < l" and "0 < n"
    and run: "pg_ClaimNextBatch pg None now syncID w n l no_faults d = (x, es, d')"
  defines "rs \<equiv> take (nat n) (unlocked pg (row_candidates syncID (microsFromTime now) (sq_jobs d)))"
  shows "x = Inr (map (\<lambda>r. job_view (claim_row w (microsFromTime (now + l)) (microsFromTime now) r)) rs)
    \<and> sq_jobs d' = claim_rows (jr_id ` set rs) w (microsFromTime (now + l)) (microsFromTime now) (sq_jobs d)
    \<and> sq_deltas d' = sq_deltas d
    \<and> es = (if rs = [] then [ObserveLeaseClaim LeaseTelemetryResultEmpty]
            else concat (map (\<lambda>r. claim_events now (job_view r)) rs))"
proof -
  obtain y d1 where claim: "pg_claim pg syncID w n (microsFromTime now) (microsFromTime (now + l)) no_faults d = (y, d1)"
    by (rule prod.exhaust)
  note eff = pg_claim_effect [OF ok claim, folded rs_def]
  have "\<forall>r \<in> set rs. parses (jr_projection_key r)" using eff ok by (auto simp: rows_ok_def)
  note scan = scan_claimed_rows [OF this]
  show ?thesis
    using run assms(2,3) claim eff
    by (clarsimp simp: pg_ClaimNextBatch_def scan) (cases rs; clarsimp simp: reclaimed_view o_def)
qed

lemma pg_ClaimNext_effect:
  assumes ok: "rows_ok (sq_jobs d)" and "0 < l"
    and run: "pg_ClaimNext pg None now syncID w l no_faults d = (x, es, d')"
  shows "case unlocked pg (row_candidates syncID (microsFromTime now) (sq_jobs d)) of
      [] \<Rightarrow> x = Inr None \<and> sq_jobs d' = sq_jobs d \<and> es = [ObserveLeaseClaim LeaseTelemetryResultEmpty]
    | r # _ \<Rightarrow> x = Inr (Some (job_view (claim_row w (microsFromTime (now + l)) (microsFromTime now) r)))
        \<and> sq_jobs d' = claim_rows {jr_id r} w (microsFromTime (now + l)) (microsFromTime now) (sq_jobs d)
        \<and> es = claim_events now (job_view r)"
proof -
  let ?rs = "unlocked pg (row_candidates syncID (microsFromTime now) (sq_jobs d))"
  obtain y d1 where claim: "pg_claim pg syncID w 1 (microsFromTime now) (microsFromTime (now + l)) no_faults d = (y, d1)"
    by (rule prod.exhaust)
  note eff = pg_claim_effect [OF ok claim]
  show ?thesis
  proof (cases ?rs)
    case (Cons r rs)
    then have "r \<in> set (sq_jobs d)" using eff by auto
    then have "parses (jr_projection_key r)" using ok by (simp add: rows_ok_def)
    then show ?thesis using run assms(2) claim eff Cons
      by (auto simp: pg_ClaimNext_def reclaimed_view scan_claimed_row)
  qed (use run assms(2) claim eff in \<open>auto simp: pg_ClaimNext_def\<close>)
qed

lemma unlocked_all: "(\<And>i. \<not> pg_locked pg i) \<Longrightarrow> unlocked pg rs = rs"
  by (simp add: unlocked_def)

lemma pg_claims_refine:
  assumes ok: "rows_ok (sq_jobs d)" and free: "\<And>i. \<not> pg_locked pg i"
  shows "pg_ClaimNext pg c now syncID w l no_faults d = (x, es, d') \<Longrightarrow>
      ClaimNext c now syncID w l (memory_view d) = (y, s) \<Longrightarrow>
      x = map_sum id (map_option round_job) y \<and> same_jobs d' s \<and> es = js_telemetry s \<and> rows_ok (sq_jobs d')"
    and "pg_ClaimNextBatch pg c now syncID w n l no_faults d = (x', es, d') \<Longrightarrow>
      ClaimNextBatch c now syncID w n l (memory_view d) = (y', s) \<Longrightarrow>
      x' = map_sum id (map round_job) y' \<and> same_jobs d' s \<and> es = js_telemetry s \<and> rows_ok (sq_jobs d')"
proof -
  assume run: "pg_ClaimNext pg c now syncID w l no_faults d = (x, es, d')"
    and spec: "ClaimNext c now syncID w l (memory_view d) = (y, s)"
  show "x = map_sum id (map_option round_job) y \<and> same_jobs d' s \<and> es = js_telemetry s \<and> rows_ok (sq_jobs d')"
  proof (cases "c = None \<and> 0 < l")
    case True
    have eff: "case row_candidates syncID (microsFromTime now) (sq_jobs d) of
        [] \<Rightarrow> x = Inr None \<and> sq_jobs d' = sq_jobs d \<and> es = [ObserveLeaseClaim LeaseTelemetryResultEmpty]
      | r # _ \<Rightarrow> x = Inr (Some (job_view (claim_row w (microsFromTime (now + l)) (microsFromTime now) r)))
          \<and> sq_jobs d' = claim_rows {jr_id r} w (microsFromTime (now + l)) (microsFromTime now) (sq_jobs d)
          \<and> es = claim_events now (job_view r)"
      using pg_ClaimNext_effect [OF ok _ run [unfolded conjunct1 [OF True]]] True unlocked_all [of pg, OF free] by simp
    then have "case row_candidates syncID (microsFromTime now) (sq_jobs d) of
        [] \<Rightarrow> x = Inr None \<and> sq_jobs d' = sq_jobs d
      | r # _ \<Rightarrow> x = Inr (Some (job_view (claim_row w (microsFromTime (now + l)) (microsFromTime now) r)))
          \<and> sq_jobs d' = claim_rows {jr_id r} w (microsFromTime (now + l)) (microsFromTime now) (sq_jobs d)"
      by (simp split: list.splits)
    from claim_next_view [OF ok conjunct2 [OF True] this spec [unfolded conjunct1 [OF True]]] eff ok
    show ?thesis by (auto split: list.splits)
  qed (use run spec ok in \<open>auto simp: pg_ClaimNext_def ClaimNext_def same_jobs_unchanged split: option.splits\<close>)
next
  assume run: "pg_ClaimNextBatch pg c now syncID w n l no_faults d = (x', es, d')"
    and spec: "ClaimNextBatch c now syncID w n l (memory_view d) = (y', s)"
  show "x' = map_sum id (map round_job) y' \<and> same_jobs d' s \<and> es = js_telemetry s \<and> rows_ok (sq_jobs d')"
  proof (cases "c = None \<and> 0 < l \<and> 0 < n")
    case True
    then have l: "0 < l" and n: "0 < n" and c: "c = None" by simp_all
    note eff = pg_ClaimNextBatch_effect [OF ok l n run [unfolded c], unfolded unlocked_all [of pg, OF free]]
    note view = claim_batch_view [OF ok l n refl conjunct1 [OF eff] conjunct1 [OF conjunct2 [OF eff]] spec [unfolded c]]
    from view eff have "es = js_telemetry s" by argo
    moreover from eff ok have "rows_ok (sq_jobs d')" by (metis claim_rows_ok)
    ultimately show ?thesis using view by blast
  qed (use run spec ok in \<open>auto simp: pg_ClaimNextBatch_def ClaimNextBatch_def same_jobs_unchanged split: option.splits if_splits\<close>)
qed

section \<open>Refinement\<close>

definition unobserved :: "(error + 'a) \<times> sql_db \<Rightarrow> (error + 'a) \<times> lease_event list \<times> sql_db" where
  "unobserved p = (fst p, [], snd p)"

definition pg_answer :: "('r \<Rightarrow> job_answer) \<Rightarrow> 'r \<times> lease_event list \<times> sql_db \<Rightarrow> job_answer \<times> lease_event list \<times> sql_db"
where
  "pg_answer f p = (f (fst p), snd p)"

lemma pg_answer_eq: "pg_answer f p = (b, es, d') \<longleftrightarrow> (\<exists>x. p = (x, es, d') \<and> b = f x)"
  by (cases p) (auto simp: pg_answer_def)

lemma unobserved_eq: "unobserved p = (x, es, d') \<longleftrightarrow> p = (x, d') \<and> es = []"
  by (cases p) (auto simp: unobserved_def)

text \<open>The operations on a database whose statements do not fail, with answer and telemetry.\<close>

fun pg_run ::
    "postgres \<Rightarrow> int \<Rightarrow> ctx \<Rightarrow> time \<Rightarrow> job_op \<Rightarrow> sql_db \<Rightarrow> job_answer \<times> lease_event list \<times> sql_db"
where
  "pg_run pg n c now (Op_Create j) d = pg_answer Answer_Job (unobserved (pg_Create pg n c now j no_faults d))"
| "pg_run pg n c now (Op_ClaimNext i w l) d = pg_answer Answer_Job (pg_ClaimNext pg c now i w l no_faults d)"
| "pg_run pg n c now (Op_ClaimNextBatch i w k l) d =
     pg_answer Answer_Jobs (pg_ClaimNextBatch pg c now i w k l no_faults d)"
| "pg_run pg n c now (Op_RenewLease i w l) d =
     pg_answer (\<lambda>r. Answer (error_of r)) (pg_RenewLease pg c now i w l no_faults d)"
| "pg_run pg n c now (Op_MarkSynced i w g) d =
     pg_answer (\<lambda>r. Answer (error_of r)) (pg_MarkSynced pg c now i w g no_faults d)"
| "pg_run pg n c now (Op_MarkRetrying i w e t) d =
     pg_answer (\<lambda>r. Answer (error_of r)) (pg_MarkRetrying pg c now i w e t no_faults d)"
| "pg_run pg n c now (Op_RequeueClaimed i w e t) d =
     pg_answer (\<lambda>r. Answer (error_of r)) (pg_RequeueClaimed pg c now i w e t no_faults d)"
| "pg_run pg n c now (Op_MarkDead i w e) d =
     pg_answer (\<lambda>r. Answer (error_of r)) (pg_MarkDead pg c now i w e no_faults d)"
| "pg_run pg n c now (Op_ForceReleaseExpiredLease i r) d =
     pg_answer (\<lambda>r. Answer (error_of r)) (unobserved (pg_ForceReleaseExpiredLease pg c now i r no_faults d))"
| "pg_run pg n c now (Op_RequeueExpiredLease i t r) d =
     pg_answer (\<lambda>r. Answer (error_of r)) (unobserved (pg_RequeueExpiredLease pg c now i t r no_faults d))"

text \<open>The operations that are compared: identifiers are canonical UUIDs.\<close>

fun pg_comparable :: "postgres \<Rightarrow> job_op \<Rightarrow> bool" where
  "pg_comparable pg (Op_Create j) \<longleftrightarrow> False"
| "pg_comparable pg (Op_ClaimNext i w l) \<longleftrightarrow> True"
| "pg_comparable pg (Op_ClaimNextBatch i w n l) \<longleftrightarrow> True"
| "pg_comparable pg (Op_RenewLease i w l) \<longleftrightarrow> pg_uuid pg i = Some i"
| "pg_comparable pg (Op_MarkSynced i w g) \<longleftrightarrow> pg_uuid pg i = Some i"
| "pg_comparable pg (Op_MarkRetrying i w e t) \<longleftrightarrow> pg_uuid pg i = Some i"
| "pg_comparable pg (Op_RequeueClaimed i w e t) \<longleftrightarrow> pg_uuid pg i = Some i"
| "pg_comparable pg (Op_MarkDead i w e) \<longleftrightarrow> pg_uuid pg i = Some i"
| "pg_comparable pg (Op_ForceReleaseExpiredLease i r) \<longleftrightarrow> pg_uuid pg i = Some i"
| "pg_comparable pg (Op_RequeueExpiredLease i t r) \<longleftrightarrow> pg_uuid pg i = Some i"

lemma operator_actions_silent:
  "ForceReleaseExpiredLease c now i r (memory_view d) = (e, s) \<Longrightarrow> js_telemetry s = []"
  "RequeueExpiredLease c now i t r (memory_view d) = (e, s) \<Longrightarrow> js_telemetry s = []"
  by (auto simp: ForceReleaseExpiredLease_def RequeueExpiredLease_def Let_def split: option.splits if_splits)

lemma pg_operators_refine:
  assumes ok: "rows_ok (sq_jobs d)" and pg: "pg_uuid pg i = Some i" "counters_ok (sq_jobs d)"
  shows "pg_ForceReleaseExpiredLease pg c now i r no_faults d = (x, d') \<Longrightarrow>
      ForceReleaseExpiredLease c now i r (memory_view d) = (e, s) \<Longrightarrow>
      error_of x = e \<and> same_jobs d' s \<and> js_telemetry s = [] \<and> rows_ok (sq_jobs d')"
    and "pg_RequeueExpiredLease pg c now i t r no_faults d = (x, d') \<Longrightarrow>
      RequeueExpiredLease c now i t r (memory_view d) = (e, s) \<Longrightarrow>
      error_of x = e \<and> same_jobs d' s \<and> js_telemetry s = [] \<and> rows_ok (sq_jobs d')"
  using operators_refine [OF ok] sqlite_operators_rows_ok [OF ok] operator_actions_silent
  by (simp_all add: pg_operators_agree [OF pg])

text \<open>The operations that only read.\<close>

fun pg_read :: "postgres \<Rightarrow> ctx \<Rightarrow> time \<Rightarrow> job_read \<Rightarrow> sql_db \<Rightarrow> read_answer \<times> sql_db" where
  "pg_read pg c now (Read_Get i) d = apfst Found (pg_Get pg c i no_faults d)"
| "pg_read pg c now (Read_ActiveLeases i n) d = apfst Listed (pg_ListActiveLeases c now i n no_faults d)"
| "pg_read pg c now (Read_ExpiredLeases i n) d = apfst Listed (pg_ListExpiredProcessingLeases c now i n no_faults d)"
| "pg_read pg c now (Read_NearExpiryLeases i l n) d = apfst Listed (pg_ListNearExpiryLeases c now i l n no_faults d)"

fun readable :: "postgres \<Rightarrow> job_read \<Rightarrow> bool" where
  "readable pg (Read_Get i) \<longleftrightarrow> pg_uuid pg i = Some i"
| "readable pg _ \<longleftrightarrow> True"

lemma scan_pg_row: "parses (jr_projection_key r) \<Longrightarrow> ScanSyncJob (Some r) = Inr (Some (job_view r))"
  by (auto simp: parses_def ScanSyncJob_def ScanSyncJobWithExtras_def key_of_column_parses job_view_def row_key_def)

lemma pg_collect_rows: "\<forall>r \<in> set rs. parses (jr_projection_key r) \<Longrightarrow> pg_collectJobs rs = Inr (map job_view rs)"
  by (induction rs) (simp_all add: scan_pg_row)

lemma pg_lease_rows: "pg_lease_query syncID cond limit d = lease_rows syncID cond limit d"
  by (cases "syncID = []") (simp_all add: pg_lease_query_def lease_rows_def)

lemma pg_lease_jobs:
  "rows_ok (sq_jobs d) \<Longrightarrow> pg_collectJobs (lease_rows syncID cond limit d) = Inr (map job_view (lease_rows syncID cond limit d))"
  using set_lease_rows [of syncID cond limit d] by (intro pg_collect_rows) (auto simp: rows_ok_def)

lemma pg_reads:
  assumes ok: "rows_ok (sq_jobs d)" and "readable pg q"
  shows "fst (pg_read pg c now q d) = memory_read c now q (memory_view d)"
proof (cases c)
  case None
  show ?thesis
  proof (cases q)
    case (Read_Get i)
    then show ?thesis using find_row_parses [OF ok, of i] None assms(2)
      by (cases "find_row jr_id i (sq_jobs d)")
        (auto simp: pg_Get_def reads_on_memory by_id_def sql_bind_def sql_result_def scan_pg_row ScanSyncJob_def [of None]
          ScanSyncJobWithExtras_def [of None])
  next
    case (Read_ActiveLeases i n)
    then show ?thesis using None
      by (cases "0 < n") (simp_all add: pg_ListActiveLeases_def reads_on_memory sql_bind_def pg_lease_rows pg_lease_jobs ok sql_result_def)
  next
    case (Read_ExpiredLeases i n)
    then show ?thesis using None
      by (cases "0 < n")
        (simp_all add: pg_ListExpiredProcessingLeases_def reads_on_memory sql_bind_def pg_lease_rows pg_lease_jobs ok sql_result_def)
  next
    case (Read_NearExpiryLeases i l n)
    then show ?thesis using None
      by (cases "0 < n"; cases "l < 0")
        (simp_all add: pg_ListNearExpiryLeases_def reads_on_memory sql_bind_def pg_lease_rows pg_lease_jobs ok sql_result_def)
  qed
qed (cases q; simp add: pg_Get_def pg_ListActiveLeases_def pg_ListExpiredProcessingLeases_def
    pg_ListNearExpiryLeases_def reads_on_memory sql_result_def)

lemma pg_reads_only: "sq_jobs (snd (pg_read pg c now q d)) = sq_jobs d"
  by (cases q) (auto simp: pg_Get_jobs pg_ListActiveLeases_def pg_ListExpiredProcessingLeases_def
      pg_ListNearExpiryLeases_def sql_bind_def sql_result_def split: option.split sum.split)

text \<open>
  C17: The Postgres job store implements the in-memory one, when no statement fails, no other
  transaction holds a row, identifiers are canonical UUIDs and the attempt counters are below the
  limit of their column. Every transition but Create answers what the in-memory store answers
  on the jobs of the database, errors included, leaves the jobs that it leaves, with
  instants rounded down to whole microseconds, and makes the same telemetry calls in the same
  order, except that a renewal is observed first and not last. Get and the three lists of
  leases answer exactly as in memory and change no job. The identifiers stay unique and the keys
  readable. Create is left out: the stores check and default different fields of a new
  job.
\<close>

theorem postgres_refines_memory:
  assumes "rows_ok (sq_jobs d)" and "counters_ok (sq_jobs d)" and "pg_comparable pg op" and "ctx_error c"
    and "\<And>i. \<not> pg_locked pg i"
    and "memory_run c now op (memory_view d) = (a, s)" and "pg_run pg n c now op d = (b, es, d')"
  shows "b = round_answer a \<and> map_of (jobs_view d') = map_option round_job \<circ> map_of (js_jobs s)
    \<and> es = pg_telemetry op (js_telemetry s) \<and> rows_ok (sq_jobs d')
    \<and> (\<forall>q. readable pg q \<longrightarrow> fst (pg_read pg c now q d) = memory_read c now q (memory_view d)
         \<and> sq_jobs (snd (pg_read pg c now q d)) = sq_jobs d)"
proof -
  note claims = pg_claims_refine [OF assms(1,5)]
  note owners = pg_owners_refine [OF assms(1) _ assms(2,4)]
  note operators = pg_operators_refine [OF assms(1) _ assms(2)]
  have "b = round_answer a \<and> same_jobs d' s \<and> es = pg_telemetry op (js_telemetry s) \<and> rows_ok (sq_jobs d')"
    using assms(3,6,7)
    by - (cases op; clarsimp simp: pg_answer_eq unobserved_eq apfst_eq;
        (drule (1) claims | drule (2) owners | drule (2) operators); simp add: round_answer_def)
  then show ?thesis by (simp add: same_jobs_def pg_reads [OF assms(1)] pg_reads_only)
qed

section \<open>Claims that pass over locked rows\<close>

text \<open>
  While a claim is in progress its rows are locked, and another claim does not see its writes.
  It does not matter: the other claim answers what it would answer after the first.
\<close>

lemma candidates_after_claims:
  assumes "now < u"
  shows "row_candidates syncID now (claim_rows S w u t rs) = filter (\<lambda>r. jr_id r \<notin> S) (row_candidates syncID now rs)"
proof -
  have "filter (claimable_row syncID now) (claim_rows S w u t rs)
      = filter (\<lambda>r. jr_id r \<notin> S) (filter (claimable_row syncID now) rs)"
    using assms by (induction rs) (auto simp: claim_rows_def)
  then show ?thesis by (simp add: row_candidates_def row_order.sort_slice_sort_key filter_sort)
qed

lemma claim_rows_commute:
  "S \<inter> T = {} \<Longrightarrow> claim_rows S w u t (claim_rows T w' u' t' rs) = claim_rows T w' u' t' (claim_rows S w u t rs)"
  by (auto simp: claim_rows_def)

definition hold_rows :: "SyncJobID set \<Rightarrow> postgres \<Rightarrow> postgres" where
  "hold_rows S pg = pg\<lparr>pg_locked := \<lambda>i. i \<in> S\<rparr>"

lemma claimed_ids: "j_ID ` set (map (\<lambda>r. job_view (claim_row w u t r)) rs) = jr_id ` set rs"
  by (simp add: image_image)

lemma disjoint_taken: "S \<inter> f ` set (take n (filter (\<lambda>r. f r \<notin> S) rs)) = {}"
  by (auto dest!: in_set_takeD)

text \<open>
  C18: A batch claim that passes over the rows of another batch claim still in progress answers
  exactly as if it ran after that claim, telemetry included, as long as the first claim's
  leases run: the two hand out no job twice, and the rows end up the same either way.
\<close>

theorem skip_locked_is_serial:
  assumes "rows_ok (sq_jobs d)" and "\<And>i. \<not> pg_locked pg i" and "0 < n" and "0 < l" and "0 < m" and "0 < l'"
    and first: "pg_ClaimNextBatch pg None now syncID w n l no_faults d = (Inr jobs, es, d1)"
    and "microsFromTime now' < microsFromTime (now + l)"
    and beside: "pg_ClaimNextBatch (hold_rows (j_ID ` set jobs) pg) None now' syncID' v m l' no_faults d = (x, es', d2)"
    and after: "pg_ClaimNextBatch pg None now' syncID' v m l' no_faults d1 = (y, es'', d3)"
  shows "\<exists>js. x = Inr js \<and> y = Inr js \<and> es' = es'' \<and> j_ID ` set js \<inter> j_ID ` set jobs = {}
    \<and> sq_jobs d3 = claim_rows (j_ID ` set jobs) w (microsFromTime (now + l)) (microsFromTime now) (sq_jobs d2)"
proof -
  let ?u = "microsFromTime (now + l)" and ?u' = "microsFromTime (now' + l')" and ?S = "j_ID ` set jobs"
  let ?cs = "take (nat m) (filter (\<lambda>r. jr_id r \<notin> ?S) (row_candidates syncID' (microsFromTime now') (sq_jobs d)))"
  note one = pg_ClaimNextBatch_effect [OF assms(1,4,3) first]
  have jobs: "sq_jobs d1 = claim_rows ?S w ?u (microsFromTime now) (sq_jobs d)"
    using one by (clarsimp simp: image_image)
  then have ok1: "rows_ok (sq_jobs d1)" using assms(1) by simp
  have cs1: "take (nat m) (unlocked (hold_rows ?S pg) (row_candidates syncID' (microsFromTime now') (sq_jobs d))) = ?cs"
    by (simp add: unlocked_def hold_rows_def)
  have cs2: "take (nat m) (unlocked pg (row_candidates syncID' (microsFromTime now') (sq_jobs d1))) = ?cs"
    using unlocked_all [of pg, OF assms(2)] candidates_after_claims [OF assms(8)] by (simp add: jobs)
  note two = pg_ClaimNextBatch_effect [OF assms(1,6,5) beside, unfolded cs1]
  note three = pg_ClaimNextBatch_effect [OF ok1 assms(6,5) after, unfolded cs2]
  let ?js = "map (\<lambda>r. job_view (claim_row v ?u' (microsFromTime now') r)) ?cs"
  have ids: "?S \<inter> jr_id ` set ?cs = {}" by (rule disjoint_taken)
  then have disj: "j_ID ` set ?js \<inter> ?S = {}" unfolding claimed_ids by (simp only: Int_commute)
  have rows: "sq_jobs d2 = claim_rows (jr_id ` set ?cs) v ?u' (microsFromTime now') (sq_jobs d)"
    "sq_jobs d3 = claim_rows (jr_id ` set ?cs) v ?u' (microsFromTime now') (sq_jobs d1)"
    by (rule conjunct1 [OF conjunct2 [OF two]], rule conjunct1 [OF conjunct2 [OF three]])
  have serial: "sq_jobs d3 = claim_rows ?S w ?u (microsFromTime now) (sq_jobs d2)"
    unfolding rows jobs by (rule claim_rows_commute [OF ids, symmetric])
  note events = conjunct2 [OF conjunct2 [OF conjunct2 [OF two]]] conjunct2 [OF conjunct2 [OF conjunct2 [OF three]]]
  have "es' = es''" by (rule trans [OF events(1) events(2) [symmetric]])
  then show ?thesis
    by (intro exI [of _ ?js] conjI) (rule conjunct1 [OF two], rule conjunct1 [OF three], assumption, rule disj, rule serial)
qed

section \<open>A concrete server\<close>

definition sample_pg :: postgres where
  "sample_pg =
     \<lparr>pg_uuid = Some, pg_jsonb = (\<lambda>s. if json_valid s then Some s else None),
      pg_key_argument = (\<lambda>k. map_sum id Some (json_Marshal_key k)),
      pg_new_id = (\<lambda>n. ''id-'' @ show_nat n), pg_locked = (\<lambda>i. False)\<rparr>"

lemma sample_pg_sel [simp]: "pg_uuid sample_pg i = Some i" "\<not> pg_locked sample_pg i"
  by (simp_all add: sample_pg_def)

lemma sample_db_counters: "counters_ok (sq_jobs sample_db)"
  by (simp add: counters_ok_def sample_db_def empty_db_def sample_row_def)

lemma postgres_refines_memory_witness:
  "\<exists>a s b es d'. memory_run None (timeFromMicros 7 + 5) (Op_ClaimNext ''contacts'' ''w'' 3000) (memory_view sample_db) = (a, s)
     \<and> pg_run sample_pg 5 None (timeFromMicros 7 + 5) (Op_ClaimNext ''contacts'' ''w'' 3000) sample_db = (b, es, d')
     \<and> b = round_answer a \<and> es = [ObserveLeaseClaim ''success'']
     \<and> map_of (jobs_view d') = map_option round_job \<circ> map_of (js_jobs s)"
proof -
  let ?op = "Op_ClaimNext ''contacts'' ''w'' 3000" and ?now = "timeFromMicros 7 + 5"
  obtain a s where spec: "memory_run None ?now ?op (memory_view sample_db) = (a, s)" by (rule prod.exhaust)
  obtain b es d' where run: "pg_run sample_pg 5 None ?now ?op sample_db = (b, es, d')" by (rule prod_cases3)
  have "fst (snd (pg_run sample_pg 5 None ?now ?op sample_db)) = [ObserveLeaseClaim ''success'']" by code_simp
  with postgres_refines_memory [OF sample_db_ok sample_db_counters _ _ _ spec run] spec run
  show ?thesis by (auto simp: ctx_error_def)
qed

definition two_rows_db :: sql_db where
  "two_rows_db = sample_db\<lparr>sq_jobs := [sample_row, sample_row\<lparr>jr_id := ''job-2'', jr_created_at_micros := 4\<rparr>]\<rparr>"

lemma two_rows_db_ok: "rows_ok (sq_jobs two_rows_db)"
  using sample_db_ok by (simp add: two_rows_db_def rows_ok_def sample_db_def empty_db_def sample_row_def)

lemma skip_locked_is_serial_witness:
  "\<exists>jobs es d1 js es' d2 es'' d3.
     pg_ClaimNextBatch sample_pg None (timeFromMicros 7) ''contacts'' ''w'' 1 3000 no_faults two_rows_db = (Inr jobs, es, d1)
     \<and> map j_ID jobs = [''job-1'']
     \<and> pg_ClaimNextBatch (hold_rows (j_ID ` set jobs) sample_pg) None (timeFromMicros 8) ''contacts'' ''v'' 5 2000 no_faults two_rows_db
         = (Inr js, es', d2)
     \<and> pg_ClaimNextBatch sample_pg None (timeFromMicros 8) ''contacts'' ''v'' 5 2000 no_faults d1 = (Inr js, es'', d3)
     \<and> es' = es''"
proof -
  let ?first = "pg_ClaimNextBatch sample_pg None (timeFromMicros 7) ''contacts'' ''w'' 1 3000 no_faults two_rows_db"
  have ids: "map_sum (\<lambda>e. ()) (map j_ID) (fst ?first) = Inr [''job-1'']" by code_simp
  obtain r es d1 where first: "?first = (r, es, d1)" by (rule prod_cases3)
  with ids obtain jobs where jobs: "r = Inr jobs" "map j_ID jobs = [''job-1'']" by (cases r) auto
  obtain x es' d2 where beside: "pg_ClaimNextBatch (hold_rows (j_ID ` set jobs) sample_pg) None (timeFromMicros 8)
      ''contacts'' ''v'' 5 2000 no_faults two_rows_db = (x, es', d2)" by (rule prod_cases3)
  obtain y es'' d3 where after: "pg_ClaimNextBatch sample_pg None (timeFromMicros 8) ''contacts'' ''v'' 5 2000 no_faults d1
      = (y, es'', d3)" by (rule prod_cases3)
  have "microsFromTime (timeFromMicros 8) < microsFromTime (timeFromMicros 7 + 3000)"
    by (simp add: microsFromTime_def timeFromMicros_def)
  from skip_locked_is_serial [OF two_rows_db_ok _ _ _ _ _ first [unfolded jobs(1)] this beside after]
  show ?thesis using first beside after jobs by auto
qed

end
