(* ===== verification/DF_PgSpec.thy ===== *)
theory DF_PgSpec
  imports DF_PgRefine DF_SqliteSpec
begin

text \<open>
  What the Postgres stores keep and promise when any statement may fail. Every row has the
  types and meets the constraints of its columns in every state that the operations reach: the
  identifiers are canonical UUIDs, the keys are normalised and readable, the counters stay in
  their range, a job's delta exists, and the unique indexes hold. A dispatch happens completely
  or not at all.
\<close>

section \<open>What the server and the driver promise\<close>

text \<open>
  Casting a canonical value again changes nothing, generated identifiers are canonical, a
  document that is an object or null stays one, and the driver sends a projection key as the
  JSON document its encoder makes of it.
\<close>

definition pg_documented :: "postgres \<Rightarrow> bool" where
  "pg_documented pg \<longleftrightarrow>
     (\<forall>s u. pg_uuid pg s = Some u \<longrightarrow> pg_uuid pg u = Some u)
     \<and> (\<forall>n. pg_uuid pg (pg_new_id pg n) = Some (pg_new_id pg n))
     \<and> (\<forall>s t. pg_jsonb pg s = Some t \<longrightarrow> pg_jsonb pg t = Some t \<and> (parses s \<longrightarrow> parses t))
     \<and> (\<forall>k s. pg_key_argument pg k = Inr (Some s) \<longrightarrow> parses s)"

lemma documentedD:
  assumes "pg_documented pg"
  shows "pg_uuid pg s = Some u \<Longrightarrow> pg_uuid pg u = Some u"
    and "pg_uuid pg (pg_new_id pg n) = Some (pg_new_id pg n)"
    and "pg_jsonb pg s = Some t \<Longrightarrow> pg_jsonb pg t = Some t"
    and "pg_jsonb pg s = Some t \<Longrightarrow> parses s \<Longrightarrow> parses t"
    and "pg_key_argument pg k = Inr (Some s) \<Longrightarrow> parses s"
  using assms unfolding pg_documented_def by blast+

section \<open>Typed rows\<close>

definition delta_typed :: "postgres \<Rightarrow> delta_row \<Rightarrow> bool" where
  "delta_typed pg r \<longleftrightarrow> pg_uuid pg (dr_id r) = Some (dr_id r)
     \<and> pg_jsonb pg (dr_projection_key r) = Some (dr_projection_key r) \<and> delta_row_ok r"

definition job_typed :: "postgres \<Rightarrow> job_row \<Rightarrow> bool" where
  "job_typed pg r \<longleftrightarrow> pg_uuid pg (jr_id r) = Some (jr_id r)
     \<and> pg_jsonb pg (jr_projection_key r) = Some (jr_projection_key r)
     \<and> int4_ok (jr_attempt_count r) \<and> int4_ok (jr_max_attempts r) \<and> job_row_ok r"

definition refers :: "sql_db \<Rightarrow> job_row \<Rightarrow> bool" where
  "refers d r \<longleftrightarrow> (\<forall>i. jr_delta_id r = Some i \<longrightarrow> i \<in> dr_id ` set (sq_deltas d))"

definition pg_ok :: "postgres \<Rightarrow> sql_db \<Rightarrow> bool" where
  "pg_ok pg d \<longleftrightarrow> db_ok d \<and> (\<forall>r \<in> set (sq_deltas d). delta_typed pg r)
     \<and> (\<forall>r \<in> set (sq_jobs d). job_typed pg r \<and> refers d r)"

lemma pg_ok_tables [inv_intros]: "table_inv (pg_ok pg)"
  by (simp add: table_inv_def tables_def pg_ok_def db_ok_def refers_def)

lemma pg_insert_job_ok:
  assumes "pg_ok pg d" and "pg_uuid pg (jr_id r) = Some (jr_id r)"
    and "pg_jsonb pg (jr_projection_key r) = Some (jr_projection_key r)" and "parses (jr_projection_key r)"
  shows "pg_ok pg (snd (pg_insert_job b r d))"
proof (cases "snd (pg_insert_job b r d) = d")
  case False
  then have in': "snd (pg_insert_job b r d) = d\<lparr>sq_jobs := sq_jobs d @ [r]\<rparr>" "\<not> outbox_conflict r d"
      "jr_id r \<notin> jr_id ` set (sq_jobs d)" "job_row_ok r" "int4_ok (jr_attempt_count r)" "int4_ok (jr_max_attempts r)"
      "refers d r"
    by (auto simp: pg_insert_job_def refers_def split: if_splits option.splits)
  then have "jobs_ok (sq_jobs d @ [r])"
    using assms by (intro jobs_ok_add) (simp_all add: pg_ok_def db_ok_def)
  with in' assms show ?thesis
    by (auto simp: pg_ok_def db_ok_def job_typed_def refers_def)
qed (use assms(1) in simp)

lemma pg_insert_delta_ok:
  assumes "pg_ok pg d" and "pg_uuid pg (dr_id r) = Some (dr_id r)"
    and "pg_jsonb pg (dr_projection_key r) = Some (dr_projection_key r)" and "parses (dr_projection_key r)"
  shows "pg_ok pg (snd (pg_insert_delta r d))"
proof (cases "snd (pg_insert_delta r d) = d")
  case False
  then have in': "snd (pg_insert_delta r d) = d\<lparr>sq_deltas := sq_deltas d @ [r]\<rparr>" "delta_row_ok r"
      "dr_id r \<notin> dr_id ` set (sq_deltas d)"
    and free: "dr_dedup_key r \<noteq> None \<longrightarrow> dr_dedup_key r \<notin> set (map dr_dedup_key (sq_deltas d))"
    by (auto simp: pg_insert_delta_def split: if_splits)
  from free have "\<forall>k. dr_dedup_key r = Some k \<longrightarrow> dedup_rows k (sq_deltas d) = []"
    by (auto simp: dedup_rows_def filter_empty_conv image_iff)
  then have "deltas_ok (sq_deltas d @ [r])"
    using assms in'(3) by (intro deltas_ok_add) (simp_all add: pg_ok_def db_ok_def)
  with in' assms show ?thesis
    by (auto simp: pg_ok_def db_ok_def delta_typed_def refers_def)
qed (use assms(1) in simp)

text \<open>What an update of a job may change.\<close>

definition permitted :: "(job_row \<Rightarrow> job_row) \<Rightarrow> bool" where
  "permitted f \<longleftrightarrow> one_more f \<and>
     (\<forall>r. job_key_fields (f r) = job_key_fields r \<and> jr_max_attempts (f r) = jr_max_attempts r
        \<and> jr_state (f r) \<in> {jr_state r, ''processing'', ''synced'', ''retrying'', ''dead''})"

lemma permitted_sel:
  assumes "permitted f"
  shows "jr_id (f r) = jr_id r" "jr_projection_key (f r) = jr_projection_key r" "jr_delta_id (f r) = jr_delta_id r"
    "jr_origin (f r) = jr_origin r" "jr_max_attempts (f r) = jr_max_attempts r"
    "jr_state (f r) \<in> {jr_state r, ''processing'', ''synced'', ''retrying'', ''dead''}"
    "jr_attempt_count (f r) = jr_attempt_count r \<or> jr_attempt_count (f r) = jr_attempt_count r + 1"
  using assms by (auto simp: permitted_def job_key_fields_def one_more_def)

lemma permitted_typed:
  assumes "permitted f" and "job_typed pg r" and "int4_ok (jr_attempt_count (f r))"
  shows "job_typed pg (f r)"
  using assms(2,3) permitted_sel [OF assms(1), of r]
  by (auto simp: job_typed_def job_row_ok_def)

lemma update_rows_ok:
  assumes "pg_ok pg d" and "permitted f" and "\<And>r. r \<in> set (sq_jobs d) \<Longrightarrow> cond r \<Longrightarrow> int4_ok (jr_attempt_count (f r))"
  shows "pg_ok pg (d\<lparr>sq_jobs := map (\<lambda>r. if cond r then f r else r) (sq_jobs d)\<rparr>)"
proof -
  have "jobs_ok (map (\<lambda>r. if cond r then f r else r) (sq_jobs d))"
    using assms(1,2) by (intro jobs_ok_map) (auto simp: pg_ok_def db_ok_def permitted_def)
  moreover have "job_typed pg (f r) \<and> refers d (f r)" if "r \<in> set (sq_jobs d)" "cond r" for r
    using assms that permitted_typed [OF assms(2)] permitted_sel(3) [OF assms(2)] by (simp add: pg_ok_def refers_def)
  ultimately show ?thesis using assms(1)
    by (auto simp: pg_ok_def db_ok_def refers_def)
qed

lemma pg_update_ok:
  assumes "pg_ok pg d" and "permitted f"
  shows "pg_ok pg (snd (pg_update pg i cond f d))"
proof (cases "snd (pg_update pg i cond f d) = d")
  case False
  then obtain u where "list_all (\<lambda>r. int4_ok (jr_attempt_count r)) (map f (filter (\<lambda>r. jr_id r = u \<and> cond r) (sq_jobs d)))"
    and d': "snd (pg_update pg i cond f d) = d\<lparr>sq_jobs := map (\<lambda>r. if jr_id r = u \<and> cond r then f r else r) (sq_jobs d)\<rparr>"
    by (auto simp: pg_update_def Let_def split: option.splits if_splits)
  then show ?thesis unfolding d' by (intro update_rows_ok [OF assms]) (auto simp: list_all_iff)
qed (use assms(1) in simp)

section \<open>Every operation keeps the rows typed\<close>

lemma keeps_by_id [inv_intros]: "table_inv I \<Longrightarrow> keeps I (by_id pg i f)"
  unfolding by_id_def by (rule keeps_statement) (simp_all split: option.split)

lemma keeps_pg_update [inv_intros]:
  "permitted f \<Longrightarrow> keeps (pg_ok pg) (statement (pg_update pg i cond f))"
  by (rule keeps_statement [OF pg_ok_tables]) (rule pg_update_ok)

lemma keeps_pg_reads [inv_intros]:
  "keeps (pg_ok pg) (pg_Get pg c i)" "keeps (pg_ok pg) (pg_jobExists pg c i)"
  unfolding pg_Get_def pg_jobExists_def by (intro inv_intros)+

lemma keeps_exec_by_id [inv_intros]: "permitted f \<Longrightarrow> keeps (pg_ok pg) (exec_by_id pg c i cond f e)"
  unfolding exec_by_id_def by (intro inv_intros)

lemma keeps_updateAndReturn [inv_intros]: "permitted f \<Longrightarrow> keeps (pg_ok pg) (updateAndReturn pg c i cond f)"
  unfolding updateAndReturn_def by (intro inv_intros)

definition keeps_observed :: "(sql_db \<Rightarrow> bool) \<Rightarrow> 'a observed \<Rightarrow> bool" where
  "keeps_observed I m \<longleftrightarrow> (\<forall>F d. I d \<longrightarrow> I (snd (snd (m F d))))"

lemma keeps_observedI [inv_intros]: "keeps I m \<Longrightarrow> keeps_observed I (observed m f)"
  by (simp add: keeps_observed_def keeps_def observed_def case_prod_beta)

lemma keeps_owner_transition [inv_intros]:
  "permitted f \<Longrightarrow> keeps_observed (pg_ok pg) (owner_transition pg c i tr cond f)"
proof -
  assume f: "permitted f"
  have "pg_ok pg (snd (case updateAndReturn pg c i cond f F d of
      (Inl e, d1) \<Rightarrow> logLeaseTransitionRejected pg c i e F d1 | (Inr j, d1) \<Rightarrow> (Inr (), d1)))"
    if "pg_ok pg d" for F d
  proof (cases "updateAndReturn pg c i cond f F d")
    case (Pair x d1)
    have d1: "pg_ok pg d1" by (rule keepsD [OF keeps_updateAndReturn [OF f] that Pair])
    have "pg_ok pg (snd (pg_Get pg c i F d1))" by (rule keeps_snd [OF keeps_pg_reads(1) d1])
    with Pair d1 show ?thesis by (cases x) (simp_all add: logLeaseTransitionRejected_def case_prod_beta)
  qed
  then show ?thesis unfolding owner_transition_def by (intro keeps_observedI) (simp add: keeps_def)
qed

lemma permitted_updates:
  "permitted (\<lambda>r. r\<lparr>jr_locked_until_micros := u, jr_updated_at_micros := t\<rparr>)"
  "permitted (\<lambda>r. unlock_row now (r\<lparr>jr_state := ''synced'', jr_ghost_detected := g, jr_synced_at_micros := m\<rparr>))"
  "permitted (\<lambda>r. unlock_row now (r\<lparr>jr_state := ''retrying'', jr_attempt_count := jr_attempt_count r + 1,
     jr_last_error := e, jr_available_at_micros := t\<rparr>))"
  "permitted (\<lambda>r. unlock_row now (r\<lparr>jr_state := ''retrying'', jr_last_error := e, jr_available_at_micros := t\<rparr>))"
  "permitted (\<lambda>r. unlock_row now (r\<lparr>jr_state := ''dead'', jr_attempt_count := jr_attempt_count r + 1,
     jr_last_error := e, jr_dead_at_micros := t'\<rparr>))"
  "permitted (\<lambda>r. unlock_row now (r\<lparr>jr_last_error := e\<rparr>))"
  "permitted (\<lambda>r. unlock_row now (r\<lparr>jr_state := ''retrying'', jr_available_at_micros := t, jr_last_error := e\<rparr>))"
  "permitted (claim_row w v now)"
  by (simp_all add: permitted_def job_key_fields_def unlock_row_def one_more_def claim_row_def)

lemma keeps_pg_owner [inv_intros]:
  "keeps_observed (pg_ok pg) (pg_MarkSynced pg c now i w g)"
  "keeps_observed (pg_ok pg) (pg_MarkRetrying pg c now i w e t)"
  "keeps_observed (pg_ok pg) (pg_RequeueClaimed pg c now i w e t)"
  "keeps_observed (pg_ok pg) (pg_MarkDead pg c now i w e)"
  unfolding pg_MarkSynced_def pg_MarkRetrying_def pg_RequeueClaimed_def pg_MarkDead_def
  by (intro inv_intros permitted_updates)+

lemma keeps_pg_RenewLease [inv_intros]: "keeps_observed (pg_ok pg) (pg_RenewLease pg c now i w l)"
proof -
  have "keeps (pg_ok pg) (pg_execUpdate pg c i cond
      (\<lambda>r. r\<lparr>jr_locked_until_micros := u, jr_updated_at_micros := t\<rparr>))" for cond u t
    unfolding pg_execUpdate_def by (intro inv_intros permitted_updates)
  from keeps_observedI [OF this] show ?thesis
    by (auto simp: keeps_observed_def pg_RenewLease_def split: option.split)
qed

lemma keeps_pg_operator [inv_intros]:
  "keeps (pg_ok pg) (pg_ForceReleaseExpiredLease pg c now i a)" "keeps (pg_ok pg) (pg_RequeueExpiredLease pg c now i t a)"
  unfolding pg_ForceReleaseExpiredLease_def pg_RequeueExpiredLease_def pg_updateLeaseOperator_def Let_def
  by (intro inv_intros permitted_updates)+

lemma keeps_pg_claim: "keeps (pg_ok pg) (pg_claim pg syncID w n now u)"
proof -
  have "pg_ok pg (d\<lparr>sq_jobs := map (\<lambda>r. if jr_id r \<in> S then claim_row w u now r else r) (sq_jobs d)\<rparr>)"
    if d: "pg_ok pg d" for d S
    by (rule update_rows_ok [OF d permitted_updates(8)]) (use d in \<open>simp add: claim_row_def pg_ok_def job_typed_def\<close>)
  then show ?thesis unfolding pg_claim_def Let_def by (intro keeps_statement pg_ok_tables) simp
qed

lemma keeps_pg_claims [inv_intros]:
  "keeps_observed (pg_ok pg) (pg_ClaimNext pg c now syncID w l)"
  "keeps_observed (pg_ok pg) (pg_ClaimNextBatch pg c now syncID w n l)"
proof -
  have step: "pg_ok pg d1" if "pg_claim pg syncID w k t u F d = (x, d1)" "pg_ok pg d" for k t u F d x d1
    by (rule keepsD [OF keeps_pg_claim that(2,1)])
  show "keeps_observed (pg_ok pg) (pg_ClaimNext pg c now syncID w l)"
    "keeps_observed (pg_ok pg) (pg_ClaimNextBatch pg c now syncID w n l)"
    by (auto simp: keeps_observed_def pg_ClaimNext_def pg_ClaimNextBatch_def
        split: option.split prod.split sum.split list.split dest: step)
qed

text \<open>Insertions: what is inserted has been cast, and what can be read stays readable.\<close>

lemma keeps_pg_Create [inv_intros]:
  assumes "pg_documented pg"
  shows "keeps (pg_ok pg) (pg_Create pg n c now job)"
proof -
  note doc = documentedD [OF assms]
  have "keeps (pg_ok pg) (statement (\<lambda>d. case pg_job_row pg (pg_new_id pg (sq_calls d)) key j of
      Inl e \<Rightarrow> (Inl e, d) | Inr row \<Rightarrow> pg_insert_job False row d))"
    if "pg_key_argument pg k = Inr key" for key k j
  proof (rule keeps_statement [OF pg_ok_tables])
    fix d
    assume d: "pg_ok pg d"
    have "pg_ok pg (snd (pg_insert_job False row d))" if row: "pg_job_row pg (pg_new_id pg (sq_calls d)) key j = Inr row" for row
    proof -
      from row have "jr_id row = pg_new_id pg (sq_calls d) \<and> (\<exists>s. key = Some s \<and> pg_jsonb pg s = Some (jr_projection_key row))"
        by (auto simp: pg_job_row_def job_columns_def split: option.splits)
      with doc(2-5) \<open>pg_key_argument pg k = Inr key\<close> show ?thesis
        by (intro pg_insert_job_ok [OF d]) auto
    qed
    with d show "pg_ok pg (snd (case pg_job_row pg (pg_new_id pg (sq_calls d)) key j of
      Inl e \<Rightarrow> (Inl e, d) | Inr row \<Rightarrow> pg_insert_job False row d))" by (simp split: sum.split)
  qed
  then show ?thesis unfolding pg_Create_def by (intro inv_intros)
qed

lemma keeps_pg_insert_delta [inv_intros]:
  assumes "pg_documented pg" and "parses key"
  shows "keeps (pg_ok pg) (pg_insert_delta_stmt pg opt key meta delta)"
  unfolding pg_insert_delta_stmt_def
proof (rule keeps_statement [OF pg_ok_tables])
  note doc = documentedD [OF assms(1)]
  fix d
  assume d: "pg_ok pg d"
  have "pg_ok pg (snd (pg_insert_delta row d))" if row: "pg_delta_row pg opt (pg_new_id pg (sq_calls d)) key meta delta = Inr row" for row
  proof -
    from row have "dr_id row = pg_new_id pg (sq_calls d) \<and> pg_jsonb pg key = Some (dr_projection_key row)"
      by (auto simp: pg_delta_row_def delta_columns_def split: option.splits)
    with doc(2-4) assms(2) show ?thesis by (intro pg_insert_delta_ok [OF d]) auto
  qed
  with d show "pg_ok pg (snd (case pg_delta_row pg opt (pg_new_id pg (sq_calls d)) key meta delta of
    Inl e \<Rightarrow> (Inl e, d) | Inr row \<Rightarrow> pg_insert_delta row d))" by (simp split: sum.split)
qed

lemma keeps_pg_enqueue [inv_intros]:
  assumes "pg_documented pg"
  shows "keeps (pg_ok pg) (pg_enqueue pg c now delta)"
proof -
  have ins: "keeps (pg_ok pg) (sql_bind (pg_insert_delta_stmt pg nullif_empty key meta nd) (\<lambda>row. sql_result (ScanDelta row)))"
    if "parses key" for key meta nd
    by (intro inv_intros assms that)
  have sel: "keeps (pg_ok pg) (sql_bind (query f) (\<lambda>row. sql_result (ScanDelta row)))" for f
    by (intro inv_intros)
  have step: "keeps (pg_ok pg) (\<lambda>F d. case m F d of
      (Inl e, d1) \<Rightarrow> if g e then m' F d1 else (Inl e, d1) | (Inr x, d1) \<Rightarrow> (Inr x, d1))"
    if "keeps (pg_ok pg) m" "keeps (pg_ok pg) m'" for m m' :: "delta sql" and g
    using keepsD [OF that(1)] keeps_snd [OF that(2)]
    by (subst keeps_def) (auto split: prod.split sum.split)
  show ?thesis unfolding pg_enqueue_def
    by (intro inv_intros) (auto split: prod.split dest!: prepared_key intro!: step ins sel)
qed

lemma pg_prepare_keys:
  "pg_prepare_deltas clock k deltas = Inr prepared \<Longrightarrow> \<forall>(d, key, meta) \<in> set prepared. parses key"
proof (induction deltas arbitrary: k prepared)
  case (Cons x deltas)
  then obtain delta key meta rest where
    x: "PrepareDeltaForEnqueue (clock k) x = Inr (delta, key, meta)"
      "pg_prepare_deltas clock (Suc k) deltas = Inr rest" "prepared = (delta, key, meta) # rest"
    by (auto split: if_splits sum.splits prod.splits)
  with Cons.IH [OF x(2)] prepared_key [OF x(1)] show ?case by simp
qed simp

lemma keeps_pg_insert_deltas [inv_intros]:
  "pg_documented pg \<Longrightarrow> \<forall>(d, key, meta) \<in> set items. parses key \<Longrightarrow> keeps (pg_ok pg) (pg_insert_deltas pg items result)"
proof (induction items arbitrary: result)
  case (Cons item items)
  obtain delta key meta where item: "item = (delta, key, meta)" by (rule prod_cases3)
  have "keeps (pg_ok pg) (pg_insert_delta_stmt pg Some key meta delta)"
    using Cons.prems by (intro inv_intros) (simp_all add: item)
  then show ?case using Cons by (auto simp: keeps_def item split: prod.split sum.split) (metis snd_conv)+
qed (simp add: keeps_def)

lemma keeps_pg_EnqueueBatch [inv_intros]:
  "pg_documented pg \<Longrightarrow> keeps (pg_ok pg) (pg_EnqueueBatchTx pg h n c clock deltas)"
  "pg_documented pg \<Longrightarrow> keeps (pg_ok pg) (pg_EnqueueBatch pg n c clock deltas)"
  unfolding pg_EnqueueBatch_def pg_EnqueueBatchTx_def Let_def
  by (intro inv_intros pg_prepare_keys; assumption)+

lemma pg_mark_rows_ok:
  assumes "pg_ok pg d"
  shows "pg_ok pg (snd (update_delta_rows cond (dispatched_row at) d))"
proof -
  have "keeps db_ok (statement (update_delta_rows cond (dispatched_row at)))"
    by (rule keeps_update_deltas) (simp add: dispatched_row_def)
  from keeps_snd [OF this, of d no_faults] assms have "db_ok (snd (update_delta_rows cond (dispatched_row at) d))"
    by (simp add: pg_ok_def update_delta_rows_def db_ok_def)
  moreover have "delta_typed pg r \<Longrightarrow> delta_typed pg (dispatched_row at r)" "dr_id (dispatched_row at r) = dr_id r" for r
    by (simp_all add: delta_typed_def dispatched_row_def delta_row_ok_def)
  moreover have "dr_id ` set (map (\<lambda>r. if cond r then dispatched_row at r else r) rs) = dr_id ` set rs" for rs
    by (induction rs) (auto simp: dispatched_row_def)
  ultimately show ?thesis using assms
    by (auto simp: pg_ok_def update_delta_rows_def refers_def simp del: set_map list.set_map) auto
qed

lemma keeps_pg_mark [inv_intros]:
  "keeps (pg_ok pg) (pg_markDispatchedTx pg i at)" "keeps (pg_ok pg) (pg_MarkDispatched pg c now i)"
  unfolding pg_MarkDispatched_def pg_markDispatchedTx_def
  by (intro inv_intros keeps_statement [OF pg_ok_tables]; auto split: option.split intro: pg_mark_rows_ok)+

section \<open>Dispatch\<close>

text \<open>The pending deltas that no other transaction holds, as a dispatch pulls them.\<close>

definition pg_pulled :: "postgres \<Rightarrow> SyncID \<Rightarrow> int \<Rightarrow> sql_db \<Rightarrow> delta_row list" where
  "pg_pulled pg syncID limit d = take (nat limit) (filter (\<lambda>r. \<not> pg_locked pg (dr_id r)) (pg_pending syncID d))"

lemma pulled_rows: "r \<in> set (pg_pulled pg syncID limit d) \<Longrightarrow> r \<in> set (sq_deltas d)"
  by (auto simp: pg_pulled_def pg_pending_def dest!: in_set_takeD)

lemma pg_insert_job_cases:
  assumes "pg_insert_job True r d = (x, d')"
  obtains (failed) e where "x = Inl e" "d' = d"
    | (ignored) "x = Inr None" "outbox_conflict r d" "d' = d"
    | (inserted) "x = Inr (Some r)" "d' = d\<lparr>sq_jobs := sq_jobs d @ [r]\<rparr>"
proof -
  from assms have "(\<exists>e. x = Inl e \<and> d' = d) \<or> (x = Inr None \<and> outbox_conflict r d \<and> d' = d)
    \<or> (x = Inr (Some r) \<and> d' = d\<lparr>sq_jobs := sq_jobs d @ [r]\<rparr>)"
    by (auto simp: pg_insert_job_def split: if_splits)
  with failed ignored inserted show thesis by blast
qed

definition dispatchable :: "postgres \<Rightarrow> delta_row \<Rightarrow> bool" where
  "dispatchable pg r \<longleftrightarrow> delta_typed pg r \<and> parses (dr_projection_key r)"

lemma pg_create_outbox_effect:
  assumes "pg_createOutboxFromDeltaTx pg n r now F d = (Inr job, d')" and "dispatchable pg r"
  shows "sq_deltas d' = sq_deltas d \<and> outbox_jobs (dr_id r) (sq_jobs d') \<noteq> []
    \<and> (case job of None \<Rightarrow> sq_jobs d' = sq_jobs d
        | Some j \<Rightarrow> \<exists>s. sq_jobs d' = sq_jobs d @ [s] \<and> outbox_of r s \<and> j = job_view s)"
proof -
  let ?row = "\<lambda>k. outbox_row n (pg_new_id pg k) (microsFromTime now) r"
  have row: "pg_outbox_row pg n (pg_new_id pg k) (microsFromTime now) r = Inr (?row k)" for k
    using assms(2) by (simp add: pg_outbox_row_def dispatchable_def delta_typed_def outbox_row_def)
  obtain b where ins: "statement (\<lambda>d. pg_insert_job True (?row (sq_calls d)) d) F d = (Inr b, d')"
    and job: "ScanSyncJob b = Inr job"
    using assms(1) by (auto simp: pg_createOutboxFromDeltaTx_def row sql_bind_def sql_result_def split: prod.splits sum.splits)
  have scan: "ScanSyncJob (Some (?row k)) = Inr (Some (job_view (?row k)))" for k
  proof -
    have "parses (jr_projection_key (?row k))" using assms(2) by (simp add: dispatchable_def outbox_row_def)
    with scan_row [OF this] ScanSyncJob_agrees [of "?row k"] show ?thesis by (auto simp: parses_def)
  qed
  show ?thesis
    using ins
  proof (cases rule: statement_cases)
    case (run d1)
    from run(2) show ?thesis
    proof (cases rule: pg_insert_job_cases)
      case ignored
      with run(1) job show ?thesis
        by (auto simp: tables_def outbox_conflict_def outbox_row_def outbox_jobs_def ScanSyncJob_def
            ScanSyncJobWithExtras_def filter_empty_conv)
    next
      case inserted
      with run(1) job scan show ?thesis
        by (auto simp: tables_def outbox_of_def outbox_row_def outbox_jobs_def)
    qed simp
  qed simp
qed

lemma pg_mark_effect:
  assumes "pg_markDispatchedTx pg i now F d = (Inr u, d')" and "pg_uuid pg i = Some i"
  shows "sq_jobs d' = sq_jobs d \<and> sq_deltas d' = dispatch_deltas {i} (microsFromTime now) (sq_deltas d)"
  using assms
  by (auto simp: pg_markDispatchedTx_def sql_bind_def sql_result_def statement_def Let_def update_delta_rows_def
      dispatch_deltas_def split: option.splits if_splits)

lemma pg_dispatch_rows_effect:
  assumes "pg_dispatch_rows pg n now rows jobs F d = (Inr js, d')" and "\<forall>r \<in> set rows. dispatchable pg r"
  shows "sq_deltas d' = dispatch_deltas (dr_id ` set rows) (microsFromTime now) (sq_deltas d)
    \<and> (\<forall>r \<in> set rows. outbox_jobs (dr_id r) (sq_jobs d') \<noteq> [])
    \<and> (\<exists>new. sq_jobs d' = sq_jobs d @ new \<and> js = jobs @ map job_view new
          \<and> (\<forall>s \<in> set new. \<exists>r \<in> set rows. outbox_of r s))"
  using assms
proof (induction rows arbitrary: jobs d)
  case (Cons r rows)
  obtain job d1 where c: "pg_createOutboxFromDeltaTx pg n r now F d = (Inr job, d1)"
    using Cons.prems(1) by (auto split: prod.splits sum.splits)
  obtain u d2 where m: "pg_markDispatchedTx pg (dr_id r) now F d1 = (Inr u, d2)"
    using Cons.prems(1) c by (auto split: prod.splits sum.splits)
  let ?jobs = "case job of None \<Rightarrow> jobs | Some j \<Rightarrow> jobs @ [j]"
  have rest: "pg_dispatch_rows pg n now rows ?jobs F d2 = (Inr js, d')"
    using Cons.prems(1) c m by simp
  have r: "dispatchable pg r" and "pg_uuid pg (dr_id r) = Some (dr_id r)"
    using Cons.prems(2) by (simp_all add: dispatchable_def delta_typed_def)
  note one = pg_create_outbox_effect [OF c r] pg_mark_effect [OF m this(2)]
  obtain new where new: "sq_jobs d' = sq_jobs d2 @ new" "js = ?jobs @ map job_view new"
      "\<forall>s \<in> set new. \<exists>r \<in> set rows. outbox_of r s"
    and more: "sq_deltas d' = dispatch_deltas (dr_id ` set rows) (microsFromTime now) (sq_deltas d2)"
      "\<forall>r \<in> set rows. outbox_jobs (dr_id r) (sq_jobs d') \<noteq> []"
    using Cons.IH [OF rest] Cons.prems(2) by auto
  have "\<exists>first. sq_jobs d2 = sq_jobs d @ first \<and> ?jobs = jobs @ map job_view first \<and> (\<forall>s \<in> set first. outbox_of r s)"
    using one by (cases job) auto
  then obtain first where first: "sq_jobs d2 = sq_jobs d @ first" "?jobs = jobs @ map job_view first"
    "\<forall>s \<in> set first. outbox_of r s" by blast
  have "outbox_jobs (dr_id r) (sq_jobs d') \<noteq> []"
    using one new(1) by (auto simp: outbox_jobs_def)
  moreover have "sq_deltas d' = dispatch_deltas (dr_id ` set (r # rows)) (microsFromTime now) (sq_deltas d)"
    using one more(1) by simp
  moreover have "\<exists>new. sq_jobs d' = sq_jobs d @ new \<and> js = jobs @ map job_view new
      \<and> (\<forall>s \<in> set new. \<exists>r \<in> set (r # rows). outbox_of r s)"
    by (rule exI [of _ "first @ new"]) (use first new in auto)
  ultimately show ?case using more(2) by auto
qed simp

lemma keeps_pg_dispatch_rows:
  assumes doc: "pg_documented pg"
  shows "\<forall>r \<in> set rows. dispatchable pg r \<Longrightarrow> keeps (pg_ok pg) (pg_dispatch_rows pg n now rows jobs)"
proof (induction rows arbitrary: jobs)
  case (Cons r rows)
  have r: "dispatchable pg r" using Cons.prems by simp
  have "keeps (pg_ok pg) (pg_createOutboxFromDeltaTx pg n r now)"
    unfolding pg_createOutboxFromDeltaTx_def
  proof (intro keeps_bind keeps_result keeps_statement [OF pg_ok_tables])
    fix d
    assume "pg_ok pg d"
    then show "pg_ok pg (snd (case pg_outbox_row pg n (pg_new_id pg (sq_calls d)) (microsFromTime now) r of
        Inl e \<Rightarrow> (Inl e, d) | Inr row \<Rightarrow> pg_insert_job True row d))"
      using r documentedD(2) [OF doc]
      by (auto simp: pg_outbox_row_def dispatchable_def delta_typed_def outbox_row_def intro!: pg_insert_job_ok)
  qed
  note made = keepsD [OF this] and marked = keepsD [OF keeps_pg_mark(1) [of pg "dr_id r" now]]
  have rest: "keeps (pg_ok pg) (pg_dispatch_rows pg n now rows jobs)" for jobs using Cons by simp
  have "pg_ok pg (snd (pg_dispatch_rows pg n now (r # rows) jobs F d))" if "pg_ok pg d" for F d
    using that by (auto split: prod.split sum.split dest: made marked intro: keeps_snd [OF rest])
  then show ?case by (simp add: keeps_def)
qed (simp add: keeps_def)

lemma ok_dispatchable: "pg_ok pg d \<Longrightarrow> r \<in> set (pg_pulled pg syncID limit d) \<Longrightarrow> dispatchable pg r"
  by (auto simp: pg_ok_def dispatchable_def db_ok_def deltas_ok_def dest!: pulled_rows)

lemma pulled_same: "tables d' = tables d \<Longrightarrow> pg_pulled pg syncID limit d' = pg_pulled pg syncID limit d"
  by (simp add: pg_pulled_def pg_pending_def tables_def)

lemma keeps_pg_dispatch [inv_intros]:
  assumes doc: "pg_documented pg"
  shows "keeps (pg_ok pg) (pg_DispatchPending pg a b s n c now syncID limit)"
proof -
  let ?tx = "sql_bind (pullPendingForDispatchTx pg syncID limit) (\<lambda>pending. pg_dispatch_rows pg n now pending [])"
  have "pg_ok pg (snd (?tx F d))" if d: "pg_ok pg d" for F d
  proof (cases "pullPendingForDispatchTx pg syncID limit F d")
    case (Pair x d1)
    have pull: "keeps (pg_ok pg) (pullPendingForDispatchTx pg syncID limit)"
      unfolding pullPendingForDispatchTx_def by (intro inv_intros)
    have d1: "pg_ok pg d1" by (rule keepsD [OF pull d Pair])
    have "rows = pg_pulled pg syncID limit d" if "x = Inr rows" for rows
      using Pair that by (auto simp: pullPendingForDispatchTx_def query_def statement_def pg_pulled_def pg_pending_def
          Let_def split: option.splits)
    then have "\<forall>r \<in> set rows. dispatchable pg r" if "x = Inr rows" for rows
      using ok_dispatchable [OF d] that by blast
    then show ?thesis using Pair d1 keeps_pg_dispatch_rows [OF doc]
      by (auto simp: sql_bind_def keeps_def split: sum.split)
  qed
  then have tx: "keeps (pg_ok pg) ?tx" by (simp add: keeps_def)
  show ?thesis unfolding pg_DispatchPending_def
    by (intro keeps_case keeps_result keeps_transaction [OF pg_ok_tables tx])
qed

lemma pg_dispatch_effect:
  assumes doc: "pg_documented pg" and ok: "pg_ok pg d" and "0 < limit"
    and "pg_DispatchPending pg True True True n None now syncID limit F d = (r, d')"
  shows "case r of
      Inl e \<Rightarrow> tables d' = tables d
    | Inr js \<Rightarrow>
        (let rows = pg_pulled pg syncID limit d in
         sq_deltas d' = dispatch_deltas (dr_id ` set rows) (microsFromTime now) (sq_deltas d)
         \<and> (\<forall>r \<in> set rows. length (outbox_jobs (dr_id r) (sq_jobs d')) = 1)
         \<and> (\<exists>new. sq_jobs d' = sq_jobs d @ new \<and> js = map job_view new
               \<and> (\<forall>s \<in> set new. \<exists>r \<in> set rows. outbox_of r s)))"
proof -
  let ?tx = "sql_bind (pullPendingForDispatchTx pg syncID limit) (\<lambda>pending. pg_dispatch_rows pg n now pending [])"
  have run: "transaction ?tx F d = (r, d')" using assms(3,4) by (simp add: pg_DispatchPending_def)
  show ?thesis
  proof (cases r)
    case (Inl e)
    with transaction_atomic [of ?tx F d e d'] run show ?thesis by simp
  next
    case (Inr js)
    from run Inr obtain d1 d2 where d1: "tables d1 = tables d" and tx: "?tx F d1 = (Inr js, d2)"
      and d2: "tables d' = tables d2"
      using transaction_done [of ?tx F d js d'] by auto
    let ?rows = "pg_pulled pg syncID limit d"
    let ?d3 = "d1\<lparr>sq_calls := Suc (sq_calls d1)\<rparr>"
    have "pg_dispatch_rows pg n now (pg_pulled pg syncID limit ?d3) [] F ?d3 = (Inr js, d2)"
      using tx by (auto simp: sql_bind_def pullPendingForDispatchTx_def query_def statement_def Let_def pg_pulled_def
          split: option.splits)
    then have rows: "pg_dispatch_rows pg n now ?rows [] F ?d3 = (Inr js, d2)"
      using d1 by (simp add: pulled_same [of ?d3 d])
    have "\<forall>r \<in> set ?rows. dispatchable pg r" using ok_dispatchable [OF ok] by blast
    note eff = pg_dispatch_rows_effect [OF rows this]
    have same: "sq_deltas d' = sq_deltas d2" "sq_jobs d' = sq_jobs d2" "sq_deltas d1 = sq_deltas d" "sq_jobs d1 = sq_jobs d"
      using d1 d2 by (simp_all add: tables_def)
    have "pg_ok pg d'"
      using keeps_snd [OF keeps_pg_dispatch [OF doc] ok, of True True True n None now syncID limit F] assms(4) by simp
    then have one: "length (outbox_jobs i (sq_jobs d')) \<le> 1" for i by (simp add: pg_ok_def db_ok_def jobs_ok_def)
    have "length (outbox_jobs (dr_id r) (sq_jobs d')) = 1" if "r \<in> set ?rows" for r
      using eff that one [of "dr_id r"] by (simp add: same le_Suc_eq)
    then show ?thesis using Inr eff by (simp add: Let_def same)
  qed
qed

text \<open>
  C19: A dispatch on Postgres happens completely or not at all, whichever statement fails:
  after an error no table has changed; otherwise exactly the pending deltas that no other
  transaction holds, the first of them up to the limit, are dispatched, each has exactly one
  outbox job, and the answer lists the jobs that were added, which carry the identity of their
  deltas.
\<close>

theorem postgres_dispatch_all_or_nothing:
  assumes "pg_documented pg" and "pg_ok pg d" and "0 < limit"
    and "pg_DispatchPending pg True True True n None now syncID limit F d = (r, d')"
  shows "case r of
      Inl e \<Rightarrow> tables d' = tables d
    | Inr js \<Rightarrow>
        (let rows = pg_pulled pg syncID limit d in
         sq_deltas d' = dispatch_deltas (dr_id ` set rows) (microsFromTime now) (sq_deltas d)
         \<and> (\<forall>r \<in> set rows. length (outbox_jobs (dr_id r) (sq_jobs d')) = 1)
         \<and> (\<exists>new. sq_jobs d' = sq_jobs d @ new \<and> js = map job_view new
               \<and> (\<forall>s \<in> set new. \<exists>r \<in> set rows. outbox_of r s)))"
  by (rule pg_dispatch_effect [OF assms])

section \<open>Reachable databases\<close>

text \<open>
  The databases that the stores' operations can produce, with any of the statements failing
  and any rows locked by others.
\<close>

definition with_locks :: "postgres \<Rightarrow> (string \<Rightarrow> bool) \<Rightarrow> postgres" where
  "with_locks pg L = pg\<lparr>pg_locked := L\<rparr>"

inductive pg_reached :: "postgres \<Rightarrow> sql_db \<Rightarrow> bool" for pg where
  empty: "pg_reached pg (empty_db True)"
| Create: "pg_reached pg d \<Longrightarrow> pg_reached pg (snd (pg_Create pg n c now job F d))"
| ClaimNext: "pg_reached pg d \<Longrightarrow> pg_reached pg (snd (snd (pg_ClaimNext (with_locks pg L) c now syncID w l F d)))"
| ClaimNextBatch: "pg_reached pg d \<Longrightarrow>
    pg_reached pg (snd (snd (pg_ClaimNextBatch (with_locks pg L) c now syncID w limit l F d)))"
| RenewLease: "pg_reached pg d \<Longrightarrow> pg_reached pg (snd (snd (pg_RenewLease pg c now i w l F d)))"
| MarkSynced: "pg_reached pg d \<Longrightarrow> pg_reached pg (snd (snd (pg_MarkSynced pg c now i w g F d)))"
| MarkRetrying: "pg_reached pg d \<Longrightarrow> pg_reached pg (snd (snd (pg_MarkRetrying pg c now i w e t F d)))"
| RequeueClaimed: "pg_reached pg d \<Longrightarrow> pg_reached pg (snd (snd (pg_RequeueClaimed pg c now i w e t F d)))"
| MarkDead: "pg_reached pg d \<Longrightarrow> pg_reached pg (snd (snd (pg_MarkDead pg c now i w e F d)))"
| ForceRelease: "pg_reached pg d \<Longrightarrow> pg_reached pg (snd (pg_ForceReleaseExpiredLease pg c now i a F d))"
| RequeueExpired: "pg_reached pg d \<Longrightarrow> pg_reached pg (snd (pg_RequeueExpiredLease pg c now i t a F d))"
| Enqueue: "pg_reached pg d \<Longrightarrow> pg_reached pg (snd (pg_Enqueue pg c now delta F d))"
| EnqueueBatch: "pg_reached pg d \<Longrightarrow> pg_reached pg (snd (pg_EnqueueBatch pg m c clock deltas F d))"
| MarkDispatched: "pg_reached pg d \<Longrightarrow> pg_reached pg (snd (pg_MarkDispatched pg c now i F d))"
| Dispatch: "pg_reached pg d \<Longrightarrow>
    pg_reached pg (snd (pg_DispatchPending (with_locks pg L) a b s n c now syncID limit F d))"

lemma with_locks_ok [simp]: "pg_ok (with_locks pg L) = pg_ok pg" "pg_documented (with_locks pg L) = pg_documented pg"
  by (simp_all add: with_locks_def pg_documented_def pg_ok_def [abs_def] delta_typed_def job_typed_def)

lemma keeps_observed_snd: "keeps_observed I m \<Longrightarrow> I d \<Longrightarrow> I (snd (snd (m F d)))"
  by (simp add: keeps_observed_def)

lemmas pg_steps =
  keeps_snd [OF keeps_pg_Create] keeps_snd [OF keeps_pg_operator(1)] keeps_snd [OF keeps_pg_operator(2)]
  keeps_snd [OF keeps_pg_enqueue] keeps_snd [OF keeps_pg_EnqueueBatch(2)] keeps_snd [OF keeps_pg_mark(2)]
  keeps_observed_snd [OF keeps_pg_RenewLease] keeps_observed_snd [OF keeps_pg_owner(1)]
  keeps_observed_snd [OF keeps_pg_owner(2)] keeps_observed_snd [OF keeps_pg_owner(3)]
  keeps_observed_snd [OF keeps_pg_owner(4)]

lemma pg_reached_ok: "pg_reached pg d \<Longrightarrow> pg_documented pg \<Longrightarrow> pg_ok pg d"
proof (induction rule: pg_reached.induct)
  case empty
  then show ?case
    by (simp add: empty_db_def pg_ok_def db_ok_def deltas_ok_def jobs_ok_def rows_ok_def outbox_jobs_def dedup_rows_def)
next
  case (ClaimNext d L c now syncID w l F)
  with keeps_observed_snd [OF keeps_pg_claims(1), of "with_locks pg L"] show ?case by simp
next
  case (ClaimNextBatch d L c now syncID w limit l F)
  with keeps_observed_snd [OF keeps_pg_claims(2), of "with_locks pg L"] show ?case by simp
next
  case (Dispatch d L a b s n c now syncID limit F)
  with keeps_snd [OF keeps_pg_dispatch, of "with_locks pg L"] show ?case by simp
qed (simp_all add: pg_Enqueue_def pg_steps)

text \<open>
  C20: Every row of a reachable Postgres database has the types and meets the constraints of
  its columns, whatever operations ran, whichever of their statements failed and whatever rows
  were locked: identifiers are canonical and unique, keys are normalised and readable, counters
  stay inside 32 bits, states and origins are those of the check constraints, a job's delta
  exists, and a delta has at most one outbox job.
\<close>

theorem postgres_rows_typed:
  assumes "pg_documented pg" and "pg_reached pg d"
  shows "distinct (map jr_id (sq_jobs d)) \<and> distinct (map dr_id (sq_deltas d))
    \<and> (\<forall>i. length (outbox_jobs i (sq_jobs d)) \<le> 1) \<and> (\<forall>k. length (dedup_rows k (sq_deltas d)) \<le> 1)
    \<and> (\<forall>r \<in> set (sq_jobs d). job_typed pg r \<and> refers d r \<and> (\<exists>j. ScanSyncJob (Some r) = Inr (Some j)))
    \<and> (\<forall>r \<in> set (sq_deltas d). delta_typed pg r \<and> (\<exists>key. json_Unmarshal_key (dr_projection_key r) = Inr key))"
proof -
  have ok: "pg_ok pg d" by (rule pg_reached_ok [OF assms(2,1)])
  have "\<exists>j. ScanSyncJob (Some r) = Inr (Some j)" if "parses (jr_projection_key r)" for r
    using scan_row [OF that] ScanSyncJob_agrees [of r] that by (auto simp: parses_def)
  with ok show ?thesis
    by (simp add: pg_ok_def db_ok_def jobs_ok_def deltas_ok_def rows_ok_def) (simp add: parses_def)
qed

section \<open>A concrete server\<close>

lemma sample_pg_documented: "pg_documented sample_pg"
proof -
  have "parses s" if "map_sum id Some (json_Marshal_key k) = Inr (Some s)" for k s
    using that by (cases "json_Marshal_key k") (auto dest: marshalled)
  then show ?thesis by (auto simp: pg_documented_def sample_pg_def split: if_splits)
qed

lemma sample_deltas_pg_ok: "pg_ok sample_pg sample_deltas_db"
proof -
  have "json_valid ''{}''" by code_simp
  with sample_deltas_db_ok show ?thesis
    by (simp add: pg_ok_def sample_deltas_db_def sample_delta_row_def empty_db_def delta_typed_def delta_row_ok_def
        sample_pg_def)
qed

lemma postgres_dispatch_all_or_nothing_witness:
  "\<exists>js d'. pg_DispatchPending sample_pg True True True 5 None (timeFromMicros 7) ''contacts'' 3 no_faults sample_deltas_db
       = (Inr js, d')
     \<and> length js = 1 \<and> length (outbox_jobs ''delta-1'' (sq_jobs d')) = 1"
proof -
  let ?call = "pg_DispatchPending sample_pg True True True 5 None (timeFromMicros 7) ''contacts'' 3 no_faults sample_deltas_db"
  have answer: "case fst ?call of Inl e \<Rightarrow> False | Inr js \<Rightarrow> length js = 1" by code_simp
  moreover obtain r d' where run: "?call = (r, d')" by (rule prod.exhaust)
  ultimately obtain js where r: "r = Inr js" and js: "length js = 1" by (auto split: sum.splits)
  have "map dr_id (pg_pulled sample_pg ''contacts'' 3 sample_deltas_db) = [''delta-1'']" by code_simp
  then have "\<exists>r \<in> set (pg_pulled sample_pg ''contacts'' 3 sample_deltas_db). dr_id r = ''delta-1''"
    by (auto simp: map_eq_Cons_conv)
  with postgres_dispatch_all_or_nothing [OF sample_pg_documented sample_deltas_pg_ok _ run] js run r
  show ?thesis by (auto simp: Let_def)
qed

lemma postgres_rows_typed_witness:
  "list_all (\<lambda>r. int4_ok (jr_attempt_count r)) (sq_jobs (snd (pg_Create sample_pg 5 None 7 sample_job no_faults (empty_db True))))"
  using postgres_rows_typed [OF sample_pg_documented pg_reached.Create [OF pg_reached.empty]]
  by (simp add: job_typed_def list_all_iff)

end
