(* ===== verification/DF_Target.thy ===== *)
theory DF_Target
  imports DF_Cycle
begin

text \<open>
  What the pipeline relies on when it hands an operation to an applier: the locale \<open>target\<close>.
  An accepted operation has its effect on the one slot its identity belongs to; a refused one
  may have had it if a request was sent at all (the answer of a server can be lost), and touches
  no other slot either.

  The lemmas: delivering an operation again changes nothing; what a slot can hold after a series
  of deliveries; and a batch of the worker in calm surroundings leaves the projections of its
  jobs in the target. The first
  section is \<open>strconv.Quote\<close>, which the verb \<open>%q\<close> applies to strings.
\<close>

section \<open>Quoting\<close>

text \<open>\<open>strconv.IsPrint\<close>; above U+00FF every rune is taken as printable.\<close>

definition rune_IsPrint :: "nat \<Rightarrow> bool" where
  "rune_IsPrint r \<longleftrightarrow> (0x20 \<le> r \<and> r < 0x7F) \<or> (0xA1 \<le> r \<and> r \<noteq> 0xAD)"

primrec hex_digits :: "nat \<Rightarrow> nat \<Rightarrow> string" where
  "hex_digits 0 n = []"
| "hex_digits (Suc w) n = hex_digits w (n div 16) @ [hex_digit (n mod 16)]"

definition quote_rune :: "nat \<times> string \<Rightarrow> string" where
  "quote_rune x =
     (case x of (r, bytes) \<Rightarrow>
        if r = runeError \<and> length bytes = 1 then [CHR 0x5C, CHR ''x''] @ hex_digits 2 (byte (hd bytes))
        else if r = 0x22 \<or> r = 0x5C then CHR 0x5C # bytes
        else if rune_IsPrint r then bytes
        else if r = 7 then [CHR 0x5C, CHR ''a'']
        else if r = 8 then [CHR 0x5C, CHR ''b'']
        else if r = 12 then [CHR 0x5C, CHR ''f'']
        else if r = 10 then [CHR 0x5C, CHR ''n'']
        else if r = 13 then [CHR 0x5C, CHR ''r'']
        else if r = 9 then [CHR 0x5C, CHR ''t'']
        else if r = 11 then [CHR 0x5C, CHR ''v'']
        else if r < 0x20 \<or> r = 0x7F then [CHR 0x5C, CHR ''x''] @ hex_digits 2 r
        else [CHR 0x5C, CHR ''u''] @ hex_digits 4 r)"

definition strconv_Quote :: "string \<Rightarrow> string" where
  "strconv_Quote s = [CHR 0x22] @ concat (map quote_rune (runes s)) @ [CHR 0x22]"

section \<open>The contract of a target\<close>

text \<open>A series of deliveries, as the retries of several workers make them.\<close>

fun deliver :: "(ctx \<Rightarrow> projection_operation \<Rightarrow> 'w \<Rightarrow> error option \<times> 'w) \<Rightarrow>
    (ctx \<times> projection_operation) list \<Rightarrow> 'w \<Rightarrow> error option list \<times> 'w"
where
  "deliver f [] w = ([], w)"
| "deliver f ((c, op) # ds) w = (case f c op w of (r, w1) \<Rightarrow> apfst (Cons r) (deliver f ds w1))"

text \<open>
  What the slot \<open>k\<close> can hold after deliveries with their answers, when it held one of the
  contents \<open>S\<close> before: an accepted operation for the slot settles it; one that was sent and
  not accepted may have had its effect; one that was not sent, or is for another slot, has none.
\<close>

fun contents_after :: "(projection_identity \<Rightarrow> 'k option) \<Rightarrow> (projection_operation \<Rightarrow> bool) \<Rightarrow>
    (projection_operation \<Rightarrow> 'd option) \<Rightarrow> 'k \<Rightarrow> (projection_operation \<times> error option) list \<Rightarrow> 'd option set \<Rightarrow> 'd option set"
where
  "contents_after slot sends wanted k [] S = S"
| "contents_after slot sends wanted k ((op, answer) # ds) S = contents_after slot sends wanted k ds
     (if slot (op_Identity op) \<noteq> Some k then S
      else if answer = None then {wanted op}
      else if sends op then insert (wanted op) S else S)"

lemma deliver_length: "deliver f ds w = (rs, w') \<Longrightarrow> length rs = length ds"
  by (induction f ds w arbitrary: rs w' rule: deliver.induct) (auto simp: apfst_def map_prod_def split: prod.splits)

text \<open>The operation for an identity.\<close>

lemma operation_for_identity: "operation_for d a = Some (op, g) \<Longrightarrow> op_Identity op = d"
  by (auto simp: operation_for_def split: sum.splits if_splits)

definition job_wants :: "(projection_identity \<Rightarrow> error + projection) \<Rightarrow> sync_job \<Rightarrow> projection_operation \<Rightarrow> bool" where
  "job_wants project job op \<longleftrightarrow> (\<exists>g. operation_for (job_identity job) (project (job_identity job)) = Some (op, g))"

text \<open>A source that does not change, and a world in which every job of the list is accepted.\<close>

definition accepts ::
    "('s, 'w) env \<Rightarrow> (projection_identity \<Rightarrow> error + projection) \<Rightarrow> ('w \<Rightarrow> bool) \<Rightarrow> sync_job list \<Rightarrow> bool"
where
  "accepts E project W js \<longleftrightarrow> (\<forall>d x. en_project E None d x = (project d, x))
     \<and> list_all (\<lambda>job. works E W (job_identity job)) js"

lemma accepts_Cons:
  assumes "accepts E project W (job # js)" and "W w"
  obtains op where "accepts E project W js" "job_wants project job op" "fst (en_apply E None op w) = None"
    "W (project_apply E job w)" "en_project E None (job_identity job) w = (project (job_identity job), w)"
proof -
  from assms(1) have p: "en_project E None d x = (project d, x)" and w: "works E W (job_identity job)" for d x
    by (simp_all add: accepts_def)
  obtain op g where "operation_for (job_identity job) (project (job_identity job)) = Some (op, g)"
      "fst (en_apply E None op w) = None"
    using w assms(2) by (fastforce simp: works_def p split: option.splits)
  with that [of op] p works_world [OF w assms(2)] assms(1) show thesis by (auto simp: accepts_def job_wants_def)
qed

lemma accepts_append: "accepts E project W (as @ bs) \<longleftrightarrow> accepts E project W as \<and> accepts E project W bs"
  by (auto simp: accepts_def)

lemma accepts_fold: "accepts E project W js \<Longrightarrow> W w \<Longrightarrow> W (fold (project_apply E) js w)"
  by (induction js arbitrary: w) (auto elim: accepts_Cons)

text \<open>
  \<open>slot\<close> is where an identity is kept, if the applier can tell; \<open>wanted\<close> is the content an
  operation asks for, which for a deletion is none; \<open>sends\<close> tells whether the applier turns the
  operation into a request.
\<close>

locale target =
  fixes apply_op :: "ctx \<Rightarrow> projection_operation \<Rightarrow> 'w \<Rightarrow> error option \<times> 'w"
    and view :: "'w \<Rightarrow> 'k \<Rightarrow> 'd option"
    and slot :: "projection_identity \<Rightarrow> 'k option"
    and wanted :: "projection_operation \<Rightarrow> 'd option"
    and sends :: "projection_operation \<Rightarrow> bool"
  assumes accepted: "apply_op c op w = (None, w') \<Longrightarrow>
      \<exists>k. slot (op_Identity op) = Some k \<and> view w' = (view w)(k := wanted op)"
    and refused: "apply_op c op w = (Some e, w') \<Longrightarrow>
      view w' = view w
      \<or> sends op \<and> (\<exists>k. slot (op_Identity op) = Some k \<and> view w' = (view w)(k := wanted op))"
begin

lemma redelivered:
  assumes "apply_op c op w = (None, w1)" and "apply_op c' op w1 = (r, w2)"
  shows "view w2 = view w1"
  using accepted [OF assms(1)] accepted [of c' op w1 w2] refused [of c' op w1 _ w2] assms(2)
  by (cases r) auto

lemma deliver_contents:
  "deliver apply_op ds w = (rs, w') \<Longrightarrow> view w k \<in> S \<Longrightarrow>
    view w' k \<in> contents_after slot sends wanted k (zip (map snd ds) rs) S"
proof (induction ds arbitrary: w rs S)
  case (Cons d ds)
  obtain c op where d: "d = (c, op)" by (cases d)
  obtain r w1 where r: "apply_op c op w = (r, w1)" by (rule prod.exhaust)
  obtain rs' where rs: "deliver apply_op ds w1 = (rs', w')" "rs = r # rs'"
    using Cons.prems(1) r by (auto simp: d apfst_def map_prod_def split: prod.splits)
  let ?S = "if slot (op_Identity op) \<noteq> Some k then S else if r = None then {wanted op}
    else if sends op then insert (wanted op) S else S"
  have "view w1 k \<in> ?S"
    using accepted [of c op w w1] refused [of c op w _ w1] Cons.prems(2) r by (cases r) auto
  from Cons.IH [OF rs(1) this] show ?case by (simp add: d rs(2))
qed simp

text \<open>
  The jobs of a calm batch. Jobs whose identities share a slot are asked for the same content,
  as they are when every identity has a slot of its own and the source does not change.
\<close>

lemma project_apply_view:
  assumes "en_project E None (job_identity job) w = (project (job_identity job), w)" and "en_apply E = apply_op"
    and "fst (apply_op None op w) = None" and "job_wants project job op"
  shows "\<exists>k. slot (job_identity job) = Some k \<and> view (project_apply E job w) = (view w)(k := wanted op)"
proof -
  from assms(4) obtain g where op: "operation_for (job_identity job) (project (job_identity job)) = Some (op, g)"
    by (auto simp: job_wants_def)
  obtain w1 where "apply_op None op w = (None, w1)" using assms(3) by (metis prod.collapse)
  with accepted [OF this] show ?thesis
    by (simp add: project_apply_def assms(1,2) op operation_for_identity [OF op])
qed

lemma jobs_frame:
  assumes "accepts E project W js" and "W w" and "en_apply E = apply_op"
    and "\<forall>job \<in> set js. \<forall>op. job_wants project job op \<longrightarrow> slot (job_identity job) = Some k \<longrightarrow> wanted op = x"
    and "view w k = x"
  shows "view (fold (project_apply E) js w) k = x"
  using assms(1,2,4,5)
proof (induction js arbitrary: w)
  case (Cons job js)
  obtain op where op: "accepts E project W js" "job_wants project job op" "fst (en_apply E None op w) = None"
      "W (project_apply E job w)" "en_project E None (job_identity job) w = (project (job_identity job), w)"
    using accepts_Cons [OF Cons.prems(1,2)] by blast
  obtain k' where k': "slot (job_identity job) = Some k'" "view (project_apply E job w) = (view w)(k' := wanted op)"
    using project_apply_view [OF op(5) assms(3) op(3) [unfolded assms(3)] op(2)] by blast
  have "slot (job_identity job) = Some k \<Longrightarrow> wanted op = x" using Cons.prems(3) op(2) by simp
  then have "view (project_apply E job w) k = x" using k' Cons.prems(4) by (cases "k' = k") simp_all
  with Cons.IH [OF op(1,4)] Cons.prems(3) show ?case by simp
qed simp

lemma jobs_reach_target:
  assumes acc: "accepts E project W js" and "W w" and ap: "en_apply E = apply_op"
    and same: "\<forall>a \<in> set js. \<forall>b \<in> set js. slot (job_identity a) = slot (job_identity b) \<longrightarrow>
      (\<forall>p q. job_wants project a p \<longrightarrow> job_wants project b q \<longrightarrow> wanted p = wanted q)"
    and "job \<in> set js"
  shows "\<exists>op k. job_wants project job op \<and> slot (job_identity job) = Some k
    \<and> view (fold (project_apply E) js w) k = wanted op"
proof -
  from assms(5) obtain before after where js: "js = before @ job # after" by (meson split_list)
  let ?w = "fold (project_apply E) before w"
  have "accepts E project W before" using acc by (simp add: js accepts_append)
  then have "W ?w" using assms(2) by (rule accepts_fold)
  have later: "accepts E project W (job # after)" using acc by (simp add: js accepts_append)
  obtain op where op: "accepts E project W after" "job_wants project job op" "fst (en_apply E None op ?w) = None"
      "W (project_apply E job ?w)" "en_project E None (job_identity job) ?w = (project (job_identity job), ?w)"
    by (rule accepts_Cons [OF later, where w = ?w]) (rule \<open>W ?w\<close>, blast)
  obtain k where k: "slot (job_identity job) = Some k" "view (project_apply E job ?w) = (view ?w)(k := wanted op)"
    using project_apply_view [OF op(5) ap op(3) [unfolded ap] op(2)] by blast
  have "view (fold (project_apply E) after (project_apply E job ?w)) k = wanted op"
  proof (rule jobs_frame [OF op(1,4) ap])
    show "\<forall>a \<in> set after. \<forall>p. job_wants project a p \<longrightarrow> slot (job_identity a) = Some k \<longrightarrow> wanted p = wanted op"
    proof (intro ballI allI impI)
      fix a p
      assume a: "a \<in> set after" "job_wants project a p" "slot (job_identity a) = Some k"
      show "wanted p = wanted op"
        by (rule same [rule_format, OF _ assms(5) _ a(2) op(2)]) (use a k(1) in \<open>simp_all add: js\<close>)
    qed
  qed (simp add: k(2))
  with k(1) op(2) show ?thesis by (auto simp: js)
qed

end

end
