(* ===== verification/DF_Redis.thy ===== *)
theory DF_Redis
  imports DF_Target
begin

text \<open>
  The Redis applier (\<open>pkg/connectors/redis/applier.go\<close>). The client of go-redis is a parameter:
  two commands on a server whose state is theirs. What the applier relies on is said by
  \<open>redis_documented\<close>: a command that succeeds has its effect on the keys it names, one that
  fails may have had it, and no command touches another key.

  The applier is a provider of the contract \<open>target\<close>; the properties say what every branch of
  \<open>Apply\<close> does, that a repeated delivery is harmless, and what a batch of the worker leaves in
  the cache.
\<close>

section \<open>The applier\<close>

record 'c redis_client =
  rc_Set :: "ctx \<Rightarrow> string \<Rightarrow> string \<Rightarrow> duration \<Rightarrow> 'c \<Rightarrow> error option \<times> 'c"
  rc_Del :: "ctx \<Rightarrow> string list \<Rightarrow> 'c \<Rightarrow> error option \<times> 'c"

type_synonym KeyFunc = "projection_identity \<Rightarrow> error + string"

record 'c redis_config =
  rg_Client :: "'c redis_client option"
  rg_KeyFunc :: "KeyFunc option"
  rg_TTL :: duration

record 'c redis_applier =
  ra_client :: "'c redis_client"
  ra_keyFunc :: KeyFunc
  ra_ttl :: duration

definition redis_NewApplier :: "'c redis_config \<Rightarrow> error + 'c redis_applier" where
  "redis_NewApplier cfg =
     (case rg_Client cfg of
        None \<Rightarrow> Inl (Errors_New ''redis applier: client is required'')
      | Some client \<Rightarrow>
          (case rg_KeyFunc cfg of
             None \<Rightarrow> Inl (Errors_New ''redis applier: key func is required'')
           | Some keyFunc \<Rightarrow>
               if rg_TTL cfg < 0 then Inl (Errors_New ''redis applier: ttl must be non-negative'')
               else Inr \<lparr>ra_client = client, ra_keyFunc = keyFunc, ra_ttl = rg_TTL cfg\<rparr>))"

text \<open>The switch at the head of \<open>Apply\<close>; a deletion may come without a projection.\<close>

definition redis_check :: "projection_operation \<Rightarrow> error option" where
  "redis_check op =
     (if op_Type op = ProjectionOpUpsert then
        (if op_Projection op = None
         then Some (Errors_New ''redis applier: upsert operation requires projection'') else None)
      else if op_Type op = ProjectionOpDelete then None
      else Some (Errors_New (''redis applier: unsupported operation '' @ strconv_Quote (op_Type op))))"

definition redis_Apply :: "'c redis_applier \<Rightarrow> ctx \<Rightarrow> projection_operation \<Rightarrow> 'c \<Rightarrow> error option \<times> 'c" where
  "redis_Apply a ctx op c =
     (case redis_check op of
        Some e \<Rightarrow> (Some e, c)
      | None \<Rightarrow>
          (case ra_keyFunc a (op_Identity op) of
             Inl e \<Rightarrow> (Some (Wrapped ''redis applier: resolve key: '' e []), c)
           | Inr key \<Rightarrow>
               if key = [] then (Some (Errors_New ''redis applier: key func returned an empty key''), c)
               else if op_Type op = ProjectionOpUpsert then
                 apfst (map_option (\<lambda>e. Wrapped (''redis applier: set key '' @ strconv_Quote key @ '': '') e []))
                   (rc_Set (ra_client a) ctx key (p_Payload (the (op_Projection op))) (ra_ttl a) c)
               else
                 apfst (map_option (\<lambda>e. Wrapped (''redis applier: delete key '' @ strconv_Quote key @ '': '') e []))
                   (rc_Del (ra_client a) ctx [key] c)))"

section \<open>What the applier relies on\<close>

text \<open>
  \<open>view\<close> is what was last written under a key, with its expiration; that keys expire as time
  goes by is left out. A command has its effect before its answer or error is there, or never.
\<close>

definition redis_documented :: "'c redis_client \<Rightarrow> ('c \<Rightarrow> string \<Rightarrow> (string \<times> duration) option) \<Rightarrow> bool" where
  "redis_documented client view \<longleftrightarrow>
     (\<forall>c k v t s e s'. rc_Set client c k v t s = (e, s') \<longrightarrow>
        view s' = (view s)(k \<mapsto> (v, t)) \<or> e \<noteq> None \<and> view s' = view s)
     \<and> (\<forall>c k s e s'. rc_Del client c [k] s = (e, s') \<longrightarrow>
        view s' = (view s)(k := None) \<or> e \<noteq> None \<and> view s' = view s)"

definition redis_slot :: "'c redis_applier \<Rightarrow> projection_identity \<Rightarrow> string option" where
  "redis_slot a d = (case ra_keyFunc a d of Inl e \<Rightarrow> None | Inr key \<Rightarrow> if key = [] then None else Some key)"

definition redis_wanted :: "'c redis_applier \<Rightarrow> projection_operation \<Rightarrow> (string \<times> duration) option" where
  "redis_wanted a op =
     (if op_Type op = ProjectionOpUpsert then map_option (\<lambda>p. (p_Payload p, ra_ttl a)) (op_Projection op) else None)"

definition redis_sends :: "'c redis_applier \<Rightarrow> projection_operation \<Rightarrow> bool" where
  "redis_sends a op \<longleftrightarrow> redis_check op = None \<and> redis_slot a (op_Identity op) \<noteq> None"

lemma redis_laws:
  assumes "redis_documented client view"
  shows "rc_Set client c k v t s = (e, s') \<Longrightarrow> view s' = (view s)(k \<mapsto> (v, t)) \<or> e \<noteq> None \<and> view s' = view s"
    and "rc_Del client c [k] s = (e, s') \<Longrightarrow> view s' = (view s)(k := None) \<or> e \<noteq> None \<and> view s' = view s"
  using assms unfolding redis_documented_def by blast+

text \<open>The operation is refused before the client is called, or one command is run on its key.\<close>

lemma redis_Apply_cases:
  assumes run: "redis_Apply a ctx op c = (r, c')" and doc: "redis_documented (ra_client a) view"
  obtains (refused) "r \<noteq> None" "c' = c" "redis_check op \<noteq> None \<or> redis_slot a (op_Identity op) = None"
    | (command) k where "redis_check op = None" "redis_slot a (op_Identity op) = Some k"
        "view c' = (view c)(k := redis_wanted a op) \<or> r \<noteq> None \<and> view c' = view c"
proof (cases "redis_check op = None \<and> redis_slot a (op_Identity op) \<noteq> None")
  case True
  then obtain k where k: "ra_keyFunc a (op_Identity op) = Inr k" "k \<noteq> []" "redis_slot a (op_Identity op) = Some k"
    by (auto simp: redis_slot_def split: sum.splits if_splits)
  have "view c' = (view c)(k := redis_wanted a op) \<or> r \<noteq> None \<and> view c' = view c"
  proof (cases "op_Type op = ProjectionOpUpsert")
    case upsert: True
    then obtain p where p: "op_Projection op = Some p" using True by (cases "op_Projection op") (simp_all add: redis_check_def)
    obtain e where "rc_Set (ra_client a) ctx k (p_Payload p) (ra_ttl a) c = (e, c')" "r = None \<longleftrightarrow> e = None"
      using run True k(1,2) upsert p by (auto simp: redis_Apply_def apfst_def map_prod_def split: prod.splits)
    with redis_laws(1) [OF doc] upsert p show ?thesis by (auto simp: redis_wanted_def)
  next
    case False
    obtain e where "rc_Del (ra_client a) ctx [k] c = (e, c')" "r = None \<longleftrightarrow> e = None"
      using run True k(1,2) False by (auto simp: redis_Apply_def apfst_def map_prod_def split: prod.splits)
    with redis_laws(2) [OF doc] False show ?thesis by (auto simp: redis_wanted_def)
  qed
  from command [OF conjunct1 [OF True] k(3) this] show thesis .
next
  case False
  have "r \<noteq> None \<and> c' = c"
  proof (cases "redis_check op")
    case None
    with False have "redis_slot a (op_Identity op) = None" by simp
    with run None show ?thesis by (auto simp: redis_Apply_def redis_slot_def split: sum.splits if_splits)
  next
    case (Some e)
    then have "redis_Apply a ctx op c = (Some e, c)" by (simp add: redis_Apply_def)
    with run have "r = Some e" "c' = c" by simp_all
    then show ?thesis by simp
  qed
  with False refused show thesis by blast
qed

lemma redis_target:
  assumes "redis_documented (ra_client a) view"
  shows "target (redis_Apply a) view (redis_slot a) (redis_wanted a) (redis_sends a)"
proof
  fix c op w w'
  assume "redis_Apply a c op w = (None, w')"
  then show "\<exists>k. redis_slot a (op_Identity op) = Some k \<and> view w' = (view w)(k := redis_wanted a op)"
    by (rule redis_Apply_cases [OF _ assms]) auto
next
  fix c op w e w'
  assume "redis_Apply a c op w = (Some e, w')"
  then show "view w' = view w
      \<or> redis_sends a op \<and> (\<exists>k. redis_slot a (op_Identity op) = Some k \<and> view w' = (view w)(k := redis_wanted a op))"
    by (rule redis_Apply_cases [OF _ assms]) (auto simp: redis_sends_def)
qed

section \<open>A server\<close>

text \<open>
  A server with a script of faults: before each command it takes the next entry, which is
  absent for success, or the error to answer with and whether the command had its effect.
\<close>

record redis_server =
  rs_data :: "string \<Rightarrow> (string \<times> duration) option"
  rs_faults :: "(error \<times> bool) option list"

definition server_command :: "((string \<Rightarrow> (string \<times> duration) option) \<Rightarrow> (string \<Rightarrow> (string \<times> duration) option)) \<Rightarrow>
    redis_server \<Rightarrow> error option \<times> redis_server"
where
  "server_command f s =
     (case rs_faults s of
        Some (e, had_effect) # fs \<Rightarrow>
          (Some e, s\<lparr>rs_data := (if had_effect then f (rs_data s) else rs_data s), rs_faults := fs\<rparr>)
      | _ \<Rightarrow> (None, s\<lparr>rs_data := f (rs_data s), rs_faults := tl (rs_faults s)\<rparr>))"

definition server_client :: "redis_server redis_client" where
  "server_client =
     \<lparr>rc_Set = (\<lambda>ctx k v t. server_command (\<lambda>m. m(k \<mapsto> (v, t)))),
      rc_Del = (\<lambda>ctx ks. server_command (\<lambda>m k. if k \<in> set ks then None else m k))\<rparr>"

lemma server_documented: "redis_documented server_client rs_data"
  by (auto simp: redis_documented_def server_client_def server_command_def fun_eq_iff split: list.splits option.splits if_splits)

interpretation redis: target "redis_Apply \<lparr>ra_client = server_client, ra_keyFunc = kf, ra_ttl = ttl\<rparr>" rs_data
    "redis_slot \<lparr>ra_client = server_client, ra_keyFunc = kf, ra_ttl = ttl\<rparr>"
    "redis_wanted \<lparr>ra_client = server_client, ra_keyFunc = kf, ra_ttl = ttl\<rparr>"
    "redis_sends \<lparr>ra_client = server_client, ra_keyFunc = kf, ra_ttl = ttl\<rparr>"
  for kf ttl
  by (rule redis_target) (simp add: server_documented)

section \<open>Properties\<close>

text \<open>
  C9: What a key of the cache holds after any series of deliveries, whatever it was and however
  answers are lost: what the last accepted operation for the key asked for (the payload with its
  expiration, or nothing after a deletion), or what an operation for the key asked for that came
  later, was sent and was not accepted; before any was accepted, the content at the start takes
  this part. So repeating a delivery is harmless, an operation that is refused before a command is
  sent changes nothing, and other keys are not touched.
\<close>

theorem redis_last_delivery_wins:
  assumes "redis_documented (ra_client a) view" and "deliver (redis_Apply a) ds w = (answers, w')"
  shows "length answers = length ds
    \<and> view w' k \<in> contents_after (redis_slot a) (redis_sends a) (redis_wanted a) k
        (zip (map snd ds) answers) {view w k}"
  using target.deliver_contents [OF redis_target [OF assms(1)] assms(2), of k "{view w k}"]
    deliver_length [OF assms(2)] by simp

definition sample_keys :: KeyFunc where
  "sample_keys d = (if pi_Key d = sample_key then Inr ''contact:42'' else Inl ErrProjectionNotFound)"

definition sample_cache :: "redis_server redis_applier" where
  "sample_cache = \<lparr>ra_client = server_client, ra_keyFunc = sample_keys, ra_ttl = minute\<rparr>"

definition sample_identity :: projection_identity where
  "sample_identity = \<lparr>pi_Type = ''Contact'', pi_Key = sample_key\<rparr>"

definition sample_upsert :: projection_operation where
  "sample_upsert = \<lparr>op_Type = ProjectionOpUpsert, op_Identity = sample_identity,
     op_Projection = Some \<lparr>p_Identity = sample_identity, p_Payload = ''ada'', p_MediaType = [], p_Checksum = []\<rparr>\<rparr>"

lemma sample_cache_slot [simp]: "redis_slot sample_cache sample_identity = Some ''contact:42''"
  by (simp add: redis_slot_def sample_cache_def sample_keys_def sample_identity_def)

lemma sample_upsert_wanted [simp]: "redis_wanted sample_cache sample_upsert = Some (''ada'', minute)"
  by (simp add: redis_wanted_def sample_cache_def sample_upsert_def)

lemma redis_last_delivery_wins_witness:
  "let ds = [(None, sample_upsert), (None, sample_upsert), (Some CtxCanceled, sample_upsert\<lparr>op_Projection := None\<rparr>)];
       w = \<lparr>rs_data = (\<lambda>k. None), rs_faults = [Some (CtxDeadlineExceeded, True)]\<rparr>
   in rs_data (snd (deliver (redis_Apply sample_cache) ds w)) ''contact:42'' = Some (''ada'', minute)"
proof -
  let ?ds = "[(None, sample_upsert), (None, sample_upsert), (Some CtxCanceled, sample_upsert\<lparr>op_Projection := None\<rparr>)]"
  let ?w = "\<lparr>rs_data = (\<lambda>k. None), rs_faults = [Some (CtxDeadlineExceeded, True)]\<rparr>"
  have doc: "redis_documented (ra_client sample_cache) rs_data" by (simp add: sample_cache_def server_documented)
  have apply_op: "redis_Apply sample_cache x sample_upsert s = apfst (map_option (\<lambda>e. Wrapped (''redis applier: set key ''
      @ strconv_Quote ''contact:42'' @ '': '') e [])) (server_command (\<lambda>m. m(''contact:42'' \<mapsto> (''ada'', minute))) s)" for x s
    by (simp add: redis_Apply_def redis_check_def sample_upsert_def sample_cache_def sample_keys_def sample_identity_def
        server_client_def)
  have no_projection: "redis_check (sample_upsert\<lparr>op_Projection := None\<rparr>)
      = Some (Errors_New ''redis applier: upsert operation requires projection'')"
    by (simp add: redis_check_def sample_upsert_def)
  have refused: "redis_Apply sample_cache x (sample_upsert\<lparr>op_Projection := None\<rparr>) s
      = (Some (Errors_New ''redis applier: upsert operation requires projection''), s)" for x s
    by (simp add: redis_Apply_def no_projection)
  have id: "op_Identity sample_upsert = sample_identity" by (simp add: sample_upsert_def)
  obtain answers w' where run: "deliver (redis_Apply sample_cache) ?ds ?w = (answers, w')" by (rule prod.exhaust)
  have answers: "\<exists>e e'. answers = [Some e, None, Some e']" using run
    by (simp add: apply_op refused server_command_def) blast
  from redis_last_delivery_wins [OF doc run, of "''contact:42''"] answers
  have "rs_data w' ''contact:42'' = Some (''ada'', minute)"
    by (auto simp: redis_sends_def no_projection id split: if_splits)
  with run show ?thesis by simp
qed

text \<open>
  C8: Delivery to the cache: in calm surroundings a batch of the worker leaves in Redis, under the
  key of every job it claimed, the payload that the source has for the job's identity, or
  nothing when the source has no projection for it any more. Jobs whose identities share a key
  ask for the same content; the source does not change meanwhile.
\<close>

theorem batch_reaches_cache:
  assumes "redis_documented (ra_client a) view" and "en_apply E = redis_Apply a"
    and "calm E (sw_LockFor v) m" and "stores_inv (m_store m)"
    and "0 < sw_LockFor v" and "sw_batchClaims v" and "0 < n"
    and "accepts E project W (claimed_jobs E v w n m)" and "W (m_world m)"
    and "\<forall>x \<in> set (claimed_jobs E v w n m). \<forall>y \<in> set (claimed_jobs E v w n m).
      redis_slot a (job_identity x) = redis_slot a (job_identity y) \<longrightarrow>
      (\<forall>p q. job_wants project x p \<longrightarrow> job_wants project y q \<longrightarrow> redis_wanted a p = redis_wanted a q)"
  shows "\<exists>m'. run E None (processBatch v w n) m = (None, m')
    \<and> (\<forall>job \<in> set (claimed_jobs E v w n m).
         (\<exists>j. system_jobs (m_store m') (j_ID job) = Some j \<and> j_State j = StateSynced)
         \<and> (\<exists>op k. job_wants project job op \<and> redis_slot a (job_identity job) = Some k
              \<and> view (m_world m') k = redis_wanted a op))"
proof -
  let ?js = "claimed_jobs E v w n m"
  have works: "list_all (\<lambda>j. works E W (job_identity j)) ?js" using assms(8) by (simp add: accepts_def)
  obtain m' where m': "run E None (processBatch v w n) m = (None, m')"
      "\<forall>i \<in> set (take (nat n) (claimableJobIDsLocked (now_at E m) (sw_SyncID v) (ms_jobs (m_store m)))).
         \<exists>j. system_jobs (m_store m') i = Some j \<and> j_State j = StateSynced"
      "m_world m' = fold (project_apply E) ?js (m_world m)"
    using calm_batch [OF assms(3-7) works assms(9)] by blast
  have "\<exists>j. system_jobs (m_store m') (j_ID job) = Some j \<and> j_State j = StateSynced" if "job \<in> set ?js" for job
    using m'(2) claimed_jobs_ID [OF assms(4,7) that] by blast
  moreover have "\<exists>op k. job_wants project job op \<and> redis_slot a (job_identity job) = Some k
      \<and> view (m_world m') k = redis_wanted a op" if "job \<in> set ?js" for job
    unfolding m'(3)
    by (rule target.jobs_reach_target [OF redis_target [OF assms(1)] assms(8,9,2,10) that])
  ultimately show ?thesis using m'(1) by blast
qed

definition cache_env :: "(memory_system, redis_server) env" where
  "cache_env =
     \<lparr>en_ops = memory_ops,
      en_project = (\<lambda>c d x. (Inr \<lparr>p_Identity = d, p_Payload = ''ada'', p_MediaType = [], p_Checksum = []\<rparr>, x)),
      en_apply = redis_Apply sample_cache, en_sched = en_sched sample_env\<rparr>"

definition cache_machine :: "(memory_system, redis_server) machine" where
  "cache_machine =
     \<lparr>m_store = m_store sample_machine, m_world = \<lparr>rs_data = (\<lambda>k. None), rs_faults = []\<rparr>, m_time = 0\<rparr>"

lemma cache_sel:
  "sw_LockFor one_routine = 7" "sw_batchClaims one_routine" "en_apply cache_env = redis_Apply sample_cache"
  "rs_faults (m_world cache_machine) = []"
  by (simp_all add: one_routine_def sample_worker_def cache_env_def cache_machine_def)

lemma cache_claimed: "claimed_jobs cache_env one_routine ''w'' 2 cache_machine = [claim_job 10 ''w'' 7 sample_created]"
  using sample_claimable sample_job_store_jobs
  by (simp add: claimed_jobs_def cache_env_def cache_machine_def sample_env_def sample_machine_def now_at_def
      one_routine_def sample_worker_def job_at_def)

lemma cache_identity: "job_identity (claim_job 10 ''w'' 7 sample_created) = sample_identity"
  by (simp add: job_identity_def claim_job_def sample_created_def sample_job_def sample_identity_def)

lemma batch_reaches_cache_witness:
  "\<exists>m'. run cache_env None (processBatch one_routine ''w'' 2) cache_machine = (None, m')
     \<and> rs_data (m_world m') ''contact:42'' = Some (''ada'', minute)"
proof -
  let ?job = "claim_job 10 ''w'' 7 sample_created"
  have doc: "redis_documented (ra_client sample_cache) rs_data" by (simp add: sample_cache_def server_documented)
  have calm: "calm cache_env (sw_LockFor one_routine) cache_machine"
    by (simp add: calm_def cache_env_def cache_machine_def sample_env_def one_routine_def sample_worker_def now_at_def)
  have inv: "stores_inv (m_store cache_machine)" using sample_machine_inv by (simp add: cache_machine_def)
  have works: "works cache_env (\<lambda>s. rs_faults s = []) sample_identity"
    by (simp add: works_def cache_env_def operation_for_def redis_Apply_def redis_check_def sample_cache_def
        sample_keys_def sample_identity_def server_client_def server_command_def)
  have acc: "accepts cache_env (\<lambda>d. Inr \<lparr>p_Identity = d, p_Payload = ''ada'', p_MediaType = [], p_Checksum = []\<rparr>)
      (\<lambda>s. rs_faults s = []) (claimed_jobs cache_env one_routine ''w'' 2 cache_machine)"
    using works unfolding accepts_def cache_claimed by (simp add: cache_identity) (simp add: cache_env_def)
  have wants: "job_wants (\<lambda>d. Inr \<lparr>p_Identity = d, p_Payload = ''ada'', p_MediaType = [], p_Checksum = []\<rparr>) ?job op
      \<longleftrightarrow> op = sample_upsert" for op
    by (auto simp: job_wants_def operation_for_def cache_identity sample_upsert_def)
  have "\<exists>m'. run cache_env None (processBatch one_routine ''w'' 2) cache_machine = (None, m')
    \<and> (\<forall>job \<in> set (claimed_jobs cache_env one_routine ''w'' 2 cache_machine).
         (\<exists>j. system_jobs (m_store m') (j_ID job) = Some j \<and> j_State j = StateSynced)
         \<and> (\<exists>op k. job_wants (\<lambda>d. Inr \<lparr>p_Identity = d, p_Payload = ''ada'', p_MediaType = [], p_Checksum = []\<rparr>) job op
              \<and> redis_slot sample_cache (job_identity job) = Some k
              \<and> rs_data (m_world m') k = redis_wanted sample_cache op))"
    by (rule batch_reaches_cache [OF doc _ calm inv _ _ _ acc])
      (simp_all add: cache_claimed wants cache_sel)
  then show ?thesis by (auto simp: cache_claimed wants cache_identity)
qed

end
