(* ===== verification/DF_JsonText.thy ===== *)
theory DF_JsonText
  imports DF_Json
begin

text \<open>
  Strings and numbers of JSON are read back as they were written. The first part is about
  UTF-8: a rune of several bytes is decoded whatever follows it, and what \<open>EncodeRune\<close> writes
  is valid. The second part shows that the literals a scanner accepts have valid values, and
  that valid strings, written with their escapes, are read back unchanged. The last part shows
  the same for numbers.
\<close>

section \<open>Valid UTF-8\<close>

fun utf8 :: "string \<Rightarrow> bool" where
  "utf8 [] \<longleftrightarrow> True"
| "utf8 (c # cs) \<longleftrightarrow>
     (if byte c < 0x80 then utf8 cs
      else 2 \<le> snd (decodeRune (c # cs)) \<and> utf8 (drop (snd (decodeRune (c # cs)) - 1) cs))"

lemma byte_char_of [simp]: "n < 256 \<Longrightarrow> byte (char_of n) = n"
  by (simp add: byte_def)

lemma char_of_byte [simp]: "char_of (byte c) = c"
  by (simp add: byte_def)

text \<open>Digits to the base 64.\<close>

lemma base64_two:
  fixes a p :: nat
  assumes "p < 64"
  shows "(a * 64 + p) div 64 = a" "(a * 64 + p) mod 64 = p"
  using assms by simp_all

lemma base64_digits:
  fixes a p q s :: nat
  shows "p < 64 \<Longrightarrow> (a * 64 + p) div 64 = a" "p < 64 \<Longrightarrow> (a * 64 + p) mod 64 = p"
    and "p < 64 \<Longrightarrow> q < 64 \<Longrightarrow> (a * 4096 + p * 64 + q) div 4096 = a"
    "p < 64 \<Longrightarrow> q < 64 \<Longrightarrow> (a * 4096 + p * 64 + q) div 64 mod 64 = p"
    "q < 64 \<Longrightarrow> (a * 4096 + p * 64 + q) mod 64 = q"
    and "p < 64 \<Longrightarrow> q < 64 \<Longrightarrow> s < 64 \<Longrightarrow> (a * 262144 + p * 4096 + q * 64 + s) div 262144 = a"
    "p < 64 \<Longrightarrow> q < 64 \<Longrightarrow> s < 64 \<Longrightarrow> (a * 262144 + p * 4096 + q * 64 + s) div 4096 mod 64 = p"
    "q < 64 \<Longrightarrow> s < 64 \<Longrightarrow> (a * 262144 + p * 4096 + q * 64 + s) div 64 mod 64 = q"
    "s < 64 \<Longrightarrow> (a * 262144 + p * 4096 + q * 64 + s) mod 64 = s"
proof -
  have three: "a * 4096 + p * 64 + q = (a * 64 + p) * 64 + q"
    and four: "a * 262144 + p * 4096 + q * 64 + s = ((a * 64 + p) * 64 + q) * 64 + s" for a p q s :: nat
    by simp_all
  have split: "n div 4096 = n div 64 div 64" "n div 262144 = n div 64 div 64 div 64" for n :: nat
    by (simp_all flip: div_mult2_eq)
  note two = base64_two
  show "p < 64 \<Longrightarrow> (a * 64 + p) div 64 = a" "p < 64 \<Longrightarrow> (a * 64 + p) mod 64 = p"
    "p < 64 \<Longrightarrow> q < 64 \<Longrightarrow> (a * 4096 + p * 64 + q) div 4096 = a"
    "p < 64 \<Longrightarrow> q < 64 \<Longrightarrow> (a * 4096 + p * 64 + q) div 64 mod 64 = p"
    "q < 64 \<Longrightarrow> (a * 4096 + p * 64 + q) mod 64 = q"
    "p < 64 \<Longrightarrow> q < 64 \<Longrightarrow> s < 64 \<Longrightarrow> (a * 262144 + p * 4096 + q * 64 + s) div 262144 = a"
    "p < 64 \<Longrightarrow> q < 64 \<Longrightarrow> s < 64 \<Longrightarrow> (a * 262144 + p * 4096 + q * 64 + s) div 4096 mod 64 = p"
    "q < 64 \<Longrightarrow> s < 64 \<Longrightarrow> (a * 262144 + p * 4096 + q * 64 + s) div 64 mod 64 = q"
    "s < 64 \<Longrightarrow> (a * 262144 + p * 4096 + q * 64 + s) mod 64 = s"
    by (simp_all only: three four split two)
qed

lemma three_digits:
  fixes a p q :: nat
  assumes "a < 16" "p < 64" "q < 64" and "a = 0 \<longrightarrow> 32 \<le> p" "a = 13 \<longrightarrow> p < 32"
  shows "0x800 \<le> a * 4096 + p * 64 + q" "a * 4096 + p * 64 + q < 0x10000"
    and "\<not> (0xD800 \<le> a * 4096 + p * 64 + q \<and> a * 4096 + p * 64 + q \<le> 0xDFFF)"
proof -
  consider "a = 0" "32 \<le> p" | "a = 13" "p < 32" | "0 < a" "a \<le> 12" | "14 \<le> a" "a \<le> 15"
    using assms(1,4,5) by linarith
  then show "0x800 \<le> a * 4096 + p * 64 + q" "a * 4096 + p * 64 + q < 0x10000"
    "\<not> (0xD800 \<le> a * 4096 + p * 64 + q \<and> a * 4096 + p * 64 + q \<le> 0xDFFF)"
    using assms(2,3) by (cases; linarith)+
qed

lemma four_digits:
  fixes a p q s :: nat
  assumes "a \<le> 4" "p < 64" "q < 64" "s < 64" and "a = 0 \<longrightarrow> 16 \<le> p" "a = 4 \<longrightarrow> p < 16"
  shows "0x10000 \<le> a * 262144 + p * 4096 + q * 64 + s" "a * 262144 + p * 4096 + q * 64 + s \<le> 0x10FFFF"
proof -
  consider "a = 0" "16 \<le> p" | "a = 4" "p < 16" | "0 < a" "a \<le> 3"
    using assms(1,5,6) by linarith
  then show "0x10000 \<le> a * 262144 + p * 4096 + q * 64 + s" "a * 262144 + p * 4096 + q * 64 + s \<le> 0x10FFFF"
    using assms(2-4) by (cases; linarith)+
qed

lemma cont_digit:
  assumes "cont b"
  shows "byte b - 0x80 < 64" "char_of (0x80 + (byte b - 0x80)) = b" "0x80 \<le> byte b"
  using assms by (auto simp: cont_def)

lemma lead_byte: "k \<le> byte c \<Longrightarrow> char_of (k + (byte c - k)) = c"
  by simp

lemma encodeRune_cases:
  "r < 0x80 \<Longrightarrow> encodeRune r = [char_of r]"
  "0x80 \<le> r \<Longrightarrow> r < 0x800 \<Longrightarrow> encodeRune r = [char_of (0xC0 + r div 64), char_of (0x80 + r mod 64)]"
  "0x800 \<le> r \<Longrightarrow> r < 0x10000 \<Longrightarrow> \<not> (0xD800 \<le> r \<and> r \<le> 0xDFFF) \<Longrightarrow> encodeRune r =
     [char_of (0xE0 + r div 4096), char_of (0x80 + (r div 64) mod 64), char_of (0x80 + r mod 64)]"
  "0x10000 \<le> r \<Longrightarrow> r \<le> 0x10FFFF \<Longrightarrow> encodeRune r =
     [char_of (0xF0 + r div 262144), char_of (0x80 + (r div 4096) mod 64),
      char_of (0x80 + (r div 64) mod 64), char_of (0x80 + r mod 64)]"
  by (auto simp: encodeRune_def)

text \<open>A rune of several bytes: the encoder writes what was read, and what follows does not matter.\<close>

lemma decodeRune_two:
  assumes "0xC2 \<le> byte c" "byte c \<le> 0xDF" "cont b"
  shows "decodeRune (c # b # t) = ((byte c - 0xC0) * 64 + (byte b - 0x80), 2)"
    and "encodeRune ((byte c - 0xC0) * 64 + (byte b - 0x80)) = [c, b]"
proof -
  let ?r = "(byte c - 0xC0) * 64 + (byte b - 0x80)"
  have r: "0x80 \<le> ?r" "?r < 0x800" using assms(1,2) cont_digit(1) [OF assms(3)] by linarith+
  show "encodeRune ?r = [c, b]"
    unfolding encodeRune_cases(2) [OF r(1,2)] base64_digits(1,2) [OF cont_digit(1) [OF assms(3)]]
      cont_digit(2) [OF assms(3)]
    using lead_byte [of "0xC0" c] assms(1) by simp
qed (use assms in \<open>simp add: Let_def\<close>)

lemma decodeRune_three:
  assumes "0xE0 \<le> byte c" "byte c \<le> 0xEF" "cont b" "cont d"
    and "byte c = 0xE0 \<longrightarrow> 0xA0 \<le> byte b" "byte c = 0xED \<longrightarrow> byte b \<le> 0x9F"
  shows "decodeRune (c # b # d # t) = ((byte c - 0xE0) * 4096 + (byte b - 0x80) * 64 + (byte d - 0x80), 3)"
    and "encodeRune ((byte c - 0xE0) * 4096 + (byte b - 0x80) * 64 + (byte d - 0x80)) = [c, b, d]"
proof -
  let ?r = "(byte c - 0xE0) * 4096 + (byte b - 0x80) * 64 + (byte d - 0x80)"
  note digit = cont_digit(1) [OF assms(3)] cont_digit(1) [OF assms(4)]
  have "byte c - 0xE0 < 16" "byte c - 0xE0 = 0 \<longrightarrow> 32 \<le> byte b - 0x80" "byte c - 0xE0 = 13 \<longrightarrow> byte b - 0x80 < 32"
    using assms(1,2,5,6) by auto
  note r = three_digits [OF this(1) digit this(2,3)]
  show "encodeRune ?r = [c, b, d]"
    unfolding encodeRune_cases(3) [OF r] base64_digits(3,4) [OF digit] base64_digits(5) [OF digit(2)]
      cont_digit(2) [OF assms(3)] cont_digit(2) [OF assms(4)]
    using lead_byte [of "0xE0" c] assms(1) by simp
qed (use assms in \<open>simp add: Let_def\<close>)

lemma decodeRune_four:
  assumes "0xF0 \<le> byte c" "byte c \<le> 0xF4" "cont b" "cont d" "cont e"
    and "byte c = 0xF0 \<longrightarrow> 0x90 \<le> byte b" "byte c = 0xF4 \<longrightarrow> byte b \<le> 0x8F"
  shows "decodeRune (c # b # d # e # t) =
      ((byte c - 0xF0) * 262144 + (byte b - 0x80) * 4096 + (byte d - 0x80) * 64 + (byte e - 0x80), 4)"
    and "encodeRune ((byte c - 0xF0) * 262144 + (byte b - 0x80) * 4096 + (byte d - 0x80) * 64 + (byte e - 0x80)) = [c, b, d, e]"
proof -
  let ?r = "(byte c - 0xF0) * 262144 + (byte b - 0x80) * 4096 + (byte d - 0x80) * 64 + (byte e - 0x80)"
  note digit = cont_digit(1) [OF assms(3)] cont_digit(1) [OF assms(4)] cont_digit(1) [OF assms(5)]
  have "byte c - 0xF0 \<le> 4" "byte c - 0xF0 = 0 \<longrightarrow> 16 \<le> byte b - 0x80" "byte c - 0xF0 = 4 \<longrightarrow> byte b - 0x80 < 16"
    using assms(1,2,6,7) by auto
  note r = four_digits [OF this(1) digit this(2,3)]
  show "encodeRune ?r = [c, b, d, e]"
    unfolding encodeRune_cases(4) [OF r] base64_digits(6,7) [OF digit] base64_digits(8) [OF digit(2,3)] base64_digits(9) [OF digit(3)]
      cont_digit(2) [OF assms(3)] cont_digit(2) [OF assms(4)] cont_digit(2) [OF assms(5)]
    using lead_byte [of "0xF0" c] assms(1) by simp
qed (use assms in \<open>simp add: Let_def\<close>)

definition long_rune :: "string \<Rightarrow> nat \<Rightarrow> nat \<Rightarrow> bool" where
  "long_rune s r n \<longleftrightarrow> encodeRune r = take n s \<and> n \<le> length s \<and> (\<forall>x \<in> set (take n s). 0x80 \<le> byte x)
     \<and> (\<forall>t. decodeRune (take n s @ t) = (r, n))"

lemma long_rune_intro:
  assumes "decodeRune (p @ s) = (r, n)" and "\<And>t. decodeRune (p @ t) = (r', n')" and "length p = n'"
    and "encodeRune r' = p" and "list_all (\<lambda>x. 0x80 \<le> byte x) p"
  shows "long_rune (p @ s) r n"
proof -
  from assms(1) have "r = r'" "n = length p" by (simp_all add: assms(2,3))
  then show ?thesis using assms(2-) by (simp add: long_rune_def list_all_iff)
qed

lemma decodeRune_long:
  assumes "decodeRune (c # cs) = (r, n)" and "2 \<le> n"
  shows "long_rune (c # cs) r n"
proof -
  let ?x = "byte c"
  consider (two) b s where "cs = b # s" "0xC2 \<le> ?x" "?x \<le> 0xDF" "cont b"
    | (three) b d s where "cs = b # d # s" "0xE0 \<le> ?x" "?x \<le> 0xEF" "cont b" "cont d" "?x = 0xE0 \<longrightarrow> 0xA0 \<le> byte b"
        "?x = 0xED \<longrightarrow> byte b \<le> 0x9F"
    | (four) b d e s where "cs = b # d # e # s" "0xF0 \<le> ?x" "?x \<le> 0xF4" "cont b" "cont d" "cont e"
        "?x = 0xF0 \<longrightarrow> 0x90 \<le> byte b" "?x = 0xF4 \<longrightarrow> byte b \<le> 0x8F"
    using assms
    by (auto simp: Let_def numeral_2_eq_2 split: if_splits list.splits)
  then show ?thesis
  proof cases
    case two
    have "long_rune ([c, b] @ s) r n"
      by (rule long_rune_intro, use assms(1) two(1) in simp,
          simp only: append_Cons append_Nil decodeRune_two(1) [OF two(2-)], simp, rule decodeRune_two(2) [OF two(2-)],
          use two in \<open>simp add: cont_def\<close>)
    then show ?thesis by (simp add: two(1))
  next
    case three
    have "long_rune ([c, b, d] @ s) r n"
      by (rule long_rune_intro, use assms(1) three(1) in simp,
          simp only: append_Cons append_Nil decodeRune_three(1) [OF three(2-)], simp, rule decodeRune_three(2) [OF three(2-)],
          use three in \<open>simp add: cont_def\<close>)
    then show ?thesis by (simp add: three(1))
  next
    case four
    have "long_rune ([c, b, d, e] @ s) r n"
      by (rule long_rune_intro, use assms(1) four(1) in simp,
          simp only: append_Cons append_Nil decodeRune_four(1) [OF four(2-)], simp, rule decodeRune_four(2) [OF four(2-)],
          use four in \<open>simp add: cont_def\<close>)
    then show ?thesis by (simp add: four(1))
  qed
qed

declare decodeRune.simps(2) [simp del]

text \<open>What \<open>EncodeRune\<close> writes is valid.\<close>

lemma rune_digits:
  fixes r :: nat
  shows "r = r div 4096 * 4096 + r div 64 mod 64 * 64 + r mod 64"
    and "r = r div 262144 * 262144 + r div 4096 mod 64 * 4096 + r div 64 mod 64 * 64 + r mod 64"
proof -
  have "n div 64 * 64 + n mod 64 = n" for n :: nat by simp
  from this [of r] this [of "r div 64"] this [of "r div 4096"]
  have "r div 64 * 64 + r mod 64 = r" "r div 4096 * 64 + r div 64 mod 64 = r div 64"
    "r div 262144 * 64 + r div 4096 mod 64 = r div 4096"
    by (simp_all flip: div_mult2_eq)
  then show "r = r div 4096 * 4096 + r div 64 mod 64 * 64 + r mod 64"
    "r = r div 262144 * 262144 + r div 4096 mod 64 * 4096 + r div 64 mod 64 * 64 + r mod 64"
    by linarith+
qed

lemma below64: "(n :: nat) mod 64 < 64" by simp

lemma cont_char: "p < 64 \<Longrightarrow> cont (char_of (0x80 + p)) \<and> byte (char_of (0x80 + p)) = 0x80 + p"
  by (simp add: cont_def)

lemma decodeRune_encoded:
  assumes "0x80 \<le> r"
  shows "\<exists>c cs. encodeRune r = c # cs \<and> 0x80 \<le> byte c \<and> (\<forall>t. snd (decodeRune (c # cs @ t)) = Suc (length cs)) \<and> cs \<noteq> []"
proof -
  consider "r < 0x800" | "0x800 \<le> r" "(0xD800 \<le> r \<and> r \<le> 0xDFFF) \<or> 0x10FFFF < r"
    | "0x800 \<le> r" "r < 0x10000" "\<not> (0xD800 \<le> r \<and> r \<le> 0xDFFF)" | "0x10000 \<le> r" "r \<le> 0x10FFFF"
    using assms by linarith
  then show ?thesis
  proof cases
    case 1
    let ?a = "r div 64" and ?p = "r mod 64"
    have "?a * 64 + ?p = r" by simp
    with 1 assms below64 [of r] have a: "2 \<le> ?a" "?a < 32" by linarith+
    then have "byte (char_of (0xC0 + ?a)) = 0xC0 + ?a" by simp
    with a cont_char [OF below64 [of r]]
    have "snd (decodeRune (char_of (0xC0 + ?a) # char_of (0x80 + ?p) # t)) = 2" for t
      by (subst decodeRune_two(1)) simp_all
    with a show ?thesis unfolding encodeRune_cases(2) [OF assms 1] by simp
  next
    case 2
    have "snd (decodeRune (char_of (0xEF::nat) # char_of (0xBF::nat) # char_of (0xBD::nat) # t)) = 3" for t
      by (subst decodeRune_three(1)) (simp_all add: cont_def)
    with 2 assms show ?thesis by (auto simp: encodeRune_def)
  next
    case 3
    let ?a = "r div 4096" and ?p = "r div 64 mod 64" and ?q = "r mod 64"
    note r = rune_digits(1) [of r] below64 [of "r div 64"] below64 [of r]
    have "?a < 16" using 3 r by linarith
    moreover have "?a = 0 \<longrightarrow> 32 \<le> ?p" using 3 r by (intro impI) linarith
    moreover have "?a = 13 \<longrightarrow> ?p < 32" using 3 r by (intro impI) linarith
    ultimately have a: "?a < 16" "?a = 0 \<longrightarrow> 32 \<le> ?p" "?a = 13 \<longrightarrow> ?p < 32" by blast+
    then have "byte (char_of (0xE0 + ?a)) = 0xE0 + ?a" by simp
    with a cont_char [OF r(2)] cont_char [OF r(3)]
    have "snd (decodeRune (char_of (0xE0 + ?a) # char_of (0x80 + ?p) # char_of (0x80 + ?q) # t)) = 3" for t
      by (subst decodeRune_three(1)) auto
    with a show ?thesis unfolding encodeRune_cases(3) [OF 3] by simp
  next
    case 4
    let ?a = "r div 262144" and ?p = "r div 4096 mod 64" and ?q = "r div 64 mod 64" and ?s = "r mod 64"
    note r = rune_digits(2) [of r] below64 [of "r div 4096"] below64 [of "r div 64"] below64 [of r]
    have "?a \<le> 4" using 4 r by linarith
    moreover have "?a = 0 \<longrightarrow> 16 \<le> ?p" using 4 r by (intro impI) linarith
    moreover have "?a = 4 \<longrightarrow> ?p < 16" using 4 r by (intro impI) linarith
    ultimately have a: "?a \<le> 4" "?a = 0 \<longrightarrow> 16 \<le> ?p" "?a = 4 \<longrightarrow> ?p < 16" by blast+
    then have "byte (char_of (0xF0 + ?a)) = 0xF0 + ?a" by simp
    with a cont_char [OF r(2)] cont_char [OF r(3)] cont_char [OF r(4)]
    have "snd (decodeRune (char_of (0xF0 + ?a) # char_of (0x80 + ?p) # char_of (0x80 + ?q) # char_of (0x80 + ?s) # t)) = 4" for t
      by (subst decodeRune_four(1)) auto
    with a show ?thesis unfolding encodeRune_cases(4) [OF 4] by simp
  qed
qed

lemma utf8_encodeRune [simp]: "utf8 (encodeRune r @ s) = utf8 s"
proof (cases "r < 0x80")
  case False
  then obtain c cs where c: "encodeRune r = c # cs" "0x80 \<le> byte c" "cs \<noteq> []"
      "\<forall>t. snd (decodeRune (c # cs @ t)) = Suc (length cs)"
    using decodeRune_encoded [of r] by auto
  then show ?thesis by simp (cases cs; simp)
qed (simp add: encodeRune_def)

lemma utf8_ascii: "byte c < 0x80 \<Longrightarrow> utf8 (c # cs) = utf8 cs"
  by simp

lemma utf8_long:
  assumes "utf8 (c # cs)" and "\<not> byte c < 0x80"
  obtains r n where "decodeRune (c # cs) = (r, n)" "2 \<le> n" "long_rune (c # cs) r n" "utf8 (drop (n - 1) cs)"
  using assms decodeRune_long [of c cs] by (cases "decodeRune (c # cs)") (auto)

declare utf8.simps(2) [simp del]

section \<open>The value of a literal\<close>

text \<open>What the scanner lets through, as far as escapes are concerned.\<close>

fun escapes_ok :: "string \<Rightarrow> bool" where
  "escapes_ok [] \<longleftrightarrow> True"
| "escapes_ok (c # cs) \<longleftrightarrow>
     (if c = CHR 0x5C then
        (case cs of
           [] \<Rightarrow> False
         | e # r \<Rightarrow>
             if e = CHR ''u'' then
               (case r of h1 # h2 # h3 # h4 # r' \<Rightarrow> hex4 h1 h2 h3 h4 \<noteq> None \<and> escapes_ok r' | _ \<Rightarrow> False)
             else simple_escape e \<noteq> None \<and> escapes_ok r)
      else escapes_ok cs)"

lemma scan_escapes: "scan_string s = Some (b, r) \<Longrightarrow> escapes_ok b"
proof (induction s arbitrary: b r rule: scan_string.induct)
  case (2 c cs)
  then show ?case
    by (auto simp del: scan_string.simps simp: scan_string.simps(2)
        split: if_split_asm list.split_asm)
qed simp

lemma escapes_drop: "escapes_ok (p @ s) \<Longrightarrow> list_all (\<lambda>x. 0x80 \<le> byte x) p \<Longrightarrow> escapes_ok s"
  by (induction p) (auto simp: byte_def split: if_splits)

lemma simple_escape_ascii: "simple_escape e = Some c \<Longrightarrow> byte c < 0x80"
  by (auto simp: simple_escape_def byte_def split: if_splits)

lemma getu4_Some:
  assumes "getu4 s = Some x"
  obtains h1 h2 h3 h4 r where "s = CHR 0x5C # CHR ''u'' # h1 # h2 # h3 # h4 # r" "hex4 h1 h2 h3 h4 = Some x"
  using assms by (auto simp: getu4_def split: list.splits if_splits)

lemma escapes_u [simp]:
  "escapes_ok (CHR 0x5C # CHR ''u'' # h1 # h2 # h3 # h4 # r) \<longleftrightarrow> hex4 h1 h2 h3 h4 \<noteq> None \<and> escapes_ok r"
  by simp

lemma escapes_getu4: "escapes_ok s \<Longrightarrow> getu4 s = Some x \<Longrightarrow> escapes_ok (drop 6 s)"
  by (erule getu4_Some) (simp del: escapes_ok.simps)

lemma escapes_plain: "c \<noteq> CHR 0x5C \<Longrightarrow> escapes_ok (c # cs) = escapes_ok cs"
  by simp

lemma high_byte: "\<not> byte c < 0x80 \<Longrightarrow> c \<noteq> CHR 0x5C \<and> c \<noteq> CHR 0x22"
  by (auto simp: byte_def)

declare escapes_ok.simps(2) [simp del]

lemma escapes_rune:
  assumes "escapes_ok (c # cs)" and "\<not> byte c < 0x80" and "decodeRune (c # cs) = (r, n)"
  shows "escapes_ok (drop (n - 1) cs)"
proof (cases "2 \<le> n")
  case True
  from decodeRune_long [OF assms(3) True] have "list_all (\<lambda>x. 0x80 \<le> byte x) (take n (c # cs))"
    by (simp add: long_rune_def list_all_iff)
  with escapes_drop [of "take n (c # cs)" "drop n (c # cs)"] assms(1) have "escapes_ok (drop n (c # cs))"
    unfolding append_take_drop_id by blast
  with True show ?thesis by (cases n) simp_all
next
  case False
  then have "n - 1 = 0" by simp
  then show ?thesis using assms(1) high_byte [OF assms(2)] by (simp add: escapes_plain)
qed

lemma escaped_cases:
  assumes "escapes_ok (c # cs)"
  obtains (u) h1 h2 h3 h4 r rr where "c = CHR 0x5C" "cs = CHR ''u'' # h1 # h2 # h3 # h4 # r" "hex4 h1 h2 h3 h4 = Some rr"
      "escapes_ok r"
    | (simple) e r x where "c = CHR 0x5C" "cs = e # r" "e \<noteq> CHR ''u''" "simple_escape e = Some x" "escapes_ok r"
    | (plain) "c \<noteq> CHR 0x5C" "byte c < 0x80" "escapes_ok cs"
    | (rune) r n where "c \<noteq> CHR 0x5C" "\<not> byte c < 0x80" "decodeRune (c # cs) = (r, n)" "escapes_ok (drop (n - 1) cs)"
proof (cases "c = CHR 0x5C")
  case True
  note ok = assms [unfolded True escapes_ok.simps(2)]
  then obtain e r where cs: "cs = e # r" by (cases cs) simp_all
  show ?thesis
  proof (cases "e = CHR ''u''")
    case True
    with ok cs obtain h1 h2 h3 h4 r' where "r = h1 # h2 # h3 # h4 # r'" "hex4 h1 h2 h3 h4 \<noteq> None" "escapes_ok r'"
      by (auto split: list.splits)
    with u \<open>c = CHR 0x5C\<close> cs True show ?thesis by blast
  next
    case False
    with ok cs have "simple_escape e \<noteq> None" "escapes_ok r" by simp_all
    with simple \<open>c = CHR 0x5C\<close> cs False show ?thesis by blast
  qed
next
  case False
  obtain r n where d: "decodeRune (c # cs) = (r, n)" by (metis surj_pair)
  show ?thesis
  proof (cases "byte c < 0x80")
    case True
    with False assms plain show ?thesis by (simp add: escapes_plain)
  qed (rule rune [OF False _ d escapes_rune [OF assms _ d]])
qed

lemma unquote_u:
  "hex4 h1 h2 h3 h4 = Some rr \<Longrightarrow> \<not> (0xD800 \<le> rr \<and> rr < 0xE000) \<Longrightarrow>
     unquote (CHR 0x5C # CHR ''u'' # h1 # h2 # h3 # h4 # r) = encodeRune rr @ unquote r"
  by (auto simp: Let_def split: option.split)

lemma unquote_surrogate:
  assumes "hex4 h1 h2 h3 h4 = Some rr" and "0xD800 \<le> rr" "rr < 0xE000"
  shows "unquote (CHR 0x5C # CHR ''u'' # h1 # h2 # h3 # h4 # r) =
    (case getu4 r of
       Some rr1 \<Rightarrow> if utf16_decode rr rr1 \<noteq> runeError
         then encodeRune (utf16_decode rr rr1) @ unquote (drop 6 r) else encodeRune runeError @ unquote r
     | None \<Rightarrow> encodeRune runeError @ unquote r)"
  using assms by (auto simp: Let_def split: option.split)

lemma unquote_rest:
  "e \<noteq> CHR ''u'' \<Longrightarrow> simple_escape e = Some x \<Longrightarrow> unquote (CHR 0x5C # e # r) = x # unquote r"
  "c \<noteq> CHR 0x5C \<Longrightarrow> byte c < 0x80 \<Longrightarrow> unquote (c # cs) = c # unquote cs"
  "c \<noteq> CHR 0x5C \<Longrightarrow> \<not> byte c < 0x80 \<Longrightarrow> decodeRune (c # cs) = (rr, n) \<Longrightarrow>
     unquote (c # cs) = encodeRune rr @ unquote (drop (n - 1) cs)"
  by simp_all

declare unquote.simps(2) [simp del]

lemma unquote_utf8: "escapes_ok s \<Longrightarrow> utf8 (unquote s)"
proof (induction "length s" arbitrary: s rule: less_induct)
  case less
  note IH = less(1)
  show ?case
  proof (cases s)
    case (Cons c cs)
    from less(2) have "escapes_ok (c # cs)" by (simp add: Cons)
    then show ?thesis
    proof (cases rule: escaped_cases)
      case (u h1 h2 h3 h4 r rr)
      have "utf8 (unquote r)" using IH [of r] u by (simp add: Cons)
      moreover have "utf8 (unquote (drop 6 r))" if "getu4 r = Some x" for x
        using IH [of "drop 6 r"] escapes_getu4 [OF u(4) that] u by (simp add: Cons)
      ultimately show ?thesis
        by (cases "0xD800 \<le> rr \<and> rr < 0xE000")
          (auto simp: Cons u(1,2) unquote_u [OF u(3)] unquote_surrogate [OF u(3)] split: option.split)
    next
      case (rune r n)
      then show ?thesis using IH [of "drop (n - 1) cs"] by (simp add: Cons unquote_rest(3))
    qed (use IH in \<open>simp_all add: Cons unquote_rest utf8_ascii simple_escape_ascii\<close>)
  qed simp
qed

lemma read_string_utf8: "read_string s = Some (v, r) \<Longrightarrow> utf8 v"
  by (auto simp: read_string_def intro: unquote_utf8 scan_escapes)

section \<open>Strings are read back as written\<close>

abbreviation scanned :: "string \<Rightarrow> (string \<times> string) option \<Rightarrow> (string \<times> string) option" where
  "scanned p x \<equiv> map_option (\<lambda>(body, rest). (p @ body, rest)) x"

lemma scan_u:
  "hex4 h1 h2 h3 h4 = Some n \<Longrightarrow> scan_string (CHR 0x5C # CHR ''u'' # h1 # h2 # h3 # h4 # s)
     = scanned [CHR 0x5C, CHR ''u'', h1, h2, h3, h4] (scan_string s)"
  by simp

lemma scan_rest:
  "e \<noteq> CHR ''u'' \<Longrightarrow> simple_escape e = Some x \<Longrightarrow> scan_string (CHR 0x5C # e # s) = scanned [CHR 0x5C, e] (scan_string s)"
  "c \<noteq> CHR 0x22 \<Longrightarrow> c \<noteq> CHR 0x5C \<Longrightarrow> 32 \<le> byte c \<Longrightarrow> scan_string (c # s) = scanned [c] (scan_string s)"
  "scan_string (CHR 0x22 # s) = Some ([], s)"
  by simp_all

declare scan_string.simps(2) [simp del]

lemma scan_high: "list_all (\<lambda>x. 0x80 \<le> byte x) p \<Longrightarrow> scan_string (p @ s) = scanned p (scan_string s)"
proof (induction p)
  case (Cons c p)
  then have "c \<noteq> CHR 0x22" "c \<noteq> CHR 0x5C" "32 \<le> byte c" using high_byte [of c] by simp_all
  with Cons show ?case by (simp add: scan_rest(2) option.map_comp comp_def split_def)
qed (simp add: option.map_ident split_def)

text \<open>An ASCII character is written so that it is read back.\<close>

lemma hex_val_digit: "k < 16 \<Longrightarrow> hex_val (hex_digit k) = Some k"
  by (simp add: hex_val_def hex_digit_def Let_def)

lemma hex_val_ascii: "hex_val (CHR ''0'') = Some 0" "hex_val (CHR ''2'') = Some 2"
  by (simp_all add: hex_val_def byte_def)

lemma hex4_low: "n < 128 \<Longrightarrow> hex4 (CHR ''0'') (CHR ''0'') (hex_digit (n div 16)) (hex_digit (n mod 16)) = Some n"
  by (simp add: hex4_def hex_val_ascii hex_val_digit)

lemma escape_ascii_cases:
  assumes "byte c < 0x80" "\<not> html_safe c"
  obtains (simple) e where "escape_ascii c = [CHR 0x5C, e]" "e \<noteq> CHR ''u''" "simple_escape e = Some c"
    | (u) h1 h2 h3 h4 where "escape_ascii c = [CHR 0x5C, CHR ''u'', h1, h2, h3, h4]" "hex4 h1 h2 h3 h4 = Some (byte c)"
proof (cases "c \<in> {CHR 0x22, CHR 0x5C, CHR 0x08, CHR 0x0C, CHR 0x0A, CHR 0x0D, CHR 0x09}")
  case True
  then show ?thesis using simple by (auto simp: escape_ascii_def simple_escape_def)
next
  case False
  then show ?thesis using u [OF _ hex4_low [OF assms(1)]] by (simp add: escape_ascii_def)
qed

lemma escape_scan:
  assumes "byte c < 0x80" "\<not> html_safe c"
  shows "scan_string (escape_ascii c @ s) = scanned (escape_ascii c) (scan_string s)"
    and "unquote (escape_ascii c @ s) = c # unquote s"
  using assms(1)
  by (atomize (full), cases rule: escape_ascii_cases [OF assms])
    (simp_all add: scan_rest scan_u unquote_rest unquote_u [of _ _ _ _ "byte c"] encodeRune_cases)

lemma plain_scan:
  assumes "html_safe c"
  shows "scan_string ([c] @ s) = scanned [c] (scan_string s)" and "unquote ([c] @ s) = c # unquote s"
  using assms by (simp_all add: html_safe_def scan_rest unquote_rest)

text \<open>Line separators are escaped, other runes of several bytes are copied.\<close>

lemma separator_scan:
  assumes "rr = 0x2028 \<or> rr = 0x2029"
  shows "scan_string (CHR 0x5C # ''u202'' @ hex_digit (rr mod 16) # s)
      = scanned (CHR 0x5C # ''u202'' @ [hex_digit (rr mod 16)]) (scan_string s)"
    and "unquote (CHR 0x5C # ''u202'' @ hex_digit (rr mod 16) # s) = encodeRune rr @ unquote s"
proof -
  from assms have hex: "hex4 (CHR ''2'') (CHR ''0'') (CHR ''2'') (hex_digit (rr mod 16)) = Some rr"
    by (elim disjE) (simp_all add: hex4_def hex_val_ascii hex_val_digit)
  from assms have "\<not> (0xD800 \<le> rr \<and> rr < 0xE000)" by auto
  with scan_u [OF hex, of s] unquote_u [OF hex, of s]
  show "scan_string (CHR 0x5C # ''u202'' @ hex_digit (rr mod 16) # s)
      = scanned (CHR 0x5C # ''u202'' @ [hex_digit (rr mod 16)]) (scan_string s)"
    "unquote (CHR 0x5C # ''u202'' @ hex_digit (rr mod 16) # s) = encodeRune rr @ unquote s"
    by simp_all
qed

lemma rune_scan:
  assumes "long_rune (c # cs) rr n"
  shows "scan_string (take n (c # cs) @ s) = scanned (take n (c # cs)) (scan_string s)"
    and "2 \<le> n \<Longrightarrow> unquote (take n (c # cs) @ s) = take n (c # cs) @ unquote s"
proof -
  let ?p = "take n (c # cs)"
  from assms have high: "list_all (\<lambda>x. 0x80 \<le> byte x) ?p" and len: "length ?p = n"
    and d: "decodeRune (?p @ s) = (rr, n)" and e: "encodeRune rr = ?p"
    unfolding long_rune_def list_all_iff by (blast, simp, blast, blast)
  show "scan_string (?p @ s) = scanned ?p (scan_string s)" by (rule scan_high [OF high])
  assume "2 \<le> n"
  then obtain m where n: "n = Suc m" by (cases n) simp_all
  with high have "\<not> byte c < 0x80" by simp
  then show "unquote (?p @ s) = ?p @ unquote s"
    using unquote_rest(3) [of c "take m cs @ s" rr n] high_byte [of c] d e len by (simp add: n)
qed

lemma quote_cases:
  assumes "utf8 (c # cs)"
  obtains (plain) "byte c < 0x80" "html_safe c" "quote_body (c # cs) = [c] @ quote_body cs" "utf8 cs"
    | (ascii) "byte c < 0x80" "\<not> html_safe c" "quote_body (c # cs) = escape_ascii c @ quote_body cs" "utf8 cs"
    | (separator) rr n where "2 \<le> n" "long_rune (c # cs) rr n" "rr = 0x2028 \<or> rr = 0x2029" "utf8 (drop (n - 1) cs)"
        "quote_body (c # cs) = CHR 0x5C # ''u202'' @ hex_digit (rr mod 16) # quote_body (drop (n - 1) cs)"
    | (rune) rr n where "2 \<le> n" "long_rune (c # cs) rr n" "utf8 (drop (n - 1) cs)"
        "quote_body (c # cs) = take n (c # cs) @ quote_body (drop (n - 1) cs)"
proof (cases "byte c < 0x80")
  case True
  with assms plain ascii show ?thesis by (cases "html_safe c") (simp_all add: utf8_ascii)
next
  case False
  with assms obtain rr n where d: "decodeRune (c # cs) = (rr, n)" "2 \<le> n" "long_rune (c # cs) rr n"
      "utf8 (drop (n - 1) cs)"
    by (rule utf8_long)
  then show ?thesis using separator rune False by (cases "rr = 0x2028 \<or> rr = 0x2029") auto
qed

lemma quote_split: "2 \<le> n \<Longrightarrow> long_rune (c # cs) rr n \<Longrightarrow> take n (c # cs) @ drop (n - 1) cs = c # cs"
  by (cases n) simp_all

lemma quote_roundtrip:
  assumes "utf8 s"
  shows "scan_string (quote_body s @ CHR 0x22 # t) = Some (quote_body s, t) \<and> unquote (quote_body s) = s"
  using assms
proof (induction "length s" arbitrary: s rule: less_induct)
  case less
  note IH = less(1)
  show ?case
  proof (cases s)
    case (Cons c cs)
    from less(2) have "utf8 (c # cs)" by (simp add: Cons)
    then show ?thesis
    proof (cases rule: quote_cases)
      case plain
      then show ?thesis using IH [of cs] plain_scan [OF plain(2)] by (simp add: Cons del: quote_body.simps)
    next
      case ascii
      then show ?thesis using IH [of cs] escape_scan [OF ascii(1,2)] by (simp add: Cons del: quote_body.simps)
    next
      case (separator rr n)
      have "encodeRune rr = take n (c # cs)" using separator(2) by (simp add: long_rune_def)
      then show ?thesis
        using IH [of "drop (n - 1) cs"] separator separator_scan [OF separator(3)] quote_split [OF separator(1,2)]
        by (simp add: Cons del: quote_body.simps)
    next
      case (rune rr n)
      then show ?thesis
        using IH [of "drop (n - 1) cs"] rune_scan [OF rune(2)] quote_split [OF rune(1,2)]
        by (simp add: Cons del: quote_body.simps)
    qed
  qed (simp add: scan_rest)
qed

lemma read_encode_string: "utf8 s \<Longrightarrow> read_string (quote_body s @ CHR 0x22 # t) = Some (s, t)"
  by (simp add: read_string_def quote_roundtrip)

section \<open>Numbers are read back as written\<close>

text \<open>What may follow a value inside a compact text.\<close>

definition value_end :: "string \<Rightarrow> bool" where
  "value_end t \<longleftrightarrow> t = [] \<or> hd t \<in> {CHR '','', CHR '']'', CHR ''}''}"

definition starts_no :: "char set \<Rightarrow> string \<Rightarrow> bool" where
  "starts_no A t \<longleftrightarrow> t = [] \<or> \<not> is_digit (hd t) \<and> hd t \<notin> A"

lemma take_digits_ok:
  assumes "take_digits s = Some (ds, r)"
  obtains d ds' where "ds = d # ds'" "is_digit d" and "\<And>t. starts_no A t \<Longrightarrow> take_digits (ds @ t) = Some (ds, t)"
    and "\<exists>s'. s = d # s'"
proof -
  from assms have ds: "ds = takeWhile is_digit s" "ds \<noteq> []" by (auto simp: take_digits_def split: list.splits)
  then have digits: "\<forall>c \<in> set ds. is_digit c" by (auto dest: set_takeWhileD)
  have "take_digits (ds @ t) = Some (ds, t)" if "starts_no A t" for t
  proof -
    have "takeWhile is_digit t = []" "dropWhile is_digit t = t"
      using that by (cases t; auto simp: starts_no_def)+
    with digits ds(2) show ?thesis
      by (simp add: take_digits_def takeWhile_append2 dropWhile_append2 split: list.split)
  qed
  moreover obtain d ds' where "ds = d # ds'" using ds(2) by (cases ds) simp_all
  moreover from this ds(1) have "\<exists>s'. s = d # s'" by (cases s) (auto split: if_splits)
  ultimately show thesis using that digits by auto
qed

lemma read_int_part_ok:
  assumes "read_int_part s = Some (i, r)"
  obtains d i' where "i = d # i'" "is_digit d" and "\<And>t. starts_no A t \<Longrightarrow> read_int_part (i @ t) = Some (i, t)"
proof (cases "\<exists>cs. s = CHR ''0'' # cs")
  case True
  with assms have "i = ''0''" by (auto simp: read_int_part_def)
  then show thesis using that [of "CHR ''0''" "[]"] by (simp add: read_int_part_def is_digit_def byte_def)
next
  case False
  with assms have d: "take_digits s = Some (i, r)" by (auto simp: read_int_part_def split: list.splits if_splits)
  show thesis
  proof (rule take_digits_ok [OF d, of A])
    fix d i'
    assume i: "i = d # i'" "is_digit d" "\<And>t. starts_no A t \<Longrightarrow> take_digits (i @ t) = Some (i, t)" "\<exists>s'. s = d # s'"
    with False have "d \<noteq> CHR ''0''" by auto
    with i that [of d i'] show thesis by (simp add: read_int_part_def)
  qed
qed

lemma read_frac_ok:
  assumes "read_frac s = Some (f, r)"
  obtains "f = [] \<or> hd f = CHR ''.''" and "\<And>t. starts_no {CHR ''.''} t \<Longrightarrow> read_frac (f @ t) = Some (f, t)"
proof (cases "f = []")
  case True
  have "read_frac t = Some ([], t)" if "starts_no {CHR ''.''} t" for t
    using that by (cases t) (simp_all add: read_frac_def starts_no_def)
  with True that show thesis by simp
next
  case False
  with assms obtain cs ds where d: "take_digits cs = Some (ds, r)" "f = CHR ''.'' # ds"
    by (auto simp: read_frac_def split: list.splits if_splits)
  show thesis
    by (rule take_digits_ok [OF d(1), of "{CHR ''.''}"]) (use that d(2) in \<open>auto simp: read_frac_def\<close>)
qed

lemma read_exp_ok:
  assumes "read_exp s = Some (e, r)"
  obtains "e = [] \<or> hd e = CHR ''e'' \<or> hd e = CHR ''E''"
    and "\<And>t. starts_no {CHR ''e'', CHR ''E''} t \<Longrightarrow> read_exp (e @ t) = Some (e, t)"
proof (cases "e = []")
  case True
  have "read_exp t = Some ([], t)" if "starts_no {CHR ''e'', CHR ''E''} t" for t
    using that by (cases t) (simp_all add: read_exp_def starts_no_def)
  with True that show thesis by simp
next
  case False
  with assms obtain c cs ds where c: "c = CHR ''e'' \<or> c = CHR ''E''" and d: "take_digits cs = Some (ds, r)"
    and e: "e = c # ds \<or> (\<exists>g. (g = CHR ''+'' \<or> g = CHR ''-'') \<and> e = c # g # ds)"
    by (auto simp: read_exp_def split: list.splits if_splits)
  obtain x ds' where x: "ds = x # ds'" "is_digit x"
    and digits: "\<And>t. starts_no {CHR ''e'', CHR ''E''} t \<Longrightarrow> take_digits (ds @ t) = Some (ds, t)"
    using take_digits_ok [OF d, of "{CHR ''e'', CHR ''E''}"] by blast
  have "x \<noteq> CHR ''+'' \<and> x \<noteq> CHR ''-''" using x(2) by (auto simp: is_digit_def byte_def)
  with c x(1) have exps: "read_exp (c # ds @ t) = map_option (\<lambda>(ds, r'). (c # ds, r')) (take_digits (ds @ t))" for t
    by (simp add: read_exp_def)
  have signed: "g = CHR ''+'' \<or> g = CHR ''-'' \<Longrightarrow>
      read_exp (c # g # ds @ t) = map_option (\<lambda>(ds, r'). (c # g # ds, r')) (take_digits (ds @ t))" for g t
    using c by (simp add: read_exp_def)
  have "read_exp (e @ t) = Some (e, t)" if "starts_no {CHR ''e'', CHR ''E''} t" for t
  proof (cases "e = c # ds")
    case True
    then show ?thesis using digits [OF that] by (simp add: exps)
  next
    case False
    then obtain g where "g = CHR ''+'' \<or> g = CHR ''-''" "e = c # g # ds" using e by blast
    then show ?thesis using signed [of g t] digits [OF that] by simp
  qed
  moreover have "hd e = c" using e by auto
  ultimately show thesis using that c by simp
qed

lemma read_number_ok:
  assumes "read_number s = Some (n, r)"
  obtains c n' where "n = c # n'" "c = CHR ''-'' \<or> is_digit c" and "\<And>t. value_end t \<Longrightarrow> read_number (n @ t) = Some (n, t)"
proof -
  define p where "p = (case s of c # cs \<Rightarrow> if c = CHR ''-'' then ([c], cs) else ([], s) | [] \<Rightarrow> ([], s))"
  obtain sgn s0 where p: "p = (sgn, s0)" by (cases p)
  then have sgn: "sgn = [] \<or> sgn = ''-''" by (auto simp: p_def split: list.splits if_splits)
  obtain i s1 f s2 e where n: "n = sgn @ i @ f @ e"
    and parts: "read_int_part s0 = Some (i, s1)" "read_frac s1 = Some (f, s2)" "read_exp s2 = Some (e, r)"
    using assms by (auto simp: read_number_def p Let_def simp flip: p_def split: option.splits)
  obtain d i' where i: "i = d # i'" "is_digit d" "\<And>t. starts_no {} t \<Longrightarrow> read_int_part (i @ t) = Some (i, t)"
    using read_int_part_ok [OF parts(1), of "{}"] by blast
  obtain f: "f = [] \<or> hd f = CHR ''.''" "\<And>t. starts_no {CHR ''.''} t \<Longrightarrow> read_frac (f @ t) = Some (f, t)"
    using read_frac_ok [OF parts(2)] by blast
  obtain e: "e = [] \<or> hd e = CHR ''e'' \<or> hd e = CHR ''E''"
      "\<And>t. starts_no {CHR ''e'', CHR ''E''} t \<Longrightarrow> read_exp (e @ t) = Some (e, t)"
    using read_exp_ok [OF parts(3)] by blast
  have "read_number (n @ t) = Some (n, t)" if "value_end t" for t
  proof -
    have t: "starts_no {CHR ''e'', CHR ''E''} t" "starts_no {CHR ''.''} t" "starts_no {} t"
      using that by (auto simp: value_end_def starts_no_def is_digit_def byte_def)
    have et: "starts_no {CHR ''.''} (e @ t)" "starts_no {} (e @ t)"
      using e(1) t(2,3) by (cases e; auto simp: starts_no_def is_digit_def byte_def)+
    have fet: "starts_no {} (f @ e @ t)"
      using f(1) et(2) by (cases f; auto simp: starts_no_def is_digit_def byte_def)
    have "d \<noteq> CHR ''-''" using i(2) by (auto simp: is_digit_def byte_def)
    with sgn show ?thesis
      using i(3) [OF fet] f(2) [OF et(1)] e(2) [OF t(1)] by (auto simp: read_number_def n i(1) Let_def)
  qed
  with sgn n i(1,2) that show thesis by (elim disjE) auto
qed

end
