(* ===== verification/DF_Url.thy ===== *)
theory DF_Url
  imports DF_JsonText
begin

text \<open>
  The parts of \<open>net/url\<close> that the Elasticsearch applier uses: escaping, \<open>EscapedPath\<close>, the
  values of a query and \<open>URL.String\<close>. Parsing a URL is a parameter where it is used. The
  lemmas: unescaping undoes escaping, so escaping loses nothing.
\<close>

section \<open>Escaping\<close>

datatype encoding = encodePath | encodePathSegment | encodeHost | encodeQueryComponent

definition ascii_alnum :: "char \<Rightarrow> bool" where
  "ascii_alnum c \<longleftrightarrow> (97 \<le> byte c \<and> byte c \<le> 122) \<or> (65 \<le> byte c \<and> byte c \<le> 90) \<or> is_digit c"

definition shouldEscape :: "char \<Rightarrow> encoding \<Rightarrow> bool" where
  "shouldEscape c mode =
     (if ascii_alnum c then False
      else if mode = encodeHost \<and> (c \<in> set ''!$&()*+,;=:[]<>'' \<or> c = CHR 0x27 \<or> c = CHR 0x22) then False
      else if c \<in> set ''-_.~'' then False
      else if c \<in> set ''$&+,/:;=?@'' then
        (case mode of
           encodePath \<Rightarrow> c = CHR ''?''
         | encodePathSegment \<Rightarrow> c \<in> set ''/;,?''
         | encodeQueryComponent \<Rightarrow> True
         | encodeHost \<Rightarrow> True)
      else True)"

definition upper_hex :: "nat \<Rightarrow> char" where
  "upper_hex n = (if n < 10 then char_of (48 + n) else char_of (55 + n))"

definition escape_char :: "encoding \<Rightarrow> char \<Rightarrow> string" where
  "escape_char mode c =
     (if c = CHR '' '' \<and> mode = encodeQueryComponent then ''+''
      else if shouldEscape c mode then [CHR ''%'', upper_hex (byte c div 16), upper_hex (byte c mod 16)]
      else [c])"

definition url_escape :: "encoding \<Rightarrow> string \<Rightarrow> string" where
  "url_escape mode s = concat (map (escape_char mode) s)"

definition PathEscape :: "string \<Rightarrow> string" where
  "PathEscape = url_escape encodePathSegment"

text \<open>\<open>unescape\<close> in the path and query modes: a percent sign wants two hexadecimal digits.\<close>

fun unescape :: "encoding \<Rightarrow> string \<Rightarrow> string option" where
  "unescape mode [] = Some []"
| "unescape mode (c # s) =
     (if c = CHR ''%'' then
        (case s of
           a # b # r \<Rightarrow>
             (case (hex_val a, hex_val b) of
                (Some x, Some y) \<Rightarrow> map_option (Cons (char_of (x * 16 + y))) (unescape mode r)
              | _ \<Rightarrow> None)
         | _ \<Rightarrow> None)
      else if c = CHR ''+'' \<and> mode = encodeQueryComponent then map_option (Cons (CHR '' '')) (unescape mode s)
      else map_option (Cons c) (unescape mode s))"

lemma byte_div: "byte c div 16 < 16"
proof -
  have "byte c < 256" by (simp add: byte_def nat_of_char_less_256)
  then have "byte c < 16 * 16" by simp
  then show ?thesis by (rule less_mult_imp_div_less)
qed

lemma hex_val_upper: "n < 16 \<Longrightarrow> hex_val (upper_hex n) = Some n"
  by (simp add: hex_val_def upper_hex_def Let_def)

lemma unescape_char: "unescape mode (escape_char mode c @ s) = map_option (Cons c) (unescape mode s)"
proof -
  have div: "byte c div 16 < 16" by (rule byte_div)
  have "char_of (byte c div 16 * 16 + byte c mod 16) = c" by (simp add: byte_def)
  moreover have "shouldEscape (CHR ''%'') mode" by (cases mode) (simp_all add: shouldEscape_def ascii_alnum_def is_digit_def byte_def)
  moreover have "mode = encodeQueryComponent \<Longrightarrow> shouldEscape (CHR ''+'') mode"
    by (simp add: shouldEscape_def ascii_alnum_def is_digit_def byte_def)
  ultimately show ?thesis
    by (auto simp: escape_char_def hex_val_upper [OF div] hex_val_upper)
qed

lemma unescape_escape [simp]: "unescape mode (url_escape mode s) = Some s"
  by (induction s) (simp_all add: url_escape_def unescape_char del: unescape.simps(2))

lemma url_escape_inj: "url_escape mode s = url_escape mode t \<longleftrightarrow> s = t"
  by (metis option.inject unescape_escape)

lemma escape_char_nonempty: "escape_char mode c \<noteq> []"
  by (simp add: escape_char_def)

lemma url_escape_Nil [simp]: "url_escape mode s = [] \<longleftrightarrow> s = []"
  by (cases s) (simp_all add: url_escape_def escape_char_nonempty)

text \<open>A segment holds no slash, and text of unreserved characters stays as it is.\<close>

definition unreserved :: "string \<Rightarrow> bool" where
  "unreserved s \<longleftrightarrow> list_all (\<lambda>c. ascii_alnum c \<or> c \<in> set ''-_.~'') s"

lemma escape_unreserved: "unreserved s \<Longrightarrow> url_escape mode s = s"
proof (induction s)
  case (Cons c s)
  then have "\<not> shouldEscape c mode" "c \<noteq> CHR '' ''"
    by (auto simp: unreserved_def shouldEscape_def ascii_alnum_def is_digit_def byte_def)
  with Cons show ?case by (simp add: url_escape_def escape_char_def unreserved_def)
qed (simp add: url_escape_def)

lemma upper_hex_slash: "n < 16 \<Longrightarrow> upper_hex n \<noteq> CHR ''/''"
  using hex_val_upper [of n] by (auto simp: hex_val_def byte_def)

lemma PathEscape_no_slash: "CHR ''/'' \<notin> set (PathEscape s)"
proof -
  have "CHR ''/'' \<notin> set (escape_char encodePathSegment c)" for c
  proof -
    have "byte c div 16 < 16" by (rule byte_div)
    moreover have "shouldEscape (CHR ''/'') encodePathSegment"
      by (simp add: shouldEscape_def ascii_alnum_def is_digit_def byte_def)
    ultimately show ?thesis
      using upper_hex_slash [of "byte c div 16"] upper_hex_slash [of "byte c mod 16"] by (auto simp: escape_char_def)
  qed
  then show ?thesis by (simp add: PathEscape_def url_escape_def)
qed

section \<open>URLs\<close>

text \<open>\<open>u_User\<close> is the text of the user information, if there is any.\<close>

record url =
  u_Scheme :: string
  u_Opaque :: string
  u_User :: "string option"
  u_Host :: string
  u_Path :: string
  u_RawPath :: string
  u_OmitHost :: bool
  u_ForceQuery :: bool
  u_RawQuery :: string
  u_Fragment :: string
  u_EscapedFragment :: string

definition validEncoded :: "string \<Rightarrow> bool" where
  "validEncoded s \<longleftrightarrow>
     list_all (\<lambda>c. c \<in> set ''!$&()*+,;=:@[]%'' \<or> c = CHR 0x27 \<or> \<not> shouldEscape c encodePath) s"

definition EscapedPath :: "url \<Rightarrow> string" where
  "EscapedPath u =
     (if u_RawPath u \<noteq> [] \<and> validEncoded (u_RawPath u) \<and> unescape encodePath (u_RawPath u) = Some (u_Path u)
      then u_RawPath u
      else if u_Path u = ''*'' then ''*''
      else url_escape encodePath (u_Path u))"

text \<open>A relative reference whose first segment holds a colon is set off by a dot.\<close>

definition dot_prefix :: "string \<Rightarrow> string" where
  "dot_prefix p = (if CHR '':'' \<in> set (takeWhile (\<lambda>c. c \<noteq> CHR ''/'') p) then ''./'' else [])"

definition authority :: "url \<Rightarrow> string" where
  "authority u =
     (if u_Scheme u \<noteq> [] \<or> u_Host u \<noteq> [] \<or> u_User u \<noteq> None then
        (if u_OmitHost u \<and> u_Host u = [] \<and> u_User u = None then []
         else (if u_Host u \<noteq> [] \<or> u_Path u \<noteq> [] \<or> u_User u \<noteq> None then ''//'' else [])
           @ (case u_User u of None \<Rightarrow> [] | Some user \<Rightarrow> user @ ''@'')
           @ url_escape encodeHost (u_Host u))
      else [])"

definition url_String :: "url \<Rightarrow> string" where
  "url_String u =
     (let front = (if u_Scheme u \<noteq> [] then u_Scheme u @ '':'' else []) in
      (if u_Opaque u \<noteq> [] then front @ u_Opaque u
       else
         (let p = EscapedPath u;
              start = front @ authority u @ (if p \<noteq> [] \<and> hd p \<noteq> CHR ''/'' \<and> u_Host u \<noteq> [] then ''/'' else [])
          in start @ (if start = [] then dot_prefix p else []) @ p))
      @ (if u_ForceQuery u \<or> u_RawQuery u \<noteq> [] then ''?'' @ u_RawQuery u else [])
      @ (if u_Fragment u \<noteq> [] then ''#'' @ u_EscapedFragment u else []))"

section \<open>Query values\<close>

fun split_on :: "char \<Rightarrow> string \<Rightarrow> string list" where
  "split_on x [] = [[]]"
| "split_on x (c # s) =
     (if c = x then [] # split_on x s
      else (case split_on x s of [] \<Rightarrow> [[c]] | p # ps \<Rightarrow> (c # p) # ps))"

text \<open>\<open>strings.Cut\<close>\<close>

definition strings_Cut :: "string \<Rightarrow> char \<Rightarrow> string \<times> string" where
  "strings_Cut s x = (takeWhile (\<lambda>c. c \<noteq> x) s, tl (dropWhile (\<lambda>c. c \<noteq> x) s))"

text \<open>\<open>Query\<close>: parts that are empty, hold a semicolon or do not unescape are dropped.\<close>

definition query_part :: "string \<Rightarrow> (string \<times> string) option" where
  "query_part p =
     (if p = [] \<or> CHR '';'' \<in> set p then None
      else
        (let (k, v) = strings_Cut p (CHR ''='') in
         case (unescape encodeQueryComponent k, unescape encodeQueryComponent v) of
           (Some k', Some v') \<Rightarrow> Some (k', v')
         | _ \<Rightarrow> None))"

definition add_value :: "(string \<times> string list) list \<Rightarrow> string \<times> string \<Rightarrow> (string \<times> string list) list" where
  "add_value m kv = put (fst kv) ((case map_of m (fst kv) of None \<Rightarrow> [] | Some vs \<Rightarrow> vs) @ [snd kv]) m"

definition url_Query :: "url \<Rightarrow> (string \<times> string list) list" where
  "url_Query u = foldl add_value [] (List.map_filter query_part (split_on (CHR ''&'') (u_RawQuery u)))"

definition values_Encode :: "(string \<times> string list) list \<Rightarrow> string" where
  "values_Encode m =
     join ''&'' (concat (map (\<lambda>(k, vs). map (\<lambda>v. url_escape encodeQueryComponent k @ ''='' @ url_escape encodeQueryComponent v) vs)
       (sort_slice key_less m)))"

end
