(* ===== verification/DF_JsonRound.thy ===== *)
theory DF_JsonRound
  imports DF_JsonText
begin

text \<open>
  JSON values are read back as they were written, with the members of objects sorted. A value
  that came out of the decoder is encoded to a text; whatever value end follows that text, the
  decoder either reads the value back or, because of its nesting, never does.
\<close>

section \<open>Values are read back as written\<close>

text \<open>Values that a decoder returns, and their form with sorted members.\<close>

fun decoded :: "json \<Rightarrow> bool" where
  "decoded (JNum n) \<longleftrightarrow> (\<exists>s r. read_number s = Some (n, r))"
| "decoded (JStr s) \<longleftrightarrow> utf8 s"
| "decoded (JArr vs) \<longleftrightarrow> (\<forall>v \<in> set vs. decoded v)"
| "decoded (JObj kvs) \<longleftrightarrow> distinct (keys kvs) \<and> (\<forall>(k, v) \<in> set kvs. utf8 k \<and> decoded v)"
| "decoded _ \<longleftrightarrow> True"

fun normal :: "json \<Rightarrow> json" where
  "normal (JArr vs) = JArr (map normal vs)"
| "normal (JObj kvs) = JObj (sort_slice key_less (map (\<lambda>(k, v). (k, normal v)) kvs))"
| "normal v = v"

lemma number_decoded: "read_number s = Some (n, r) \<Longrightarrow> decoded (JNum n)"
  by auto

declare decoded.simps(1) [simp del]

lemma put_values:
  "(k', v') \<in> set (put k v m) \<Longrightarrow> k' = k \<and> v' = v \<or> (k', v') \<in> set m"
  by (induction m) (auto split: if_splits)

lemma decode_decoded:
  "decode_value f d s = Some (v, r) \<Longrightarrow> decoded v"
  "decode_elems f d acc s = Some (v, r) \<Longrightarrow> \<forall>x \<in> set acc. decoded x \<Longrightarrow> decoded v"
  "decode_members f d acc' s = Some (v, r) \<Longrightarrow> decoded (JObj acc') \<Longrightarrow> decoded v"
proof (induction f d s and f d acc s and f d acc' s arbitrary: v r and v r and v r
    rule: decode_value_decode_elems_decode_members.induct)
  case (2 fuel depth s)
  then show ?case
    by (auto simp: read_literal_def split: if_split_asm list.split_asm option.split_asm
        dest: read_string_utf8 intro: number_decoded)
next
  case (4 fuel depth acc s)
  then show ?case
    by (auto split: if_split_asm list.split_asm option.split_asm prod.split_asm)
next
  case (6 fuel depth acc s)
  from 6(3) obtain q qs k s1 e s2 w s3 c s4 where step: "skip_ws s = q # qs" "q = CHR 0x22" "read_string qs = Some (k, s1)"
      "skip_ws s1 = e # s2" "e = CHR '':''" "decode_value fuel depth s2 = Some (w, s3)" "skip_ws s3 = c # s4"
    by (auto simp del: decoded.simps split: if_split_asm list.split_asm option.split_asm prod.split_asm)
  have w: "decoded w" using 6(1) step by simp
  have put_ok: "decoded (JObj (put k w acc))"
    using 6(4) w read_string_utf8 [OF step(3)] by (fastforce dest: put_values)
  from 6(3) consider "c = CHR '',''" "decode_members fuel depth (put k w acc) s4 = Some (v, r)"
      | "v = JObj (put k w acc)"
    by (auto simp: step simp del: decoded.simps split: if_split_asm)
  then show ?case
  proof cases
    case 1
    then show ?thesis using 6(2) step put_ok by simp
  qed (use put_ok in simp)
qed simp_all

lemma sort_slice_map:
  assumes "\<And>x y. lt' (g x) (g y) = lt x y"
  shows "sort_slice lt' (map g xs) = map g (sort_slice lt xs)"
proof -
  have insert: "insert_by lt' (g x) (map g ys) = map g (insert_by lt x ys)" for x ys
    by (induction ys) (simp_all add: assms)
  show ?thesis by (induction xs) (simp_all add: insert)
qed

lemma sort_members: "sort_slice key_less (map (\<lambda>(k, v). (k, g v)) kvs) = map (\<lambda>(k, v). (k, g v)) (sort_slice key_less kvs)"
  by (rule sort_slice_map) (auto simp: key_less_def)

lemma distinct_keys_sort: "distinct (keys (sort_slice key_less kvs)) = distinct (keys kvs)"
  by (rule mset_eq_imp_distinct_iff) simp

lemma sort_idem: "sort_slice key_less (sort_slice key_less kvs) = sort_slice key_less kvs"
  by (simp add: member_order.sort_slice_sort_key sort_key_id_if_sorted)

definition member_text :: "string \<times> json \<Rightarrow> string" where
  "member_text m = encode_string (fst m) @ '':'' @ encode (snd m)"

lemma encode_JObj: "encode (JObj kvs) = ''{'' @ join '','' (map member_text (sort_slice key_less kvs)) @ ''}''"
  unfolding encode.simps encode_object_def sort_members by (simp add: comp_def split_def member_text_def [abs_def])

declare encode.simps(6) [simp del]

lemma encode_normal: "encode (normal v) = encode v"
proof (induction v rule: normal.induct)
  case (2 kvs)
  have "map member_text (map (\<lambda>(k, v). (k, normal v)) kvs') = map member_text kvs'" if "set kvs' \<subseteq> set kvs" for kvs'
    using 2 that by (auto simp: member_text_def)
  from this [of "sort_slice key_less kvs"]
  have "map member_text (map (\<lambda>(k, v). (k, normal v)) (sort_slice key_less kvs)) = map member_text (sort_slice key_less kvs)"
    by simp
  then show ?case
    unfolding normal.simps encode_JObj sort_members by (simp only: sort_members sort_idem set_sort_slice subset_refl simp_thms)
qed (simp_all cong: map_cong)

lemma value_end_simps [simp]:
  "value_end []" "value_end (CHR '','' # t)" "value_end (CHR '']'' # t)" "value_end (CHR ''}'' # t)"
  by (simp_all add: value_end_def)

lemma skip_nonspace: "\<not> is_space c \<Longrightarrow> skip_ws (c # t) = c # t"
  by (simp add: skip_ws_def)

lemma skip_marks [simp]:
  "skip_ws (CHR ''{'' # t) = CHR ''{'' # t" "skip_ws (CHR ''}'' # t) = CHR ''}'' # t"
  "skip_ws (CHR ''['' # t) = CHR ''['' # t" "skip_ws (CHR '']'' # t) = CHR '']'' # t"
  "skip_ws (CHR '','' # t) = CHR '','' # t" "skip_ws (CHR '':'' # t) = CHR '':'' # t"
  "skip_ws (CHR 0x22 # t) = CHR 0x22 # t" "skip_ws (CHR ''n'' # t) = CHR ''n'' # t"
  "skip_ws (CHR ''t'' # t) = CHR ''t'' # t" "skip_ws (CHR ''f'' # t) = CHR ''f'' # t" "skip_ws [] = []"
  by (simp_all add: skip_ws_def is_space_def)

lemma number_start: "c = CHR ''-'' \<or> is_digit c \<Longrightarrow>
    \<not> is_space c \<and> c \<notin> {CHR ''{'', CHR ''['', CHR 0x22, CHR '']'', CHR ''}'', CHR '',''}"
  by (auto simp: is_digit_def is_space_def byte_def)

lemma encode_start:
  assumes "decoded v"
  obtains c cs where "encode v = c # cs" "\<not> is_space c" "c \<noteq> CHR '']''"
proof (cases v)
  case (JNum n)
  with assms obtain s r where n: "read_number s = Some (n, r)" by (auto simp: decoded.simps(1))
  show ?thesis by (rule read_number_ok [OF n]) (use JNum that number_start in auto)
next
  case (JBool b)
  with that show ?thesis by (cases b) (simp_all add: is_space_def)
qed (use that in \<open>auto simp: encode_string_def encode_JObj is_space_def\<close>)

declare decode_value.simps(2) [simp del] and decode_elems.simps(2) [simp del] and decode_members.simps(2) [simp del]
  and decode_value.simps(1) [simp] and decode_elems.simps(1) [simp] and decode_members.simps(1) [simp]

lemma join_Cons: "join sep (x # xs) = x @ (if xs = [] then [] else sep @ join sep xs)"
  by (cases xs) simp_all

text \<open>
  Whether a text can be read depends on the fuel and the depth, not on what follows; if it can,
  the value is the one that was written.
\<close>

definition reads :: "(string \<Rightarrow> (json \<times> string) option) \<Rightarrow> json \<Rightarrow> bool" where
  "reads g w \<longleftrightarrow> (\<forall>t. value_end t \<longrightarrow> g t = Some (w, t)) \<or> (\<forall>t. value_end t \<longrightarrow> g t = None)"

definition reads_value :: "nat \<Rightarrow> bool" where
  "reads_value f \<longleftrightarrow> (\<forall>d v. decoded v \<longrightarrow> reads (\<lambda>t. decode_value f d (encode v @ t)) (normal v))"

definition reads_elems :: "nat \<Rightarrow> bool" where
  "reads_elems f \<longleftrightarrow> (\<forall>d acc vs. vs \<noteq> [] \<longrightarrow> (\<forall>v \<in> set vs. decoded v)
     \<longrightarrow> reads (\<lambda>t. decode_elems f d acc (join '','' (map encode vs) @ CHR '']'' # t)) (JArr (acc @ map normal vs)))"

definition reads_members :: "nat \<Rightarrow> bool" where
  "reads_members f \<longleftrightarrow> (\<forall>d acc kvs. kvs \<noteq> [] \<longrightarrow> (\<forall>(k, v) \<in> set kvs. utf8 k \<and> decoded v)
     \<longrightarrow> distinct (keys acc @ keys kvs)
     \<longrightarrow> reads (\<lambda>t. decode_members f d acc (join '','' (map member_text kvs) @ CHR ''}'' # t))
           (JObj (acc @ map (\<lambda>(k, v). (k, normal v)) kvs)))"

lemma reads_cong: "(\<And>t. value_end t \<Longrightarrow> g t = h t) \<Longrightarrow> reads g w = reads h w"
  by (simp add: reads_def)

lemma reads_bind:
  assumes "reads (\<lambda>t. g t) v" and "\<And>t. value_end t \<Longrightarrow> value_end (rest t)"
    and "\<And>t. g (rest t) = None \<Longrightarrow> h t = None"
    and "\<And>t. g (rest t) = Some (v, rest t) \<Longrightarrow> h t = h' t" and "reads h' w"
  shows "reads h w"
  using assms unfolding reads_def by auto

lemma reads_elems_step:
  assumes "reads_value f" and "reads_elems f"
  shows "reads_elems (Suc f)"
  unfolding reads_elems_def
proof (intro allI impI)
  fix d acc vs
  assume "vs \<noteq> []" and dec: "\<forall>v \<in> set vs. decoded v"
  then obtain v vs' where vs: "vs = v # vs'" by (cases vs) simp_all
  define rest where "rest t = (if vs' = [] then CHR '']'' # t else CHR '','' # join '','' (map encode vs') @ CHR '']'' # t)" for t
  define h' where "h' t = (if vs' = [] then Some (JArr (acc @ [normal v]), t)
    else decode_elems f d (acc @ [normal v]) (join '','' (map encode vs') @ CHR '']'' # t))" for t
  have joined: "join '','' (map encode vs) @ CHR '']'' # t = encode v @ rest t" for t
    by (simp add: vs join_Cons rest_def)
  show "reads (\<lambda>t. decode_elems (Suc f) d acc (join '','' (map encode vs) @ CHR '']'' # t)) (JArr (acc @ map normal vs))"
  proof (rule reads_bind [where rest = rest and h' = h'])
    show "reads (\<lambda>t. decode_value f d (encode v @ t)) (normal v)" using assms(1) dec by (simp add: reads_value_def vs)
    show "value_end (rest t)" for t by (simp add: rest_def)
    show "reads h' (JArr (acc @ map normal vs))"
    proof (cases "vs' = []")
      case False
      then have "reads (\<lambda>t. decode_elems f d (acc @ [normal v]) (join '','' (map encode vs') @ CHR '']'' # t))
          (JArr ((acc @ [normal v]) @ map normal vs'))"
        using dec by (intro assms(2) [unfolded reads_elems_def, rule_format]) (simp_all add: vs)
      with False show ?thesis by (simp add: h'_def [abs_def] vs)
    qed (simp add: reads_def h'_def vs)
  qed (simp_all add: joined decode_elems.simps(2), simp add: rest_def h'_def)
qed

lemma reads_members_step:
  assumes "reads_value f" and "reads_members f"
  shows "reads_members (Suc f)"
  unfolding reads_members_def
proof (intro allI impI)
  fix d :: nat and acc kvs :: "(string \<times> json) list"
  assume "kvs \<noteq> []" and dec: "\<forall>(k, v) \<in> set kvs. utf8 k \<and> decoded v" and new: "distinct (keys acc @ keys kvs)"
  then obtain k v kvs' where kvs: "kvs = (k, v) # kvs'" by (cases kvs) auto
  define rest where "rest t = (if kvs' = [] then CHR ''}'' # t else CHR '','' # join '','' (map member_text kvs') @ CHR ''}'' # t)" for t
  define h' where "h' t = (if kvs' = [] then Some (JObj (acc @ [(k, normal v)]), t)
    else decode_members f d (acc @ [(k, normal v)]) (join '','' (map member_text kvs') @ CHR ''}'' # t))" for t
  have joined: "join '','' (map member_text kvs) @ CHR ''}'' # t = CHR 0x22 # quote_body k @ CHR 0x22 # CHR '':'' # encode v @ rest t" for t
    by (simp add: kvs join_Cons rest_def member_text_def encode_string_def)
  have put: "put k x acc = acc @ [(k, x)]" for x
    using new by (intro put_fresh) (auto simp: kvs map_of_eq_None_iff)
  from dec have k: "read_string (quote_body k @ CHR 0x22 # x) = Some (k, x)" for x
    by (intro read_encode_string) (simp add: kvs)
  show "reads (\<lambda>t. decode_members (Suc f) d acc (join '','' (map member_text kvs) @ CHR ''}'' # t))
      (JObj (acc @ map (\<lambda>(k, v). (k, normal v)) kvs))"
  proof (rule reads_bind [where rest = rest and h' = h'])
    show "reads (\<lambda>t. decode_value f d (encode v @ t)) (normal v)" using assms(1) dec by (simp add: reads_value_def kvs)
    show "value_end (rest t)" for t by (simp add: rest_def)
    show "reads h' (JObj (acc @ map (\<lambda>(k, v). (k, normal v)) kvs))"
    proof (cases "kvs' = []")
      case False
      then have "reads (\<lambda>t. decode_members f d (acc @ [(k, normal v)]) (join '','' (map member_text kvs') @ CHR ''}'' # t))
          (JObj ((acc @ [(k, normal v)]) @ map (\<lambda>(k, v). (k, normal v)) kvs'))"
        using dec new by (intro assms(2) [unfolded reads_members_def, rule_format]) (auto simp: kvs)
      with False show ?thesis by (simp add: h'_def [abs_def] kvs)
    qed (simp add: reads_def h'_def kvs)
  qed (simp_all add: joined decode_members.simps(2) k, simp add: rest_def h'_def put)
qed

lemma reads_value_step:
  assumes "reads_elems f" and "reads_members f"
  shows "reads_value (Suc f)"
  unfolding reads_value_def
proof (intro allI impI)
  fix d v
  assume dec: "decoded v"
  show "reads (\<lambda>t. decode_value (Suc f) d (encode v @ t)) (normal v)"
  proof (cases v)
    case JNull
    then show ?thesis by (simp add: reads_def decode_value.simps(2) read_literal_def strip_prefix_def is_digit_def byte_def)
  next
    case (JBool b)
    then show ?thesis
      by (cases b) (simp_all add: reads_def decode_value.simps(2) read_literal_def strip_prefix_def is_digit_def byte_def)
  next
    case (JNum n)
    with dec obtain s r' where num: "read_number s = Some (n, r')" by (auto simp: decoded.simps(1))
    obtain c n' where n: "n = c # n'" "c = CHR ''-'' \<or> is_digit c"
        "\<And>t. value_end t \<Longrightarrow> read_number (n @ t) = Some (n, t)"
      using read_number_ok [OF num] by blast
    with JNum number_start [OF n(2)] show ?thesis by (simp add: reads_def decode_value.simps(2) skip_nonspace)
  next
    case (JStr s)
    with dec read_encode_string [of s] show ?thesis by (simp add: reads_def decode_value.simps(2) encode_string_def)
  next
    case (JArr vs)
    show ?thesis
    proof (cases vs)
      case Nil
      with JArr show ?thesis by (simp add: reads_def decode_value.simps(2))
    next
      case (Cons x xs)
      have "decoded x" using dec by (simp add: JArr Cons)
      then obtain c cs where x: "encode x = c # cs" "\<not> is_space c" "c \<noteq> CHR '']''" by (rule encode_start)
      have "decode_value (Suc f) d (encode v @ t) = (if maxNestingDepth \<le> d then None
          else decode_elems f (Suc d) [] (join '','' (map encode vs) @ CHR '']'' # t))" for t
        by (simp add: decode_value.simps(2) JArr Cons join_Cons x skip_nonspace)
      moreover have "reads (\<lambda>t. decode_elems f (Suc d) [] (join '','' (map encode vs) @ CHR '']'' # t)) (JArr ([] @ map normal vs))"
        by (rule assms(1) [unfolded reads_elems_def, rule_format]) (use dec in \<open>auto simp: JArr Cons\<close>)
      ultimately show ?thesis by (simp add: JArr) (simp add: reads_def)
    qed
  next
    case (JObj kvs)
    let ?kvs = "sort_slice key_less kvs"
    have sorted: "distinct (keys ?kvs)" "\<forall>(k, v) \<in> set ?kvs. utf8 k \<and> decoded v"
      using dec by (simp_all add: JObj distinct_keys_sort)
    show ?thesis
    proof (cases ?kvs)
      case Nil
      then have "kvs = []" by (metis set_sort_slice set_empty)
      with JObj show ?thesis by (simp add: reads_def decode_value.simps(2) encode_JObj)
    next
      case (Cons m ms)
      then have nonempty: "?kvs \<noteq> []" by simp
      have "decode_value (Suc f) d (encode v @ t) = (if maxNestingDepth \<le> d then None
          else decode_members f (Suc d) [] (join '','' (map member_text ?kvs) @ CHR ''}'' # t))" for t
        by (simp add: decode_value.simps(2) JObj encode_JObj Cons join_Cons member_text_def encode_string_def)
      moreover have "reads (\<lambda>t. decode_members f (Suc d) [] (join '','' (map member_text ?kvs) @ CHR ''}'' # t))
          (JObj ([] @ map (\<lambda>(k, v). (k, normal v)) ?kvs))"
        using sorted nonempty by (intro assms(2) [unfolded reads_members_def, rule_format]) auto
      ultimately show ?thesis by (simp add: JObj sort_members) (simp add: reads_def)
    qed
  qed
qed

lemma reads_all: "reads_value f \<and> reads_elems f \<and> reads_members f"
proof (induction f)
  case 0
  show ?case by (simp add: reads_value_def reads_elems_def reads_members_def reads_def)
qed (use reads_value_step reads_elems_step reads_members_step in blast)

theorem decode_encode:
  assumes "decoded v"
  shows "(\<forall>t. value_end t \<longrightarrow> decode_value f d (encode v @ t) = Some (normal v, t))
    \<or> (\<forall>t. value_end t \<longrightarrow> decode_value f d (encode v @ t) = None)"
  using reads_all [of f] assms unfolding reads_value_def reads_def by blast

text \<open>The scanner goes deeper where it starts higher up.\<close>

lemma decode_depth:
  "decode_value f d s = Some x \<Longrightarrow> d' \<le> d \<Longrightarrow> decode_value f d' s = Some x"
  "decode_elems f d acc s = Some x \<Longrightarrow> d' \<le> d \<Longrightarrow> decode_elems f d' acc s = Some x"
  "decode_members f d acc' s = Some x \<Longrightarrow> d' \<le> d \<Longrightarrow> decode_members f d' acc' s = Some x"
proof (induction f d s and f d acc s and f d acc' s arbitrary: x d' and x d' and x d'
    rule: decode_value_decode_elems_decode_members.induct)
  case (2 fuel depth s)
  show ?case
  proof (cases "skip_ws s")
    case Nil
    with 2(3) show ?thesis by (simp add: decode_value.simps(2))
  next
    case (Cons c cs)
    consider (obj) "c = CHR ''{''" | (arr) "c = CHR ''[''" | (other) "c \<noteq> CHR ''{''" "c \<noteq> CHR ''[''" by blast
    then show ?thesis
    proof cases
      case obj
      from 2(3) obtain c' r where inner: "skip_ws cs = c' # r" "\<not> maxNestingDepth \<le> depth"
        by (auto simp: decode_value.simps(2) Cons obj split: list.splits if_splits)
      show ?thesis
      proof (cases "c' = CHR ''}''")
        case False
        with 2(3) have "decode_members fuel (Suc depth) [] cs = Some x" by (simp add: decode_value.simps(2) Cons obj inner)
        from 2(1) [OF Cons obj inner(2,1) False this, of "Suc d'"] 2(4) False inner(2)
        show ?thesis by (simp add: decode_value.simps(2) Cons obj inner(1))
      qed (use 2(3,4) inner in \<open>simp add: decode_value.simps(2) Cons obj\<close>)
    next
      case arr
      from 2(3) obtain c' r where inner: "skip_ws cs = c' # r" "\<not> maxNestingDepth \<le> depth"
        by (auto simp: decode_value.simps(2) Cons arr split: list.splits if_splits)
      show ?thesis
      proof (cases "c' = CHR '']''")
        case False
        with 2(3) have "decode_elems fuel (Suc depth) [] cs = Some x" by (simp add: decode_value.simps(2) Cons arr inner)
        with 2(2) [OF Cons _ arr inner(2,1) False, of x "Suc d'"] 2(4) False inner(2)
        show ?thesis by (simp add: decode_value.simps(2) Cons arr inner(1))
      qed (use 2(3,4) inner in \<open>simp add: decode_value.simps(2) Cons arr\<close>)
    next
      case other
      with 2(3) show ?thesis by (simp add: decode_value.simps(2) Cons)
    qed
  qed
next
  case (4 fuel depth acc s)
  from 4(3) obtain v s1 c r where step: "decode_value fuel depth s = Some (v, s1)" "skip_ws s1 = c # r"
    by (auto simp: decode_elems.simps(2) split: option.splits list.splits)
  note val = 4(1) [OF step(1) 4(4)]
  show ?case
  proof (cases "c = CHR '',''")
    case True
    with 4(3) have "decode_elems fuel depth (acc @ [v]) r = Some x" by (simp add: decode_elems.simps(2) step)
    from 4(2) [OF step(1) refl step(2) True this 4(4)] True show ?thesis by (simp add: decode_elems.simps(2) step val)
  qed (use 4(3) in \<open>simp add: decode_elems.simps(2) step val\<close>)
next
  case (6 fuel depth acc s)
  from 6(3) obtain q qs k s1 e s2 w s3 c s4 where step: "skip_ws s = q # qs" "q = CHR 0x22" "read_string qs = Some (k, s1)"
      "skip_ws s1 = e # s2" "e = CHR '':''" "decode_value fuel depth s2 = Some (w, s3)" "skip_ws s3 = c # s4"
    by (auto simp: decode_members.simps(2) split: if_split_asm list.split_asm option.split_asm prod.split_asm)
  have val: "decode_value fuel d' s2 = Some (w, s3)" using 6(1) [OF step(1) _ step(3) refl step(4) _ step(6) 6(4)] step(2,5) by simp
  show ?case
  proof (cases "c = CHR '',''")
    case True
    with 6(3) have "decode_members fuel depth (put k w acc) s4 = Some x" by (simp add: decode_members.simps(2) step)
    with 6(2) [OF step(1) _ step(3) refl step(4) _ step(6) refl step(7) True _ 6(4), of x] True step(2,5)
    show ?thesis by (simp add: decode_members.simps(2) step(1,3,4,7) val)
  qed (use 6(3) step(2,5) in \<open>simp add: decode_members.simps(2) step(1,3,4,6,7) val\<close>)
qed simp_all

end
