(* ===== verification/DF_KeyRound.thy ===== *)
theory DF_KeyRound
  imports DF_JsonRound DF_SqliteSpec
begin

text \<open>
  Projection keys in the SQL stores. A key is stored as its canonical JSON text
  (\<open>pkg/deltaflow/pk_marshal.go\<close>) beside the hash of that text; a row is scanned with
  \<open>json.Unmarshal\<close>, which keeps the raw text of each member. The lemmas show that the key that
  is read back has the same canonical text, hence the stored hash.
\<close>

declare decode_value.simps(2) [simp del] and decode_elems.simps(2) [simp del] and decode_members.simps(2) [simp del]
  and decodeRune.simps(2) [simp del] and unquote.simps(2) [simp del] and scan_string.simps(2) [simp del]
  and encode.simps(6) [simp del]

section \<open>A canonical key is read back as written\<close>

lemma canonical_value_decoded: "canonical_value raw = Inr v \<Longrightarrow> decoded v"
  by (auto simp: canonical_value_def decode_def split: option.splits if_splits dest: decode_decoded(1))

lemma canonical_entries_decoded:
  "canonical_entries m = Inr kvs \<Longrightarrow> keys kvs = keys m \<and> (\<forall>(k, v) \<in> set kvs. decoded v)"
  by (induction m arbitrary: kvs rule: canonical_entries.induct)
    (fastforce split: sum.splits dest: canonical_value_decoded)+

text \<open>The raw text of a member is the text that was written; read on its own it gives the same text again.\<close>

lemma raw_value_encode:
  assumes "raw_value (encode v @ t) = Some (raw, rest)" and "decoded v" "value_end t"
  shows "raw = encode v" "rest = t" "canonical_value (Some (encode v)) = Inr (normal v)"
proof -
  obtain c cs where c: "encode v = c # cs" "\<not> is_space c" using encode_start [OF assms(2)] by blast
  then have skip: "skip_ws (encode v @ t) = encode v @ t" "skip_ws (encode v) = encode v" by (simp_all add: skip_nonspace)
  let ?f = "Suc (2 * length (encode v @ t))"
  obtain w where run: "decode_value ?f 1 (encode v @ t) = Some (w, rest)" and raw: "raw = take (length (encode v @ t) - length rest) (encode v @ t)"
    using assms(1) by (auto simp: raw_value_def skip Let_def split: option.splits)
  have all: "\<forall>t. value_end t \<longrightarrow> decode_value ?f 1 (encode v @ t) = Some (normal v, t)"
    using decode_encode [OF assms(2), of ?f 1] run assms(3) by auto
  with run assms(3) show rest: "rest = t" by simp
  then show "raw = encode v" by (simp add: raw)
  from all have "decode_value ?f 1 (encode v) = Some (normal v, [])" by (metis append_Nil2 value_end_simps(1))
  then have "decode_value ?f 0 (encode v) = Some (normal v, [])" by (rule decode_depth(1)) simp
  then have "decode (encode v) = Some (normal v, [])" using decode_fuel_enough [of "encode v" ?f] by simp
  then show "canonical_value (Some (encode v)) = Inr (normal v)"
    unfolding canonical_value_def option.case skip(2) by (simp add: c(1))
qed

lemma raw_members_encode:
  assumes "raw_members n acc (join '','' (map member_text kvs) @ CHR ''}'' # t) = Some m" and "kvs \<noteq> []"
    and "\<forall>(k, v) \<in> set kvs. utf8 k \<and> decoded v" "distinct (keys acc @ keys kvs)"
  shows "m = acc @ map (\<lambda>(k, v). (k, Some (encode v))) kvs
    \<and> (\<forall>(k, v) \<in> set kvs. canonical_value (Some (encode v)) = Inr (normal v))"
  using assms
proof (induction n arbitrary: acc kvs)
  case (Suc n)
  then obtain k v kvs' where kvs: "kvs = (k, v) # kvs'" by (cases kvs) auto
  define rest where "rest = (if kvs' = [] then CHR ''}'' # t else CHR '','' # join '','' (map member_text kvs') @ CHR ''}'' # t)"
  have joined: "join '','' (map member_text kvs) @ CHR ''}'' # t = CHR 0x22 # quote_body k @ CHR 0x22 # CHR '':'' # encode v @ rest"
    by (simp add: kvs join_Cons rest_def member_text_def encode_string_def)
  have put: "put k x acc = acc @ [(k, x)]" for x
    using Suc.prems(4) by (intro put_fresh) (auto simp: kvs map_of_eq_None_iff)
  from Suc.prems(3) have k: "read_string (quote_body k @ CHR 0x22 # x) = Some (k, x)" for x
    by (intro read_encode_string) (simp add: kvs)
  note run = Suc.prems(1) [unfolded joined raw_members.simps(2)]
  obtain raw s' where v: "raw_value (encode v @ rest) = Some (raw, s')"
    using run by (auto simp: k split: option.splits)
  have dec: "decoded v" "value_end rest" using Suc.prems(3) by (auto simp: kvs rest_def)
  note val = raw_value_encode [OF v dec]
  show ?case
  proof (cases "kvs' = []")
    case True
    then show ?thesis using run val(3) by (simp add: k v val(1,2) kvs) (simp add: rest_def put)
  next
    case False
    then have "raw_members n (acc @ [(k, Some (encode v))]) (join '','' (map member_text kvs') @ CHR ''}'' # t) = Some m"
      using run by (simp add: k v val(1,2)) (simp add: rest_def put)
    from Suc.IH [OF this False] Suc.prems(3,4) val(3) show ?thesis by (simp add: kvs)
  qed
qed simp

lemma canonical_entries_encode:
  "\<forall>(k, v) \<in> set kvs. canonical_value (Some (encode v)) = Inr (normal v) \<Longrightarrow>
    canonical_entries (map (\<lambda>(k, v). (k, Some (encode v))) kvs) = Inr (map (\<lambda>(k, v). (k, normal v)) kvs)"
  by (induction kvs) auto

definition key_names_ok :: "ProjectionKey \<Rightarrow> bool" where
  "key_names_ok key \<longleftrightarrow> distinct (keys (key_entries key)) \<and> list_all utf8 (keys (key_entries key))"

lemma key_roundtrip:
  assumes marshal: "json_Marshal_key key = Inr s" and names: "key_names_ok key"
  shows "\<exists>key'. json_Unmarshal_key s = Inr key' \<and> json_Marshal_key key' = Inr s"
proof -
  obtain kvs where kvs: "canonical_entries (key_entries key) = Inr kvs" "s = encode (JObj kvs)" and valid: "json_valid s"
    using marshal by (auto simp: json_Marshal_key_def MarshalJSON_def Let_def split: sum.splits if_splits)
  obtain key' where key': "json_Unmarshal_key s = Inr key'" using marshal_parses [OF marshal] by blast
  let ?kvs = "sort_slice key_less kvs"
  have "list_all utf8 (keys kvs)"
    using canonical_entries_decoded [OF kvs(1)] names by (simp add: key_names_ok_def)
  then have "\<forall>x \<in> set kvs. utf8 (fst x)" by (simp add: list_all_iff)
  then have ok: "\<forall>(k, v) \<in> set ?kvs. utf8 k \<and> decoded v" "distinct (keys ?kvs)"
    using canonical_entries_decoded [OF kvs(1)] names by (auto simp: key_names_ok_def distinct_keys_sort)
  have "MarshalJSON key' = Inr s"
  proof (cases ?kvs)
    case Nil
    then have "kvs = []" by (metis set_sort_slice set_empty)
    then have s: "s = ''{}''" by (simp add: kvs(2) encode_JObj)
    with key' valid show ?thesis by (auto simp: json_Unmarshal_key_def MarshalJSON_def key_entries_def s encode_JObj)
  next
    case (Cons m ms)
    let ?cs = "join '','' (map member_text ?kvs) @ ''}''"
    have s: "s = CHR ''{'' # ?cs" by (simp add: kvs(2) encode_JObj)
    have "take 1 (skip_ws ?cs) \<noteq> ''}''" by (simp add: Cons join_Cons member_text_def encode_string_def)
    with key' valid obtain mm where mm: "raw_members (length ?cs) [] ?cs = Some mm" "key' = Some mm"
      by (auto simp: json_Unmarshal_key_def s split: option.splits)
    have "mm = [] @ map (\<lambda>(k, v). (k, Some (encode v))) ?kvs
        \<and> (\<forall>(k, v) \<in> set ?kvs. canonical_value (Some (encode v)) = Inr (normal v))"
      by (rule raw_members_encode [OF mm(1)]) (use ok Cons in simp_all)
    then show ?thesis
      using encode_normal [of "JObj kvs"]
      by (simp add: MarshalJSON_def key_entries_def mm(2) canonical_entries_encode kvs(2) sort_members)
  qed
  with key' valid show ?thesis by (auto simp: json_Marshal_key_def Let_def)
qed

section \<open>Stored deltas\<close>

lemma null_string_opt: "opt \<in> {nullif_empty, Some} \<Longrightarrow> null_string (opt s) = s"
  by (auto simp: null_string_def nullif_empty_def)

text \<open>
  Metadata is a map from names to JSON values; it is written with its members in the order of
  their names, at every level, and comes back in this order. As maps the two are the same.
\<close>

definition metadata_ok :: "metadata \<Rightarrow> bool" where
  "metadata_ok md = (case md of None \<Rightarrow> True | Some m \<Rightarrow> decoded (JObj m))"

definition sorted_metadata :: "metadata \<Rightarrow> metadata" where
  "sorted_metadata md = map_option (\<lambda>m. sort_slice key_less (map (\<lambda>(k, v). (k, normal v)) m)) md"

lemma sorted_metadata_members:
  assumes "decoded (JObj m)"
  shows "\<exists>m'. sorted_metadata (Some m) = Some m' \<and> map_of m' = map_option normal \<circ> map_of m"
proof -
  let ?m = "map (\<lambda>(k, v). (k, normal v)) m"
  have "keys ?m = keys m" by (induction m) auto
  with assms have dist: "distinct (keys ?m)" by (simp only: decoded.simps)
  have "map_of (sort_slice key_less ?m) = map_of ?m"
    by (subst map_of_inject_set) (simp_all only: dist distinct_keys_sort set_sort_slice)
  then show ?thesis by (simp add: sorted_metadata_def map_of_map)
qed

lemma scan_metadata_roundtrip:
  assumes "metadata_ok md" and "json_valid (json_Marshal_metadata md)"
  shows "scan_metadata (Some (json_Marshal_metadata md)) = Inr (sorted_metadata md)"
proof (cases md)
  case (Some m)
  let ?s = "encode (JObj m)"
  have dec: "decoded (JObj m)" using assms(1) Some by (simp add: metadata_ok_def)
  have s: "json_Marshal_metadata md = ?s" by (simp add: json_Marshal_metadata_def Some)
  from assms(2) obtain v rest where "decode ?s = Some (v, rest)" by (auto simp: s json_valid_def split: option.splits)
  then have "decode_value (Suc (2 * length ?s)) 0 (?s @ []) \<noteq> None" by (simp add: decode_def)
  with decode_encode [OF dec, of "Suc (2 * length ?s)" 0]
  have "decode_value (Suc (2 * length ?s)) 0 (?s @ []) = Some (normal (JObj m), [])"
    using value_end_simps(1) by metis
  then have "decode ?s = Some (JObj (sort_slice key_less (map (\<lambda>(k, v). (k, normal v)) m)), [])"
    by (simp add: decode_def)
  moreover have "?s \<noteq> [] \<and> ?s \<noteq> ''null''" by (simp add: encode_JObj)
  ultimately show ?thesis
    using assms(2) unfolding s by (simp add: scan_metadata_def json_Unmarshal_metadata_def sorted_metadata_def Some)
qed (simp add: scan_metadata_def json_Marshal_metadata_def sorted_metadata_def)


definition sample_metadata :: metadata where
  "sample_metadata = Some [(''b'', JNum ''1''), (''a'', JStr ''x'')]"


end
