(* ===== verification/DF_Elastic.thy ===== *)
theory DF_Elastic
  imports DF_Target DF_Url DF_KeyRound
begin

text \<open>
  The Elasticsearch applier (\<open>pkg/connectors/elasticsearch/applier.go\<close>). The HTTP client and
  \<open>url.Parse\<close> are parameters. What the applier relies on is said by \<open>elastic_documented\<close> of the two
  requests it sends, the index and the delete request of the document API: an accepted one has its
  effect on the document it names, any other answer, or none, leaves it open whether it had, and
  no other document of the index is touched.

  The applier is a provider of the contract \<open>target\<close>. The properties say what deliveries leave
  in the index, that documents of different indexes or identifiers never share a URL, and that
  the default identifier tells projections apart and does not depend on how a key is written.
\<close>

section \<open>Requests and answers\<close>

record http_request =
  hr_method :: string
  hr_url :: string
  hr_contentType :: "string option"
  hr_body :: string

text \<open>The body is what reading it yields before its end or its error.\<close>

record http_response =
  hs_status :: int
  hs_body :: string

type_synonym 'c http_client = "ctx \<Rightarrow> http_request \<Rightarrow> 'c \<Rightarrow> (error + http_response) \<times> 'c"

type_synonym DocumentIDFunc = "projection_identity \<Rightarrow> error + string"

section \<open>The applier\<close>

record 'c elastic_config =
  ec_Client :: "'c http_client option"
  ec_Endpoint :: string
  ec_Index :: string
  ec_DocumentID :: "DocumentIDFunc option"
  ec_Refresh :: string

record 'c elastic_applier =
  ea_client :: "'c http_client"
  ea_endpoint :: url
  ea_index :: string
  ea_documentID :: DocumentIDFunc
  ea_refresh :: string

definition DefaultDocumentID :: DocumentIDFunc where
  "DefaultDocumentID identity =
     (case json_Marshal_key (pi_Key identity) of
        Inl e \<Rightarrow> Inl e
      | Inr encoded \<Rightarrow> Inr (hexEncodeToString (sha256 (pi_Type identity @ [CHR 0x00] @ encoded))))"

text \<open>The client that is used when none is given, with its timeout, is an argument.\<close>

definition elastic_NewApplier ::
    "(string \<Rightarrow> error + url) \<Rightarrow> 'c http_client \<Rightarrow> 'c elastic_config \<Rightarrow> error + 'c elastic_applier"
where
  "elastic_NewApplier parse defaultClient cfg =
     (let client = (case ec_Client cfg of None \<Rightarrow> defaultClient | Some c \<Rightarrow> c) in
      if ec_Endpoint cfg = [] then Inl (Errors_New ''elasticsearch applier: endpoint is required'')
      else
        (case parse (ec_Endpoint cfg) of
           Inl e \<Rightarrow> Inl (Wrapped ''elasticsearch applier: invalid endpoint: '' e [])
         | Inr endpoint \<Rightarrow>
             if u_Scheme endpoint = [] \<or> u_Host endpoint = []
             then Inl (Errors_New ''elasticsearch applier: endpoint must include scheme and host'')
             else if ec_Index cfg = [] then Inl (Errors_New ''elasticsearch applier: index is required'')
             else Inr \<lparr>ea_client = client, ea_endpoint = endpoint, ea_index = ec_Index cfg,
               ea_documentID = (case ec_DocumentID cfg of None \<Rightarrow> DefaultDocumentID | Some f \<Rightarrow> f),
               ea_refresh = ec_Refresh cfg\<rparr>))"

text \<open>\<open>strings.TrimRight(s, "/")\<close>\<close>

definition trim_slashes :: "string \<Rightarrow> string" where
  "trim_slashes s = rev (dropWhile (\<lambda>c. c = CHR ''/'') (rev s))"

definition document_path :: "'c elastic_applier \<Rightarrow> string \<Rightarrow> string" where
  "document_path a documentID =
     trim_slashes (u_Path (ea_endpoint a)) @ ''/'' @ PathEscape (ea_index a) @ ''/_doc/'' @ PathEscape documentID"

definition documentURL :: "'c elastic_applier \<Rightarrow> string \<Rightarrow> string" where
  "documentURL a documentID =
     (let u = ea_endpoint a;
          query = url_Query u;
          query1 = (if ea_refresh a \<noteq> [] then put ''refresh'' [ea_refresh a] query else query)
      in url_String (u\<lparr>u_Path := document_path a documentID, u_RawQuery := values_Encode query1\<rparr>))"

definition isRetryableStatus :: "int \<Rightarrow> bool" where
  "isRetryableStatus status \<longleftrightarrow> status = 429 \<or> status = 408 \<or> 500 \<le> status"

text \<open>
  Unmarshalling into a struct with the one field \<open>result\<close>: the members are visited in order; a
  name matches the field up to simple case folding, for these letters the ASCII cases and the
  long s. A null leaves the field, a value of another type is an error of the whole call.
\<close>

definition fold_name :: "string \<Rightarrow> string" where
  "fold_name s = concat (map (\<lambda>(r, b). if 65 \<le> r \<and> r \<le> 90 then [char_of (r + 32)]
     else if r = 0x17F then ''s'' else b) (runes s))"

fun ordered_members :: "nat \<Rightarrow> string \<Rightarrow> (string \<times> json) list option" where
  "ordered_members 0 s = None"
| "ordered_members (Suc n) s =
     (case skip_ws s of
        [] \<Rightarrow> None
      | q # qs \<Rightarrow>
          (case read_string qs of
             None \<Rightarrow> None
           | Some (k, s1) \<Rightarrow>
               (case skip_ws s1 of
                  [] \<Rightarrow> None
                | d # s2 \<Rightarrow>
                    (case decode_value (Suc (2 * length s2)) 1 s2 of
                       None \<Rightarrow> None
                     | Some (v, s3) \<Rightarrow>
                         (case skip_ws s3 of
                            [] \<Rightarrow> None
                          | c # r \<Rightarrow>
                              if c = CHR '','' then map_option (Cons (k, v)) (ordered_members n r)
                              else Some [(k, v)])))))"

fun result_of_members :: "(string \<times> json) list \<Rightarrow> string \<Rightarrow> error + string" where
  "result_of_members [] result = Inr result"
| "result_of_members ((k, v) # ms) result =
     (if fold_name k = ''result'' then
        (case v of
           JStr s \<Rightarrow> result_of_members ms s
         | JNull \<Rightarrow> result_of_members ms result
         | _ \<Rightarrow> Inl (Errors_New ''json: cannot unmarshal into Go struct field .result of type string''))
      else result_of_members ms result)"

definition json_Unmarshal_result :: "string \<Rightarrow> error + string" where
  "json_Unmarshal_result s =
     (if \<not> json_valid s then Inl JsonSyntax
      else
        (case skip_ws s of
           [] \<Rightarrow> Inl JsonSyntax
         | c # cs \<Rightarrow>
             if c = CHR ''n'' then Inr []
             else if c = CHR ''{'' then
               (if take 1 (skip_ws cs) = ''}'' then Inr []
                else (case ordered_members (length cs) cs of
                        None \<Rightarrow> Inl JsonSyntax
                      | Some ms \<Rightarrow> result_of_members ms []))
             else Inl (Errors_New ''json: cannot unmarshal into Go value of type struct'')))"

definition isMissingDocumentDelete :: "string \<Rightarrow> bool" where
  "isMissingDocumentDelete body =
     (case json_Unmarshal_result body of Inl e \<Rightarrow> False | Inr result \<Rightarrow> result = ''not_found'')"

definition elastic_do ::
    "'c elastic_applier \<Rightarrow> ctx \<Rightarrow> http_request \<Rightarrow> ProjectionOperationType \<Rightarrow> 'c \<Rightarrow> error option \<times> 'c"
where
  "elastic_do a ctx req opType w =
     (case ea_client a ctx req w of
        (Inl e, w') \<Rightarrow> (Some e, w')
      | (Inr resp, w') \<Rightarrow>
          (if 200 \<le> hs_status resp \<and> hs_status resp \<le> 299 then None
           else
             (let body = take 4096 (hs_body resp) in
              if opType = ProjectionOpDelete \<and> hs_status resp = 404 \<and> isMissingDocumentDelete body then None
              else Some (ResponseError opType (hs_status resp) (isRetryableStatus (hs_status resp)) (TrimSpace body))),
           w'))"

text \<open>\<open>http.NewRequestWithContext\<close> parses the URL once more.\<close>

definition new_request :: "(string \<Rightarrow> error + url) \<Rightarrow> string \<Rightarrow> string \<Rightarrow> string \<Rightarrow> error + http_request" where
  "new_request parse method u body =
     (case parse u of
        Inl e \<Rightarrow> Inl e
      | Inr _ \<Rightarrow> Inr \<lparr>hr_method = method, hr_url = u, hr_contentType = None, hr_body = body\<rparr>)"

definition content_type :: "projection \<Rightarrow> string" where
  "content_type p = (if p_MediaType p = [] then ''application/json'' else p_MediaType p)"

definition applyUpsert ::
    "(string \<Rightarrow> error + url) \<Rightarrow> 'c elastic_applier \<Rightarrow> ctx \<Rightarrow> projection_operation \<Rightarrow> projection \<Rightarrow> string \<Rightarrow> 'c \<Rightarrow>
      error option \<times> 'c"
where
  "applyUpsert parse a ctx op p documentID w =
     (case new_request parse ''PUT'' (documentURL a documentID) (p_Payload p) of
        Inl e \<Rightarrow> (Some e, w)
      | Inr req \<Rightarrow> elastic_do a ctx (req\<lparr>hr_contentType := Some (content_type p)\<rparr>) (op_Type op) w)"

definition applyDelete ::
    "(string \<Rightarrow> error + url) \<Rightarrow> 'c elastic_applier \<Rightarrow> ctx \<Rightarrow> projection_operation \<Rightarrow> string \<Rightarrow> 'c \<Rightarrow> error option \<times> 'c"
where
  "applyDelete parse a ctx op documentID w =
     (case new_request parse ''DELETE'' (documentURL a documentID) [] of
        Inl e \<Rightarrow> (Some e, w)
      | Inr req \<Rightarrow> elastic_do a ctx req (op_Type op) w)"

definition elastic_Apply ::
    "(string \<Rightarrow> error + url) \<Rightarrow> 'c elastic_applier \<Rightarrow> ctx \<Rightarrow> projection_operation \<Rightarrow> 'c \<Rightarrow> error option \<times> 'c"
where
  "elastic_Apply parse a ctx op w =
     (case ea_documentID a (op_Identity op) of
        Inl e \<Rightarrow> (Some e, w)
      | Inr documentID \<Rightarrow>
          if documentID = [] then (Some (Errors_New ''elasticsearch applier: document id cannot be empty''), w)
          else if op_Type op = ProjectionOpUpsert then
            (case op_Projection op of
               None \<Rightarrow> (Some (Errors_New ''elasticsearch applier: upsert operation requires projection''), w)
             | Some p \<Rightarrow> applyUpsert parse a ctx op p documentID w)
          else if op_Type op = ProjectionOpDelete then applyDelete parse a ctx op documentID w
          else (Some (Errors_New (''elasticsearch applier: unsupported operation '' @ strconv_Quote (op_Type op))), w))"

section \<open>What the applier relies on\<close>

text \<open>The requests for the document with the identifier \<open>i\<close>; a document is its source.\<close>

definition put_request :: "'c elastic_applier \<Rightarrow> string \<Rightarrow> string \<Rightarrow> string \<Rightarrow> http_request" where
  "put_request a i media source =
     \<lparr>hr_method = ''PUT'', hr_url = documentURL a i, hr_contentType = Some media, hr_body = source\<rparr>"

definition delete_request :: "'c elastic_applier \<Rightarrow> string \<Rightarrow> http_request" where
  "delete_request a i = \<lparr>hr_method = ''DELETE'', hr_url = documentURL a i, hr_contentType = None, hr_body = []\<rparr>"

definition put_accepted :: "error + http_response \<Rightarrow> bool" where
  "put_accepted r \<longleftrightarrow> (case r of Inl e \<Rightarrow> False | Inr resp \<Rightarrow> 200 \<le> hs_status resp \<and> hs_status resp \<le> 299)"

text \<open>A document that is not there is answered with status 404 and the result \<open>not_found\<close>.\<close>

definition delete_accepted :: "error + http_response \<Rightarrow> bool" where
  "delete_accepted r \<longleftrightarrow> put_accepted r
     \<or> (case r of Inl e \<Rightarrow> False | Inr resp \<Rightarrow> hs_status resp = 404 \<and> isMissingDocumentDelete (take 4096 (hs_body resp)))"

definition elastic_documented :: "'c elastic_applier \<Rightarrow> ('c \<Rightarrow> string \<Rightarrow> string option) \<Rightarrow> bool" where
  "elastic_documented a view \<longleftrightarrow>
     (\<forall>ctx i media source w r w'. i \<noteq> [] \<longrightarrow> ea_client a ctx (put_request a i media source) w = (r, w') \<longrightarrow>
        view w' = (view w)(i \<mapsto> source) \<or> \<not> put_accepted r \<and> view w' = view w)
     \<and> (\<forall>ctx i w r w'. i \<noteq> [] \<longrightarrow> ea_client a ctx (delete_request a i) w = (r, w') \<longrightarrow>
        view w' = (view w)(i := None) \<or> \<not> delete_accepted r \<and> view w' = view w)"

definition elastic_slot :: "'c elastic_applier \<Rightarrow> projection_identity \<Rightarrow> string option" where
  "elastic_slot a d = (case ea_documentID a d of Inl e \<Rightarrow> None | Inr i \<Rightarrow> if i = [] then None else Some i)"

definition elastic_wanted :: "projection_operation \<Rightarrow> string option" where
  "elastic_wanted op =
     (if op_Type op = ProjectionOpUpsert then map_option p_Payload (op_Projection op) else None)"

definition elastic_sends :: "(string \<Rightarrow> error + url) \<Rightarrow> 'c elastic_applier \<Rightarrow> projection_operation \<Rightarrow> bool" where
  "elastic_sends parse a op \<longleftrightarrow>
     (op_Type op = ProjectionOpUpsert \<and> op_Projection op \<noteq> None \<or> op_Type op = ProjectionOpDelete)
     \<and> (case elastic_slot a (op_Identity op) of None \<Rightarrow> False
        | Some i \<Rightarrow> (case parse (documentURL a i) of Inl e \<Rightarrow> False | Inr u \<Rightarrow> True))"

lemma elastic_laws:
  assumes "elastic_documented a view" and "i \<noteq> []"
  shows "ea_client a ctx (put_request a i media source) w = (r, w') \<Longrightarrow>
      view w' = (view w)(i \<mapsto> source) \<or> \<not> put_accepted r \<and> view w' = view w"
    and "ea_client a ctx (delete_request a i) w = (r, w') \<Longrightarrow>
      view w' = (view w)(i := None) \<or> \<not> delete_accepted r \<and> view w' = view w"
  using assms unfolding elastic_documented_def by blast+

lemma elastic_do_answer:
  assumes "elastic_do a ctx req t w = (r, w')"
  obtains y where "ea_client a ctx req w = (y, w')"
    "t \<noteq> ProjectionOpDelete \<Longrightarrow> r = None \<longleftrightarrow> put_accepted y" "t = ProjectionOpDelete \<Longrightarrow> r = None \<longleftrightarrow> delete_accepted y"
  using assms by (auto simp: elastic_do_def put_accepted_def delete_accepted_def Let_def split: prod.splits sum.splits if_splits)

lemma elastic_Apply_cases:
  assumes run: "elastic_Apply parse a ctx op w = (r, w')" and doc: "elastic_documented a view"
  obtains (refused) "r \<noteq> None" "w' = w"
    | (request) i where "elastic_slot a (op_Identity op) = Some i" "elastic_sends parse a op"
        "view w' = (view w)(i := elastic_wanted op) \<or> r \<noteq> None \<and> view w' = view w"
proof (cases "r \<noteq> None \<and> w' = w")
  case False
  then obtain i where i: "ea_documentID a (op_Identity op) = Inr i" "i \<noteq> []"
    using run by (auto simp: elastic_Apply_def split: sum.splits if_splits)
  have slot: "elastic_slot a (op_Identity op) = Some i" by (simp add: elastic_slot_def i)
  show thesis
  proof (cases "op_Type op = ProjectionOpUpsert")
    case True
    with run i False obtain p where p: "op_Projection op = Some p" "applyUpsert parse a ctx op p i w = (r, w')"
      by (auto simp: elastic_Apply_def split: option.splits)
    with False obtain u where u: "parse (documentURL a i) = Inr u"
        "elastic_do a ctx (put_request a i (content_type p) (p_Payload p)) (op_Type op) w = (r, w')"
      by (auto simp: applyUpsert_def new_request_def put_request_def split: sum.splits)
    have sends: "elastic_sends parse a op" using True p(1) u(1) slot by (simp add: elastic_sends_def)
    from u(2) obtain y where "ea_client a ctx (put_request a i (content_type p) (p_Payload p)) w = (y, w')"
        "r = None \<longleftrightarrow> put_accepted y"
      by (rule elastic_do_answer) (use True in simp)
    with elastic_laws(1) [OF doc i(2)] have "view w' = (view w)(i := elastic_wanted op) \<or> r \<noteq> None \<and> view w' = view w"
      using True p(1) by (auto simp: elastic_wanted_def)
    with request slot sends show thesis by blast
  next
    case other: False
    with run i False have d: "op_Type op = ProjectionOpDelete" "applyDelete parse a ctx op i w = (r, w')"
      by (auto simp: elastic_Apply_def split: if_splits)
    with False obtain u where u: "parse (documentURL a i) = Inr u"
        "elastic_do a ctx (delete_request a i) (op_Type op) w = (r, w')"
      by (auto simp: applyDelete_def new_request_def delete_request_def split: sum.splits)
    have sends: "elastic_sends parse a op" using d(1) u(1) slot by (simp add: elastic_sends_def)
    from u(2) obtain y where "ea_client a ctx (delete_request a i) w = (y, w')" "r = None \<longleftrightarrow> delete_accepted y"
      by (rule elastic_do_answer) (use d(1) in simp)
    with elastic_laws(2) [OF doc i(2)] have "view w' = (view w)(i := elastic_wanted op) \<or> r \<noteq> None \<and> view w' = view w"
      using other by (auto simp: elastic_wanted_def)
    with request slot sends show thesis by blast
  qed
qed (use refused in blast)

lemma elastic_target:
  assumes "elastic_documented a view"
  shows "target (elastic_Apply parse a) view (elastic_slot a) elastic_wanted (elastic_sends parse a)"
proof
  fix c op w w'
  assume "elastic_Apply parse a c op w = (None, w')"
  then show "\<exists>k. elastic_slot a (op_Identity op) = Some k \<and> view w' = (view w)(k := elastic_wanted op)"
    by (rule elastic_Apply_cases [OF _ assms]) auto
next
  fix c op w e w'
  assume "elastic_Apply parse a c op w = (Some e, w')"
  then show "view w' = view w \<or> elastic_sends parse a op
      \<and> (\<exists>k. elastic_slot a (op_Identity op) = Some k \<and> view w' = (view w)(k := elastic_wanted op))"
    by (rule elastic_Apply_cases [OF _ assms]) auto
qed

section \<open>The URL of a document\<close>

text \<open>What \<open>url.Parse\<close> yields for an endpoint with a scheme and a host: paths begin with a slash.\<close>

definition endpoint_url :: "url \<Rightarrow> bool" where
  "endpoint_url u \<longleftrightarrow> u_Scheme u \<noteq> [] \<and> u_Host u \<noteq> [] \<and> u_Opaque u = []
     \<and> (u_Path u = [] \<or> hd (u_Path u) = CHR ''/'') \<and> (u_RawPath u = [] \<or> hd (u_RawPath u) = CHR ''/'')"

lemma unescape_EscapedPath: "unescape encodePath (EscapedPath u) = Some (u_Path u)"
  by (auto simp: EscapedPath_def)

lemma trim_slashes_start: "p = [] \<or> hd p = CHR ''/'' \<Longrightarrow> trim_slashes p = [] \<or> hd (trim_slashes p) = CHR ''/''"
proof -
  assume p: "p = [] \<or> hd p = CHR ''/''"
  have "p = trim_slashes p @ rev (takeWhile (\<lambda>c. c = CHR ''/'') (rev p))"
    unfolding trim_slashes_def by (metis rev_append rev_rev_ident takeWhile_dropWhile_id)
  then show ?thesis using p by (cases "trim_slashes p") (auto, metis hd_append2 list.sel(1) list.distinct(1))
qed

lemma escaped_slash: "url_escape encodePath (CHR ''/'' # s) = CHR ''/'' # url_escape encodePath s"
  by (simp add: url_escape_def escape_char_def shouldEscape_def ascii_alnum_def is_digit_def byte_def)

lemma document_path_start:
  assumes "endpoint_url (ea_endpoint a)"
  shows "\<exists>s. document_path a i = CHR ''/'' # s"
  using trim_slashes_start [of "u_Path (ea_endpoint a)"] assms
  by (cases "trim_slashes (u_Path (ea_endpoint a))") (auto simp: document_path_def endpoint_url_def)

lemma EscapedPath_start:
  assumes "endpoint_url u" and "p = CHR ''/'' # s"
  shows "\<exists>t. EscapedPath (u\<lparr>u_Path := p, u_RawQuery := q\<rparr>) = CHR ''/'' # t"
  using assms by (cases "u_RawPath u") (auto simp: EscapedPath_def endpoint_url_def escaped_slash)

lemma url_String_path:
  assumes "endpoint_url u" and "p = CHR ''/'' # s" and "p' = CHR ''/'' # s'"
    and "url_String (u\<lparr>u_Path := p, u_RawQuery := q\<rparr>) = url_String (u\<lparr>u_Path := p', u_RawQuery := q\<rparr>)"
  shows "p = p'"
proof -
  obtain t t' where t: "EscapedPath (u\<lparr>u_Path := p, u_RawQuery := q\<rparr>) = CHR ''/'' # t"
      "EscapedPath (u\<lparr>u_Path := p', u_RawQuery := q\<rparr>) = CHR ''/'' # t'"
    using EscapedPath_start assms(1-3) by metis
  have "authority (u\<lparr>u_Path := p, u_RawQuery := q\<rparr>) = authority (u\<lparr>u_Path := p', u_RawQuery := q\<rparr>)"
    using assms(1) by (simp add: authority_def endpoint_url_def)
  then have "t = t'" using assms(1,4) t by (simp add: url_String_def endpoint_url_def Let_def)
  then have "EscapedPath (u\<lparr>u_Path := p, u_RawQuery := q\<rparr>) = EscapedPath (u\<lparr>u_Path := p', u_RawQuery := q\<rparr>)"
    by (simp add: t)
  then have "unescape encodePath (EscapedPath (u\<lparr>u_Path := p, u_RawQuery := q\<rparr>))
      = unescape encodePath (EscapedPath (u\<lparr>u_Path := p', u_RawQuery := q\<rparr>))" by (rule arg_cong)
  then show ?thesis unfolding unescape_EscapedPath by simp
qed

lemma segment_split:
  assumes "x @ c # s = y @ c # t" and "c \<notin> set x" and "c \<notin> set y"
  shows "x = y \<and> s = t"
  using assms by (induction x arbitrary: y) (case_tac y; auto)+

lemma document_path_inj:
  assumes "document_path a i = document_path b j" and "ea_endpoint a = ea_endpoint b"
  shows "ea_index a = ea_index b \<and> i = j"
proof -
  have "PathEscape (ea_index a) @ CHR ''/'' # ''_doc/'' @ PathEscape i
      = PathEscape (ea_index b) @ CHR ''/'' # ''_doc/'' @ PathEscape j"
    using assms by (simp add: document_path_def)
  from segment_split [OF this PathEscape_no_slash PathEscape_no_slash] show ?thesis
    by (simp add: PathEscape_def url_escape_inj)
qed

lemma documentURL_inj:
  assumes "endpoint_url (ea_endpoint a)" and "ea_endpoint b = ea_endpoint a" and "ea_refresh b = ea_refresh a"
    and "documentURL a i = documentURL b j"
  shows "ea_index a = ea_index b \<and> i = j"
proof -
  have same: "url_String ((ea_endpoint a)\<lparr>u_Path := document_path a i, u_RawQuery := q\<rparr>)
      = url_String ((ea_endpoint a)\<lparr>u_Path := document_path b j, u_RawQuery := q\<rparr>)"
    if "q = values_Encode (if ea_refresh a \<noteq> [] then put ''refresh'' [ea_refresh a] (url_Query (ea_endpoint a))
      else url_Query (ea_endpoint a))" for q
    using that assms(2-4) by (simp add: documentURL_def Let_def)
  obtain s t where "document_path a i = CHR ''/'' # s" "document_path b j = CHR ''/'' # t"
    using document_path_start assms(1,2) by metis
  then have "document_path a i = document_path b j" using url_String_path [OF assms(1)] same [OF refl] by blast
  then show ?thesis using document_path_inj assms(2) by metis
qed

section \<open>An index\<close>

text \<open>
  A server that keeps sources by URL, with a script of faults as for the cache: absent for an
  answer of its own, or the answer to give and whether the request has its effect all the same.
\<close>

record index_server =
  is_docs :: "string \<Rightarrow> string option"
  is_faults :: "((error + http_response) \<times> bool) option list"

definition request_effect :: "http_request \<Rightarrow> string option \<Rightarrow> string option" where
  "request_effect req d =
     (if hr_method req = ''PUT'' then Some (hr_body req) else if hr_method req = ''DELETE'' then None else d)"

definition index_answer :: "http_request \<Rightarrow> string option \<Rightarrow> http_response" where
  "index_answer req d =
     (if hr_method req = ''DELETE'' \<and> d = None
      then \<lparr>hs_status = 404, hs_body = ''{\"_index\":\"contacts\",\"result\":\"not_found\"}''\<rparr>
      else \<lparr>hs_status = 200, hs_body = ''{\"result\":\"updated\"}''\<rparr>)"

definition index_client :: "index_server http_client" where
  "index_client ctx req s =
     (let docs = (is_docs s)(hr_url req := request_effect req (is_docs s (hr_url req))) in
      case is_faults s of
        Some (r, had_effect) # fs \<Rightarrow>
          (r, s\<lparr>is_docs := (if had_effect \<or> delete_accepted r then docs else is_docs s), is_faults := fs\<rparr>)
      | _ \<Rightarrow> (Inr (index_answer req (is_docs s (hr_url req))), s\<lparr>is_docs := docs, is_faults := tl (is_faults s)\<rparr>))"

definition index_view :: "index_server elastic_applier \<Rightarrow> index_server \<Rightarrow> string \<Rightarrow> string option" where
  "index_view a s i = is_docs s (documentURL a i)"

lemma index_client_effect:
  assumes "index_client ctx req s = (r, s')"
  shows "is_docs s' = (is_docs s)(hr_url req := request_effect req (is_docs s (hr_url req)))
    \<or> \<not> delete_accepted r \<and> is_docs s' = is_docs s"
  using assms by (auto simp: index_client_def Let_def split: list.splits option.splits if_splits)

lemma index_documented:
  assumes "ea_client a = index_client" and "endpoint_url (ea_endpoint a)"
  shows "elastic_documented a (index_view a)"
proof -
  have view: "index_view a s' = (index_view a s)(i := x)" if "is_docs s' = (is_docs s)(documentURL a i := x)" for s s' i x
    using that documentURL_inj [OF assms(2) refl refl] by (auto simp: index_view_def fun_eq_iff)
  have same: "index_view a s' = index_view a s" if "is_docs s' = is_docs s" for s s'
    using that by (simp add: index_view_def fun_eq_iff)
  show ?thesis
    unfolding elastic_documented_def assms(1)
    by (intro conjI allI impI; drule index_client_effect)
      (auto simp: put_request_def delete_request_def request_effect_def delete_accepted_def dest: view same)
qed

text \<open>An endpoint with a host, a path and a query.\<close>

definition endpoint_at :: "string \<Rightarrow> string \<Rightarrow> string \<Rightarrow> url" where
  "endpoint_at host base qs =
     \<lparr>u_Scheme = ''http'', u_Opaque = [], u_User = None, u_Host = (if host = [] then ''localhost'' else host),
      u_Path = ''/'' @ base, u_RawPath = [], u_OmitHost = False, u_ForceQuery = False, u_RawQuery = qs,
      u_Fragment = [], u_EscapedFragment = []\<rparr>"

definition index_applier :: "string \<Rightarrow> string \<Rightarrow> string \<Rightarrow> string \<Rightarrow> DocumentIDFunc \<Rightarrow> string \<Rightarrow> index_server elastic_applier" where
  "index_applier host base qs ix f refresh =
     \<lparr>ea_client = index_client, ea_endpoint = endpoint_at host base qs, ea_index = ix, ea_documentID = f,
      ea_refresh = refresh\<rparr>"

lemma index_applier_documented:
  "elastic_documented (index_applier host base qs ix f refresh) (index_view (index_applier host base qs ix f refresh))"
  by (rule index_documented) (simp_all add: index_applier_def endpoint_at_def endpoint_url_def)

interpretation elastic: target
    "elastic_Apply parse (index_applier host base qs ix f refresh)"
    "index_view (index_applier host base qs ix f refresh)"
    "elastic_slot (index_applier host base qs ix f refresh)"
    elastic_wanted
    "elastic_sends parse (index_applier host base qs ix f refresh)"
  for parse host base qs ix f refresh
  by (rule elastic_target) (rule index_applier_documented)

section \<open>The default identifier\<close>

definition document_preimage :: "projection_identity \<Rightarrow> error + string" where
  "document_preimage d = map_sum (\<lambda>e. e) (\<lambda>s. pi_Type d @ [CHR 0x00] @ s) (json_Marshal_key (pi_Key d))"

definition no_nul :: "string \<Rightarrow> bool" where
  "no_nul s \<longleftrightarrow> CHR 0x00 \<notin> set s"

lemma no_nul_simps [simp]:
  "no_nul []" "no_nul (c # s) \<longleftrightarrow> c \<noteq> CHR 0x00 \<and> no_nul s" "no_nul (s @ t) \<longleftrightarrow> no_nul s \<and> no_nul t"
  by (auto simp: no_nul_def)

lemma hex_digit_nul: "n < 16 \<Longrightarrow> hex_digit n \<noteq> CHR 0x00"
  using hex_val_digit [of n] by (auto simp: hex_val_def byte_def)

lemma escape_ascii_no_nul: "no_nul (escape_ascii c)"
  using hex_digit_nul [OF byte_div] hex_digit_nul [of "byte c mod 16"] by (auto simp: escape_ascii_def)

lemma take_rune_no_nul:
  assumes "\<not> byte c < 0x80" and "decodeRune (c # cs) = (rr, n)"
  shows "no_nul (take n (c # cs))"
proof (cases "2 \<le> n")
  case True
  then have "\<forall>x \<in> set (take n (c # cs)). 0x80 \<le> byte x"
    using decodeRune_long [OF assms(2)] by (simp add: long_rune_def)
  then show ?thesis by (auto simp: no_nul_def byte_def)
next
  case False
  then have "n = 0 \<or> n = 1" by auto
  with assms(1) show ?thesis by (auto simp: byte_def)
qed

lemma quote_body_no_nul: "no_nul (quote_body s)"
proof (induction s rule: quote_body.induct)
  case (2 c cs)
  obtain rr n where d: "decodeRune (c # cs) = (rr, n)" by (cases "decodeRune (c # cs)")
  have "html_safe c \<Longrightarrow> c \<noteq> CHR 0x00" by (auto simp: html_safe_def byte_def)
  then show ?case using 2 d
    by (auto simp: escape_ascii_no_nul take_rune_no_nul hex_digit_nul)
qed simp

lemma encode_string_no_nul: "no_nul (encode_string s)"
  by (simp add: encode_string_def quote_body_no_nul)

lemma digit_not_nul: "is_digit c \<Longrightarrow> c \<noteq> CHR 0x00"
  by (auto simp: is_digit_def byte_def)

lemma take_digits_no_nul: "take_digits s = Some (ds, r) \<Longrightarrow> no_nul ds"
  using digit_not_nul
  by (auto simp: take_digits_def no_nul_def split: list.splits dest!: sym [of "takeWhile is_digit s"])
    (metis list.set_intros set_takeWhileD)+

lemma read_number_no_nul: "read_number s = Some (n, r) \<Longrightarrow> no_nul n"
  by (auto simp: read_number_def read_int_part_def read_frac_def read_exp_def
      split: list.splits option.splits if_splits prod.splits dest!: take_digits_no_nul)

lemma join_no_nul: "no_nul sep \<Longrightarrow> list_all no_nul xs \<Longrightarrow> no_nul (join sep xs)"
  by (induction sep xs rule: join.induct) simp_all

lemma encode_no_nul: "decoded v \<Longrightarrow> no_nul (encode v)"
proof (induction v rule: decoded.induct)
  case (4 kvs)
  then have "list_all no_nul (map member_text (sort_slice key_less kvs))"
    by (auto simp: list_all_iff member_text_def encode_string_no_nul)
  then show ?case unfolding encode_JObj by (simp add: join_no_nul)
next
  case (1 n)
  then show ?case by (auto simp: decoded.simps(1) dest: read_number_no_nul)
qed (auto simp: encode_string_no_nul list_all_iff intro!: join_no_nul)

lemma key_text_no_nul: "json_Marshal_key key = Inr s \<Longrightarrow> no_nul s"
proof -
  assume "json_Marshal_key key = Inr s"
  then obtain kvs where kvs: "canonical_entries (key_entries key) = Inr kvs" "s = encode (JObj kvs)"
    by (auto simp: json_Marshal_key_def MarshalJSON_def Let_def split: sum.splits if_splits)
  have "list_all no_nul (map member_text (sort_slice key_less kvs))"
    using canonical_entries_decoded [OF kvs(1)]
    by (auto simp: list_all_iff member_text_def encode_string_no_nul intro!: encode_no_nul)
  then show ?thesis unfolding kvs(2) encode_JObj by (simp add: join_no_nul)
qed

lemma preimage_split:
  assumes "x @ [CHR 0x00] @ s = y @ [CHR 0x00] @ t" and "no_nul s" and "no_nul t"
  shows "x = y \<and> s = t"
proof -
  have "rev s @ CHR 0x00 # rev x = rev t @ CHR 0x00 # rev y"
    using arg_cong [OF assms(1), of rev] by simp
  from segment_split [OF this] assms(2,3) show ?thesis by (simp add: no_nul_def)
qed

section \<open>Properties\<close>

text \<open>
  C10: What a document of the index holds after any series of deliveries, whatever it was and
  however answers are lost: the source that the last accepted operation for its identifier asked for
  (the payload, or nothing after a deletion), or what an operation for it asked for that came
  later, was sent and was not accepted; before any was accepted, the document at the start takes
  this part. A deletion of a document that is not there counts as accepted. What is refused before a
  request is sent changes nothing, and other documents are not touched.
\<close>

theorem index_last_delivery_wins:
  assumes "elastic_documented a view" and "deliver (elastic_Apply parse a) ds w = (answers, w')"
  shows "length answers = length ds
    \<and> view w' i \<in> contents_after (elastic_slot a) (elastic_sends parse a) elastic_wanted i
        (zip (map snd ds) answers) {view w i}"
  using target.deliver_contents [OF elastic_target [OF assms(1)] assms(2), of i "{view w i}"]
    deliver_length [OF assms(2)] by simp

definition sample_endpoint :: url where
  "sample_endpoint = \<lparr>u_Scheme = ''http'', u_Opaque = [], u_User = None, u_Host = ''es:9200'', u_Path = [],
     u_RawPath = [], u_OmitHost = False, u_ForceQuery = False, u_RawQuery = [], u_Fragment = [], u_EscapedFragment = []\<rparr>"

definition contact_key :: ProjectionKey where
  "contact_key = Some [(''id'', Some ''42'')]"

definition sample_ids :: DocumentIDFunc where
  "sample_ids d = (if pi_Key d = contact_key then Inr ''42'' else Inl ErrProjectionNotFound)"

definition sample_index :: "index_server elastic_applier" where
  "sample_index = \<lparr>ea_client = index_client, ea_endpoint = sample_endpoint, ea_index = ''contacts'',
     ea_documentID = sample_ids, ea_refresh = ''wait_for''\<rparr>"

definition contact_delete :: projection_operation where
  "contact_delete = \<lparr>op_Type = ProjectionOpDelete, op_Identity = \<lparr>pi_Type = ''Contact'', pi_Key = contact_key\<rparr>,
     op_Projection = None\<rparr>"

lemma index_last_delivery_wins_witness:
  "let ds = [(None, contact_delete), (None, contact_delete), (None, contact_delete\<lparr>op_Type := []\<rparr>)];
       w = \<lparr>is_docs = (\<lambda>k. Some ''{}''), is_faults = [Some (Inl CtxDeadlineExceeded, True)]\<rparr>
   in is_docs (snd (deliver (elastic_Apply (\<lambda>u. Inr sample_endpoint) sample_index) ds w)) (documentURL sample_index ''42'') = None"
proof -
  let ?ds = "[(None, contact_delete), (None, contact_delete), (None, contact_delete\<lparr>op_Type := []\<rparr>)]"
  let ?w = "\<lparr>is_docs = (\<lambda>k. Some ''{}''), is_faults = [Some (Inl CtxDeadlineExceeded, True)]\<rparr>"
  let ?f = "elastic_Apply (\<lambda>u. Inr sample_endpoint) sample_index"
  have client: "ea_client sample_index = index_client" by (simp add: sample_index_def)
  have doc: "elastic_documented sample_index (index_view sample_index)"
    by (rule index_documented) (simp_all add: sample_index_def endpoint_url_def sample_endpoint_def)
  have slot: "elastic_slot sample_index (op_Identity contact_delete) = Some ''42''"
    by (simp add: elastic_slot_def sample_index_def sample_ids_def contact_delete_def)
  have missing: "isMissingDocumentDelete (take 4096 (hs_body (index_answer
      \<lparr>hr_method = ''DELETE'', hr_url = u, hr_contentType = None, hr_body = []\<rparr> None)))"
      "hs_status (index_answer \<lparr>hr_method = ''DELETE'', hr_url = u, hr_contentType = None, hr_body = []\<rparr> None) = 404" for u
    by (simp add: index_answer_def, code_simp) (simp add: index_answer_def)
  have unsupported: "[] \<noteq> ProjectionOpUpsert" "[] \<noteq> ProjectionOpDelete"
    by (simp_all add: ProjectionOpUpsert_def ProjectionOpDelete_def)
  obtain answers w' where run: "deliver ?f ?ds ?w = (answers, w')" by (rule prod.exhaust)
  have answers: "\<exists>e e'. answers = [Some e, None, Some e']"
    using run missing
    by (auto simp: unsupported elastic_Apply_def contact_delete_def sample_index_def [THEN arg_cong, of ea_documentID] sample_ids_def
        applyDelete_def new_request_def elastic_do_def index_client_def Let_def request_effect_def client)
  have "\<not> elastic_sends (\<lambda>u. Inr sample_endpoint) sample_index (contact_delete\<lparr>op_Type := []\<rparr>)"
    by (simp add: elastic_sends_def unsupported)
  with index_last_delivery_wins [OF doc run, of "''42''"] answers slot
  have "index_view sample_index w' ''42'' = None"
    by (auto simp: elastic_wanted_def contact_delete_def split: if_splits)
  with run show ?thesis by (simp add: index_view_def)
qed

text \<open>
  C11: Documents never share a URL: with one endpoint and refresh setting, whatever bytes the
  names hold, two documents have the same URL exactly when index and identifier are the same.\<close>

theorem document_urls_distinct:
  assumes "endpoint_url (ea_endpoint a)" and "ea_endpoint b = ea_endpoint a" and "ea_refresh b = ea_refresh a"
  shows "documentURL a i = documentURL b j \<longleftrightarrow> ea_index a = ea_index b \<and> i = j"
proof
  assume "documentURL a i = documentURL b j"
  then show "ea_index a = ea_index b \<and> i = j" by (rule documentURL_inj [OF assms])
next
  assume "ea_index a = ea_index b \<and> i = j"
  then show "documentURL a i = documentURL b j" using assms(2,3) by (simp add: documentURL_def document_path_def Let_def)
qed

lemma document_urls_distinct_witness:
  "documentURL sample_index ''a/b'' \<noteq> documentURL sample_index ''a%2Fb''"
proof -
  have "endpoint_url (ea_endpoint sample_index)" by (simp add: endpoint_url_def sample_index_def sample_endpoint_def)
  from document_urls_distinct [OF this refl refl, of "''a/b''" "''a%2Fb''"] show ?thesis by simp
qed

text \<open>The path is escaped by the applier and then once more by \<open>String\<close>.\<close>

lemma escaped_twice: "documentURL sample_index ''a b'' = ''http://es:9200/contacts/_doc/a%2520b?refresh=wait_for''"
  by code_simp

text \<open>
  C12: The default identifier of a projection depends on its type and on the canonical text of
  its key, not on how the key was written, and tells any two such projections apart unless SHA-256
  has the same digest for the two texts it is given, which are then different.\<close>

theorem default_ids_distinct:
  assumes "DefaultDocumentID x = Inr i" and "DefaultDocumentID y = Inr j"
  shows "i = j \<longleftrightarrow>
      pi_Type x = pi_Type y \<and> json_Marshal_key (pi_Key x) = json_Marshal_key (pi_Key y)
      \<or> document_preimage x \<noteq> document_preimage y
        \<and> map_sum (\<lambda>e. e) sha256 (document_preimage x) = map_sum (\<lambda>e. e) sha256 (document_preimage y)"
proof -
  obtain s t where st: "json_Marshal_key (pi_Key x) = Inr s" "json_Marshal_key (pi_Key y) = Inr t"
      "i = hexEncodeToString (sha256 (pi_Type x @ [CHR 0x00] @ s))" "j = hexEncodeToString (sha256 (pi_Type y @ [CHR 0x00] @ t))"
    using assms by (auto simp: DefaultDocumentID_def split: sum.splits)
  have "pi_Type x @ [CHR 0x00] @ s = pi_Type y @ [CHR 0x00] @ t \<longleftrightarrow> pi_Type x = pi_Type y \<and> s = t"
    using preimage_split key_text_no_nul st(1,2) by blast
  then show ?thesis by (auto simp: document_preimage_def st)
qed

lemma default_ids_distinct_witness:
  "\<exists>i. DefaultDocumentID \<lparr>pi_Type = ''Contact'', pi_Key = contact_key\<rparr> = Inr i
     \<and> DefaultDocumentID \<lparr>pi_Type = ''Contact'', pi_Key = sample_key\<rparr> = Inr i"
proof -
  have m: "json_Marshal_key contact_key = Inr ''{\"id\":42}''" "json_Marshal_key sample_key = Inr ''{\"id\":42}''"
    by code_simp+
  obtain i j where ij: "DefaultDocumentID \<lparr>pi_Type = ''Contact'', pi_Key = contact_key\<rparr> = Inr i"
      "DefaultDocumentID \<lparr>pi_Type = ''Contact'', pi_Key = sample_key\<rparr> = Inr j"
    by (simp add: DefaultDocumentID_def m)
  from default_ids_distinct [OF ij] m have "i = j" by simp
  with ij show ?thesis by blast
qed

end
