(* ===== verification/DF_Duration.thy ===== *)
theory DF_Duration
  imports DF_Text
begin

text \<open>
  \<open>time.ParseDuration\<close> (Go 1.25), which reads the lease of the configuration: a sign, then
  numbers with units. The whole part is counted in 64-bit integers, whose overflow is an error;
  a fraction is a product of 64-bit floats, so rounding to 53 bits is spelled out on ratios of
  natural numbers. The lemmas: what is read fits a duration, and whole seconds are read as written.
\<close>

section \<open>Rounding to 64-bit floats\<close>

fun bit_count :: "nat \<Rightarrow> nat" where
  "bit_count n = (if n = 0 then 0 else Suc (bit_count (n div 2)))"

declare bit_count.simps [simp del]

text \<open>
  The float nearest to a positive ratio, ties to even, as a ratio: 53 bits are kept. The values
  here are far from the smallest and the largest floats.
\<close>

definition scale_ratio :: "nat \<Rightarrow> nat \<Rightarrow> int \<Rightarrow> nat \<times> nat" where
  "scale_ratio p q e = (if 0 \<le> e then (p, q * 2 ^ nat e) else (p * 2 ^ nat (- e), q))"

definition round_half_even :: "nat \<Rightarrow> nat \<Rightarrow> nat" where
  "round_half_even p q =
     (let n = p div q; r = p mod q in
      if q < 2 * r \<or> 2 * r = q \<and> odd n then n + 1 else n)"

definition float64 :: "nat \<times> nat \<Rightarrow> nat \<times> nat" where
  "float64 x =
     (case x of (p, q) \<Rightarrow>
        if p = 0 then (0, 1)
        else
          (let e0 = int (bit_count p) - int (bit_count q) - 53;
               e = (case scale_ratio p q e0 of (a, b) \<Rightarrow> if a < b * 2 ^ 53 then e0 else e0 + 1);
               (a, b) = scale_ratio p q e;
               n = round_half_even a b
           in if 0 \<le> e then (n * 2 ^ nat e, 1) else (n, 2 ^ nat (- e))))"

text \<open>\<open>uint64(float64(f) * (float64(unit) / scale))\<close>, where the scale is a power of ten.\<close>

definition fraction_nanos :: "nat \<Rightarrow> nat \<Rightarrow> nat \<Rightarrow> nat" where
  "fraction_nanos f u scale =
     (let (a, b) = float64 (f, 1);
          (c, d) = float64 (u, scale);
          (p, q) = float64 (a * c, b * d)
      in p div q)"

section \<open>Reading a duration\<close>

definition time_quote :: "string \<Rightarrow> string" where
  "time_quote s =
     [CHR 0x22] @ concat (map (\<lambda>c.
        if 0x80 \<le> byte c \<or> byte c < 0x20
        then [CHR 0x5C, CHR ''x'', hex_digit (byte c div 16), hex_digit (byte c mod 16)]
        else if c = CHR 0x22 \<or> c = CHR 0x5C then [CHR 0x5C, c] else [c]) s) @ [CHR 0x22]"

definition unit_map :: "(string \<times> nat) list" where
  "unit_map =
     [(''ns'', 1), (''us'', 1000), ([CHR 0xC2, CHR 0xB5, CHR ''s''], 1000), ([CHR 0xCE, CHR 0xBC, CHR ''s''], 1000),
      (''ms'', 1000000), (''s'', 1000000000), (''m'', 60000000000), (''h'', 3600000000000)]"

fun leadingInt :: "nat \<Rightarrow> string \<Rightarrow> (nat \<times> string) option" where
  "leadingInt x [] = Some (x, [])"
| "leadingInt x (c # s) =
     (if \<not> is_digit c then Some (x, c # s)
      else if 2 ^ 63 div 10 < x then None
      else (let y = x * 10 + (byte c - 48) in if 2 ^ 63 < y then None else leadingInt y s))"

text \<open>The digits of a fraction that no longer fit are skipped.\<close>

fun leadingFraction :: "nat \<Rightarrow> nat \<Rightarrow> bool \<Rightarrow> string \<Rightarrow> nat \<times> nat \<times> string" where
  "leadingFraction x scale overflow [] = (x, scale, [])"
| "leadingFraction x scale overflow (c # s) =
     (if \<not> is_digit c then (x, scale, c # s)
      else if overflow \<or> (2 ^ 63 - 1) div 10 < x then leadingFraction x scale True s
      else
        (let y = x * 10 + (byte c - 48) in
         if 2 ^ 63 < y then leadingFraction x scale True s
         else leadingFraction y (scale * 10) False s))"

definition unit_char :: "char \<Rightarrow> bool" where
  "unit_char c \<longleftrightarrow> c \<noteq> CHR ''.'' \<and> \<not> is_digit c"

definition invalid_duration :: "string \<Rightarrow> string" where
  "invalid_duration orig = ''time: invalid duration '' @ time_quote orig"

text \<open>One number with its unit: its nanoseconds and the rest of the text, or the message of the error.\<close>

definition duration_part :: "string \<Rightarrow> string \<Rightarrow> string + (nat \<times> string)" where
  "duration_part orig s =
     (if \<not> (s \<noteq> [] \<and> (hd s = CHR ''.'' \<or> is_digit (hd s))) then Inl (invalid_duration orig)
      else
        (case leadingInt 0 s of
           None \<Rightarrow> Inl (invalid_duration orig)
         | Some (v, s1) \<Rightarrow>
             (let pre = (length s \<noteq> length s1);
                  dot = (s1 \<noteq> [] \<and> hd s1 = CHR ''.'');
                  (f, scale, s2) = (if dot then leadingFraction 0 1 False (tl s1) else (0, 1, s1));
                  post = (dot \<and> length (tl s1) \<noteq> length s2);
                  u = takeWhile unit_char s2;
                  rest = dropWhile unit_char s2
              in
              if \<not> pre \<and> \<not> post then Inl (invalid_duration orig)
              else if u = [] then Inl (''time: missing unit in duration '' @ time_quote orig)
              else
                (case map_of unit_map u of
                   None \<Rightarrow> Inl (''time: unknown unit '' @ time_quote u @ '' in duration '' @ time_quote orig)
                 | Some unit \<Rightarrow>
                     if 2 ^ 63 div unit < v then Inl (invalid_duration orig)
                     else
                       (let v1 = v * unit + (if 0 < f then fraction_nanos f unit scale else 0) in
                        if 0 < f \<and> 2 ^ 63 < v1 then Inl (invalid_duration orig) else Inr (v1, rest))))))"

lemma leadingInt_length: "leadingInt x s = Some (y, r) \<Longrightarrow> length r \<le> length s"
  by (induction x s rule: leadingInt.induct) (auto simp: Let_def split: if_splits)

lemma leadingFraction_length: "leadingFraction x sc ov s = (y, sc', r) \<Longrightarrow> length r \<le> length s"
proof (induction x sc ov s rule: leadingFraction.induct)
  case (2 x scale overflow c s)
  then show ?case by (cases "2 ^ 63 < x * 10 + (byte c - 48)") (auto simp: Let_def split: if_splits)
qed simp

lemma duration_part_length: "duration_part orig s = Inr (v, rest) \<Longrightarrow> length rest < length s"
proof -
  assume run: "duration_part orig s = Inr (v, rest)"
  obtain x s1 where s1: "leadingInt 0 s = Some (x, s1)"
    using run by (auto simp: duration_part_def split: if_splits option.splits)
  define dot where "dot = (s1 \<noteq> [] \<and> hd s1 = CHR ''.'')"
  obtain f sc s2 where s2: "(if dot then leadingFraction 0 1 False (tl s1) else (0, 1, s1)) = (f, sc, s2)"
    by (rule prod_cases3)
  have "length s2 \<le> length s1" using s2 leadingFraction_length by (fastforce split: if_splits)
  moreover have "takeWhile unit_char s2 \<noteq> []" "rest = dropWhile unit_char s2"
    using run s2 by (auto simp: duration_part_def s1 dot_def Let_def split: if_splits option.splits)
  moreover have "length s2 = length (takeWhile unit_char s2) + length (dropWhile unit_char s2)"
    by (metis length_append takeWhile_dropWhile_id)
  moreover have "0 < length (takeWhile unit_char s2)" using calculation(2) by blast
  ultimately show ?thesis using leadingInt_length [OF s1] by (simp only:)
qed

text \<open>The sum wraps in 64 bits before it is compared.\<close>

function duration_parts :: "string \<Rightarrow> nat \<Rightarrow> string \<Rightarrow> string + nat" where
  "duration_parts orig d s =
     (if s = [] then Inr d
      else
        (case duration_part orig s of
           Inl e \<Rightarrow> Inl e
         | Inr (v, rest) \<Rightarrow>
             (let d1 = (d + v) mod 2 ^ 64 in
              if 2 ^ 63 < d1 then Inl (invalid_duration orig) else duration_parts orig d1 rest)))"
  by auto
termination by (relation "measure (\<lambda>(orig, d, s). length s)") (auto simp: duration_part_length)

declare duration_parts.simps [simp del]

definition ParseDuration :: "string \<Rightarrow> string + duration" where
  "ParseDuration s =
     (let sgn = (s \<noteq> [] \<and> (hd s = CHR ''-'' \<or> hd s = CHR ''+''));
          neg = (sgn \<and> hd s = CHR ''-'');
          t = (if sgn then tl s else s)
      in
      if t = ''0'' then Inr 0
      else if t = [] then Inl (invalid_duration s)
      else
        (case duration_parts s 0 t of
           Inl e \<Rightarrow> Inl e
         | Inr d \<Rightarrow>
             if neg then Inr (- int d)
             else if 2 ^ 63 - 1 < d then Inl (invalid_duration s) else Inr (int d)))"

section \<open>What is read\<close>

lemma duration_parts_bound: "duration_parts orig d s = Inr r \<Longrightarrow> d \<le> 2 ^ 63 \<Longrightarrow> r \<le> 2 ^ 63"
proof (induction orig d s rule: duration_parts.induct)
  case (1 orig d s)
  show ?case
  proof (cases "s = []")
    case True
    with 1 show ?thesis by (simp add: duration_parts.simps)
  next
    case False
    with 1(2) obtain v rest where part: "duration_part orig s = Inr (v, rest)"
      by (subst (asm) duration_parts.simps) (auto split: sum.splits)
    with 1(2) False have "\<not> 2 ^ 63 < (d + v) mod 2 ^ 64" "duration_parts orig ((d + v) mod 2 ^ 64) rest = Inr r"
      by (subst (asm) duration_parts.simps, simp add: Let_def split: if_splits)+
    with 1(1) [OF False part refl refl] show ?thesis by simp
  qed
qed

lemma ParseDuration_range: "ParseDuration s = Inr d \<Longrightarrow> - (2 ^ 63) \<le> d \<and> d < 2 ^ 63"
  using duration_parts_bound [of s 0]
  by (fastforce simp: ParseDuration_def Let_def split: if_splits sum.splits)

lemma digits_mono: "x \<le> foldl (\<lambda>acc c. 10 * acc + (of_char c - 48)) x ds" for x :: nat
proof (induction ds arbitrary: x)
  case (Cons c ds)
  have "x \<le> 10 * x + (of_char c - 48)" by simp
  also have "\<dots> \<le> foldl (\<lambda>acc c. 10 * acc + (of_char c - 48)) (10 * x + (of_char c - 48)) ds" by (rule Cons.IH)
  finally show ?case by simp
qed simp

lemma leadingInt_digits:
  assumes "list_all is_digit ds" and "foldl (\<lambda>acc c. 10 * acc + (of_char c - 48)) x ds \<le> 2 ^ 63"
  shows "leadingInt x (ds @ t) = leadingInt (foldl (\<lambda>acc c. 10 * acc + (of_char c - 48)) x ds) t"
  using assms
proof (induction ds arbitrary: x)
  case (Cons c ds)
  let ?y = "10 * x + (of_char c - 48) :: nat"
  have y: "?y \<le> 2 ^ 63" using digits_mono [of ?y ds] Cons.prems(2) by simp
  then have "x \<le> 2 ^ 63 div 10" by simp
  with y Cons show ?case by (simp add: byte_def mult.commute)
qed simp

lemma show_nat_digits: "list_all is_digit (show_nat n)"
proof (induction n rule: show_nat.induct)
  case (1 n)
  have digit: "is_digit (char_of (48 + k))" if "k < 10" for k :: nat
  proof -
    have "(48 + k) mod 256 = 48 + k" using that by simp
    with that show ?thesis by (simp add: is_digit_def byte_def)
  qed
  then show ?case using 1 by (subst show_nat.simps) (simp add: list_all_append)
qed

lemma leadingInt_show: "n \<le> 2 ^ 63 \<Longrightarrow> t = [] \<or> \<not> is_digit (hd t) \<Longrightarrow> leadingInt 0 (show_nat n @ t) = Some (n, t)"
  using leadingInt_digits [OF show_nat_digits, of 0 n t] read_show_nat [of n]
  by (cases t) (simp_all add: read_nat_def)

lemma seconds_part:
  assumes "n \<le> 9223372036"
  shows "duration_part orig (show_nat n @ ''s'') = Inr (n * 1000000000, [])"
proof -
  obtain c cs where c: "show_nat n = c # cs" by (cases "show_nat n") auto
  with show_nat_digits [of n] have digit: "is_digit c" by simp
  have "leadingInt 0 (c # cs @ ''s'') = Some (n, ''s'')"
    using leadingInt_show [of n "''s''"] assms c by (simp add: is_digit_def byte_def)
  with digit assms show ?thesis
    by (simp add: duration_part_def c Let_def unit_char_def is_digit_def byte_def unit_map_def)
qed

lemma ParseDuration_seconds:
  assumes "n \<le> 9223372036"
  shows "ParseDuration (show_nat n @ ''s'') = Inr (int n * second)"
proof -
  obtain c cs where c: "show_nat n = c # cs" by (cases "show_nat n") auto
  with show_nat_digits [of n] have sgn: "c \<noteq> CHR ''-'' \<and> c \<noteq> CHR ''+''" by (auto simp: is_digit_def byte_def)
  have "duration_parts orig 0 (show_nat n @ ''s'') = Inr (n * 1000000000)" for orig
    using assms seconds_part [OF assms, of orig] by (simp add: duration_parts.simps)
  with assms sgn show ?thesis by (simp add: ParseDuration_def Let_def c second_def)
qed

end
