(* ===== verification/DF_Runtime.thy ===== *)
theory DF_Runtime
  imports DF_SqliteWorker DF_Target
begin

text \<open>
  The runtime (\<open>pkg/runtime/registry.go\<close>, \<open>runner.go\<close>): a registry of factories, the
  workers that are built from a configuration, and one cycle of every pipeline. A factory may
  act on the world around the workers. A panic is a result of its own. Pointers and interfaces
  that can be nil are options; the handle of the database, which is only handed on, is a
  parameter of the specification's type.

  The lemmas: what is registered is found, under exactly its name and for good; building asks
  the factories for every pipeline in order and stops at the first that has none; and cycles
  of several pipelines leave no live lease behind.
\<close>

section \<open>Specifications and factories\<close>

record 'd pipeline_spec =
  ps_Name :: string
  ps_SyncID :: SyncID
  ps_StoreType :: string
  ps_StoreDSN :: string
  ps_StoreDB :: "'d option"
  ps_ProjectorName :: string
  ps_SourceType :: string
  ps_SourceProjectionType :: string
  ps_TargetType :: string
  ps_TargetIndex :: string
  ps_ApplierMode :: string

type_synonym 'w projector = "ctx \<Rightarrow> projection_identity \<Rightarrow> 'w \<Rightarrow> (error + projection) \<times> 'w"

type_synonym 'w projection_applier = "ctx \<Rightarrow> projection_operation \<Rightarrow> 'w \<Rightarrow> error option \<times> 'w"

type_synonym ('d, 'w) projector_factory =
  "ctx \<Rightarrow> 'd pipeline_spec \<Rightarrow> 'w \<Rightarrow> (error + 'w projector option) \<times> 'w"

type_synonym ('d, 'w) applier_factory =
  "ctx \<Rightarrow> 'd pipeline_spec \<Rightarrow> 'w \<Rightarrow> (error + 'w projection_applier option) \<times> 'w"

record ('d, 'w) pipeline_runtime =
  pl_Spec :: "'d pipeline_spec"
  pl_Projector :: "'w projector"
  pl_Applier :: "'w projection_applier"

text \<open>The sentinel errors; a nil map of factories reads as an empty one.\<close>

definition ErrProjectorNotRegistered :: error where
  "ErrProjectorNotRegistered = Errors_New ''runtime projector not registered''"

definition ErrApplierNotRegistered :: error where
  "ErrApplierNotRegistered = Errors_New ''runtime applier not registered''"

record ('d, 'w) registry =
  re_projectors :: "(string \<times> ('d, 'w) projector_factory) list"
  re_appliers :: "(string \<times> ('d, 'w) applier_factory) list"

definition NewRegistry :: "('d, 'w) registry" where
  "NewRegistry = \<lparr>re_projectors = [], re_appliers = []\<rparr>"

section \<open>Registering\<close>

text \<open>A panic is its message.\<close>

definition RegisterProjector ::
    "string \<Rightarrow> ('d, 'w) projector_factory option \<Rightarrow> ('d, 'w) registry option \<Rightarrow> string + ('d, 'w) registry"
where
  "RegisterProjector name factory registry =
     (case registry of
        None \<Rightarrow> Inl ''runtime registry is required''
      | Some r \<Rightarrow>
          (case factory of
             None \<Rightarrow> Inl ''runtime projector factory is required''
           | Some f \<Rightarrow>
               (let trimmed = TrimSpace name in
                if trimmed = [] then Inl ''runtime projector name is required''
                else if trimmed \<noteq> name
                  then Inl (''runtime projector name must not include leading/trailing whitespace: '' @ strconv_Quote name)
                else if has_key name (re_projectors r)
                  then Inl (''runtime projector already registered: '' @ strconv_Quote name)
                else Inr (r\<lparr>re_projectors := put name f (re_projectors r)\<rparr>))))"

definition RegisterApplier ::
    "string \<Rightarrow> ('d, 'w) applier_factory option \<Rightarrow> ('d, 'w) registry option \<Rightarrow> string + ('d, 'w) registry"
where
  "RegisterApplier targetType factory registry =
     (case registry of
        None \<Rightarrow> Inl ''runtime registry is required''
      | Some r \<Rightarrow>
          (case factory of
             None \<Rightarrow> Inl ''runtime applier factory is required''
           | Some f \<Rightarrow>
               (let trimmed = TrimSpace targetType in
                if trimmed = [] then Inl ''runtime applier target type is required''
                else if trimmed \<noteq> targetType
                  then Inl (''runtime applier target type must not include leading/trailing whitespace: '' @ strconv_Quote targetType)
                else if has_key targetType (re_appliers r)
                  then Inl (''runtime applier already registered: '' @ strconv_Quote targetType)
                else Inr (r\<lparr>re_appliers := put targetType f (re_appliers r)\<rparr>))))"

definition lookupProjector :: "('d, 'w) registry \<Rightarrow> string \<Rightarrow> ('d, 'w) projector_factory option" where
  "lookupProjector r name = map_of (re_projectors r) name"

definition lookupApplier :: "('d, 'w) registry \<Rightarrow> string \<Rightarrow> ('d, 'w) applier_factory option" where
  "lookupApplier r targetType = map_of (re_appliers r) targetType"

definition HasProjector :: "('d, 'w) registry \<Rightarrow> string \<Rightarrow> bool" where
  "HasProjector r name \<longleftrightarrow> lookupProjector r name \<noteq> None"

definition HasApplier :: "('d, 'w) registry \<Rightarrow> string \<Rightarrow> bool" where
  "HasApplier r targetType \<longleftrightarrow> lookupApplier r targetType \<noteq> None"

section \<open>Resolving a pipeline\<close>

definition pipeline_error :: "string \<Rightarrow> string \<Rightarrow> error \<Rightarrow> string \<Rightarrow> error" where
  "pipeline_error name what e rest = Wrapped (''pipeline '' @ strconv_Quote name @ what) e rest"

definition not_registered :: "string \<Rightarrow> error \<Rightarrow> string \<Rightarrow> error" where
  "not_registered name e what = pipeline_error name '': '' e ('': '' @ strconv_Quote what)"

definition ResolvePipeline ::
    "ctx \<Rightarrow> 'd pipeline_spec \<Rightarrow> ('d, 'w) registry option \<Rightarrow> 'w \<Rightarrow> (error + ('d, 'w) pipeline_runtime) \<times> 'w"
where
  "ResolvePipeline ctx spec registry w =
     (case registry of
        None \<Rightarrow> (Inl (Errors_New ''runtime registry is required''), w)
      | Some r \<Rightarrow>
          (case (lookupProjector r (ps_ProjectorName spec), lookupApplier r (ps_TargetType spec)) of
             (None, _) \<Rightarrow> (Inl (not_registered (ps_Name spec) ErrProjectorNotRegistered (ps_ProjectorName spec)), w)
           | (Some _, None) \<Rightarrow> (Inl (not_registered (ps_Name spec) ErrApplierNotRegistered (ps_TargetType spec)), w)
           | (Some projectorFactory, Some applierFactory) \<Rightarrow>
               (case projectorFactory ctx spec w of
                  (Inl e, w1) \<Rightarrow>
                    (Inl (pipeline_error (ps_Name spec) ('': build projector '' @ strconv_Quote (ps_ProjectorName spec) @ '': '') e []), w1)
                | (Inr None, w1) \<Rightarrow>
                    (Inl (Errors_New (''pipeline '' @ strconv_Quote (ps_Name spec) @ '': projector ''
                       @ strconv_Quote (ps_ProjectorName spec) @ '' resolved to nil'')), w1)
                | (Inr (Some projector), w1) \<Rightarrow>
                    (case applierFactory ctx spec w1 of
                       (Inl e, w2) \<Rightarrow>
                         (Inl (pipeline_error (ps_Name spec) ('': build applier target '' @ strconv_Quote (ps_TargetType spec) @ '': '') e []), w2)
                     | (Inr None, w2) \<Rightarrow>
                         (Inl (Errors_New (''pipeline '' @ strconv_Quote (ps_Name spec) @ '': applier for target ''
                            @ strconv_Quote (ps_TargetType spec) @ '' resolved to nil'')), w2)
                     | (Inr (Some applier), w2) \<Rightarrow>
                         (Inr \<lparr>pl_Spec = spec, pl_Projector = projector, pl_Applier = applier\<rparr>, w2)))))"

section \<open>Building the workers\<close>

record build_source_config =
  bs_Type :: string
  bs_ProjectionType :: string

record build_target_config =
  bt_Type :: string
  bt_Index :: string

record build_pipeline_config =
  bp_Name :: string
  bp_SyncID :: string
  bp_Source :: build_source_config
  bp_Projector :: string
  bp_Target :: build_target_config
  bp_Applier :: string

record build_store_config =
  bc_Type :: string
  bc_DSN :: string

record build_config =
  bc_Store :: build_store_config
  bc_Pipelines :: "build_pipeline_config list"

text \<open>
  The job store is given by its operations; \<open>wd_batchClaims\<close> says whether it offers batch
  claims. The dispatcher is its one operation.
\<close>

record ('s, 'd) worker_deps =
  wd_JobStore :: "'s job_store_ops option"
  wd_batchClaims :: bool
  wd_Dispatcher :: "(ctx \<Rightarrow> time \<Rightarrow> SyncID \<Rightarrow> int \<Rightarrow> 's \<Rightarrow> (error + sync_job list) \<times> 's) option"
  wd_StoreDB :: "'d option"
  wd_WorkerID :: string
  wd_LockFor :: duration
  wd_PullSize :: int
  wd_BatchSize :: int
  wd_Concurrency :: int

text \<open>A worker with its collaborators.\<close>

record ('s, 'w) runtime_worker =
  rw_settings :: sync_worker
  rw_ops :: "'s job_store_ops"
  rw_Projector :: "'w projector"
  rw_Applier :: "'w projection_applier"

record ('s, 'w) pipeline_runner =
  pr_Name :: string
  pr_SyncID :: SyncID
  pr_Worker :: "('s, 'w) runtime_worker option"

definition pipeline_spec_of :: "build_config \<Rightarrow> ('s, 'd) worker_deps \<Rightarrow> build_pipeline_config \<Rightarrow> 'd pipeline_spec" where
  "pipeline_spec_of cfg deps p =
     \<lparr>ps_Name = bp_Name p, ps_SyncID = bp_SyncID p, ps_StoreType = bc_Type (bc_Store cfg),
      ps_StoreDSN = bc_DSN (bc_Store cfg), ps_StoreDB = wd_StoreDB deps, ps_ProjectorName = bp_Projector p,
      ps_SourceType = bs_Type (bp_Source p), ps_SourceProjectionType = bs_ProjectionType (bp_Source p),
      ps_TargetType = bt_Type (bp_Target p), ps_TargetIndex = bt_Index (bp_Target p),
      ps_ApplierMode = bp_Applier p\<rparr>"

definition built_worker ::
    "('s, 'd) worker_deps \<Rightarrow> 's job_store_ops \<Rightarrow> ('d, 'w) pipeline_runtime \<Rightarrow> ('s, 'w) runtime_worker"
where
  "built_worker deps jobStore resolved =
     \<lparr>rw_settings =
        \<lparr>sw_hasJobStore = True, sw_batchClaims = wd_batchClaims deps,
         sw_hasDispatcher = (wd_Dispatcher deps \<noteq> None), sw_hasProjector = True, sw_hasApplier = True,
         sw_SyncID = ps_SyncID (pl_Spec resolved), sw_WorkerID = wd_WorkerID deps, sw_LockFor = wd_LockFor deps,
         sw_PullSize = wd_PullSize deps, sw_BatchSize = wd_BatchSize deps, sw_Concurrency = wd_Concurrency deps\<rparr>,
      rw_ops = (case wd_Dispatcher deps of None \<Rightarrow> jobStore | Some d \<Rightarrow> jobStore\<lparr>jo_DispatchPending := d\<rparr>),
      rw_Projector = pl_Projector resolved, rw_Applier = pl_Applier resolved\<rparr>"

fun build_pipelines ::
    "ctx \<Rightarrow> build_config \<Rightarrow> ('d, 'w) registry \<Rightarrow> ('s, 'd) worker_deps \<Rightarrow> 's job_store_ops \<Rightarrow> build_pipeline_config list
       \<Rightarrow> 'w \<Rightarrow> (error + ('s, 'w) pipeline_runner list) \<times> 'w"
where
  "build_pipelines ctx cfg r deps jobStore [] w = (Inr [], w)"
| "build_pipelines ctx cfg r deps jobStore (p # ps) w =
     (if bs_Type (bp_Source p) = ''postgres-outbox'' \<and> wd_Dispatcher deps = None
      then (Inl (Errors_New (''pipeline '' @ strconv_Quote (bp_Name p)
              @ '': runtime dispatcher is required for source.type=postgres-outbox'')), w)
      else
        (case ResolvePipeline ctx (pipeline_spec_of cfg deps p) (Some r) w of
           (Inl e, w1) \<Rightarrow> (Inl e, w1)
         | (Inr resolved, w1) \<Rightarrow>
             apfst (map_sum (\<lambda>e. e) (Cons \<lparr>pr_Name = ps_Name (pl_Spec resolved), pr_SyncID = ps_SyncID (pl_Spec resolved),
                 pr_Worker = Some (built_worker deps jobStore resolved)\<rparr>))
               (build_pipelines ctx cfg r deps jobStore ps w1)))"

definition BuildFromConfig ::
    "ctx \<Rightarrow> build_config option \<Rightarrow> ('d, 'w) registry option \<Rightarrow> ('s, 'd) worker_deps \<Rightarrow> 'w
       \<Rightarrow> (error + ('s, 'w) pipeline_runner list) \<times> 'w"
where
  "BuildFromConfig ctx config registry deps w =
     (case config of
        None \<Rightarrow> (Inl (Errors_New ''runtime config is required''), w)
      | Some cfg \<Rightarrow>
          (case registry of
             None \<Rightarrow> (Inl (Errors_New ''runtime registry is required''), w)
           | Some r \<Rightarrow>
               (case wd_JobStore deps of
                  None \<Rightarrow> (Inl (Errors_New ''runtime job store is required''), w)
                | Some jobStore \<Rightarrow>
                    if wd_WorkerID deps = [] then (Inl (Errors_New ''runtime worker id is required''), w)
                    else if wd_LockFor deps \<le> 0 then (Inl (Errors_New ''runtime lock_for must be positive''), w)
                    else build_pipelines ctx cfg r deps jobStore (bc_Pipelines cfg) w)))"

section \<open>One cycle of every pipeline\<close>

definition worker_env :: "schedule \<Rightarrow> ('s, 'w) runtime_worker \<Rightarrow> ('s, 'w) env" where
  "worker_env sched v = \<lparr>en_ops = rw_ops v, en_project = rw_Projector v, en_apply = rw_Applier v, en_sched = sched\<rparr>"

text \<open>
  The routines of the n-th pipeline move as \<open>picks n\<close> says; there is no result while they are
  still under way.
\<close>

fun run_pipelines ::
    "schedule \<Rightarrow> (nat \<Rightarrow> nat list) \<Rightarrow> nat \<Rightarrow> ('s, 'w) pipeline_runner list \<Rightarrow> ('s, 'w) machine
       \<Rightarrow> error option option \<times> ('s, 'w) machine"
where
  "run_pipelines sched picks n [] m = (Some None, m)"
| "run_pipelines sched picks n (p # ps) m =
     (case pr_Worker p of
        None \<Rightarrow> (Some (Some (Errors_New (''pipeline '' @ strconv_Quote (pr_Name p) @ '': worker is nil''))), m)
      | Some v \<Rightarrow>
          (case RunOnce (worker_env sched v) (rw_settings v) (picks n) m of
             (None, m1) \<Rightarrow> (None, m1)
           | (Some (Some e), m1) \<Rightarrow> (Some (Some (pipeline_error (pr_Name p) '' run_once: '' e [])), m1)
           | (Some None, m1) \<Rightarrow> run_pipelines sched picks (Suc n) ps m1))"

definition runtime_RunOnce ::
    "schedule \<Rightarrow> (nat \<Rightarrow> nat list) \<Rightarrow> ('s, 'w) pipeline_runner list option \<Rightarrow> ('s, 'w) machine
       \<Rightarrow> error option option \<times> ('s, 'w) machine"
where
  "runtime_RunOnce sched picks built m =
     (case built of
        None \<Rightarrow> (Some (Some (Errors_New ''runtime build result is required'')), m)
      | Some ps \<Rightarrow> run_pipelines sched picks 0 ps m)"

section \<open>Lemmas\<close>

lemma built_settings:
  "sw_SyncID (rw_settings (built_worker deps js r)) = ps_SyncID (pl_Spec r)"
  "sw_WorkerID (rw_settings (built_worker deps js r)) = wd_WorkerID deps"
  "sw_Concurrency (rw_settings (built_worker deps js r)) = wd_Concurrency deps"
  "validateRunOnceDependencies (rw_settings (built_worker deps js r)) =
     (if ps_SyncID (pl_Spec r) = [] then Some (Errors_New ''sync worker config: sync_id is required'')
      else if wd_WorkerID deps = [] then Some (Errors_New ''sync worker config: worker_id is required'')
      else if wd_LockFor deps \<le> 0 then Some (Errors_New ''sync worker config: lock_for must be positive'')
      else None)"
  by (simp_all add: built_worker_def validateRunOnceDependencies_def worker_Validate_def worker_config_def)

lemma ResolvePipeline_ok:
  assumes "ResolvePipeline ctx spec (Some r) w = (Inr resolved, w')"
  shows "pl_Spec resolved = spec \<and> HasProjector r (ps_ProjectorName spec) \<and> HasApplier r (ps_TargetType spec)"
  using assms by (auto simp: ResolvePipeline_def HasProjector_def HasApplier_def
      split: option.splits prod.splits sum.splits)

text \<open>What is true of the worker of every resolved pipeline is true of every built worker.\<close>

lemma build_pipelines_ok:
  assumes "build_pipelines ctx cfg r deps js ps w = (Inr runners, w')"
  shows "map (\<lambda>x. (pr_Name x, pr_SyncID x)) runners = map (\<lambda>p. (bp_Name p, bp_SyncID p)) ps
    \<and> list_all (\<lambda>p. HasProjector r (bp_Projector p) \<and> HasApplier r (bt_Type (bp_Target p))) ps
    \<and> list_all (\<lambda>x. \<exists>resolved. pr_SyncID x = ps_SyncID (pl_Spec resolved)
         \<and> pr_Worker x = Some (built_worker deps js resolved)) runners"
  using assms
proof (induction ps arbitrary: w runners)
  case (Cons p ps)
  obtain resolved w1 where r: "ResolvePipeline ctx (pipeline_spec_of cfg deps p) (Some r) w = (Inr resolved, w1)"
    using Cons.prems by (auto split: if_splits prod.splits sum.splits)
  obtain built w2 where built: "build_pipelines ctx cfg r deps js ps w1 = (built, w2)" by (rule prod.exhaust)
  have "map_sum (\<lambda>e. e) (Cons \<lparr>pr_Name = ps_Name (pl_Spec resolved), pr_SyncID = ps_SyncID (pl_Spec resolved),
      pr_Worker = Some (built_worker deps js resolved)\<rparr>) built = Inr runners \<and> w2 = w'"
    using Cons.prems r built by (auto split: if_splits)
  then obtain rest where rest: "build_pipelines ctx cfg r deps js ps w1 = (Inr rest, w')"
      "runners = \<lparr>pr_Name = ps_Name (pl_Spec resolved), pr_SyncID = ps_SyncID (pl_Spec resolved),
         pr_Worker = Some (built_worker deps js resolved)\<rparr> # rest"
    using built by (cases built) auto
  from Cons.IH [OF rest(1)] ResolvePipeline_ok [OF r] show ?case
    by (auto simp: rest(2) pipeline_spec_of_def intro!: exI [of _ resolved])
qed simp

lemma BuildFromConfig_ok:
  assumes "BuildFromConfig ctx config registry deps w = (Inr runners, w')"
  obtains cfg r js where "config = Some cfg" "registry = Some r" "wd_JobStore deps = Some js"
    "wd_WorkerID deps \<noteq> []" "0 < wd_LockFor deps"
    "build_pipelines ctx cfg r deps js (bc_Pipelines cfg) w = (Inr runners, w')"
  using assms that by (auto simp: BuildFromConfig_def split: option.splits if_splits)

context job_store
begin

lemma in_hand_sched: "en_sched E = en_sched E' \<Longrightarrow> in_hand E v S m = in_hand E' v S m"
  by (simp add: in_hand_def now_at_def)

lemma RunOnce_hand:
  assumes E: "clock_ok E" and start: "in_hand E (sw_WorkerID v) {} m" and one: "effectiveConcurrency v = 1"
    and run: "RunOnce E v picks m = (r, m')"
  shows "in_hand E (sw_WorkerID v) {} m'"
proof -
  have id: "WorkerIDForRoutine v 0 = sw_WorkerID v" by (simp add: WorkerIDForRoutine_def)
  obtain d m1 where dispatch: "run E None (dispatchDeltas v) m = (d, m1)" by (metis prod.exhaust)
  obtain b m2 where batch: "run E None (processBatch v (sw_WorkerID v) (effectiveBatchSize v)) m1 = (b, m2)"
    by (metis prod.exhaust)
  have m1: "in_hand E (sw_WorkerID v) {} m1" by (rule hoareD [OF dispatch_hand [OF E] start dispatch])
  have "in_hand E (sw_WorkerID v) {} m2" by (rule hoareD [OF processBatch_hand [OF E] m1 batch])
  with m1 show ?thesis
    using run start dispatch batch one id by (auto simp: RunOnce_def split: option.splits)
qed

lemma run_pipelines_hand:
  assumes "mono (sc_clock sched)" and "\<forall>n. sc_final sched n = None"
    and "list_all (\<lambda>p. \<forall>v. pr_Worker p = Some v \<longrightarrow> rw_ops v = ops \<and> effectiveConcurrency (rw_settings v) = 1
       \<and> sw_WorkerID (rw_settings v) = wid) ps"
    and "in_hand E wid {} m" and "en_sched E = sched" and "run_pipelines sched picks n ps m = (r, m')"
  shows "in_hand E wid {} m'"
  using assms(3,4,6)
proof (induction ps arbitrary: n m)
  case (Cons p ps)
  show ?case
  proof (cases "pr_Worker p")
    case None
    with Cons.prems show ?thesis by simp
  next
    case (Some v)
    let ?E = "worker_env sched v"
    obtain q m1 where q: "RunOnce ?E (rw_settings v) (picks n) m = (q, m1)" by (rule prod.exhaust)
    have sched: "en_sched ?E = en_sched E" by (simp add: worker_env_def assms(5))
    have v: "rw_ops v = ops" "effectiveConcurrency (rw_settings v) = 1" "sw_WorkerID (rw_settings v) = wid"
      using Cons.prems(1) Some by auto
    have ok: "clock_ok ?E" using assms(1,2) v by (simp add: clock_ok_def worker_env_def)
    have "in_hand ?E (sw_WorkerID (rw_settings v)) {} m" using Cons.prems(2) in_hand_sched [OF sched] v by simp
    from RunOnce_hand [OF ok this v(2) q] have m1: "in_hand E wid {} m1" using in_hand_sched [OF sched] v by simp
    show ?thesis
    proof (cases "q = Some None")
      case True
      then show ?thesis using Cons.IH [OF _ m1, of "Suc n"] Cons.prems(1,3) Some q by simp
    next
      case False
      then have "m' = m1" using Cons.prems(3) Some q by (auto split: option.splits)
      with m1 show ?thesis by simp
    qed
  qed
qed simp

end

text \<open>
  What building is to do, pipeline by pipeline: the factories registered under the names that the
  pipeline gives are called in turn, the projector's before the applier's, with the specification
  of the pipeline, each in the world that the one before left; the worker gets what they returned.
  The first pipeline that cannot be made ends it: its dispatcher or one of its factories is
  missing, or a factory fails or returns nothing; what follows is not called.
\<close>

definition made_for ::
    "ctx \<Rightarrow> build_config \<Rightarrow> ('d, 'w) registry \<Rightarrow> ('s, 'd) worker_deps \<Rightarrow> build_pipeline_config
       \<Rightarrow> 'w \<Rightarrow> ('s, 'w) pipeline_runner \<Rightarrow> 'w \<Rightarrow> bool"
where
  "made_for ctx cfg r deps p w q w' \<longleftrightarrow> (\<exists>f g projector w1 applier v.
     lookupProjector r (bp_Projector p) = Some f \<and> f ctx (pipeline_spec_of cfg deps p) w = (Inr (Some projector), w1)
     \<and> lookupApplier r (bt_Type (bp_Target p)) = Some g \<and> g ctx (pipeline_spec_of cfg deps p) w1 = (Inr (Some applier), w')
     \<and> pr_Name q = bp_Name p \<and> pr_SyncID q = bp_SyncID p \<and> pr_Worker q = Some v
     \<and> rw_Projector v = projector \<and> rw_Applier v = applier \<and> sw_SyncID (rw_settings v) = bp_SyncID p)"

fun made_in_order ::
    "ctx \<Rightarrow> build_config \<Rightarrow> ('d, 'w) registry \<Rightarrow> ('s, 'd) worker_deps \<Rightarrow> build_pipeline_config list
       \<Rightarrow> 'w \<Rightarrow> ('s, 'w) pipeline_runner list \<Rightarrow> 'w \<Rightarrow> bool"
where
  "made_in_order ctx cfg r deps [] w qs w' \<longleftrightarrow> qs = [] \<and> w' = w"
| "made_in_order ctx cfg r deps (p # ps) w qs w' \<longleftrightarrow>
     (\<exists>q rest w1. qs = q # rest \<and> made_for ctx cfg r deps p w q w1 \<and> made_in_order ctx cfg r deps ps w1 rest w')"

definition cannot_be_made ::
    "ctx \<Rightarrow> build_config \<Rightarrow> ('d, 'w) registry \<Rightarrow> ('s, 'd) worker_deps \<Rightarrow> build_pipeline_config
       \<Rightarrow> 'w \<Rightarrow> error \<Rightarrow> 'w \<Rightarrow> bool"
where
  "cannot_be_made ctx cfg r deps p w e w' \<longleftrightarrow>
     (if bs_Type (bp_Source p) = ''postgres-outbox'' \<and> wd_Dispatcher deps = None then w' = w
      else if \<not> HasProjector r (bp_Projector p)
      then e = not_registered (bp_Name p) ErrProjectorNotRegistered (bp_Projector p) \<and> w' = w
      else if \<not> HasApplier r (bt_Type (bp_Target p))
      then e = not_registered (bp_Name p) ErrApplierNotRegistered (bt_Type (bp_Target p)) \<and> w' = w
      else (\<exists>f g x w1. lookupProjector r (bp_Projector p) = Some f \<and> lookupApplier r (bt_Type (bp_Target p)) = Some g
        \<and> f ctx (pipeline_spec_of cfg deps p) w = (x, w1)
        \<and> (case x of Inr (Some _) \<Rightarrow> \<exists>y. g ctx (pipeline_spec_of cfg deps p) w1 = (y, w') \<and> (\<forall>a. y \<noteq> Inr (Some a))
           | _ \<Rightarrow> w' = w1)))"

lemma ResolvePipeline_made:
  assumes "ResolvePipeline ctx (pipeline_spec_of cfg deps p) (Some r) w = (Inr resolved, w')"
  shows "made_for ctx cfg r deps p w \<lparr>pr_Name = ps_Name (pl_Spec resolved), pr_SyncID = ps_SyncID (pl_Spec resolved),
    pr_Worker = Some (built_worker deps js resolved)\<rparr> w'"
  using assms by (auto simp: ResolvePipeline_def made_for_def built_worker_def pipeline_spec_of_def
      split: option.splits prod.splits sum.splits)

lemma ResolvePipeline_stops:
  assumes "ResolvePipeline ctx (pipeline_spec_of cfg deps p) (Some r) w = (Inl e, w')"
    and "\<not> (bs_Type (bp_Source p) = ''postgres-outbox'' \<and> wd_Dispatcher deps = None)"
  shows "cannot_be_made ctx cfg r deps p w e w'"
  using assms by (auto simp: ResolvePipeline_def cannot_be_made_def HasProjector_def HasApplier_def pipeline_spec_of_def
      split: option.splits prod.splits sum.splits)

lemma build_pipelines_made:
  "build_pipelines ctx cfg r deps js ps w = (Inr runners, w') \<Longrightarrow> made_in_order ctx cfg r deps ps w runners w'"
proof (induction ps arbitrary: w runners)
  case (Cons p ps)
  then obtain resolved w1 where resolved: "ResolvePipeline ctx (pipeline_spec_of cfg deps p) (Some r) w = (Inr resolved, w1)"
    by (auto split: if_splits prod.splits sum.splits)
  obtain built w2 where built: "build_pipelines ctx cfg r deps js ps w1 = (built, w2)" by (rule prod.exhaust)
  with Cons.prems resolved obtain rest where "built = Inr rest" "w2 = w'"
      "runners = \<lparr>pr_Name = ps_Name (pl_Spec resolved), pr_SyncID = ps_SyncID (pl_Spec resolved),
         pr_Worker = Some (built_worker deps js resolved)\<rparr> # rest"
    by (cases built) (auto split: if_splits)
  with ResolvePipeline_made [OF resolved] Cons.IH built show ?case by auto
qed simp

lemma build_pipelines_stops:
  "build_pipelines ctx cfg r deps js ps w = (Inl e, w') \<Longrightarrow>
    \<exists>before p after runners w1. ps = before @ p # after \<and> made_in_order ctx cfg r deps before w runners w1
      \<and> cannot_be_made ctx cfg r deps p w1 e w'"
proof (induction ps arbitrary: w)
  case (Cons p ps)
  obtain x w1 where x: "ResolvePipeline ctx (pipeline_spec_of cfg deps p) (Some r) w = (x, w1)" by (rule prod.exhaust)
  show ?case
  proof (cases "(bs_Type (bp_Source p) = ''postgres-outbox'' \<and> wd_Dispatcher deps = None) \<or> (\<exists>e. x = Inl e)")
    case True
    then have "cannot_be_made ctx cfg r deps p w e w'"
      using Cons.prems x ResolvePipeline_stops [of ctx cfg deps p r w e w']
      by (auto simp: cannot_be_made_def split: if_splits)
    then show ?thesis by (intro exI [of _ "[]"] exI [of _ p] exI [of _ ps] exI [of _ w]) simp
  next
    case False
    then obtain resolved where resolved: "x = Inr resolved" by (cases x) auto
    obtain built w2 where built: "build_pipelines ctx cfg r deps js ps w1 = (built, w2)" by (rule prod.exhaust)
    have "built = Inl e" "w2 = w'" using Cons.prems False x resolved built by (cases built; auto)+
    then obtain before q after runners w3 where rest: "ps = before @ q # after"
        "made_in_order ctx cfg r deps before w1 runners w3" "cannot_be_made ctx cfg r deps q w3 e w'"
      using Cons.IH built by blast
    have "made_in_order ctx cfg r deps (p # before) w (\<lparr>pr_Name = ps_Name (pl_Spec resolved),
        pr_SyncID = ps_SyncID (pl_Spec resolved), pr_Worker = Some (built_worker deps js resolved)\<rparr> # runners) w3"
      using ResolvePipeline_made [OF x [unfolded resolved]] rest(2) by auto
    with rest show ?thesis by (metis append_Cons)
  qed
qed simp

section \<open>Properties\<close>

text \<open>
  What is registered is found under exactly its name, and for good: registering a projector
  succeeds only for a name that is not blank, has no blanks around it and is new; then this name
  leads to the new factory, every other lookup answers as before, and a second registration of
  the name panics and so cannot replace the first.\<close>

theorem registered_once:
  assumes "RegisterProjector name f registry = Inr r'"
  shows "\<exists>r g. registry = Some r \<and> f = Some g \<and> name \<noteq> [] \<and> TrimSpace name = name \<and> \<not> HasProjector r name
    \<and> lookupProjector r' = (lookupProjector r)(name \<mapsto> g) \<and> lookupApplier r' = lookupApplier r
    \<and> (\<forall>h. \<exists>message. RegisterProjector name h (Some r') = Inl message)"
proof -
  obtain r g where r: "registry = Some r" "f = Some g" "TrimSpace name = name" "name \<noteq> []"
      "\<not> has_key name (re_projectors r)" "r' = r\<lparr>re_projectors := put name g (re_projectors r)\<rparr>"
    using assms by (auto simp: RegisterProjector_def Let_def split: option.splits if_splits)
  have "\<exists>message. RegisterProjector name h (Some r') = Inl message" for h
    by (cases h) (simp_all add: RegisterProjector_def Let_def r has_key_iff)
  with r show ?thesis
    by (auto simp: HasProjector_def lookupProjector_def lookupApplier_def fun_eq_iff has_key_iff map_of_eq_None_iff)
qed

definition not_found_factory :: "(unit, 'w) projector_factory" where
  "not_found_factory ctx spec w = (Inr (Some (\<lambda>c d x. (Inl ErrProjectionNotFound, x))), w)"

definition accepting_factory :: "(unit, 'w) applier_factory" where
  "accepting_factory ctx spec w = (Inr (Some (\<lambda>c p x. (None, x))), w)"

definition sample_registry :: "(unit, 'w) registry" where
  "sample_registry = \<lparr>re_projectors = [(''contact'', not_found_factory)],
     re_appliers = [(''elasticsearch'', accepting_factory)]\<rparr>"

lemma registered_once_witness:
  "HasProjector (sample_registry :: (unit, unit) registry) ''contact''
     \<and> (\<exists>message. RegisterProjector ''contact'' None (Some (sample_registry :: (unit, unit) registry)) = Inl message)"
proof -
  let ?r0 = "\<lparr>re_projectors = [], re_appliers = [(''elasticsearch'', accepting_factory)]\<rparr> :: (unit, unit) registry"
  have trim: "TrimSpace ''contact'' = ''contact''"
    by (simp add: TrimSpace_def runes_Cons space_rune_def unicode_IsSpace_def byte_def decodeRune.simps(2))
  have "RegisterProjector ''contact'' (Some not_found_factory) (Some ?r0) = Inr sample_registry"
    by (simp add: RegisterProjector_def Let_def trim sample_registry_def has_key_iff)
  from registered_once [OF this]
  have "\<exists>message. RegisterProjector ''contact'' None (Some (sample_registry :: (unit, unit) registry)) = Inl message"
    by blast
  moreover have "HasProjector (sample_registry :: (unit, unit) registry) ''contact''"
    by (simp add: HasProjector_def lookupProjector_def sample_registry_def)
  ultimately show ?thesis by (rule conjI [rotated])
qed

text \<open>
  C37: What is built is what the configuration says, in its order. When building succeeds there is
  one worker per pipeline, with its name and sync identifier; the factories of its projector and of its
  target were called in turn with its specification, after those of the pipelines before it, and
  the worker has the projector and the applier they returned; its own checks have nothing to
  object to but an empty sync identifier. When building fails, either something was missing and no
  factory was called, or the pipelines up to the first one that cannot be made were made in order
  and no factory of a later one was called.\<close>

theorem build_covers_config:
  assumes "BuildFromConfig ctx config registry deps w = (answer, w')"
  shows "case answer of
      Inr runners \<Rightarrow> \<exists>cfg r. config = Some cfg \<and> registry = Some r
        \<and> map (\<lambda>x. (pr_Name x, pr_SyncID x)) runners = map (\<lambda>p. (bp_Name p, bp_SyncID p)) (bc_Pipelines cfg)
        \<and> made_in_order ctx cfg r deps (bc_Pipelines cfg) w runners w'
        \<and> list_all (\<lambda>p. HasProjector r (bp_Projector p) \<and> HasApplier r (bt_Type (bp_Target p))) (bc_Pipelines cfg)
        \<and> list_all (\<lambda>x. \<exists>v. pr_Worker x = Some v \<and> sw_SyncID (rw_settings v) = pr_SyncID x
             \<and> validateRunOnceDependencies (rw_settings v) =
                 (if pr_SyncID x = [] then Some (Errors_New ''sync worker config: sync_id is required'') else None)) runners
    | Inl e \<Rightarrow>
        (config = None \<or> registry = None \<or> wd_JobStore deps = None \<or> wd_WorkerID deps = [] \<or> wd_LockFor deps \<le> 0) \<and> w' = w
        \<or> (\<exists>cfg r before p after runners w1. config = Some cfg \<and> registry = Some r
             \<and> bc_Pipelines cfg = before @ p # after \<and> made_in_order ctx cfg r deps before w runners w1
             \<and> cannot_be_made ctx cfg r deps p w1 e w')"
proof (cases answer)
  case (Inl e)
  with assms show ?thesis
    by (auto simp: BuildFromConfig_def split: option.splits if_splits) (blast dest: build_pipelines_stops)
next
  case (Inr runners)
  with assms obtain cfg r js where ok: "config = Some cfg" "registry = Some r" "wd_WorkerID deps \<noteq> []" "0 < wd_LockFor deps"
      "build_pipelines ctx cfg r deps js (bc_Pipelines cfg) w = (Inr runners, w')"
    using BuildFromConfig_ok by metis
  from build_pipelines_ok [OF ok(5)] build_pipelines_made [OF ok(5)] ok(3,4) show ?thesis
    by (auto simp: Inr ok(1,2) list_all_iff built_settings)
qed

definition sample_pipeline :: build_pipeline_config where
  "sample_pipeline =
     \<lparr>bp_Name = ''contacts'', bp_SyncID = ''contacts'',
      bp_Source = \<lparr>bs_Type = ''postgres-outbox'', bs_ProjectionType = ''Contact''\<rparr>, bp_Projector = ''contact'',
      bp_Target = \<lparr>bt_Type = ''elasticsearch'', bt_Index = ''contacts''\<rparr>, bp_Applier = ''upsert''\<rparr>"

definition sample_build :: build_config where
  "sample_build = \<lparr>bc_Store = \<lparr>bc_Type = ''sqlite'', bc_DSN = ''deltaflow.db''\<rparr>, bc_Pipelines = [sample_pipeline]\<rparr>"

definition sample_deps :: "(sql_db, unit) worker_deps" where
  "sample_deps =
     \<lparr>wd_JobStore = Some (sqlite_ops (\<lambda>k i. Inr []) 5), wd_batchClaims = True,
      wd_Dispatcher = Some (jo_DispatchPending (sqlite_ops (\<lambda>k i. Inr []) 5)), wd_StoreDB = Some (),
      wd_WorkerID = ''w'', wd_LockFor = 7000, wd_PullSize = 0, wd_BatchSize = 2, wd_Concurrency = 1\<rparr>"

lemma sample_built: "\<exists>v. BuildFromConfig None (Some sample_build) (Some sample_registry) sample_deps x
    = (Inr [\<lparr>pr_Name = ''contacts'', pr_SyncID = ''contacts'', pr_Worker = Some v\<rparr>], x)"
  by (simp add: BuildFromConfig_def sample_build_def sample_deps_def sample_pipeline_def ResolvePipeline_def
      sample_registry_def lookupProjector_def lookupApplier_def not_found_factory_def accepting_factory_def
      pipeline_spec_of_def)

lemma build_covers_config_witness:
  "\<exists>runners v. fst (BuildFromConfig None (Some sample_build) (Some sample_registry) sample_deps ()) = Inr runners
     \<and> map pr_Name runners = [''contacts''] \<and> pr_Worker (hd runners) = Some v
     \<and> validateRunOnceDependencies (rw_settings v) = None"
proof -
  obtain v where b: "BuildFromConfig None (Some sample_build) (Some sample_registry) sample_deps ()
      = (Inr [\<lparr>pr_Name = ''contacts'', pr_SyncID = ''contacts'', pr_Worker = Some v\<rparr>], ())" using sample_built [of "()"] ..
  have "\<exists>u. Some v = Some u \<and> validateRunOnceDependencies (rw_settings u) = None"
    using build_covers_config [OF b] by simp
  then have "validateRunOnceDependencies (rw_settings v) = None" by simp
  with b show ?thesis by (intro exI [of _ v] exI) (rule conjI, simp, simp)
qed

text \<open>
  C31: The pipelines of one process, built from a configuration and run one after the other on
  the SQLite stores with one routine each, never walk away from a live lease: after the cycle, whether
  it is complete, failed in some pipeline or was cancelled, every job held in the worker's name has a
  lease that is over. Projectors, appliers, heartbeats and cancellation do what they will. It is
  assumed that no statement of the database fails (so \<open>sqlite_ops\<close> runs them) and that the context
  for finalising is not cut off: when marking a job fails, its lease stays until it runs out.\<close>

theorem pipelines_leave_no_live_lease:
  assumes "BuildFromConfig ctx config registry deps w = (Inr runners, w')"
    and "wd_JobStore deps = Some (sqlite_ops rnd k)" and "wd_Concurrency deps = 1"
    and "wd_Dispatcher deps = None \<or> wd_Dispatcher deps = Some (jo_DispatchPending (sqlite_ops rnd k))"
    and "mono (sc_clock sched)" and "\<forall>n. sc_final sched n = None" and "db_ok (m_store m)"
    and "\<forall>i j. db_jobs (m_store m) i = Some j \<longrightarrow> held_by (wd_WorkerID deps) j \<longrightarrow>
      the (j_LockedUntil j) \<le> sc_clock sched (m_time m)"
    and "runtime_RunOnce sched picks (Some runners) m = (r, m')"
  shows "db_ok (m_store m') \<and> (\<forall>i j. db_jobs (m_store m') i = Some j \<longrightarrow> held_by (wd_WorkerID deps) j \<longrightarrow>
      the (j_LockedUntil j) \<le> sc_clock sched (m_time m'))"
proof -
  obtain cfg reg where ok: "build_pipelines ctx cfg reg deps (sqlite_ops rnd k) (bc_Pipelines cfg) w = (Inr runners, w')"
    using BuildFromConfig_ok [OF assms(1)] assms(2) by (metis option.inject)
  have ops: "rw_ops (built_worker deps (sqlite_ops rnd k) x) = sqlite_ops rnd k" for x
    using assms(4) by (auto simp: built_worker_def)
  have "rw_ops v = sqlite_ops rnd k \<and> effectiveConcurrency (rw_settings v) = 1
      \<and> sw_WorkerID (rw_settings v) = wd_WorkerID deps" if "p \<in> set runners" "pr_Worker p = Some v" for p v
  proof -
    have "\<forall>x \<in> set runners. \<exists>resolved. pr_SyncID x = ps_SyncID (pl_Spec resolved)
        \<and> pr_Worker x = Some (built_worker deps (sqlite_ops rnd k) resolved)"
      using build_pipelines_ok [OF ok] by (simp add: list_all_iff)
    with that(1) obtain x where "pr_Worker p = Some (built_worker deps (sqlite_ops rnd k) x)" by blast
    with that(2) have "v = built_worker deps (sqlite_ops rnd k) x" by simp
    then show ?thesis by (simp add: ops built_settings effectiveConcurrency_def assms(3))
  qed
  then have workers: "list_all (\<lambda>p. \<forall>v. pr_Worker p = Some v \<longrightarrow> rw_ops v = sqlite_ops rnd k
      \<and> effectiveConcurrency (rw_settings v) = 1 \<and> sw_WorkerID (rw_settings v) = wd_WorkerID deps) runners"
    by (simp add: list_all_iff)
  let ?E = "\<lparr>en_ops = sqlite_ops rnd k, en_project = undefined, en_apply = undefined, en_sched = sched\<rparr>"
  have start: "sqlite.in_hand ?E (wd_WorkerID deps) {} m"
    using assms(7,8) by (simp add: sqlite.in_hand_def now_at_def)
  have "run_pipelines sched picks 0 runners m = (r, m')" using assms(9) by (simp add: runtime_RunOnce_def)
  from sqlite.run_pipelines_hand [OF assms(5,6) workers start _ this] show ?thesis
    by (simp add: sqlite.in_hand_def now_at_def)
qed

lemma pipelines_leave_no_live_lease_witness:
  "\<exists>runners. BuildFromConfig None (Some sample_build) (Some sample_registry) sample_deps () = (Inr runners, ())
     \<and> db_ok (m_store (snd (runtime_RunOnce (en_sched sample_sqlite_env) (\<lambda>n. []) (Some runners) sample_sqlite_machine)))"
proof -
  obtain v where b: "BuildFromConfig None (Some sample_build) (Some sample_registry) sample_deps ()
      = (Inr [\<lparr>pr_Name = ''contacts'', pr_SyncID = ''contacts'', pr_Worker = Some v\<rparr>], ())" using sample_built [of "()"] ..
  let ?runners = "[\<lparr>pr_Name = ''contacts'', pr_SyncID = ''contacts'', pr_Worker = Some v\<rparr>]"
  obtain r m' where run: "runtime_RunOnce (en_sched sample_sqlite_env) (\<lambda>n. []) (Some ?runners) sample_sqlite_machine = (r, m')"
    by (rule prod.exhaust)
  have deps: "wd_JobStore sample_deps = Some (sqlite_ops (\<lambda>k i. Inr []) 5)" "wd_Concurrency sample_deps = 1"
      "wd_Dispatcher sample_deps = None \<or> wd_Dispatcher sample_deps = Some (jo_DispatchPending (sqlite_ops (\<lambda>k i. Inr []) 5))"
    by (simp_all add: sample_deps_def)
  have sched: "mono (sc_clock (en_sched sample_sqlite_env))" "\<forall>n. sc_final (en_sched sample_sqlite_env) n = None"
    by (simp_all add: sample_sqlite_env_def mono_def)
  have "\<forall>i j. db_jobs (m_store sample_sqlite_machine) i = Some j \<longrightarrow> held_by (wd_WorkerID sample_deps) j \<longrightarrow>
      the (j_LockedUntil j) \<le> sc_clock (en_sched sample_sqlite_env) (m_time sample_sqlite_machine)"
    by (simp add: db_jobs_def map_of_jobs_view sample_sqlite_machine_def sample_db_def empty_db_def sample_row_def held_by_def)
  from pipelines_leave_no_live_lease [OF b deps sched sample_sqlite_machine_ok this run] b run show ?thesis by auto
qed

end
