(* ===== verification/DF_Config.thy ===== *)
theory DF_Config
  imports DF_Duration DF_Runtime DF_Url
begin

text \<open>
  The configuration file (\<open>internal/config/config.go\<close>). The validator package, koanf, the file
  system and the environment are parameters. Of the validator the properties assume that it
  accepts exactly the values that meet the tags of the struct (\<open>validator_documented\<close>).

  The lemmas: what is accepted, and that the issues of a rejected configuration are listed in
  order and once.
\<close>

section \<open>The configuration\<close>

record store_config =
  sc_Type :: string
  sc_DSN :: string

record workers_config =
  wk_Concurrency :: int
  wk_LeaseTTL :: string
  wk_BatchSize :: "int option"
  wk_PullSize :: "int option"
  wk_MaxAttempts :: "int option"

record source_config =
  so_Type :: string
  so_ProjectionType :: string

record projector_config =
  pj_Name :: string

record target_config =
  tg_Type :: string
  tg_Index :: string

record applier_config =
  ap_Mode :: string

record pipeline_config =
  pc_Name :: string
  pc_SyncID :: string
  pc_Source :: source_config
  pc_Projector :: projector_config
  pc_Target :: target_config
  pc_Applier :: applier_config

record config =
  cf_Store :: store_config
  cf_Workers :: workers_config
  cf_Pipelines :: "pipeline_config list"

text \<open>\<open>ValidationError\<close> beside the other errors of loading.\<close>

datatype config_error =
    ValidationError "string list"
  | LoadError error

definition config_error_text :: "config_error \<Rightarrow> string" where
  "config_error_text e =
     (case e of
        ValidationError issues \<Rightarrow>
          if issues = [] then ''invalid config''
          else ''invalid config:'' @ [CHR 0x0A] @ ''- '' @ join ([CHR 0x0A] @ ''- '') issues
      | LoadError e \<Rightarrow> err_text e)"

section \<open>The issues of the validator\<close>

record field_error =
  fe_Namespace :: string
  fe_Tag :: string
  fe_Param :: string

datatype struct_error =
    ValidationErrors "field_error list"
  | OtherError error

definition segment_names :: "(string \<times> string) list" where
  "segment_names =
     [(''Store'', ''store''), (''Workers'', ''workers''), (''Pipelines'', ''pipelines''), (''Source'', ''source''),
      (''Projector'', ''projector''), (''Target'', ''target''), (''Applier'', ''applier''), (''Type'', ''type''),
      (''DSN'', ''dsn''), (''Concurrency'', ''concurrency''), (''LeaseTTL'', ''lease_ttl''), (''BatchSize'', ''batch_size''),
      (''PullSize'', ''pull_size''), (''MaxAttempts'', ''max_attempts''), (''Name'', ''name''), (''SyncID'', ''sync_id''),
      (''ProjectionType'', ''projection_type''), (''Index'', ''index''), (''Mode'', ''mode'')]"

definition segment :: "string \<Rightarrow> string" where
  "segment part =
     (let (name, suffix) = strings_Cut part (CHR ''['');
          mapped = (case map_of segment_names name of None \<Rightarrow> name | Some s \<Rightarrow> s)
      in if suffix \<noteq> [] then mapped @ ''['' @ suffix else mapped)"

definition configFieldName :: "string \<Rightarrow> string" where
  "configFieldName namespace =
     join ''.'' (map segment (filter (\<lambda>part. part \<noteq> [] \<and> part \<noteq> ''Config'') (split_on (CHR ''.'') namespace)))"

definition field_issue :: "field_error \<Rightarrow> string" where
  "field_issue e =
     (let field = configFieldName (fe_Namespace e) in
      if fe_Tag e = ''required'' then field @ '' is required''
      else if fe_Tag e = ''min'' then field @ '' must contain at least '' @ fe_Param e @ '' item(s)''
      else if fe_Tag e = ''gt'' then field @ '' must be greater than '' @ fe_Param e
      else field @ '' failed '' @ fe_Tag e @ '' validation'')"

definition validationIssues :: "struct_error \<Rightarrow> string list" where
  "validationIssues err =
     (case err of ValidationErrors errs \<Rightarrow> map field_issue errs | OtherError e \<Rightarrow> [err_text e])"

section \<open>Validation\<close>

definition parsePositiveDuration :: "string \<Rightarrow> error + duration" where
  "parsePositiveDuration value =
     (case ParseDuration value of
        Inl message \<Rightarrow> Inl (Wrapped ''must be a valid duration: '' (Errors_New message) [])
      | Inr d \<Rightarrow> if d \<le> 0 then Inl (Errors_New ''must be positive'') else Inr d)"

definition LeaseTTLDuration :: "workers_config \<Rightarrow> error + duration" where
  "LeaseTTLDuration w = parsePositiveDuration (wk_LeaseTTL w)"

definition pipeline_issues :: "nat \<times> pipeline_config \<Rightarrow> string list" where
  "pipeline_issues x =
     (case x of (i, p) \<Rightarrow>
        (let prefix = ''pipelines['' @ show_nat i @ '']'' in
         (if so_Type (pc_Source p) \<noteq> [] \<and> so_Type (pc_Source p) \<noteq> ''postgres-outbox''
          then [prefix @ ''.source.type must be postgres-outbox''] else [])
         @ (if tg_Type (pc_Target p) \<noteq> [] \<and> tg_Type (pc_Target p) \<noteq> ''elasticsearch''
            then [prefix @ ''.target.type must be elasticsearch''] else [])
         @ (if ap_Mode (pc_Applier p) \<noteq> [] \<and> ap_Mode (pc_Applier p) \<noteq> ''upsert''
            then [prefix @ ''.applier.mode must be upsert''] else [])))"

definition config_issues :: "(config \<Rightarrow> struct_error option) \<Rightarrow> config \<Rightarrow> string list" where
  "config_issues v_Struct c =
     (case v_Struct c of None \<Rightarrow> [] | Some err \<Rightarrow> validationIssues err)
     @ (if sc_Type (cf_Store c) \<noteq> [] \<and> sc_Type (cf_Store c) \<noteq> ''postgres'' \<and> sc_Type (cf_Store c) \<noteq> ''sqlite''
        then [''store.type must be postgres or sqlite''] else [])
     @ (if sc_Type (cf_Store c) = ''sqlite'' \<and> wk_Concurrency (cf_Workers c) \<noteq> 1
        then [''sqlite supports only workers.concurrency=1''] else [])
     @ (if wk_LeaseTTL (cf_Workers c) \<noteq> [] then
          (case parsePositiveDuration (wk_LeaseTTL (cf_Workers c)) of
             Inl e \<Rightarrow> [''workers.lease_ttl '' @ err_text e] | Inr _ \<Rightarrow> [])
        else [])
     @ concat (map pipeline_issues (enumerate 0 (cf_Pipelines c)))"

fun dedupe_from :: "string \<Rightarrow> string list \<Rightarrow> string list" where
  "dedupe_from prev [] = []"
| "dedupe_from prev (v # vs) = (if v = prev then dedupe_from prev vs else v # dedupe_from v vs)"

definition dedupe :: "string list \<Rightarrow> string list" where
  "dedupe values = dedupe_from [] values"

definition Validate :: "(config \<Rightarrow> struct_error option) \<Rightarrow> config \<Rightarrow> config_error option" where
  "Validate v_Struct c =
     (let issues = config_issues v_Struct c in
      if issues \<noteq> [] then Some (ValidationError (dedupe (sort issues))) else None)"

section \<open>Loading\<close>

text \<open>
  The file system, the environment and koanf, whose state is a parameter; the overrides map
  dotted names to text.
\<close>

record 'k loader =
  ld_ReadFile :: "string \<Rightarrow> error + string"
  ld_ExpandEnv :: "string \<Rightarrow> string"
  ld_New :: 'k
  ld_LoadYAML :: "string \<Rightarrow> 'k \<Rightarrow> error + 'k"
  ld_LoadMap :: "(string \<times> string) list \<Rightarrow> 'k \<Rightarrow> error + 'k"
  ld_Unmarshal :: "'k \<Rightarrow> error + config"
  ld_Exists :: "string \<Rightarrow> 'k \<Rightarrow> bool"

definition LoadFile ::
    "'k loader \<Rightarrow> (config \<Rightarrow> struct_error option) \<Rightarrow> string \<Rightarrow> (string \<times> string) list \<Rightarrow> config_error + config"
where
  "LoadFile L v_Struct file overrides =
     (if file = [] then Inl (LoadError (Errors_New ''config path is required''))
      else
        (case ld_ReadFile L file of
           Inl e \<Rightarrow> Inl (LoadError (Wrapped (''read config '' @ strconv_Quote file @ '': '') e []))
         | Inr raw \<Rightarrow>
             (case ld_LoadYAML L (ld_ExpandEnv L raw) (ld_New L) of
                Inl e \<Rightarrow> Inl (LoadError (Wrapped (''parse config '' @ strconv_Quote file @ '': '') e []))
              | Inr k \<Rightarrow>
                  (case (if overrides \<noteq> [] then ld_LoadMap L overrides k else Inr k) of
                     Inl e \<Rightarrow> Inl (LoadError e)
                   | Inr k1 \<Rightarrow>
                       (case ld_Unmarshal L k1 of
                          Inl e \<Rightarrow> Inl (LoadError (Wrapped (''decode config '' @ strconv_Quote file @ '': '') e []))
                        | Inr cfg \<Rightarrow>
                            if ld_Exists L ''version'' k1
                            then Inl (ValidationError [''version is not supported yet; remove the version field''])
                            else (case Validate v_Struct cfg of Some e \<Rightarrow> Inl e | None \<Rightarrow> Inr cfg))))))"

section \<open>What the tags ask for\<close>

definition positive_if_set :: "int option \<Rightarrow> bool" where
  "positive_if_set x = (case x of None \<Rightarrow> True | Some n \<Rightarrow> 0 < n)"

definition pipeline_tags_ok :: "pipeline_config \<Rightarrow> bool" where
  "pipeline_tags_ok p \<longleftrightarrow> pc_Name p \<noteq> [] \<and> pc_SyncID p \<noteq> [] \<and> so_Type (pc_Source p) \<noteq> []
     \<and> so_ProjectionType (pc_Source p) \<noteq> [] \<and> pj_Name (pc_Projector p) \<noteq> [] \<and> tg_Type (pc_Target p) \<noteq> []
     \<and> tg_Index (pc_Target p) \<noteq> [] \<and> ap_Mode (pc_Applier p) \<noteq> []"

definition tags_ok :: "config \<Rightarrow> bool" where
  "tags_ok c \<longleftrightarrow> sc_Type (cf_Store c) \<noteq> [] \<and> sc_DSN (cf_Store c) \<noteq> []
     \<and> 0 < wk_Concurrency (cf_Workers c) \<and> wk_LeaseTTL (cf_Workers c) \<noteq> []
     \<and> positive_if_set (wk_BatchSize (cf_Workers c)) \<and> positive_if_set (wk_PullSize (cf_Workers c))
     \<and> positive_if_set (wk_MaxAttempts (cf_Workers c))
     \<and> cf_Pipelines c \<noteq> [] \<and> list_all pipeline_tags_ok (cf_Pipelines c)"

text \<open>The validator accepts what meets the tags, and lists at least one field otherwise.\<close>

definition validator_documented :: "(config \<Rightarrow> struct_error option) \<Rightarrow> bool" where
  "validator_documented v_Struct \<longleftrightarrow>
     (\<forall>c. (v_Struct c = None \<longleftrightarrow> tags_ok c) \<and> v_Struct c \<noteq> Some (ValidationErrors []))"

definition pipeline_supported :: "pipeline_config \<Rightarrow> bool" where
  "pipeline_supported p \<longleftrightarrow> so_Type (pc_Source p) = ''postgres-outbox'' \<and> tg_Type (pc_Target p) = ''elasticsearch''
     \<and> ap_Mode (pc_Applier p) = ''upsert''"

lemma pipeline_issues_none:
  "pipeline_tags_ok p \<Longrightarrow> pipeline_issues (i, p) = [] \<longleftrightarrow> pipeline_supported p"
  by (auto simp: pipeline_issues_def pipeline_supported_def pipeline_tags_ok_def Let_def)

lemma all_pipeline_issues_none:
  "list_all pipeline_tags_ok ps \<Longrightarrow>
    concat (map pipeline_issues (enumerate i ps)) = [] \<longleftrightarrow> list_all pipeline_supported ps"
  by (induction ps arbitrary: i) (simp_all add: pipeline_issues_none)

lemma validationIssues_some: "err \<noteq> ValidationErrors [] \<Longrightarrow> validationIssues err \<noteq> []"
  by (auto simp: validationIssues_def split: struct_error.splits)

lemma dedupe_from_sorted:
  assumes "sorted xs" and "\<forall>v \<in> set xs. prev \<le> v"
  shows "sorted (dedupe_from prev xs) \<and> distinct (dedupe_from prev xs)
    \<and> set (dedupe_from prev xs) = set xs - {prev}"
  using assms
proof (induction prev xs rule: dedupe_from.induct)
  case (2 prev v vs)
  show ?case
  proof (cases "v = prev")
    case True
    with 2 show ?thesis by auto
  next
    case False
    with 2 have IH: "sorted (dedupe_from v vs)" "distinct (dedupe_from v vs)" "set (dedupe_from v vs) = set vs - {v}"
      by auto
    have "prev \<notin> set vs"
    proof
      assume "prev \<in> set vs"
      then have "v \<le> prev" using 2(3) by simp
      with 2(4) False show False by auto
    qed
    with False IH 2(3) show ?thesis by auto
  qed
qed simp

lemma config_issues_none:
  assumes "validator_documented v_Struct"
  shows "Validate v_Struct c = None \<longleftrightarrow>
    tags_ok c \<and> sc_Type (cf_Store c) \<in> {''postgres'', ''sqlite''}
    \<and> (sc_Type (cf_Store c) = ''sqlite'' \<longrightarrow> wk_Concurrency (cf_Workers c) = 1)
    \<and> (\<exists>d. ParseDuration (wk_LeaseTTL (cf_Workers c)) = Inr d \<and> 0 < d)
    \<and> list_all pipeline_supported (cf_Pipelines c)"
proof (cases "tags_ok c")
  case False
  then obtain err where err: "v_Struct c = Some err" using assms by (auto simp: validator_documented_def)
  then have "err \<noteq> ValidationErrors []" using assms by (auto simp: validator_documented_def)
  then show ?thesis using False err by (simp add: Validate_def config_issues_def Let_def validationIssues_some)
next
  case True
  then have v: "v_Struct c = None" using assms by (simp add: validator_documented_def)
  have tags: "sc_Type (cf_Store c) \<noteq> []" "wk_LeaseTTL (cf_Workers c) \<noteq> []" "list_all pipeline_tags_ok (cf_Pipelines c)"
    using True by (simp_all add: tags_ok_def)
  have lease: "(\<exists>d. ParseDuration s = Inr d \<and> 0 < d) \<longleftrightarrow> (\<exists>d. parsePositiveDuration s = Inr d)" for s
    by (auto simp: parsePositiveDuration_def split: sum.splits)
  have "Validate v_Struct c = None \<longleftrightarrow> config_issues v_Struct c = []" by (simp add: Validate_def Let_def)
  also have "\<dots> \<longleftrightarrow> sc_Type (cf_Store c) \<in> {''postgres'', ''sqlite''}
    \<and> (sc_Type (cf_Store c) = ''sqlite'' \<longrightarrow> wk_Concurrency (cf_Workers c) = 1)
    \<and> (\<exists>d. parsePositiveDuration (wk_LeaseTTL (cf_Workers c)) = Inr d)
    \<and> list_all pipeline_supported (cf_Pipelines c)"
    unfolding config_issues_def append_is_Nil_conv all_pipeline_issues_none [OF tags(3)]
    using v tags(1,2) by (auto split: sum.splits)
  finally show ?thesis using True by (simp add: lease)
qed

section \<open>Properties\<close>

text \<open>
  C35: A configuration is accepted exactly when it meets the tags of its fields, names one of the
  two stores (SQLite with one routine only), has a lease that is a positive duration, and asks of
  every pipeline what is supported.\<close>

theorem config_accepted_iff:
  assumes "validator_documented v_Struct"
  shows "Validate v_Struct c = None \<longleftrightarrow>
    tags_ok c \<and> sc_Type (cf_Store c) \<in> {''postgres'', ''sqlite''}
    \<and> (sc_Type (cf_Store c) = ''sqlite'' \<longrightarrow> wk_Concurrency (cf_Workers c) = 1)
    \<and> (\<exists>d. ParseDuration (wk_LeaseTTL (cf_Workers c)) = Inr d \<and> 0 < d)
    \<and> list_all pipeline_supported (cf_Pipelines c)"
  by (rule config_issues_none [OF assms])

definition tag_validator :: "config \<Rightarrow> struct_error option" where
  "tag_validator c =
     (if tags_ok c then None
      else Some (ValidationErrors [\<lparr>fe_Namespace = ''Config.Pipelines[0].Source.ProjectionType'', fe_Tag = ''required'', fe_Param = []\<rparr>]))"

lemma tag_validator_documented: "validator_documented tag_validator"
  by (simp add: validator_documented_def tag_validator_def)

definition sample_config :: config where
  "sample_config =
     \<lparr>cf_Store = \<lparr>sc_Type = ''sqlite'', sc_DSN = ''deltaflow.db''\<rparr>,
      cf_Workers = \<lparr>wk_Concurrency = 1, wk_LeaseTTL = ''30s'', wk_BatchSize = Some 2, wk_PullSize = None, wk_MaxAttempts = None\<rparr>,
      cf_Pipelines = [\<lparr>pc_Name = ''contacts'', pc_SyncID = ''contacts'',
        pc_Source = \<lparr>so_Type = ''postgres-outbox'', so_ProjectionType = ''Contact''\<rparr>,
        pc_Projector = \<lparr>pj_Name = ''contact''\<rparr>, pc_Target = \<lparr>tg_Type = ''elasticsearch'', tg_Index = ''contacts''\<rparr>,
        pc_Applier = \<lparr>ap_Mode = ''upsert''\<rparr>\<rparr>]\<rparr>"

lemma sample_lease: "ParseDuration ''30s'' = Inr (30 * second)"
proof -
  have "show_nat 30 = ''30''" by (simp add: show_nat.simps) code_simp
  then show ?thesis using ParseDuration_seconds [of 30] by simp
qed

lemma config_accepted_iff_witness:
  "Validate tag_validator sample_config = None
     \<and> Validate tag_validator (sample_config\<lparr>cf_Workers := (cf_Workers sample_config)\<lparr>wk_Concurrency := 2\<rparr>\<rparr>) \<noteq> None"
  unfolding config_accepted_iff [OF tag_validator_documented]
  by (simp add: sample_config_def tags_ok_def positive_if_set_def pipeline_tags_ok_def pipeline_supported_def
      sample_lease second_def)

text \<open>
  A rejected configuration is reported completely: the issues of the error are those of the
  checks, in ascending order and each of them once.\<close>

theorem config_issues_reported:
  assumes "Validate v_Struct c = Some e"
  shows "\<exists>issues. e = ValidationError issues \<and> sorted issues \<and> distinct issues
    \<and> set issues = set (config_issues v_Struct c) - {[]} \<and> config_issues v_Struct c \<noteq> []"
  using assms dedupe_from_sorted [of "sort (config_issues v_Struct c)" "[]"]
  by (auto simp: Validate_def Let_def dedupe_def split: if_splits)

lemma sample_field_name:
  "configFieldName ''Config.Pipelines[0].Source.ProjectionType'' = ''pipelines[0].source.projection_type''"
  by code_simp

lemma config_issues_reported_witness:
  "\<exists>issues. Validate tag_validator (sample_config\<lparr>cf_Pipelines := []\<rparr>) = Some (ValidationError issues)
     \<and> issues = [''pipelines[0].source.projection_type is required'']"
proof -
  let ?c = "sample_config\<lparr>cf_Pipelines := []\<rparr>"
  have issues: "config_issues tag_validator ?c = [''pipelines[0].source.projection_type is required'']"
    by (simp add: config_issues_def tag_validator_def tags_ok_def sample_config_def validationIssues_def field_issue_def
        sample_field_name Let_def parsePositiveDuration_def sample_lease second_def)
  then obtain e where e: "Validate tag_validator ?c = Some e" by (simp add: Validate_def)
  from config_issues_reported [OF e] obtain xs where xs: "e = ValidationError xs" "distinct xs"
      "set xs = {''pipelines[0].source.projection_type is required''}" by (auto simp: issues)
  have "length xs = 1" using distinct_card [OF xs(2)] xs(3) by simp
  then have "xs = [''pipelines[0].source.projection_type is required'']" using xs(3) by (cases xs) auto
  with e xs(1) show ?thesis by simp
qed

end
