(* ===== verification/DF_Cli.thy ===== *)
theory DF_Cli
  imports DF_Config
begin

text \<open>
  The command line (\<open>internal/cli\<close>): the commands \<open>run\<close>, \<open>migrate\<close> and \<open>doctor\<close>. A command
  yields its error, if any, and the trace of what it did to its surroundings, in order and with
  the deferred calls at its end. What a call answers is a parameter; no call of these commands is
  made twice with different answers. The thirty seconds after which a command is cancelled are in
  those answers. Flags are parsed by cobra and arrive as arguments.

  Beside them the heartbeat of the SQLite worker lock, which runs against the lock table. The
  lemmas: nothing is touched before the configuration has passed every check, workers of an SQLite
  database run only under the lock, which is released on every path, and the heartbeat is fast
  enough to keep it.
\<close>

section \<open>What a command does\<close>

datatype cli_effect =
    SqlOpen string string
  | LimitPool
  | PingDB
  | EnableForeignKeys
  | MigrateSqlite
  | MigratePostgres
  | AcquireLock string duration
  | StartHeartbeat string duration
  | StopHeartbeat
  | WaitHeartbeat
  | RunCycle
  | ReleaseLock
  | CloseDB
  | Print string

type_synonym outcome = "config_error option \<times> cli_effect list"

text \<open>
  The surroundings: what loading the configuration yields, the registry, the host name, the answer
  to each call, the constructors of the stores (the job store with whether it offers batch claims,
  and its dispatcher, for a maximum of attempts), the state of the context and the world in which
  the factories are called. The answer to \<open>WaitHeartbeat\<close> is the error the heartbeat stopped with,
  that to a migration its error.
\<close>

record ('s, 'd, 'w) cli_host =
  ch_config :: "config_error + config"
  ch_registry :: "('d, 'w) registry option"
  ch_hostname :: "error + string"
  ch_answer :: "cli_effect \<Rightarrow> error option"
  ch_migrations :: nat
  ch_stores :: "string \<Rightarrow> int \<Rightarrow>
    ('s job_store_ops \<times> bool) \<times> (ctx \<Rightarrow> time \<Rightarrow> SyncID \<Rightarrow> int \<Rightarrow> 's \<Rightarrow> (error + sync_job list) \<times> 's)"
  ch_db :: 'd
  ch_ctx :: ctx
  ch_world :: 'w

record options =
  opt_configPath :: string
  opt_storeDSN :: string

definition loadConfig :: "'k loader \<Rightarrow> (config \<Rightarrow> struct_error option) \<Rightarrow> options \<Rightarrow> config_error + config" where
  "loadConfig L v_Struct o' =
     LoadFile L v_Struct (opt_configPath o')
       (if opt_storeDSN o' \<noteq> [] then [(''store.dsn'', opt_storeDSN o')] else [])"

definition failed :: "error \<Rightarrow> outcome" where
  "failed e = (Some (LoadError e), [])"

definition fail_text :: "string \<Rightarrow> outcome" where
  "fail_text s = failed (Errors_New s)"

definition perform :: "('s, 'd, 'w) cli_host \<Rightarrow> cli_effect \<Rightarrow> (error \<Rightarrow> outcome) \<Rightarrow> outcome \<Rightarrow> outcome" where
  "perform H a fail k = apsnd (Cons a) (case ch_answer H a of None \<Rightarrow> k | Some e \<Rightarrow> fail e)"

definition just :: "cli_effect \<Rightarrow> outcome \<Rightarrow> outcome" where
  "just a k = apsnd (Cons a) k"

definition deferred :: "outcome \<Rightarrow> cli_effect \<Rightarrow> outcome" where
  "deferred k a = apsnd (\<lambda>trace. trace @ [a]) k"

section \<open>Run\<close>

fun check_registered :: "('d, 'w) registry \<Rightarrow> pipeline_config list \<Rightarrow> error option" where
  "check_registered r [] = None"
| "check_registered r (p # ps) =
     (if \<not> HasProjector r (pj_Name (pc_Projector p))
      then Some (not_registered (pc_Name p) ErrProjectorNotRegistered (pj_Name (pc_Projector p)))
      else if \<not> HasApplier r (tg_Type (pc_Target p))
      then Some (not_registered (pc_Name p) ErrApplierNotRegistered (tg_Type (pc_Target p)))
      else check_registered r ps)"

definition worker_id_or_default :: "('s, 'd, 'w) cli_host \<Rightarrow> string \<Rightarrow> string" where
  "worker_id_or_default H workerID =
     (if workerID = [] then
        ''deltaflow-cli-'' @
          (case ch_hostname H of
             Inl e \<Rightarrow> ''unknown-host'' | Inr host \<Rightarrow> if host = [] then ''unknown-host'' else host)
      else workerID)"

definition workerSizing :: "workers_config \<Rightarrow> int \<times> int" where
  "workerSizing w =
     ((case wk_PullSize w of None \<Rightarrow> 0 | Some n \<Rightarrow> n), (case wk_BatchSize w of None \<Rightarrow> 1 | Some n \<Rightarrow> n))"

definition pipeline_build_config :: "pipeline_config \<Rightarrow> build_pipeline_config" where
  "pipeline_build_config p =
     \<lparr>bp_Name = pc_Name p, bp_SyncID = pc_SyncID p,
      bp_Source = \<lparr>bs_Type = so_Type (pc_Source p), bs_ProjectionType = so_ProjectionType (pc_Source p)\<rparr>,
      bp_Projector = pj_Name (pc_Projector p),
      bp_Target = \<lparr>bt_Type = tg_Type (pc_Target p), bt_Index = tg_Index (pc_Target p)\<rparr>,
      bp_Applier = ap_Mode (pc_Applier p)\<rparr>"

definition runtime_config :: "config \<Rightarrow> string \<Rightarrow> string \<Rightarrow> build_config" where
  "runtime_config cfg storeType dsn =
     \<lparr>bc_Store = \<lparr>bc_Type = storeType, bc_DSN = dsn\<rparr>, bc_Pipelines = map pipeline_build_config (cf_Pipelines cfg)\<rparr>"

definition run_deps :: "('s, 'd, 'w) cli_host \<Rightarrow> config \<Rightarrow> string \<Rightarrow> string \<Rightarrow> duration \<Rightarrow> ('s, 'd) worker_deps" where
  "run_deps H cfg storeType workerID leaseTTL =
     (let maxAttempts = (case wk_MaxAttempts (cf_Workers cfg) of None \<Rightarrow> 0 | Some n \<Rightarrow> n);
          ((jobStore, batch), dispatcher) = ch_stores H storeType maxAttempts;
          (pullSize, batchSize) = workerSizing (cf_Workers cfg)
      in \<lparr>wd_JobStore = Some jobStore, wd_batchClaims = batch, wd_Dispatcher = Some dispatcher,
          wd_StoreDB = Some (ch_db H), wd_WorkerID = workerID, wd_LockFor = leaseTTL, wd_PullSize = pullSize,
          wd_BatchSize = batchSize, wd_Concurrency = wk_Concurrency (cf_Workers cfg)\<rparr>)"

text \<open>
  The end of a run, when the cycle has its result and the heartbeat, if there is one, has stopped.
\<close>

definition run_result :: "error option \<Rightarrow> error option \<Rightarrow> nat \<Rightarrow> outcome" where
  "run_result runErr lockErr n =
     (case (lockErr, runErr) of
        (Some l, None) \<Rightarrow> failed l
      | (Some l, Some e) \<Rightarrow>
          if errors_Is e CtxCanceled \<or> errors_Is e CtxDeadlineExceeded then failed l else failed e
      | (None, Some e) \<Rightarrow> failed e
      | (None, None) \<Rightarrow>
          (None, [Print (''run complete: processed '' @ show_nat n @ '' pipeline(s)'' @ [CHR 0x0A])]))"

definition run_workers :: "('s, 'd, 'w) cli_host \<Rightarrow> config \<Rightarrow> string \<Rightarrow> string \<Rightarrow> string \<Rightarrow> duration \<Rightarrow> bool \<Rightarrow> outcome" where
  "run_workers H cfg storeType dsn workerID leaseTTL heartbeat =
     (case fst (BuildFromConfig (ch_ctx H) (Some (runtime_config cfg storeType dsn)) (ch_registry H)
                  (run_deps H cfg storeType workerID leaseTTL) (ch_world H)) of
        Inl e \<Rightarrow> failed e
      | Inr built \<Rightarrow>
          just RunCycle
            (if heartbeat
             then just StopHeartbeat (just WaitHeartbeat
               (run_result (ch_answer H RunCycle) (ch_answer H WaitHeartbeat) (length built)))
             else run_result (ch_answer H RunCycle) None (length built)))"

definition run_sqlite :: "('s, 'd, 'w) cli_host \<Rightarrow> config \<Rightarrow> string \<Rightarrow> string \<Rightarrow> duration \<Rightarrow> outcome" where
  "run_sqlite H cfg dsn workerID leaseTTL =
     perform H EnableForeignKeys (\<lambda>e. failed (Wrapped ''enable sqlite foreign keys: '' e []))
       (perform H MigrateSqlite failed
         (perform H (AcquireLock workerID leaseTTL)
           (\<lambda>e. if errors_Is e ErrWorkerAlreadyRunning
             then fail_text (''sqlite worker already running for this database; ''
               @ ''stop the other worker or use postgres for multi-worker deployments'')
             else failed e)
           (deferred (deferred (deferred
             (just (StartHeartbeat workerID leaseTTL) (run_workers H cfg ''sqlite'' dsn workerID leaseTTL True))
             StopHeartbeat) WaitHeartbeat) ReleaseLock)))"

definition with_database :: "('s, 'd, 'w) cli_host \<Rightarrow> string \<Rightarrow> string \<Rightarrow> outcome \<Rightarrow> outcome" where
  "with_database H storeType dsn k =
     perform H (SqlOpen (if storeType = ''sqlite'' then ''sqlite'' else ''pgx'') dsn) failed
       (deferred
         ((if storeType = ''sqlite'' then just LimitPool else (\<lambda>r. r))
           (perform H PingDB
             (\<lambda>e. failed (Wrapped (if storeType = ''sqlite'' then ''connect sqlite: '' else ''connect postgres: '') e []))
             k))
         CloseDB)"

definition run_command :: "('s, 'd, 'w) cli_host \<Rightarrow> string \<Rightarrow> outcome" where
  "run_command H workerID =
     (case ch_config H of
        Inl e \<Rightarrow> (Some e, [])
      | Inr cfg \<Rightarrow>
          (case ch_registry H of
             None \<Rightarrow> fail_text ''runtime registry is required''
           | Some r \<Rightarrow>
               (case check_registered r (cf_Pipelines cfg) of
                  Some e \<Rightarrow> failed e
                | None \<Rightarrow>
                    (case LeaseTTLDuration (cf_Workers cfg) of
                       Inl e \<Rightarrow> failed e
                     | Inr leaseTTL \<Rightarrow>
                         (let w = worker_id_or_default H workerID;
                              storeType = TrimSpace (sc_Type (cf_Store cfg));
                              dsn = TrimSpace (sc_DSN (cf_Store cfg))
                          in
                          if storeType \<noteq> ''postgres'' \<and> storeType \<noteq> ''sqlite''
                            then fail_text ''run requires store.type=postgres or store.type=sqlite''
                          else if dsn = [] then fail_text ''run requires store.dsn to be set''
                          else if storeType = ''sqlite'' \<and> wk_Concurrency (cf_Workers cfg) \<noteq> 1
                            then fail_text ''sqlite supports only workers.concurrency=1''
                          else
                            with_database H storeType dsn
                              (if storeType = ''postgres'' then run_workers H cfg ''postgres'' dsn w leaseTTL False
                               else run_sqlite H cfg dsn w leaseTTL))))))"

section \<open>Migrate and doctor\<close>

definition migrate_command :: "('s, 'd, 'w) cli_host \<Rightarrow> outcome" where
  "migrate_command H =
     (case ch_config H of
        Inl e \<Rightarrow> (Some e, [])
      | Inr cfg \<Rightarrow>
          (let storeType = TrimSpace (sc_Type (cf_Store cfg)) in
           with_database H storeType (sc_DSN (cf_Store cfg))
             (perform H (if storeType = ''sqlite'' then MigrateSqlite else MigratePostgres) failed
               (None, [Print (''applied '' @ show_nat (ch_migrations H) @ '' migrations'' @ [CHR 0x0A])]))))"

definition doctor_command :: "('s, 'd, 'w) cli_host \<Rightarrow> outcome" where
  "doctor_command H =
     (case ch_config H of
        Inl e \<Rightarrow> (Some e, [])
      | Inr cfg \<Rightarrow>
          (None,
           map (\<lambda>s. Print (s @ [CHR 0x0A]))
             ([''config OK'',
               ''note: this stock CLI does not run workers; worker execution must be implemented by your application'',
               ''note: see playground/01-in-memory and playground/README.md for current examples; larger archived playgrounds are described in the v0.11.2 release notes'']
              @ (if TrimSpace (sc_Type (cf_Store cfg)) = ''sqlite''
                 then [''note: sqlite supports only workers.concurrency=1'',
                       ''note: sqlite does not support multiple competing worker processes'']
                 else []))))"

section \<open>The heartbeat of the worker lock\<close>

definition sqliteLockHeartbeatInterval :: "duration \<Rightarrow> duration" where
  "sqliteLockHeartbeatInterval leaseTTL =
     (if leaseTTL \<le> 0 then second
      else
        (let half = go_div leaseTTL 2 in
         if half \<le> 0 then 1
         else if half < second then half
         else if 10 * second < half then 10 * second
         else half))"

definition sqliteLockRenewTimeout :: "duration \<Rightarrow> duration" where
  "sqliteLockRenewTimeout leaseTTL =
     (let interval = sqliteLockHeartbeatInterval leaseTTL in
      if interval < 2 * second then 2 * second else interval)"

text \<open>
  The heartbeat renews at every tick until a renewal fails, whose error is kept and cancels the
  run. Between two ticks other workers may call: a round is their calls, each with the faults of
  its statements, then the faults of the renewal and the instant of the tick.
\<close>

type_synonym lock_round = "(lock_call \<times> faults) list \<times> faults \<times> time"

fun lock_heartbeat :: "string \<Rightarrow> duration \<Rightarrow> lock_round list \<Rightarrow> sql_db \<Rightarrow> error option \<times> sql_db" where
  "lock_heartbeat w leaseTTL [] d = (None, d)"
| "lock_heartbeat w leaseTTL ((calls, F, now) # rounds) d =
     (case RenewWorkerLock True now w leaseTTL F (foldl (\<lambda>d (call, F'). lock_do call F' d) d calls) of
        (Inl e, d1) \<Rightarrow> (Some (Wrapped ''sqlite worker lock heartbeat failed: '' e []), d1)
      | (Inr _, d1) \<Rightarrow> lock_heartbeat w leaseTTL rounds d1)"

text \<open>
  Ticks that come, at the latest, an interval late: between a renewal and the next tick there are
  at most two intervals, and the calls of other workers come before the tick. The statements of
  the renewals do not fail.
\<close>

fun rounds_in_time :: "string \<Rightarrow> duration \<Rightarrow> time \<Rightarrow> lock_round list \<Rightarrow> bool" where
  "rounds_in_time w leaseTTL prev [] \<longleftrightarrow> True"
| "rounds_in_time w leaseTTL prev ((calls, F, now) # rounds) \<longleftrightarrow>
     F = no_faults \<and> prev \<le> now \<and> now \<le> prev + 2 * sqliteLockHeartbeatInterval leaseTTL
     \<and> list_all (\<lambda>(call, F). foreign_call w (microsFromTime now) call) calls
     \<and> rounds_in_time w leaseTTL now rounds"

section \<open>Lemmas\<close>

lemma failed_sel [simp]: "fst (failed e) = Some (LoadError e)" "snd (failed e) = []" "snd (fail_text t) = []"
    "fst (fail_text t) = Some (LoadError (Errors_New t))"
  by (simp_all add: failed_def fail_text_def)

lemma step_sel [simp]:
  "snd (perform H a fail k) = a # (case ch_answer H a of None \<Rightarrow> snd k | Some e \<Rightarrow> snd (fail e))"
  "fst (perform H a fail k) = (case ch_answer H a of None \<Rightarrow> fst k | Some e \<Rightarrow> fst (fail e))"
  "snd (just a k) = a # snd k" "fst (just a k) = fst k"
  "snd (deferred k a) = snd k @ [a]" "fst (deferred k a) = fst k"
  by (simp_all add: perform_def just_def deferred_def split: option.splits)

lemma check_registered_None:
  "check_registered r ps = None \<longleftrightarrow>
    list_all (\<lambda>p. HasProjector r (pj_Name (pc_Projector p)) \<and> HasApplier r (tg_Type (pc_Target p))) ps"
  by (induction ps) auto

text \<open>Either a check fails and nothing is done, or the database is opened for this configuration.\<close>

lemma run_command_cases:
  obtains (refused) "fst (run_command H workerID) \<noteq> None" "snd (run_command H workerID) = []"
    | (checked) cfg r leaseTTL where "ch_config H = Inr cfg" "ch_registry H = Some r"
        "list_all (\<lambda>p. HasProjector r (pj_Name (pc_Projector p)) \<and> HasApplier r (tg_Type (pc_Target p))) (cf_Pipelines cfg)"
        "LeaseTTLDuration (cf_Workers cfg) = Inr leaseTTL" "TrimSpace (sc_DSN (cf_Store cfg)) \<noteq> []"
        "TrimSpace (sc_Type (cf_Store cfg)) = ''postgres'' \<and> run_command H workerID
           = with_database H ''postgres'' (TrimSpace (sc_DSN (cf_Store cfg)))
               (run_workers H cfg ''postgres'' (TrimSpace (sc_DSN (cf_Store cfg))) (worker_id_or_default H workerID) leaseTTL False)
         \<or> TrimSpace (sc_Type (cf_Store cfg)) = ''sqlite'' \<and> wk_Concurrency (cf_Workers cfg) = 1 \<and> run_command H workerID
           = with_database H ''sqlite'' (TrimSpace (sc_DSN (cf_Store cfg)))
               (run_sqlite H cfg (TrimSpace (sc_DSN (cf_Store cfg))) (worker_id_or_default H workerID) leaseTTL)"
proof (cases "snd (run_command H workerID) = [] \<and> fst (run_command H workerID) \<noteq> None")
  case True
  then show ?thesis using refused by blast
next
  case False
  then obtain cfg where cfg: "ch_config H = Inr cfg" by (cases "ch_config H") (simp_all add: run_command_def)
  with False obtain r where r: "ch_registry H = Some r" by (cases "ch_registry H") (simp_all add: run_command_def)
  with False cfg have reg: "check_registered r (cf_Pipelines cfg) = None"
    by (cases "check_registered r (cf_Pipelines cfg)") (simp_all add: run_command_def)
  with False cfg r obtain l where l: "LeaseTTLDuration (cf_Workers cfg) = Inr l"
    by (cases "LeaseTTLDuration (cf_Workers cfg)") (simp_all add: run_command_def)
  show ?thesis
    using False checked [OF cfg r _ l] reg
    by (simp add: run_command_def cfg r l check_registered_None Let_def split: if_splits)
qed

lemma run_workers_trace:
  "set (snd (run_workers H cfg t dsn w l h)) \<subseteq> {RunCycle, StopHeartbeat, WaitHeartbeat} \<union> range Print"
  by (auto simp: run_workers_def run_result_def split: sum.splits option.splits)

lemma run_workers_success:
  "fst (run_workers H cfg t dsn w l h) = None \<Longrightarrow>
    RunCycle \<in> set (snd (run_workers H cfg t dsn w l h)) \<and> ch_answer H RunCycle = None
    \<and> (h \<longrightarrow> ch_answer H WaitHeartbeat = None)"
  by (auto simp: run_workers_def run_result_def split: sum.splits option.splits if_splits)

lemma interval_bounds:
  "0 < sqliteLockHeartbeatInterval l" "sqliteLockHeartbeatInterval l \<le> 10 * second"
  "2 \<le> l \<Longrightarrow> 2 * sqliteLockHeartbeatInterval l \<le> l"
  by (auto simp: sqliteLockHeartbeatInterval_def second_def Let_def go_div_nonneg)

lemma renewed:
  assumes "sq_lock d = Some row" and "lr_worker_id row = w" and "w \<noteq> []" and "0 < l"
  shows "\<exists>d1. RenewWorkerLock True now w l no_faults d = (Inr (), d1)
    \<and> sq_lock d1 = Some (row\<lparr>lr_expires_at_micros := microsFromTime (now + l)\<rparr>)"
  using assms by (simp add: RenewWorkerLock_def lock_arguments_def sql_bind_def sql_result_def)

lemma foreign_calls_keep:
  assumes "sq_lock d = Some row" and "list_all (\<lambda>(call, F). foreign_call (lr_worker_id row) u call) calls"
    and "u \<le> lr_expires_at_micros row"
  shows "sq_lock (foldl (\<lambda>d (call, F). lock_do call F d) d calls) = Some row"
  using assms(1,2)
proof (induction calls arbitrary: d)
  case (Cons x calls)
  obtain call F where x: "x = (call, F)" by (cases x)
  with Cons.prems(2) have "foreign_call (lr_worker_id row) u call" by simp
  with assms(3) have "foreign_call (lr_worker_id row) (lr_expires_at_micros row) call" by (cases call) auto
  with foreign_call_keeps [OF Cons.prems(1)] have "sq_lock (lock_do call F d) = Some row" by blast
  from Cons.IH [OF this] Cons.prems(2) show ?case by (simp add: x)
qed simp

lemma heartbeat_keeps:
  assumes "2 \<le> l" and "w \<noteq> []" and "rounds_in_time w l now rounds" and "sq_lock d = Some row"
    and "lr_worker_id row = w" and "lr_expires_at_micros row = microsFromTime (now + l)"
  shows "\<exists>d' row'. lock_heartbeat w l rounds d = (None, d') \<and> sq_lock d' = Some row' \<and> lr_worker_id row' = w
    \<and> lr_expires_at_micros row' = microsFromTime (foldl (\<lambda>t r. snd (snd r)) now rounds + l)"
  using assms(3-6)
proof (induction rounds arbitrary: now d row)
  case (Cons x rounds)
  obtain calls F t where x: "x = (calls, F, t)" by (cases x)
  have t: "t \<le> now + 2 * sqliteLockHeartbeatInterval l" "list_all (\<lambda>(call, F). foreign_call w (microsFromTime t) call) calls"
      "rounds_in_time w l t rounds" "F = no_faults"
    using Cons.prems(1) by (simp_all add: x)
  let ?d = "foldl (\<lambda>d (call, F). lock_do call F d) d calls"
  have "t \<le> now + l" using t(1) interval_bounds(3) [OF assms(1)] by linarith
  then have "microsFromTime t \<le> lr_expires_at_micros row" unfolding Cons.prems(4) by (rule micros_mono)
  moreover have "list_all (\<lambda>(call, F). foreign_call (lr_worker_id row) (microsFromTime t) call) calls"
    unfolding Cons.prems(3) by (rule t(2))
  ultimately have "sq_lock ?d = Some row" by (intro foreign_calls_keep [OF Cons.prems(2)])
  from renewed [OF this Cons.prems(3) assms(2), of l t] assms(1) obtain d1 where
    d1: "RenewWorkerLock True t w l no_faults ?d = (Inr (), d1)"
      "sq_lock d1 = Some (row\<lparr>lr_expires_at_micros := microsFromTime (t + l)\<rparr>)" by auto
  from Cons.IH [OF t(3) d1(2)] Cons.prems(3) d1(1) show ?case by (simp add: x t(4))
qed simp

lemma with_database_trace:
  "snd (with_database H t dsn k) =
     SqlOpen (if t = ''sqlite'' then ''sqlite'' else ''pgx'') dsn #
       (if ch_answer H (SqlOpen (if t = ''sqlite'' then ''sqlite'' else ''pgx'') dsn) \<noteq> None then []
        else (if t = ''sqlite'' then [LimitPool] else []) @ PingDB # (if ch_answer H PingDB \<noteq> None then [] else snd k) @ [CloseDB])"
  by (simp add: with_database_def split: option.splits)

lemma with_database_success:
  "fst (with_database H t dsn k) = None \<Longrightarrow> fst k = None \<and> set (snd k) \<subseteq> set (snd (with_database H t dsn k))"
  by (auto simp: with_database_def split: option.splits if_splits)

lemma run_sqlite_trace:
  "(\<exists>mid. ch_answer H (AcquireLock w l) = None
      \<and> snd (run_sqlite H cfg dsn w l) =
          [EnableForeignKeys, MigrateSqlite, AcquireLock w l, StartHeartbeat w l] @ mid @ [StopHeartbeat, WaitHeartbeat, ReleaseLock]
      \<and> set mid \<subseteq> {RunCycle, StopHeartbeat, WaitHeartbeat} \<union> range Print)
   \<or> fst (run_sqlite H cfg dsn w l) \<noteq> None \<and> (\<exists>n. snd (run_sqlite H cfg dsn w l) = take n [EnableForeignKeys, MigrateSqlite, AcquireLock w l])"
proof (cases "ch_answer H EnableForeignKeys = None \<and> ch_answer H MigrateSqlite = None \<and> ch_answer H (AcquireLock w l) = None")
  case True
  then show ?thesis
    using run_workers_trace [of H cfg "''sqlite''" dsn w l True] by (intro disjI1) (simp add: run_sqlite_def)
next
  case False
  have "take (Suc 0) [EnableForeignKeys, MigrateSqlite, AcquireLock w l] = [EnableForeignKeys]"
      "take 2 [EnableForeignKeys, MigrateSqlite, AcquireLock w l] = [EnableForeignKeys, MigrateSqlite]"
      "take 3 [EnableForeignKeys, MigrateSqlite, AcquireLock w l] = [EnableForeignKeys, MigrateSqlite, AcquireLock w l]"
    by simp_all
  moreover have "fst (run_sqlite H cfg dsn w l) \<noteq> None \<and> (snd (run_sqlite H cfg dsn w l) = [EnableForeignKeys]
      \<or> snd (run_sqlite H cfg dsn w l) = [EnableForeignKeys, MigrateSqlite]
      \<or> snd (run_sqlite H cfg dsn w l) = [EnableForeignKeys, MigrateSqlite, AcquireLock w l])"
    using False by (auto simp: run_sqlite_def split: option.splits)
  ultimately show ?thesis by (intro disjI2) metis
qed

lemma run_sqlite_success:
  assumes "fst (run_sqlite H cfg dsn w l) = None"
  shows "RunCycle \<in> set (snd (run_sqlite H cfg dsn w l)) \<and> ch_answer H RunCycle = None \<and> ch_answer H WaitHeartbeat = None"
proof -
  have run: "fst (run_workers H cfg ''sqlite'' dsn w l True) = None
      \<and> set (snd (run_workers H cfg ''sqlite'' dsn w l True)) \<subseteq> set (snd (run_sqlite H cfg dsn w l))"
    using assms by (auto simp: run_sqlite_def split: option.splits if_splits)
  from run_workers_success [OF conjunct1 [OF run]] conjunct2 [OF run] show ?thesis by auto
qed

section \<open>Properties\<close>

text \<open>
  C29: The command \<open>run\<close> touches nothing before its checks have passed, and reports success only
  for a completed cycle: when it does anything at all, the configuration is loaded, every projector and
  target of its pipelines is registered, the lease is a positive duration, and the first thing is to
  open the configured database, SQLite with one routine only; without an error the
  cycle of the pipelines has run, without an error, and so has the heartbeat of an SQLite lock.\<close>

theorem run_checks_then_runs:
  assumes "run_command H workerID = (result, trace)"
  shows "(trace = [] \<and> result \<noteq> None)
    \<or> (\<exists>cfg r leaseTTL. ch_config H = Inr cfg \<and> ch_registry H = Some r
        \<and> list_all (\<lambda>p. HasProjector r (pj_Name (pc_Projector p)) \<and> HasApplier r (tg_Type (pc_Target p))) (cf_Pipelines cfg)
        \<and> LeaseTTLDuration (cf_Workers cfg) = Inr leaseTTL
        \<and> (TrimSpace (sc_Type (cf_Store cfg)) = ''postgres''
             \<and> hd trace = SqlOpen ''pgx'' (TrimSpace (sc_DSN (cf_Store cfg)))
           \<or> TrimSpace (sc_Type (cf_Store cfg)) = ''sqlite'' \<and> wk_Concurrency (cf_Workers cfg) = 1
             \<and> hd trace = SqlOpen ''sqlite'' (TrimSpace (sc_DSN (cf_Store cfg)))
             \<and> (result = None \<longrightarrow> ch_answer H WaitHeartbeat = None))
        \<and> (result = None \<longrightarrow> RunCycle \<in> set trace \<and> ch_answer H RunCycle = None))"
proof (rule run_command_cases [of H workerID])
  assume "fst (run_command H workerID) \<noteq> None" "snd (run_command H workerID) = []"
  with assms show ?thesis by simp
next
  fix cfg :: config and r leaseTTL
  let ?dsn = "TrimSpace (sc_DSN (cf_Store cfg))" and ?w = "worker_id_or_default H workerID"
  let ?pg = "run_workers H cfg ''postgres'' ?dsn ?w leaseTTL False" and ?lite = "run_sqlite H cfg ?dsn ?w leaseTTL"
  assume cfg: "ch_config H = Inr cfg" "ch_registry H = Some r"
      "list_all (\<lambda>p. HasProjector r (pj_Name (pc_Projector p)) \<and> HasApplier r (tg_Type (pc_Target p))) (cf_Pipelines cfg)"
      "LeaseTTLDuration (cf_Workers cfg) = Inr leaseTTL"
    and db: "TrimSpace (sc_Type (cf_Store cfg)) = ''postgres'' \<and> run_command H workerID = with_database H ''postgres'' ?dsn ?pg
      \<or> TrimSpace (sc_Type (cf_Store cfg)) = ''sqlite'' \<and> wk_Concurrency (cf_Workers cfg) = 1
        \<and> run_command H workerID = with_database H ''sqlite'' ?dsn ?lite"
  from db have "TrimSpace (sc_Type (cf_Store cfg)) = ''postgres'' \<and> hd trace = SqlOpen ''pgx'' ?dsn
        \<and> (result = None \<longrightarrow> RunCycle \<in> set trace \<and> ch_answer H RunCycle = None)
      \<or> TrimSpace (sc_Type (cf_Store cfg)) = ''sqlite'' \<and> wk_Concurrency (cf_Workers cfg) = 1
        \<and> hd trace = SqlOpen ''sqlite'' ?dsn
        \<and> (result = None \<longrightarrow> RunCycle \<in> set trace \<and> ch_answer H RunCycle = None \<and> ch_answer H WaitHeartbeat = None)"
  proof (elim disjE conjE)
    assume run: "run_command H workerID = with_database H ''postgres'' ?dsn ?pg"
      and t: "TrimSpace (sc_Type (cf_Store cfg)) = ''postgres''"
    have "hd trace = SqlOpen ''pgx'' ?dsn" using with_database_trace [of H "''postgres''" ?dsn ?pg] assms run by simp
    moreover have "RunCycle \<in> set trace \<and> ch_answer H RunCycle = None" if "result = None"
      using with_database_success [of H "''postgres''" ?dsn ?pg] run_workers_success [of H cfg "''postgres''" ?dsn ?w leaseTTL False]
        assms run that by auto
    ultimately show ?thesis using t by blast
  next
    assume run: "run_command H workerID = with_database H ''sqlite'' ?dsn ?lite"
      and t: "TrimSpace (sc_Type (cf_Store cfg)) = ''sqlite''" "wk_Concurrency (cf_Workers cfg) = 1"
    have "hd trace = SqlOpen ''sqlite'' ?dsn" using with_database_trace [of H "''sqlite''" ?dsn ?lite] assms run by simp
    moreover have "RunCycle \<in> set trace \<and> ch_answer H RunCycle = None \<and> ch_answer H WaitHeartbeat = None" if "result = None"
      using with_database_success [of H "''sqlite''" ?dsn ?lite] run_sqlite_success [of H cfg ?dsn ?w leaseTTL]
        assms run that by auto
    ultimately show ?thesis using t by blast
  qed
  with cfg show ?thesis by blast
qed

definition sample_host :: "(sql_db, unit, unit) cli_host" where
  "sample_host =
     \<lparr>ch_config = Inr sample_config, ch_registry = Some sample_registry, ch_hostname = Inr ''node'',
      ch_answer = (\<lambda>a. None), ch_migrations = 8,
      ch_stores = (\<lambda>t n. ((sqlite_ops (\<lambda>k i. Inr []) 5, True), jo_DispatchPending (sqlite_ops (\<lambda>k i. Inr []) 5))),
      ch_db = (), ch_ctx = None, ch_world = ()\<rparr>"

lemma sample_trims: "TrimSpace ''deltaflow.db'' = ''deltaflow.db''" "TrimSpace ''sqlite'' = ''sqlite''"
  by (simp_all add: TrimSpace_def runes_Cons space_rune_def unicode_IsSpace_def byte_def decodeRune.simps(2))

lemma sample_workers:
  "run_workers sample_host sample_config ''sqlite'' ''deltaflow.db'' ''w'' (30 * second) True
     = (None, [RunCycle, StopHeartbeat, WaitHeartbeat, Print (''run complete: processed '' @ show_nat 1 @ '' pipeline(s)'' @ [CHR 0x0A])])"
  by (simp add: run_workers_def run_deps_def workerSizing_def runtime_config_def pipeline_build_config_def sample_host_def
      sample_config_def BuildFromConfig_def ResolvePipeline_def sample_registry_def lookupProjector_def lookupApplier_def
      not_found_factory_def accepting_factory_def pipeline_spec_of_def second_def just_def run_result_def)

definition sample_trace :: "cli_effect list" where
  "sample_trace =
     [SqlOpen ''sqlite'' ''deltaflow.db'', LimitPool, PingDB, EnableForeignKeys, MigrateSqlite,
      AcquireLock ''w'' (30 * second), StartHeartbeat ''w'' (30 * second), RunCycle, StopHeartbeat, WaitHeartbeat,
      Print (''run complete: processed '' @ show_nat 1 @ '' pipeline(s)'' @ [CHR 0x0A]),
      StopHeartbeat, WaitHeartbeat, ReleaseLock, CloseDB]"

lemma sample_run: "run_command sample_host ''w'' = (None, sample_trace)"
proof -
  have cfg: "ch_config sample_host = Inr sample_config" "ch_registry sample_host = Some sample_registry" "ch_answer sample_host a = None" for a
    by (simp_all add: sample_host_def)
  have lease: "LeaseTTLDuration (cf_Workers sample_config) = Inr (30 * second)"
    by (simp add: LeaseTTLDuration_def parsePositiveDuration_def sample_config_def sample_lease second_def)
  have reg: "check_registered (sample_registry :: (unit, unit) registry) (cf_Pipelines sample_config) = None"
    by (simp add: check_registered_None sample_config_def sample_registry_def HasProjector_def HasApplier_def
        lookupProjector_def lookupApplier_def)
  have store: "TrimSpace (sc_Type (cf_Store sample_config)) = ''sqlite''" "TrimSpace (sc_DSN (cf_Store sample_config)) = ''deltaflow.db''"
      "wk_Concurrency (cf_Workers sample_config) = 1" "worker_id_or_default sample_host ''w'' = ''w''"
    by (simp_all add: sample_config_def sample_trims worker_id_or_default_def)
  show ?thesis
    by (simp add: run_command_def cfg lease reg store with_database_def run_sqlite_def perform_def deferred_def
        just_def sample_workers Let_def sample_trace_def)
qed

lemma run_checks_then_runs_witness:
  "\<exists>trace. run_command sample_host ''w'' = (None, trace) \<and> RunCycle \<in> set trace
     \<and> TrimSpace (sc_Type (cf_Store sample_config)) = ''sqlite'' \<and> wk_Concurrency (cf_Workers sample_config) = 1"
proof -
  have "\<exists>cfg. ch_config sample_host = Inr cfg \<and> TrimSpace (sc_Type (cf_Store cfg)) = ''sqlite'' \<and> wk_Concurrency (cf_Workers cfg) = 1"
    using run_checks_then_runs [OF sample_run] by (auto simp: sample_trace_def)
  then show ?thesis by (simp add: sample_run sample_trace_def) (simp add: sample_host_def)
qed

text \<open>
  C30: Workers of an SQLite database run under the worker lock, which is given back on every path:
  either the lock is granted, and then all that happens until the heartbeat has stopped and the lock
  is released is the cycle and its report, or it is not, and then neither the cycle nor a release takes
  place. The database is closed last.\<close>

theorem sqlite_runs_under_lock:
  assumes "run_command H workerID = (result, trace)" and "SqlOpen ''sqlite'' dsn \<in> set trace"
  shows "(\<exists>w leaseTTL mid. ch_answer H (AcquireLock w leaseTTL) = None
      \<and> trace = [SqlOpen ''sqlite'' dsn, LimitPool, PingDB, EnableForeignKeys, MigrateSqlite, AcquireLock w leaseTTL,
           StartHeartbeat w leaseTTL] @ mid @ [StopHeartbeat, WaitHeartbeat, ReleaseLock, CloseDB]
      \<and> set mid \<subseteq> {RunCycle, StopHeartbeat, WaitHeartbeat} \<union> range Print)
    \<or> result \<noteq> None \<and> RunCycle \<notin> set trace \<and> ReleaseLock \<notin> set trace
      \<and> (trace = [SqlOpen ''sqlite'' dsn] \<or> last trace = CloseDB)"
proof (rule run_command_cases [of H workerID])
  assume "fst (run_command H workerID) \<noteq> None" "snd (run_command H workerID) = []"
  with assms show ?thesis by simp
next
  fix cfg :: config and leaseTTL
  let ?dsn = "TrimSpace (sc_DSN (cf_Store cfg))" and ?w = "worker_id_or_default H workerID"
  let ?pg = "run_workers H cfg ''postgres'' ?dsn ?w leaseTTL False" and ?lite = "run_sqlite H cfg ?dsn ?w leaseTTL"
  assume "TrimSpace (sc_Type (cf_Store cfg)) = ''postgres'' \<and> run_command H workerID = with_database H ''postgres'' ?dsn ?pg
      \<or> TrimSpace (sc_Type (cf_Store cfg)) = ''sqlite'' \<and> wk_Concurrency (cf_Workers cfg) = 1
        \<and> run_command H workerID = with_database H ''sqlite'' ?dsn ?lite"
  moreover have "SqlOpen ''sqlite'' dsn \<notin> set (snd (with_database H ''postgres'' ?dsn ?pg))"
    using run_workers_trace [of H cfg "''postgres''" ?dsn ?w leaseTTL False] by (auto simp: with_database_trace)
  moreover have "SqlOpen ''sqlite'' dsn \<in> set (snd (run_command H workerID))" using assms by simp
  ultimately have run: "run_command H workerID = with_database H ''sqlite'' ?dsn ?lite" by metis
  have lite: "SqlOpen ''sqlite'' dsn \<notin> set (snd ?lite)"
    using run_sqlite_trace [of H ?w leaseTTL cfg ?dsn] by (auto dest!: in_set_takeD)
  have trace: "trace = snd (with_database H ''sqlite'' ?dsn ?lite)" and result: "result = fst (with_database H ''sqlite'' ?dsn ?lite)"
    using assms(1) run by simp_all
  have dsn: "?dsn = dsn" using assms(2) lite by (auto simp: trace with_database_trace split: if_splits)
  show ?thesis
  proof (cases "ch_answer H (SqlOpen ''sqlite'' dsn) = None \<and> ch_answer H PingDB = None")
    case False
    then have "trace = [SqlOpen ''sqlite'' dsn] \<or> trace = [SqlOpen ''sqlite'' dsn, LimitPool, PingDB, CloseDB]"
      by (auto simp: trace with_database_trace dsn)
    moreover have "result \<noteq> None" using False by (auto simp: result with_database_def dsn split: option.splits)
    ultimately show ?thesis by auto
  next
    case True
    then have t: "trace = [SqlOpen ''sqlite'' dsn, LimitPool, PingDB] @ snd ?lite @ [CloseDB]" and r: "result = fst ?lite"
      by (simp_all add: trace result with_database_trace with_database_def dsn)
    from run_sqlite_trace [of H ?w leaseTTL cfg ?dsn] show ?thesis
    proof (elim disjE exE conjE)
      fix mid
      assume "ch_answer H (AcquireLock ?w leaseTTL) = None" and "set mid \<subseteq> {RunCycle, StopHeartbeat, WaitHeartbeat} \<union> range Print"
        and "snd ?lite = [EnableForeignKeys, MigrateSqlite, AcquireLock ?w leaseTTL, StartHeartbeat ?w leaseTTL] @ mid
          @ [StopHeartbeat, WaitHeartbeat, ReleaseLock]"
      then show ?thesis using t by (intro disjI1 exI [of _ ?w] exI [of _ leaseTTL] exI [of _ mid]) simp
    next
      fix n
      assume "fst ?lite \<noteq> None" and n: "snd ?lite = take n [EnableForeignKeys, MigrateSqlite, AcquireLock ?w leaseTTL]"
      moreover have "set (snd ?lite) \<subseteq> {EnableForeignKeys, MigrateSqlite, AcquireLock ?w leaseTTL}"
        unfolding n using set_take_subset by fastforce
      ultimately show ?thesis using t r by auto
    qed
  qed
qed

lemma sqlite_runs_under_lock_witness:
  "\<exists>w leaseTTL. ch_answer sample_host (AcquireLock w leaseTTL) = None
     \<and> AcquireLock w leaseTTL \<in> set (snd (run_command sample_host ''w'')) \<and> ReleaseLock \<in> set (snd (run_command sample_host ''w''))"
proof -
  have "SqlOpen ''sqlite'' ''deltaflow.db'' \<in> set sample_trace" by (simp add: sample_trace_def)
  from sqlite_runs_under_lock [OF sample_run this] show ?thesis
  proof (elim disjE exE conjE)
    fix w leaseTTL mid
    assume a: "ch_answer sample_host (AcquireLock w leaseTTL) = None"
      and t: "sample_trace = [SqlOpen ''sqlite'' ''deltaflow.db'', LimitPool, PingDB, EnableForeignKeys, MigrateSqlite,
        AcquireLock w leaseTTL, StartHeartbeat w leaseTTL] @ mid @ [StopHeartbeat, WaitHeartbeat, ReleaseLock, CloseDB]"
    have "AcquireLock w leaseTTL \<in> set sample_trace \<and> ReleaseLock \<in> set sample_trace" unfolding t by simp
    with a show ?thesis by (intro exI [of _ w] exI [of _ leaseTTL]) (simp add: sample_run)
  qed simp_all
qed

text \<open>
  C40: The heartbeat is fast enough: its interval is positive, at most ten seconds, and fits twice
  into every lease of two nanoseconds and more, so that one tick may be missed; a renewal may
  take the interval, but never less than two seconds.\<close>

theorem lock_heartbeat_bounds:
  "0 < sqliteLockHeartbeatInterval l \<and> sqliteLockHeartbeatInterval l \<le> 10 * second
    \<and> (2 \<le> l \<longrightarrow> 2 * sqliteLockHeartbeatInterval l \<le> l)
    \<and> sqliteLockRenewTimeout l = max (2 * second) (sqliteLockHeartbeatInterval l)"
  using interval_bounds [of l] by (auto simp: sqliteLockRenewTimeout_def Let_def)

lemma lock_heartbeat_bounds_witness:
  "2 * sqliteLockHeartbeatInterval (30 * second) \<le> 30 * second \<and> sqliteLockHeartbeatInterval (30 * second) = 10 * second"
  using lock_heartbeat_bounds [of "30 * second"] by (simp add: sqliteLockHeartbeatInterval_def second_def go_div_nonneg)

text \<open>A lease shorter than two seconds is over before its renewal may time out.\<close>

lemma renewal_outlasts_lease: "l < 2 * second \<Longrightarrow> l < sqliteLockRenewTimeout l"
  by (simp add: sqliteLockRenewTimeout_def Let_def)

text \<open>
  C32: The heartbeat keeps the lock: once a worker has it, ticks that are at most an interval late
  renew it every time, whatever other workers call in between and whichever of their statements fail,
  as long as the statements of the renewals themselves succeed; the heartbeat reports no error, and after the last tick the lock is the worker's for a whole lease.\<close>

theorem lock_kept_alive:
  assumes "AcquireWorkerLock True now w l F d = (Inr (), d1)" and "2 \<le> l" and "rounds_in_time w l now rounds"
  shows "\<exists>d2 row. lock_heartbeat w l rounds d1 = (None, d2) \<and> sq_lock d2 = Some row \<and> lr_worker_id row = w
    \<and> lr_expires_at_micros row = microsFromTime (foldl (\<lambda>t r. snd (snd r)) now rounds + l)"
proof -
  have w: "w \<noteq> []" using assms(1) by (auto simp: AcquireWorkerLock_def lock_arguments_def sql_result_def split: if_splits)
  obtain row where row: "sq_lock d1 = Some row" "lr_worker_id row = w" "lr_expires_at_micros row = microsFromTime (now + l)"
    using assms(1)
    by (auto simp: AcquireWorkerLock_def sql_bind_def sql_result_def statement_def upsert_lock_def Let_def
        split: option.splits prod.splits sum.splits if_splits)
  from heartbeat_keeps [OF assms(2) w assms(3) row] show ?thesis .
qed

lemma lock_kept_alive_witness:
  "\<exists>d1. AcquireWorkerLock True (timeFromMicros 5) ''a'' 9000 no_faults (empty_db True) = (Inr (), d1)
     \<and> fst (lock_heartbeat ''a'' 9000 [([(Call_Acquire (timeFromMicros 7) ''b'' 1000, no_faults)], no_faults, timeFromMicros 9),
          ([(Call_Release ''b'', no_faults)], no_faults, timeFromMicros 13)] d1) = None"
proof -
  let ?call = "AcquireWorkerLock True (timeFromMicros 5) ''a'' 9000 no_faults (empty_db True)"
  let ?rounds = "[([(Call_Acquire (timeFromMicros 7) ''b'' 1000, no_faults)], no_faults, timeFromMicros 9),
      ([(Call_Release ''b'', no_faults)], no_faults, timeFromMicros 13)]"
  have "fst ?call = Inr ()" by code_simp
  then obtain d1 where run: "?call = (Inr (), d1)" by (metis prod.collapse)
  have "rounds_in_time ''a'' 9000 (timeFromMicros 5) ?rounds"
    by (simp add: sqliteLockHeartbeatInterval_def second_def go_div_nonneg) (simp add: timeFromMicros_def)
  from lock_kept_alive [OF run _ this] run show ?thesis by auto
qed

text \<open>
  C36: From the file to the worker: for a configuration that was loaded, the workers that \<open>run\<close>
  builds have nothing to object to in their own checks, lease for the configured time, and are
  single routines on SQLite; there is one for each pipeline.\<close>

theorem loaded_config_builds_valid_workers:
  assumes "validator_documented v_Struct" and "loadConfig L v_Struct opts = Inr cfg"
    and "LeaseTTLDuration (cf_Workers cfg) = Inr leaseTTL"
    and "BuildFromConfig ctx (Some (runtime_config cfg storeType dsn)) registry
      (run_deps H cfg (sc_Type (cf_Store cfg)) workerID leaseTTL) x = (Inr runners, x')"
  shows "map pr_Name runners = map pc_Name (cf_Pipelines cfg) \<and> runners \<noteq> []
    \<and> list_all (\<lambda>p. \<exists>v. pr_Worker p = Some v \<and> validateRunOnceDependencies (rw_settings v) = None
         \<and> sw_LockFor (rw_settings v) = leaseTTL
         \<and> (sc_Type (cf_Store cfg) = ''sqlite'' \<longrightarrow> effectiveConcurrency (rw_settings v) = 1)) runners"
proof -
  let ?deps = "run_deps H cfg (sc_Type (cf_Store cfg)) workerID leaseTTL"
  have "Validate v_Struct cfg = None"
    using assms(2) by (auto simp: loadConfig_def LoadFile_def split: if_splits sum.splits option.splits)
  then have ok: "tags_ok cfg" "sc_Type (cf_Store cfg) = ''sqlite'' \<longrightarrow> wk_Concurrency (cf_Workers cfg) = 1"
    using config_issues_none [OF assms(1)] by blast+
  have deps: "wd_LockFor (run_deps H cfg t workerID leaseTTL) = leaseTTL"
      "wd_Concurrency (run_deps H cfg t workerID leaseTTL) = wk_Concurrency (cf_Workers cfg)" for t
    by (simp_all add: run_deps_def Let_def split: prod.split)
  obtain r js where b: "wd_WorkerID ?deps \<noteq> []" "0 < wd_LockFor ?deps"
      "build_pipelines ctx (runtime_config cfg storeType dsn) r ?deps js (bc_Pipelines (runtime_config cfg storeType dsn)) x = (Inr runners, x')"
    by (rule BuildFromConfig_ok [OF assms(4)]) auto
  note built = build_pipelines_ok [OF b(3)]
  have names: "map (\<lambda>x. (pr_Name x, pr_SyncID x)) runners = map (\<lambda>p. (pc_Name p, pc_SyncID p)) (cf_Pipelines cfg)"
    using built by (simp add: runtime_config_def pipeline_build_config_def comp_def)
  have "map fst (map (\<lambda>x. (pr_Name x, pr_SyncID x)) runners) = map fst (map (\<lambda>p. (pc_Name p, pc_SyncID p)) (cf_Pipelines cfg))"
    "map snd (map (\<lambda>x. (pr_Name x, pr_SyncID x)) runners) = map snd (map (\<lambda>p. (pc_Name p, pc_SyncID p)) (cf_Pipelines cfg))"
    by (simp_all only: names)
  then have maps: "map pr_Name runners = map pc_Name (cf_Pipelines cfg)" "map pr_SyncID runners = map pc_SyncID (cf_Pipelines cfg)"
    by (simp_all add: comp_def)
  have "\<forall>i \<in> set (map pc_SyncID (cf_Pipelines cfg)). i \<noteq> []" using ok(1) by (auto simp: tags_ok_def pipeline_tags_ok_def list_all_iff)
  then have sync: "\<forall>p \<in> set runners. pr_SyncID p \<noteq> []" unfolding maps(2) [symmetric] by simp
  have "\<exists>v. pr_Worker p = Some v \<and> validateRunOnceDependencies (rw_settings v) = None \<and> sw_LockFor (rw_settings v) = leaseTTL
      \<and> (sc_Type (cf_Store cfg) = ''sqlite'' \<longrightarrow> effectiveConcurrency (rw_settings v) = 1)" if "p \<in> set runners" for p
  proof -
    have "\<forall>x \<in> set runners. \<exists>resolved. pr_SyncID x = ps_SyncID (pl_Spec resolved) \<and> pr_Worker x = Some (built_worker ?deps js resolved)"
      using built by (simp add: list_all_iff)
    with that obtain y where y: "pr_SyncID p = ps_SyncID (pl_Spec y)" "pr_Worker p = Some (built_worker ?deps js y)" by blast
    have "ps_SyncID (pl_Spec y) \<noteq> []" using sync that y(1) by auto
    moreover have "sw_LockFor (rw_settings (built_worker ?deps js y)) = leaseTTL" by (simp add: built_worker_def deps)
    ultimately show ?thesis using ok(2) b(1,2)
      by (intro exI conjI) (rule y(2), auto simp: built_settings effectiveConcurrency_def deps)
  qed
  moreover have "runners \<noteq> []" using maps(1) ok(1) by (auto simp: tags_ok_def)
  ultimately show ?thesis using maps(1) by (simp add: list_all_iff)
qed

definition sample_loader :: "unit loader" where
  "sample_loader =
     \<lparr>ld_ReadFile = (\<lambda>f. Inr ''store: ...''), ld_ExpandEnv = (\<lambda>s. s), ld_New = (), ld_LoadYAML = (\<lambda>s k. Inr k),
      ld_LoadMap = (\<lambda>m k. Inr k), ld_Unmarshal = (\<lambda>k. Inr sample_config), ld_Exists = (\<lambda>s k. False)\<rparr>"

lemma loaded_config_builds_valid_workers_witness:
  "\<exists>runners v. fst (BuildFromConfig None (Some (runtime_config sample_config ''sqlite'' ''deltaflow.db'')) (Some sample_registry)
      (run_deps sample_host sample_config ''sqlite'' ''w'' (30 * second)) ()) = Inr runners
     \<and> map pr_Name runners = [''contacts''] \<and> pr_Worker (hd runners) = Some v
     \<and> validateRunOnceDependencies (rw_settings v) = None"
proof -
  let ?deps = "run_deps sample_host sample_config (sc_Type (cf_Store sample_config)) ''w'' (30 * second)"
  have valid: "Validate tag_validator sample_config = None"
    unfolding config_issues_none [OF tag_validator_documented]
    by (simp add: sample_config_def tags_ok_def positive_if_set_def pipeline_tags_ok_def pipeline_supported_def
        sample_lease second_def)
  have load: "loadConfig sample_loader tag_validator \<lparr>opt_configPath = ''deltaflow.yaml'', opt_storeDSN = []\<rparr> = Inr sample_config"
    by (simp add: loadConfig_def LoadFile_def sample_loader_def valid)
  have lease: "LeaseTTLDuration (cf_Workers sample_config) = Inr (30 * second)"
    by (simp add: LeaseTTLDuration_def parsePositiveDuration_def sample_config_def sample_lease second_def)
  have type: "sc_Type (cf_Store sample_config) = ''sqlite''" by (simp add: sample_config_def)
  have "\<exists>runners. BuildFromConfig None (Some (runtime_config sample_config ''sqlite'' ''deltaflow.db'')) (Some sample_registry) ?deps ()
      = (Inr runners, ())"
    by (simp add: run_deps_def workerSizing_def runtime_config_def pipeline_build_config_def sample_host_def
        sample_config_def BuildFromConfig_def ResolvePipeline_def sample_registry_def lookupProjector_def lookupApplier_def
        not_found_factory_def accepting_factory_def pipeline_spec_of_def second_def)
  then obtain runners where b: "BuildFromConfig None (Some (runtime_config sample_config ''sqlite'' ''deltaflow.db'')) (Some sample_registry) ?deps ()
      = (Inr runners, ())" ..
  have "map pr_Name runners = [''contacts''] \<and> runners \<noteq> []
      \<and> list_all (\<lambda>p. \<exists>v. pr_Worker p = Some v \<and> validateRunOnceDependencies (rw_settings v) = None) runners"
    using loaded_config_builds_valid_workers [OF tag_validator_documented load lease b]
    by (auto simp: list_all_iff sample_config_def)
  then obtain v where "map pr_Name runners = [''contacts'']" "pr_Worker (hd runners) = Some v"
      "validateRunOnceDependencies (rw_settings v) = None" by (cases runners) auto
  with b show ?thesis unfolding type by (intro exI [of _ runners] exI [of _ v]) simp
qed

end
