(* ===== verification/DF_Host.thy ===== *)
theory DF_Host
  imports DF_PgSpec DF_KeyRound DF_Target
begin

text \<open>
  The host helpers (\<open>internal/host/host.go\<close>): numbers from the environment, the questions and
  repairs that a host puts to the Postgres tables, the loop in which several workers run until
  someone says stop, and projection keys of one text field. Opening databases and log files and
  the printing of durations and rates are not modelled.

  The lemmas: work is complete exactly when nothing is left to do, the loop ends for a reason and
  its error channel never blocks, and a text survives as a key.
\<close>

declare decode_value.simps(2) [simp del] and decode_elems.simps(2) [simp del] and decode_members.simps(2) [simp del]
  and decodeRune.simps(2) [simp del] and unquote.simps(2) [simp del] and scan_string.simps(2) [simp del]
  and encode.simps(6) [simp del]

section \<open>Numbers from the environment\<close>

text \<open>\<open>strconv.ParseUint\<close> with base 10: the first bad byte or the first overflow decides.\<close>

datatype num_error = ErrSyntax | ErrRange

fun parse_digits :: "nat \<Rightarrow> string \<Rightarrow> num_error + nat" where
  "parse_digits n [] = Inr n"
| "parse_digits n (c # s) =
     (if \<not> is_digit c then Inl ErrSyntax
      else if 2 ^ 64 \<le> n * 10 + (byte c - 48) then Inl ErrRange
      else parse_digits (n * 10 + (byte c - 48)) s)"

definition ParseUint :: "string \<Rightarrow> num_error + nat" where
  "ParseUint s = (if s = [] then Inl ErrSyntax else parse_digits 0 s)"

text \<open>\<open>strconv.Atoi\<close> on a 64-bit machine\<close>

definition Atoi :: "string \<Rightarrow> num_error + int" where
  "Atoi s =
     (let sgn = (s \<noteq> [] \<and> (hd s = CHR ''-'' \<or> hd s = CHR ''+''));
          neg = (sgn \<and> hd s = CHR ''-'')
      in
      case ParseUint (if sgn then tl s else s) of
        Inl e \<Rightarrow> Inl e
      | Inr n \<Rightarrow>
          if \<not> neg \<and> 2 ^ 63 \<le> n \<or> 2 ^ 63 < n then Inl ErrRange else Inr (if neg then - int n else int n))"

definition num_error_value :: "string \<Rightarrow> string \<Rightarrow> num_error \<Rightarrow> error" where
  "num_error_value fn s e =
     Wrapped (''strconv.'' @ fn @ '': parsing '' @ strconv_Quote s @ '': '')
       (Errors_New (case e of ErrSyntax \<Rightarrow> ''invalid syntax'' | ErrRange \<Rightarrow> ''value out of range'')) []"

text \<open>The value of the variable is an argument.\<close>

definition EnvInt :: "string \<Rightarrow> string \<Rightarrow> int \<Rightarrow> error + int" where
  "EnvInt name value defaultValue =
     (if value = [] then Inr defaultValue
      else
        (case Atoi value of
           Inl e \<Rightarrow> Inl (Wrapped (name @ '' must be an integer: '') (num_error_value ''Atoi'' value e) [])
         | Inr parsed \<Rightarrow>
             if parsed \<le> 0 then Inl (Errors_New (name @ '' must be greater than zero'')) else Inr parsed))"

definition EnvUint64 :: "string \<Rightarrow> string \<Rightarrow> nat \<Rightarrow> error + nat" where
  "EnvUint64 name value defaultValue =
     (if value = [] then Inr defaultValue
      else
        (case ParseUint value of
           Inl e \<Rightarrow> Inl (Wrapped (name @ '' must be an unsigned integer: '') (num_error_value ''ParseUint'' value e) [])
         | Inr parsed \<Rightarrow>
             if parsed = 0 then Inl (Errors_New (name @ '' must be greater than zero'')) else Inr parsed))"

section \<open>The tables\<close>

text \<open>Deleting deltas clears the references of jobs to them (\<open>ON DELETE SET NULL\<close>).\<close>

definition delete_sync_jobs :: "SyncID \<Rightarrow> sql_db \<Rightarrow> sql_db" where
  "delete_sync_jobs syncID d = d\<lparr>sq_jobs := filter (\<lambda>r. jr_sync_id r \<noteq> syncID) (sq_jobs d)\<rparr>"

definition delete_sync_deltas :: "SyncID \<Rightarrow> sql_db \<Rightarrow> sql_db" where
  "delete_sync_deltas syncID d =
     (let kept = filter (\<lambda>r. dr_sync_id r \<noteq> syncID) (sq_deltas d) in
      d\<lparr>sq_deltas := kept,
        sq_jobs := map (\<lambda>r. case jr_delta_id r of
            None \<Rightarrow> r
          | Some i \<Rightarrow> if i \<in> dr_id ` set (sq_deltas d) \<and> i \<notin> dr_id ` set kept then r\<lparr>jr_delta_id := None\<rparr> else r) (sq_jobs d)\<rparr>)"

definition ResetSync :: "SyncID \<Rightarrow> unit sql" where
  "ResetSync syncID =
     sql_bind (statement (\<lambda>d. (Inr (), delete_sync_jobs syncID d)))
       (\<lambda>_. statement (\<lambda>d. (Inr (), delete_sync_deltas syncID d)))"

text \<open>\<open>NOW()\<close> is the server's clock, in microseconds.\<close>

definition available_now :: "SyncID \<Rightarrow> int \<Rightarrow> job_row \<Rightarrow> job_row" where
  "available_now syncID now r =
     (if jr_sync_id r = syncID \<and> jr_state r = ''retrying'' \<and> now < jr_available_at_micros r
      then r\<lparr>jr_available_at_micros := now, jr_updated_at_micros := now\<rparr> else r)"

definition MakeRetryingAvailable :: "int \<Rightarrow> SyncID \<Rightarrow> unit sql" where
  "MakeRetryingAvailable now syncID =
     statement (\<lambda>d. (Inr (), d\<lparr>sq_jobs := map (available_now syncID now) (sq_jobs d)\<rparr>))"

record job_counts =
  jc_Pending :: int
  jc_Processing :: int
  jc_Synced :: int
  jc_Retrying :: int
  jc_Dead :: int
  jc_Ghosts :: int

text \<open>One row per state that occurs: the state, its jobs and its ghosts.\<close>

definition group_rows :: "SyncID \<Rightarrow> sql_db \<Rightarrow> (string \<times> int \<times> int) list" where
  "group_rows syncID d =
     (let rs = filter (\<lambda>r. jr_sync_id r = syncID) (sq_jobs d) in
      map (\<lambda>s. (s, int (length (filter (\<lambda>r. jr_state r = s) rs)),
                 int (length (filter (\<lambda>r. jr_state r = s \<and> jr_ghost_detected r \<noteq> 0) rs))))
        (sort (remdups (map jr_state rs))))"

definition count_row :: "string \<times> int \<times> int \<Rightarrow> job_counts \<Rightarrow> job_counts" where
  "count_row row counts =
     (case row of (state, n, ghosts) \<Rightarrow>
        (let c = counts\<lparr>jc_Ghosts := jc_Ghosts counts + ghosts\<rparr> in
         if state = StatePending then c\<lparr>jc_Pending := n\<rparr>
         else if state = StateProcessing then c\<lparr>jc_Processing := n\<rparr>
         else if state = StateSynced then c\<lparr>jc_Synced := n\<rparr>
         else if state = StateRetrying then c\<lparr>jc_Retrying := n\<rparr>
         else if state = StateDead then c\<lparr>jc_Dead := n\<rparr>
         else c))"

definition CountJobs :: "SyncID \<Rightarrow> job_counts sql" where
  "CountJobs syncID =
     query (\<lambda>d. fold count_row (group_rows syncID d)
       \<lparr>jc_Pending = 0, jc_Processing = 0, jc_Synced = 0, jc_Retrying = 0, jc_Dead = 0, jc_Ghosts = 0\<rparr>)"

definition CountPendingDeltas :: "SyncID \<Rightarrow> int sql" where
  "CountPendingDeltas syncID =
     query (\<lambda>d. int (length (filter (\<lambda>r. dr_sync_id r = syncID \<and> dr_state r = ''pending'') (sq_deltas d))))"

definition WorkComplete :: "SyncID \<Rightarrow> bool sql" where
  "WorkComplete syncID =
     sql_bind (CountPendingDeltas syncID) (\<lambda>pendingDeltas.
       if 0 < pendingDeltas then sql_result (Inr False)
       else sql_bind (CountJobs syncID) (\<lambda>counts.
         sql_result (Inr (jc_Pending counts = 0 \<and> jc_Processing counts = 0 \<and> jc_Retrying counts = 0))))"

section \<open>Projections, keys and deltas\<close>

text \<open>The result of \<open>json.Marshal\<close> on the payload is an argument.\<close>

definition JSONProjection :: "projection_identity \<Rightarrow> error + string \<Rightarrow> error + projection" where
  "JSONProjection identity marshalled =
     map_sum (\<lambda>e. e) (\<lambda>data.
       \<lparr>p_Identity = identity, p_Payload = data, p_MediaType = ''application/json'',
        p_Checksum = hexEncodeToString (sha256 data)\<rparr>) marshalled"

definition StringKey :: "string \<Rightarrow> string \<Rightarrow> ProjectionKey" where
  "StringKey field value = Some [(field, Some (encode_string value))]"

text \<open>\<open>json.Unmarshal\<close> into a string: a null leaves it empty.\<close>

definition json_Unmarshal_string :: "string option \<Rightarrow> error + string" where
  "json_Unmarshal_string raw =
     (case raw of
        None \<Rightarrow> Inl (Errors_New ''unexpected end of JSON input'')
      | Some s \<Rightarrow>
          if \<not> json_valid s then Inl JsonSyntax
          else
            (case decode s of
               Some (JStr v, _) \<Rightarrow> Inr v
             | Some (JNull, _) \<Rightarrow> Inr []
             | _ \<Rightarrow> Inl (Errors_New ''json: cannot unmarshal into Go value of type string'')))"

definition StringFromKey :: "ProjectionKey \<Rightarrow> string \<Rightarrow> error + string" where
  "StringFromKey key field =
     (case map_of (key_entries key) field of
        None \<Rightarrow> Inl (Errors_New (''projection key is missing '' @ field))
      | Some raw \<Rightarrow>
          (case json_Unmarshal_string raw of
             Inl e \<Rightarrow> Inl (Wrapped (''invalid '' @ field @ '' in projection key: '') e [])
           | Inr value \<Rightarrow>
               if value = [] then Inl (Errors_New (field @ '' cannot be empty'')) else Inr value))"

text \<open>A map of documents; its keys are sorted, so the order of the map is not seen.\<close>

definition StableDigest :: "(string \<times> string) list \<Rightarrow> string" where
  "StableDigest docs =
     hexEncodeToString (sha256 (concat (map (\<lambda>key. key @ [CHR 0x00] @ the (map_of docs key) @ [CHR 0x00])
       (sort (keys docs)))))"

definition FirstSample :: "(string \<times> string) list \<Rightarrow> string \<times> string \<times> bool" where
  "FirstSample docs =
     (if docs = [] then ([], [], False)
      else (let key = hd (sort (keys docs)) in (key, the (map_of docs key), True)))"

definition host_NewDelta ::
    "SyncID \<Rightarrow> ProjectionType \<Rightarrow> ProjectionKey \<Rightarrow> OriginOperationType \<Rightarrow> time \<Rightarrow> metadata \<Rightarrow> delta"
where
  "host_NewDelta syncID projectionType key origin occurredAt metadata =
     \<lparr>d_ID = [], d_SyncID = syncID, d_Origin = origin, d_ProjectionType = projectionType, d_ProjectionKey = key,
      d_ProjectionKeyHash = [], d_DedupWindow = [], d_DedupKey = [], d_State = DeltaPending,
      d_OccurredAt = occurredAt, d_CreatedAt = 0, d_DispatchedAt = None, d_Metadata = metadata\<rparr>"

definition MakeWorker :: "SyncID \<Rightarrow> string \<Rightarrow> int \<Rightarrow> int \<Rightarrow> sync_worker" where
  "MakeWorker syncID workerID pullSize batchSize =
     \<lparr>sw_hasJobStore = True, sw_batchClaims = True, sw_hasDispatcher = True, sw_hasProjector = True, sw_hasApplier = True,
      sw_SyncID = syncID, sw_WorkerID = workerID, sw_LockFor = 2 * second, sw_PullSize = pullSize,
      sw_BatchSize = batchSize, sw_Concurrency = 0\<rparr>"

section \<open>The loop of workers\<close>

text \<open>
  A worker looks at its context and at the stop signal, works (one cycle, the hook after it, the
  question whether to stop), sleeps five milliseconds and looks again. The channel of errors keeps
  what is sent. What the calls answer and which worker moves is open, so each outcome is a rule,
  labelled with what happened: \<open>HookFailed\<close> stands for an error of the hook or of the question
  whether to stop, both after a cycle without an error.
\<close>

datatype worker_phase = Looking | Working | Sleeping | Ended

record loop_state =
  lo_phases :: "worker_phase list"
  lo_done :: bool
  lo_errs :: "error list"
  lo_RunOnceCalls :: int
  lo_Errors :: int

datatype loop_event =
    Cancelled error
  | SawStop
  | BeginsCycle
  | CycleFailed error
  | HookFailed error
  | ToldToStop
  | GoesOn
  | WakesUp

definition loop_start :: "nat \<Rightarrow> loop_state" where
  "loop_start workerCount =
     \<lparr>lo_phases = replicate workerCount Looking, lo_done = False, lo_errs = [], lo_RunOnceCalls = 0, lo_Errors = 0\<rparr>"

definition in_phase :: "loop_state \<Rightarrow> nat \<Rightarrow> worker_phase \<Rightarrow> bool" where
  "in_phase s i p \<longleftrightarrow> i < length (lo_phases s) \<and> lo_phases s ! i = p"

definition enter :: "nat \<Rightarrow> worker_phase \<Rightarrow> loop_state \<Rightarrow> loop_state" where
  "enter i p s = s\<lparr>lo_phases := (lo_phases s)[i := p]\<rparr>"

text \<open>\<open>errCh <- err; stop(); return\<close>\<close>

definition give_up :: "nat \<Rightarrow> error \<Rightarrow> loop_state \<Rightarrow> loop_state" where
  "give_up i e s = enter i Ended (s\<lparr>lo_errs := lo_errs s @ [e], lo_done := True\<rparr>)"

definition cycle_counted :: "loop_state \<Rightarrow> loop_state" where
  "cycle_counted s = s\<lparr>lo_RunOnceCalls := lo_RunOnceCalls s + 1\<rparr>"

inductive loop_step :: "loop_state \<Rightarrow> loop_event \<Rightarrow> loop_state \<Rightarrow> bool" where
  cancelled: "in_phase s i Looking \<or> in_phase s i Sleeping \<Longrightarrow> loop_step s (Cancelled e) (give_up i e s)"
| stopped: "in_phase s i Looking \<or> in_phase s i Sleeping \<Longrightarrow> lo_done s \<Longrightarrow> loop_step s SawStop (enter i Ended s)"
| begin_cycle: "in_phase s i Looking \<Longrightarrow> \<not> lo_done s \<Longrightarrow> loop_step s BeginsCycle (enter i Working s)"
| cycle_failed: "in_phase s i Working \<Longrightarrow>
    loop_step s (CycleFailed e) (give_up i e (s\<lparr>lo_Errors := lo_Errors s + 1\<rparr>))"
| hook_failed: "in_phase s i Working \<Longrightarrow> loop_step s (HookFailed e) (give_up i e (cycle_counted s))"
| told_to_stop: "in_phase s i Working \<Longrightarrow>
    loop_step s ToldToStop (enter i Ended ((cycle_counted s)\<lparr>lo_done := True\<rparr>))"
| go_on: "in_phase s i Working \<Longrightarrow> loop_step s GoesOn (enter i Sleeping (cycle_counted s))"
| wake: "in_phase s i Sleeping \<Longrightarrow> loop_step s WakesUp (enter i Looking s)"

text \<open>The states of a loop, each with what happened before it.\<close>

inductive loop_reached :: "nat \<Rightarrow> loop_event list \<Rightarrow> loop_state \<Rightarrow> bool" for workerCount where
  start: "loop_reached workerCount [] (loop_start workerCount)"
| step: "loop_reached workerCount evs s \<Longrightarrow> loop_step s ev s' \<Longrightarrow> loop_reached workerCount (evs @ [ev]) s'"

text \<open>The error that an event sends, and whether it tells of a cycle that ended without one.\<close>

fun event_error :: "loop_event \<Rightarrow> error option" where
  "event_error (Cancelled e) = Some e"
| "event_error (CycleFailed e) = Some e"
| "event_error (HookFailed e) = Some e"
| "event_error _ = None"

fun cycle_done :: "loop_event \<Rightarrow> bool" where
  "cycle_done (HookFailed e) \<longleftrightarrow> True"
| "cycle_done ToldToStop \<longleftrightarrow> True"
| "cycle_done GoesOn \<longleftrightarrow> True"
| "cycle_done _ \<longleftrightarrow> False"

fun cycle_failure :: "loop_event \<Rightarrow> bool" where
  "cycle_failure (CycleFailed e) \<longleftrightarrow> True"
| "cycle_failure _ \<longleftrightarrow> False"

text \<open>What \<open>RunWorkers\<close> returns when all workers have ended: the statistics and the first error.\<close>

definition loop_over :: "loop_state \<Rightarrow> bool" where
  "loop_over s \<longleftrightarrow> list_all (\<lambda>p. p = Ended) (lo_phases s)"

definition loop_result :: "loop_state \<Rightarrow> (int \<times> int) \<times> error option" where
  "loop_result s =
     ((lo_RunOnceCalls s, lo_Errors s), (case lo_errs s of [] \<Rightarrow> None | e # _ \<Rightarrow> Some e))"

section \<open>Counting\<close>

lemma fold_count_row:
  assumes "distinct ss"
  shows "jc_Pending (fold count_row (map (\<lambda>s. (s, f s, g s)) ss) c) = (if ''pending'' \<in> set ss then f ''pending'' else jc_Pending c)"
    and "jc_Processing (fold count_row (map (\<lambda>s. (s, f s, g s)) ss) c)
      = (if ''processing'' \<in> set ss then f ''processing'' else jc_Processing c)"
    and "jc_Retrying (fold count_row (map (\<lambda>s. (s, f s, g s)) ss) c)
      = (if ''retrying'' \<in> set ss then f ''retrying'' else jc_Retrying c)"
  using assms by (induction ss arbitrary: c) (auto simp: count_row_def Let_def const_defs)

lemma CountJobs_zero:
  assumes "CountJobs syncID F d = (Inr counts, d')"
  shows "jc_Pending counts = 0 \<longleftrightarrow> (\<forall>r \<in> set (sq_jobs d). jr_sync_id r = syncID \<longrightarrow> jr_state r \<noteq> ''pending'')"
    and "jc_Processing counts = 0 \<longleftrightarrow> (\<forall>r \<in> set (sq_jobs d). jr_sync_id r = syncID \<longrightarrow> jr_state r \<noteq> ''processing'')"
    and "jc_Retrying counts = 0 \<longleftrightarrow> (\<forall>r \<in> set (sq_jobs d). jr_sync_id r = syncID \<longrightarrow> jr_state r \<noteq> ''retrying'')"
    and "tables d' = tables d"
proof -
  have c: "counts = fold count_row (group_rows syncID d)
      \<lparr>jc_Pending = 0, jc_Processing = 0, jc_Synced = 0, jc_Retrying = 0, jc_Dead = 0, jc_Ghosts = 0\<rparr>"
    using assms
    by (auto simp: CountJobs_def query_def statement_def Let_def group_rows_def split: option.splits)
  have dist: "distinct (sort (remdups (map jr_state (filter (\<lambda>r. jr_sync_id r = syncID) (sq_jobs d)))))" by simp
  show "jc_Pending counts = 0 \<longleftrightarrow> (\<forall>r \<in> set (sq_jobs d). jr_sync_id r = syncID \<longrightarrow> jr_state r \<noteq> ''pending'')"
    unfolding c group_rows_def Let_def fold_count_row [OF dist] by (auto simp: filter_empty_conv image_iff)
  show "jc_Processing counts = 0 \<longleftrightarrow> (\<forall>r \<in> set (sq_jobs d). jr_sync_id r = syncID \<longrightarrow> jr_state r \<noteq> ''processing'')"
    unfolding c group_rows_def Let_def fold_count_row [OF dist] by (auto simp: filter_empty_conv image_iff)
  show "jc_Retrying counts = 0 \<longleftrightarrow> (\<forall>r \<in> set (sq_jobs d). jr_sync_id r = syncID \<longrightarrow> jr_state r \<noteq> ''retrying'')"
    unfolding c group_rows_def Let_def fold_count_row [OF dist] by (auto simp: filter_empty_conv image_iff)
  show "tables d' = tables d" using assms unfolding CountJobs_def by (rule query_tables)
qed

lemma CountPendingDeltas_zero:
  assumes "CountPendingDeltas syncID F d = (Inr n, d')"
  shows "0 \<le> n \<and> (n = 0 \<longleftrightarrow> (\<forall>r \<in> set (sq_deltas d). dr_sync_id r = syncID \<longrightarrow> dr_state r \<noteq> ''pending''))
    \<and> tables d' = tables d"
proof -
  have "tables d' = tables d" using assms unfolding CountPendingDeltas_def by (rule query_tables)
  moreover have "n = int (length (filter (\<lambda>r. dr_sync_id r = syncID \<and> dr_state r = ''pending'') (sq_deltas d)))"
    using assms by (auto simp: CountPendingDeltas_def query_def statement_def Let_def split: option.splits)
  ultimately show ?thesis by (auto simp: filter_empty_conv)
qed

section \<open>The loop\<close>

definition ended :: "loop_state \<Rightarrow> nat" where
  "ended s = length (filter (\<lambda>p. p = Ended) (lo_phases s))"

lemma ended_update:
  "i < length ps \<Longrightarrow> ps ! i \<noteq> Ended \<Longrightarrow>
    length (filter (\<lambda>p. p = Ended) (ps[i := q])) = length (filter (\<lambda>p. p = Ended) ps) + (if q = Ended then 1 else 0)"
proof (induction ps arbitrary: i)
  case (Cons p ps)
  then show ?case by (cases i) auto
qed simp

definition loop_inv :: "nat \<Rightarrow> loop_event list \<Rightarrow> loop_state \<Rightarrow> bool" where
  "loop_inv n evs s \<longleftrightarrow> length (lo_phases s) = n
     \<and> length (lo_errs s) \<le> ended s \<and> (0 < ended s \<longrightarrow> lo_done s)
     \<and> (lo_done s \<longrightarrow> lo_errs s \<noteq> [] \<or> ToldToStop \<in> set evs)
     \<and> lo_errs s = List.map_filter event_error evs
     \<and> lo_RunOnceCalls s = int (length (filter cycle_done evs))
     \<and> lo_Errors s = int (length (filter cycle_failure evs))"

lemma ended_enter:
  "i < length (lo_phases s) \<Longrightarrow> lo_phases s ! i \<noteq> Ended \<Longrightarrow>
    ended (enter i p s) = ended s + (if p = Ended then 1 else 0)"
  by (simp add: ended_def enter_def ended_update)

lemma loop_sel [simp]:
  "lo_done (enter i p s) = lo_done s" "lo_errs (enter i p s) = lo_errs s"
  "lo_Errors (enter i p s) = lo_Errors s" "lo_RunOnceCalls (enter i p s) = lo_RunOnceCalls s"
  "length (lo_phases (enter i p s)) = length (lo_phases s)"
  by (simp_all add: enter_def)

lemma ended_updates [simp]:
  "ended (lo_errs_update f s) = ended s" "ended (lo_Errors_update g s) = ended s"
  "ended (lo_RunOnceCalls_update g s) = ended s" "ended (lo_done_update h s) = ended s"
  by (simp_all add: ended_def)

lemma map_filter_Nil [simp]: "List.map_filter f [] = []"
  by (simp add: List.map_filter_def)

lemma map_filter_snoc [simp]:
  "List.map_filter f (xs @ [x]) = List.map_filter f xs @ (case f x of None \<Rightarrow> [] | Some y \<Rightarrow> [y])"
  by (simp add: List.map_filter_def split: option.split)

lemmas loop_step_defs = loop_inv_def give_up_def cycle_counted_def in_phase_def ended_enter

lemma loop_step_inv:
  assumes "loop_step s ev s'" and "loop_inv n evs s"
  shows "loop_inv n (evs @ [ev]) s'"
  using assms
proof (cases rule: loop_step.cases)
  case (cancelled i e)
  with assms(2) show ?thesis by (auto simp: loop_step_defs)
next
  case (stopped i)
  with assms(2) show ?thesis by (auto simp: loop_step_defs)
next
  case (begin_cycle i)
  with assms(2) show ?thesis by (auto simp: loop_step_defs)
next
  case (cycle_failed i e)
  with assms(2) show ?thesis by (auto simp: loop_step_defs)
next
  case (hook_failed i e)
  with assms(2) show ?thesis by (auto simp: loop_step_defs)
next
  case (told_to_stop i)
  with assms(2) show ?thesis by (auto simp: loop_step_defs)
next
  case (go_on i)
  with assms(2) show ?thesis by (auto simp: loop_step_defs)
next
  case (wake i)
  with assms(2) show ?thesis by (auto simp: loop_step_defs)
qed

lemma loop_reached_inv: "loop_reached n evs s \<Longrightarrow> loop_inv n evs s"
proof (induction rule: loop_reached.induct)
  case start
  show ?case by (simp add: loop_inv_def loop_start_def ended_def)
next
  case (step evs s ev s')
  then show ?case using loop_step_inv by blast
qed

section \<open>Properties\<close>

text \<open>
  C34: \<open>WorkComplete\<close> is exact: on a database that the operations of the stores have reached, an
  answer is yes exactly when no delta of the sync is pending and every job of the sync is
  synced or dead. Asking changes no table.\<close>

theorem work_complete_exact:
  assumes "pg_reached pg d" and "pg_documented pg" and "WorkComplete syncID F d = (Inr complete, d')"
  shows "(complete \<longleftrightarrow>
      list_all (\<lambda>r. dr_sync_id r = syncID \<longrightarrow> dr_state r \<in> {''dispatched'', ''ignored''}) (sq_deltas d)
      \<and> list_all (\<lambda>r. jr_sync_id r = syncID \<longrightarrow> jr_state r \<in> {''synced'', ''dead''}) (sq_jobs d))
    \<and> tables d' = tables d"
proof -
  have ok: "pg_ok pg d" by (rule pg_reached_ok [OF assms(1,2)])
  have jobs: "\<forall>r \<in> set (sq_jobs d). jr_state r \<in> {''synced'', ''dead''} \<longleftrightarrow>
      jr_state r \<noteq> ''pending'' \<and> jr_state r \<noteq> ''processing'' \<and> jr_state r \<noteq> ''retrying''"
    using ok by (fastforce simp: pg_ok_def job_typed_def job_row_ok_def)
  have deltas: "\<forall>r \<in> set (sq_deltas d). dr_state r \<in> {''dispatched'', ''ignored''} \<longleftrightarrow> dr_state r \<noteq> ''pending''"
    using ok by (fastforce simp: pg_ok_def delta_typed_def delta_row_ok_def)
  obtain n d1 where n: "CountPendingDeltas syncID F d = (Inr n, d1)"
    using assms(3) by (auto simp: WorkComplete_def sql_bind_def split: prod.splits sum.splits)
  note pending = CountPendingDeltas_zero [OF n]
  show ?thesis
  proof (cases "0 < n")
    case True
    then have "complete = False" "d' = d1" using assms(3) n by (simp_all add: WorkComplete_def sql_bind_def sql_result_def)
    with True pending show ?thesis by (auto simp: list_all_iff)
  next
    case False
    then have zero: "n = 0" using pending by simp
    obtain counts d2 where c: "CountJobs syncID F d1 = (Inr counts, d2)"
      using assms(3) n zero by (auto simp: WorkComplete_def sql_bind_def split: prod.splits sum.splits)
    then have answer: "complete \<longleftrightarrow> jc_Pending counts = 0 \<and> jc_Processing counts = 0 \<and> jc_Retrying counts = 0" "d' = d2"
      using assms(3) n zero by (simp_all add: WorkComplete_def sql_bind_def sql_result_def)
    have d1: "sq_jobs d1 = sq_jobs d" "tables d1 = tables d" using pending by (simp_all add: tables_def)
    have "complete \<longleftrightarrow> (\<forall>r \<in> set (sq_jobs d). jr_sync_id r = syncID \<longrightarrow> jr_state r \<in> {''synced'', ''dead''})"
      unfolding answer(1) CountJobs_zero [OF c] d1 using jobs by blast
    moreover have "\<forall>r \<in> set (sq_deltas d). dr_sync_id r = syncID \<longrightarrow> dr_state r \<in> {''dispatched'', ''ignored''}"
      using pending zero deltas by simp
    ultimately show ?thesis using CountJobs_zero(4) [OF c] d1(2) by (simp add: list_all_iff answer(2))
  qed
qed

lemma work_complete_exact_witness:
  "\<exists>d'. WorkComplete ''contacts'' no_faults (empty_db True) = (Inr True, d')"
proof -
  obtain complete d' where w: "WorkComplete ''contacts'' no_faults (empty_db True) = (Inr complete, d')"
    by (simp add: WorkComplete_def sql_bind_def CountPendingDeltas_def CountJobs_def sql_result_def empty_db_def)
  from work_complete_exact [OF pg_reached.empty sample_pg_documented w] have complete by (simp add: empty_db_def)
  with w show ?thesis by simp
qed

text \<open>
  C33: The loop of workers ends for a reason, counts what happened and never blocks on its errors.
  Whatever happened so far: the channel holds the errors of all calls that gave up, in their
  order, at most one of each worker, for which it has room; the counters are the cycles that ended
  without an error and those that failed. When all workers have ended the loop returns these
  counters and the first error that was sent; when none was sent, some worker was told to
  stop.\<close>

theorem workers_end_for_a_reason:
  assumes "loop_reached workerCount evs s"
  shows "lo_errs s = List.map_filter event_error evs \<and> length (lo_errs s) \<le> workerCount
    \<and> loop_result s = ((int (length (filter cycle_done evs)), int (length (filter cycle_failure evs))),
         (case List.map_filter event_error evs of [] \<Rightarrow> None | e # _ \<Rightarrow> Some e))
    \<and> (loop_over s \<longrightarrow> 0 < workerCount \<longrightarrow> snd (loop_result s) = None \<longrightarrow> ToldToStop \<in> set evs)"
proof -
  note inv = loop_reached_inv [OF assms, unfolded loop_inv_def]
  have "ended s \<le> workerCount" using inv length_filter_le [of _ "lo_phases s"] by (simp add: ended_def)
  then have "length (lo_errs s) \<le> workerCount" using inv by linarith
  moreover have "ToldToStop \<in> set evs"
    if "loop_over s" "0 < workerCount" "snd (loop_result s) = None"
  proof -
    have "filter (\<lambda>p. p = Ended) (lo_phases s) = lo_phases s"
      using that(1) by (simp add: loop_over_def list_all_iff filter_id_conv)
    then have "ended s = workerCount" using inv by (simp add: ended_def)
    moreover have "lo_errs s = []" using that(3) by (auto simp: loop_result_def split: list.splits)
    ultimately show ?thesis using inv that(2) by auto
  qed
  ultimately show ?thesis using inv by (simp add: loop_result_def)
qed

lemma workers_end_for_a_reason_witness:
  "\<exists>s. loop_reached 2 [BeginsCycle, BeginsCycle, GoesOn, CycleFailed CtxDeadlineExceeded, Cancelled CtxCanceled] s
     \<and> loop_over s \<and> loop_result s = ((1, 1), Some CtxDeadlineExceeded)"
proof -
  let ?s0 = "loop_start 2"
  let ?s1 = "enter 0 Working ?s0"
  let ?s2 = "enter 1 Working ?s1"
  let ?s3 = "enter 0 Sleeping (cycle_counted ?s2)"
  let ?s4 = "give_up 1 CtxDeadlineExceeded (?s3\<lparr>lo_Errors := lo_Errors ?s3 + 1\<rparr>)"
  let ?s5 = "give_up 0 CtxCanceled ?s4"
  note at = in_phase_def loop_start_def enter_def cycle_counted_def give_up_def
  have "loop_step ?s0 BeginsCycle ?s1" by (rule loop_step.begin_cycle) (simp_all add: at)
  moreover have "loop_step ?s1 BeginsCycle ?s2" by (rule loop_step.begin_cycle) (simp_all add: at)
  moreover have "loop_step ?s2 GoesOn ?s3" by (rule loop_step.go_on) (simp add: at)
  moreover have "loop_step ?s3 (CycleFailed CtxDeadlineExceeded) ?s4" by (rule loop_step.cycle_failed) (simp add: at)
  moreover have "loop_step ?s4 (Cancelled CtxCanceled) ?s5" by (rule loop_step.cancelled) (simp add: at)
  ultimately have "loop_reached 2 ([] @ [BeginsCycle] @ [BeginsCycle] @ [GoesOn] @ [CycleFailed CtxDeadlineExceeded]
      @ [Cancelled CtxCanceled]) ?s5"
    unfolding append_assoc [symmetric] by (meson loop_reached.start loop_reached.step)
  then have r: "loop_reached 2 [BeginsCycle, BeginsCycle, GoesOn, CycleFailed CtxDeadlineExceeded, Cancelled CtxCanceled] ?s5"
    by simp
  have "loop_over ?s5" by (simp add: loop_over_def at numeral_2_eq_2)
  with workers_end_for_a_reason [OF r] r show ?thesis
    by (intro exI [of _ ?s5]) (simp add: List.map_filter_def)
qed

text \<open>
  C39: A text survives as a projection key: what \<open>StringKey\<close> made of a non-empty text in valid
  UTF-8 is read back as this text by \<open>StringFromKey\<close>, whatever quotes, controls or separators it holds.\<close>

theorem string_key_roundtrip:
  assumes "utf8 v" and "v \<noteq> []"
  shows "StringFromKey (StringKey field v) field = Inr v"
proof -
  have "decode (encode_string v) = Some (JStr v, [])"
    by (simp add: decode_def decode_value.simps(2) encode_string_def read_encode_string [OF assms(1), of "[]"])
  then have "json_valid (encode_string v)" "decode (encode_string v) = Some (JStr v, [])"
    by (simp_all add: json_valid_def skip_ws_def)
  with assms(2) show ?thesis
    by (simp add: StringFromKey_def StringKey_def key_entries_def json_Unmarshal_string_def)
qed

lemma string_key_roundtrip_witness:
  "StringFromKey (StringKey ''id'' [CHR 0x22, CHR 0x00, CHR 0xC3, CHR 0xA9]) ''id'' = Inr [CHR 0x22, CHR 0x00, CHR 0xC3, CHR 0xA9]"
  by (rule string_key_roundtrip) code_simp+

text \<open>The numbers a host reads from its environment are positive and fit their type.\<close>

lemma EnvInt_range: "EnvInt name value dflt = Inr n \<Longrightarrow> value \<noteq> [] \<Longrightarrow> 0 < n \<and> n < 2 ^ 63"
  by (auto simp: EnvInt_def Atoi_def Let_def split: sum.splits if_splits)

end
