(* ===== verification/DF_Migrate.thy ===== *)
theory DF_Migrate
  imports DF_SqliteDelta
begin

text \<open>
  The migrations (\<open>pkg/connectors/sqlite/migrate.go\<close>, \<open>pkg/connectors/postgres/migrate.go\<close>):
  which files are applied, in which order and with which cleanup, and the one migration that is
  written in Go, which adds the columns for deduplication. The embedded directory and the effect
  of an SQL text are parameters; of the schema the columns of the table of deltas and the
  unique index on its dedup key are spelled out. Every statement can fail.

  The lemmas: files are applied by name and the first failure stops, and the migration in Go can
  be repeated and leaves nothing behind when it fails.
\<close>

section \<open>Schema and statements\<close>

text \<open>\<open>sm_other\<close> is the rest of the schema, an open transaction of a migration file included.\<close>

record 'x schema =
  sm_columns :: "string list"
  sm_dedup_index :: bool
  sm_other :: 'x
  sm_calls :: nat

type_synonym ('a, 'x) mig = "faults \<Rightarrow> 'x schema \<Rightarrow> (error + 'a) \<times> 'x schema"

definition mig_result :: "error + 'a \<Rightarrow> ('a, 'x) mig" where
  "mig_result r F s = (r, s)"

definition mig_bind :: "('a, 'x) mig \<Rightarrow> ('a \<Rightarrow> ('b, 'x) mig) \<Rightarrow> ('b, 'x) mig" where
  "mig_bind m f F s = (case m F s of (Inl e, s') \<Rightarrow> (Inl e, s') | (Inr x, s') \<Rightarrow> f x F s')"

definition mig_statement :: "('x schema \<Rightarrow> (error + 'a) \<times> 'x schema) \<Rightarrow> ('a, 'x) mig" where
  "mig_statement f F s =
     (let s1 = s\<lparr>sm_calls := Suc (sm_calls s)\<rparr> in
      case F (sm_calls s) of Some e \<Rightarrow> (Inl e, s1) | None \<Rightarrow> f s1)"

definition mig_step :: "(unit, 'x) mig" where
  "mig_step = mig_statement (\<lambda>s. (Inr (), s))"

text \<open>\<open>fmt.Errorf("%s: %w", name, err)\<close>\<close>

definition named_failure :: "string \<Rightarrow> ('a, 'x) mig \<Rightarrow> ('a, 'x) mig" where
  "named_failure name m F s = apfst (map_sum (\<lambda>e. Wrapped (name @ '': '') e []) (\<lambda>x. x)) (m F s)"

section \<open>One file\<close>

record migration_dir =
  di_ReadDir :: "error + (string \<times> bool) list"
  di_ReadFile :: "string \<Rightarrow> error + string"

text \<open>
  A connection is taken, the text runs on it; when it fails, \<open>ROLLBACK\<close> runs on the same
  connection, whatever that answers.
\<close>

definition execMigrationSQL :: "(string \<Rightarrow> 'x schema \<Rightarrow> (error + unit) \<times> 'x schema) \<Rightarrow> string \<Rightarrow> (unit, 'x) mig" where
  "execMigrationSQL run_sql sqlText =
     mig_bind mig_step (\<lambda>_ F s.
       (case mig_statement (run_sql sqlText) F s of
          (Inl e, s1) \<Rightarrow> (Inl e, snd (mig_statement (run_sql ''ROLLBACK'') F s1))
        | (Inr u, s1) \<Rightarrow> (Inr u, s1)))"

text \<open>\<open>ALTER TABLE deltaflow_deltas ADD COLUMN\<close>\<close>

definition add_column :: "string \<Rightarrow> 'x schema \<Rightarrow> (error + unit) \<times> 'x schema" where
  "add_column c s =
     (if c \<in> set (sm_columns s) then (Inl (DriverError None None (''duplicate column name: '' @ c)), s)
      else (Inr (), s\<lparr>sm_columns := sm_columns s @ [c]\<rparr>))"

definition add_column_unless :: "string list \<Rightarrow> string \<Rightarrow> (unit, 'x) mig" where
  "add_column_unless columns c =
     (if c \<notin> set columns then mig_statement (add_column c) else mig_result (Inr ()))"

definition dedup_migration_body :: "(unit, 'x) mig" where
  "dedup_migration_body =
     mig_bind (mig_statement (\<lambda>s. (Inr (sm_columns s), s))) (\<lambda>columns.
       mig_bind (add_column_unless columns ''dedup_window'') (\<lambda>_.
         mig_bind (add_column_unless columns ''dedup_key'') (\<lambda>_.
           mig_statement (\<lambda>s. (Inr (), s\<lparr>sm_dedup_index := True\<rparr>)))))"

text \<open>\<open>BeginTx\<close>, the body, \<open>Commit\<close>; the deferred rollback restores the schema unless it was committed.\<close>

definition applyDeltaDedupMigration :: "(unit, 'x) mig" where
  "applyDeltaDedupMigration F s =
     (case mig_step F s of
        (Inl e, s1) \<Rightarrow> (Inl e, s1)
      | (Inr _, s1) \<Rightarrow>
          (case mig_bind dedup_migration_body (\<lambda>_. mig_step) F s1 of
             (Inl e, s2) \<Rightarrow> (Inl e, s1\<lparr>sm_calls := sm_calls s2\<rparr>)
           | (Inr u, s2) \<Rightarrow> (Inr u, s2)))"

section \<open>All files\<close>

definition has_suffix :: "string \<Rightarrow> string \<Rightarrow> bool" where
  "has_suffix s suffix \<longleftrightarrow> length suffix \<le> length s \<and> drop (length s - length suffix) s = suffix"

definition migration_names :: "(string \<times> bool) list \<Rightarrow> string list" where
  "migration_names entries =
     map fst (filter (\<lambda>(name, isDir). \<not> isDir \<and> has_suffix name ''.sql'') (sort_slice key_less entries))"

fun apply_files :: "(string \<Rightarrow> (unit, 'x) mig) \<Rightarrow> string list \<Rightarrow> (string list, 'x) mig" where
  "apply_files app [] = mig_result (Inr [])"
| "apply_files app (name # names) =
     mig_bind (app name) (\<lambda>_. mig_bind (apply_files app names) (\<lambda>applied. mig_result (Inr (name # applied))))"

definition apply_sql_file ::
    "migration_dir \<Rightarrow> (string \<Rightarrow> 'x schema \<Rightarrow> (error + unit) \<times> 'x schema) \<Rightarrow> string \<Rightarrow> (unit, 'x) mig"
where
  "apply_sql_file dir run_sql name =
     (case di_ReadFile dir (''migrations/'' @ name) of
        Inl e \<Rightarrow> mig_result (Inl e)
      | Inr sqlText \<Rightarrow> named_failure name (execMigrationSQL run_sql sqlText))"

definition sqlite_apply_file ::
    "migration_dir \<Rightarrow> (string \<Rightarrow> 'x schema \<Rightarrow> (error + unit) \<times> 'x schema) \<Rightarrow> string \<Rightarrow> (unit, 'x) mig"
where
  "sqlite_apply_file dir run_sql name =
     (if name = ''000007_add_delta_dedup.sql'' then named_failure name applyDeltaDedupMigration
      else apply_sql_file dir run_sql name)"

definition sqlite_ApplyMigrations ::
    "migration_dir \<Rightarrow> (string \<Rightarrow> 'x schema \<Rightarrow> (error + unit) \<times> 'x schema) \<Rightarrow> bool \<Rightarrow> (string list, 'x) mig"
where
  "sqlite_ApplyMigrations dir run_sql hasDB =
     (if \<not> hasDB then mig_result (Inl (Errors_New ''sqlite migrations require database''))
      else
        (case di_ReadDir dir of
           Inl e \<Rightarrow> mig_result (Inl e)
         | Inr entries \<Rightarrow> apply_files (sqlite_apply_file dir run_sql) (migration_names entries)))"

text \<open>\<open>has_uuidv7\<close> is what \<open>to_regprocedure\<close> says about the schema.\<close>

definition ensureUUIDV7 ::
    "('x schema \<Rightarrow> bool) \<Rightarrow> (string \<Rightarrow> 'x schema \<Rightarrow> (error + unit) \<times> 'x schema) \<Rightarrow> (unit, 'x) mig"
where
  "ensureUUIDV7 has_uuidv7 run_sql F s =
     (case mig_statement (\<lambda>s. (Inr (has_uuidv7 s), s)) F s of
        (Inl e, s1) \<Rightarrow> (Inl (Wrapped ''check uuidv7 compatibility: '' e []), s1)
      | (Inr exists, s1) \<Rightarrow>
          if exists then (Inr (), s1)
          else
            (case mig_statement (run_sql ''CREATE EXTENSION IF NOT EXISTS pgcrypto'') F s1 of
               (Inl e, s2) \<Rightarrow> (Inl (Wrapped ''prepare uuidv7 compatibility extension: '' e []), s2)
             | (Inr _, s2) \<Rightarrow>
                 (case mig_statement (run_sql
                      ''CREATE OR REPLACE FUNCTION uuidv7() RETURNS uuid LANGUAGE SQL AS $$ SELECT gen_random_uuid(); $$;'') F s2 of
                    (Inl e, s3) \<Rightarrow> (Inl (Wrapped ''prepare uuidv7 compatibility function: '' e []), s3)
                  | (Inr _, s3) \<Rightarrow> (Inr (), s3))))"

definition pg_ApplyMigrations ::
    "migration_dir \<Rightarrow> ('x schema \<Rightarrow> bool) \<Rightarrow> (string \<Rightarrow> 'x schema \<Rightarrow> (error + unit) \<times> 'x schema) \<Rightarrow> bool
       \<Rightarrow> (string list, 'x) mig"
where
  "pg_ApplyMigrations dir has_uuidv7 run_sql hasDB =
     (if \<not> hasDB then mig_result (Inl (Errors_New ''postgres migrations require database''))
      else
        mig_bind (ensureUUIDV7 has_uuidv7 run_sql) (\<lambda>_.
          (case di_ReadDir dir of
             Inl e \<Rightarrow> mig_result (Inl e)
           | Inr entries \<Rightarrow> apply_files (apply_sql_file dir run_sql) (migration_names entries))))"

section \<open>Order\<close>

text \<open>The schema after some files.\<close>

definition after_files :: "(string \<Rightarrow> (unit, 'x) mig) \<Rightarrow> faults \<Rightarrow> string list \<Rightarrow> 'x schema \<Rightarrow> 'x schema" where
  "after_files app F names s = fold (\<lambda>name s. snd (app name F s)) names s"

fun all_applied :: "(string \<Rightarrow> (unit, 'x) mig) \<Rightarrow> faults \<Rightarrow> string list \<Rightarrow> 'x schema \<Rightarrow> bool" where
  "all_applied app F [] s \<longleftrightarrow> True"
| "all_applied app F (name # names) s \<longleftrightarrow>
     fst (app name F s) = Inr () \<and> all_applied app F names (snd (app name F s))"

lemma apply_files_cases:
  "(\<exists>s'. apply_files app names F s = (Inr names, s') \<and> s' = after_files app F names s \<and> all_applied app F names s)
   \<or> (\<exists>before name rest e. names = before @ name # rest \<and> all_applied app F before s
        \<and> app name F (after_files app F before s) = (Inl e, snd (apply_files app names F s))
        \<and> fst (apply_files app names F s) = Inl e)"
proof (induction names arbitrary: s)
  case (Cons name names)
  obtain r s1 where r: "app name F s = (r, s1)" by (rule prod.exhaust)
  show ?case
  proof (cases r)
    case (Inl e)
    then show ?thesis using r
      by (intro disjI2 exI [of _ "[]"] exI [of _ name] exI [of _ names] exI [of _ e])
        (simp add: mig_bind_def after_files_def)
  next
    case (Inr u)
    from Cons.IH [of s1] show ?thesis
    proof (elim disjE exE conjE)
      fix s'
      assume "apply_files app names F s1 = (Inr names, s')" "s' = after_files app F names s1" "all_applied app F names s1"
      then show ?thesis using r Inr by (simp add: mig_bind_def mig_result_def after_files_def)
    next
      fix before n rest e
      assume a: "names = before @ n # rest" "all_applied app F before s1"
          "app n F (after_files app F before s1) = (Inl e, snd (apply_files app names F s1))"
          "fst (apply_files app names F s1) = Inl e"
      obtain s2 where "apply_files app names F s1 = (Inl e, s2)" using a(4) by (cases "apply_files app names F s1") simp
      then show ?thesis using r Inr a
        by (intro disjI2 exI [of _ "name # before"] exI [of _ n] exI [of _ rest] exI [of _ e])
          (simp add: mig_bind_def after_files_def)
    qed
  qed
qed (simp add: mig_result_def after_files_def)

lemma migration_names_sorted: "sorted (migration_names entries)"
proof -
  have "sorted (map fst (sort_slice key_less entries))" by (rule member_order.sorted_sort)
  then show ?thesis unfolding migration_names_def by (rule sorted_filter)
qed

lemma set_migration_names:
  "set (migration_names entries) = {name. (name, False) \<in> set entries \<and> has_suffix name ''.sql''}"
  by (force simp: migration_names_def)

section \<open>The migration in Go\<close>

text \<open>A schema apart from the number of statements so far.\<close>

definition same_schema :: "'x schema \<Rightarrow> 'x schema \<Rightarrow> bool" where
  "same_schema s s' \<longleftrightarrow> sm_columns s' = sm_columns s \<and> sm_dedup_index s' = sm_dedup_index s \<and> sm_other s' = sm_other s"

definition missing_columns :: "string list \<Rightarrow> string list" where
  "missing_columns columns = filter (\<lambda>c. c \<notin> set columns) [''dedup_window'', ''dedup_key'']"

lemma mig_step_eq: "mig_step F s = (case F (sm_calls s) of Some e \<Rightarrow> (Inl e, s\<lparr>sm_calls := Suc (sm_calls s)\<rparr>)
    | None \<Rightarrow> (Inr (), s\<lparr>sm_calls := Suc (sm_calls s)\<rparr>))"
  by (simp add: mig_step_def mig_statement_def Let_def)

lemma dedup_body_effect:
  assumes "dedup_migration_body F s = (Inr u, s')"
  shows "sm_columns s' = sm_columns s @ missing_columns (sm_columns s) \<and> sm_dedup_index s' \<and> sm_other s' = sm_other s"
  using assms
  by (auto simp: dedup_migration_body_def mig_bind_def mig_statement_def mig_result_def Let_def add_column_unless_def
      add_column_def missing_columns_def split: option.splits if_splits)

lemma dedup_migration_effect:
  assumes "applyDeltaDedupMigration F s = (r, s')"
  shows "case r of
      Inl e \<Rightarrow> same_schema s s'
    | Inr _ \<Rightarrow> sm_columns s' = sm_columns s @ missing_columns (sm_columns s) \<and> sm_dedup_index s' \<and> sm_other s' = sm_other s"
proof (cases "F (sm_calls s)")
  case (Some e)
  with assms show ?thesis by (auto simp: applyDeltaDedupMigration_def mig_step_eq same_schema_def)
next
  case None
  let ?s1 = "s\<lparr>sm_calls := Suc (sm_calls s)\<rparr>"
  obtain b s2 where b: "dedup_migration_body F ?s1 = (b, s2)" by (rule prod.exhaust)
  show ?thesis
  proof (cases b)
    case (Inl e)
    with assms None b show ?thesis by (auto simp: applyDeltaDedupMigration_def mig_step_eq mig_bind_def same_schema_def)
  next
    case (Inr u)
    with b have effect: "sm_columns s2 = sm_columns s @ missing_columns (sm_columns s) \<and> sm_dedup_index s2 \<and> sm_other s2 = sm_other s"
      using dedup_body_effect [of F ?s1 u s2] by simp
    from assms None b Inr have "(\<exists>e. r = Inl e \<and> s' = ?s1\<lparr>sm_calls := Suc (sm_calls s2)\<rparr>)
        \<or> (\<exists>u. r = Inr u \<and> s' = s2\<lparr>sm_calls := Suc (sm_calls s2)\<rparr>)"
      by (auto simp: applyDeltaDedupMigration_def mig_step_eq mig_bind_def split: option.splits)
    with effect show ?thesis by (auto simp: same_schema_def)
  qed
qed

lemma dedup_migration_succeeds: "\<exists>s'. applyDeltaDedupMigration no_faults s = (Inr (), s')"
  by (auto simp: applyDeltaDedupMigration_def mig_step_eq mig_bind_def dedup_migration_body_def mig_statement_def
      mig_result_def Let_def add_column_unless_def add_column_def no_faults_def)

section \<open>Properties\<close>

text \<open>
  Migrations are applied by name: the SQL files of the directory, in ascending order of their
  names; the answer lists all of them when all were applied, and otherwise the error is that of the
  first file that failed and no file after it was touched.\<close>

theorem migrations_in_order:
  assumes "sqlite_ApplyMigrations dir run_sql True F s = (r, s')" and "di_ReadDir dir = Inr entries"
  shows "sorted (migration_names entries)
    \<and> set (migration_names entries) = {name. (name, False) \<in> set entries \<and> has_suffix name ''.sql''}
    \<and> (case r of
         Inr applied \<Rightarrow> applied = migration_names entries
           \<and> all_applied (sqlite_apply_file dir run_sql) F applied s
           \<and> s' = after_files (sqlite_apply_file dir run_sql) F applied s
       | Inl e \<Rightarrow> (\<exists>before name rest. migration_names entries = before @ name # rest
           \<and> all_applied (sqlite_apply_file dir run_sql) F before s
           \<and> sqlite_apply_file dir run_sql name F (after_files (sqlite_apply_file dir run_sql) F before s) = (Inl e, s')))"
proof (intro conjI)
  have run: "apply_files (sqlite_apply_file dir run_sql) (migration_names entries) F s = (r, s')"
    using assms by (simp add: sqlite_ApplyMigrations_def)
  show "case r of
         Inr applied \<Rightarrow> applied = migration_names entries
           \<and> all_applied (sqlite_apply_file dir run_sql) F applied s
           \<and> s' = after_files (sqlite_apply_file dir run_sql) F applied s
       | Inl e \<Rightarrow> (\<exists>before name rest. migration_names entries = before @ name # rest
           \<and> all_applied (sqlite_apply_file dir run_sql) F before s
           \<and> sqlite_apply_file dir run_sql name F (after_files (sqlite_apply_file dir run_sql) F before s) = (Inl e, s'))"
    using apply_files_cases [of "sqlite_apply_file dir run_sql" "migration_names entries" F s] unfolding run
    by (cases r) (simp_all only: fst_conv snd_conv prod.inject sum.inject sum.distinct sum.case simp_thms, blast+)
qed (simp_all add: migration_names_sorted set_migration_names)

text \<open>
  C38: The migration for deduplication can be repeated: on any schema it adds exactly the columns
  that are missing and the index; when some statement or the commit fails, the schema is as before;
  and once it has succeeded, a further run succeeds and changes nothing.\<close>

theorem dedup_migration_repeatable:
  assumes "applyDeltaDedupMigration F s = (r, s1)"
  shows "(\<forall>e. r = Inl e \<longrightarrow> same_schema s s1)
    \<and> (r = Inr () \<longrightarrow>
         sm_columns s1 = sm_columns s @ missing_columns (sm_columns s) \<and> sm_dedup_index s1 \<and> sm_other s1 = sm_other s
         \<and> (\<exists>s2. applyDeltaDedupMigration no_faults s1 = (Inr (), s2) \<and> same_schema s1 s2))"
proof (intro conjI allI impI)
  note effect = dedup_migration_effect [OF assms]
  { fix e assume "r = Inl e" with effect show "same_schema s s1" by simp }
  assume r: "r = Inr ()"
  with effect have s1: "sm_columns s1 = sm_columns s @ missing_columns (sm_columns s)" "sm_dedup_index s1" "sm_other s1 = sm_other s"
    by simp_all
  then show "sm_columns s1 = sm_columns s @ missing_columns (sm_columns s)" "sm_dedup_index s1" "sm_other s1 = sm_other s" .
  obtain s2 where s2: "applyDeltaDedupMigration no_faults s1 = (Inr (), s2)" using dedup_migration_succeeds by blast
  have "missing_columns (sm_columns s1) = []" by (auto simp: s1(1) missing_columns_def)
  with dedup_migration_effect [OF s2] s1(2) have "same_schema s1 s2" by (simp add: same_schema_def)
  with s2 show "\<exists>s2. applyDeltaDedupMigration no_faults s1 = (Inr (), s2) \<and> same_schema s1 s2" by blast
qed

definition sample_schema :: "unit schema" where
  "sample_schema = \<lparr>sm_columns = [''id'', ''sync_id'', ''dedup_window''], sm_dedup_index = False, sm_other = (), sm_calls = 0\<rparr>"

lemma dedup_migration_repeatable_witness:
  "\<exists>s1. applyDeltaDedupMigration no_faults sample_schema = (Inr (), s1)
     \<and> sm_columns s1 = [''id'', ''sync_id'', ''dedup_window'', ''dedup_key'']"
proof -
  obtain s1 where run: "applyDeltaDedupMigration no_faults sample_schema = (Inr (), s1)"
    using dedup_migration_succeeds [of sample_schema] by blast
  from dedup_migration_repeatable [OF run] run show ?thesis by (simp add: sample_schema_def missing_columns_def)
qed

definition sample_dir :: migration_dir where
  "sample_dir =
     \<lparr>di_ReadDir = Inr [(''000007_add_delta_dedup.sql'', False), (''README.md'', False), (''000001_a.sql'', False)],
      di_ReadFile = (\<lambda>f. Inr ''CREATE TABLE'')\<rparr>"

lemma migrations_in_order_witness:
  "\<exists>r s'. sqlite_ApplyMigrations sample_dir (\<lambda>t s. (Inl IoEOF, s)) True no_faults sample_schema = (r, s')
     \<and> sorted (migration_names [(''000007_add_delta_dedup.sql'', False), (''README.md'', False), (''000001_a.sql'', False)])"
proof -
  obtain r s' where run: "sqlite_ApplyMigrations sample_dir (\<lambda>t s. (Inl IoEOF, s)) True no_faults sample_schema = (r, s')"
    by (rule prod.exhaust)
  have "di_ReadDir sample_dir = Inr [(''000007_add_delta_dedup.sql'', False), (''README.md'', False), (''000001_a.sql'', False)]"
    by (simp add: sample_dir_def)
  from migrations_in_order [OF run this] run show ?thesis by blast
qed

end
