(* ===== verification/Spec2Isabelle.thy ===== *)
theory Spec2Isabelle
  imports DF_System DF_Cycle DF_SqliteWorker DF_PgSpec DF_Redis DF_Elastic DF_Cli DF_Host DF_Migrate
begin

text \<open>
  Deltaflow moves changes of projections from a transactional outbox to search indexes and
  caches. Producers enqueue deltas into a delta store; a dispatcher turns pending deltas into
  sync jobs; workers claim jobs under a lease, project the current state, apply it to the
  target and record the outcome. This development models that pipeline as the Go sources
  write it and proves what makes it correct.

  Theories, in the order of their imports:

  \<^item> DF_Prelude: instants and durations (integers of nanoseconds; the zero time is a value of
    its own), Go's truncating division, decimal numerals, association lists for Go maps whose
    iteration order is not fixed, \<open>sort.Slice\<close> as sorting by a linear order, the loop that
    looks for an unused generated identifier with the proof that it ends.
  \<^item> DF_Sha256, DF_Json, DF_Text: the parts of Go's library the program computes with:
    SHA-256, \<open>encoding/json\<close> (decoding with \<open>UseNumber\<close>, canonical encoding with sorted
    members and HTML escapes), UTF-8 and \<open>strings.TrimSpace\<close>.
  \<^item> DF_Types: the data of \<open>pkg/deltaflow\<close> (\<open>delta.go\<close>, \<open>deltaflow.go\<close>, \<open>errors.go\<close>,
    \<open>lease_telemetry.go\<close>, \<open>pk_marshal.go\<close>).
  \<^item> DF_Dedup: \<open>ComputeDedupKey\<close> of \<open>pkg/connectors/delta_store_base.go\<close> and the copies of
    \<open>internal/store.go\<close>.
  \<^item> DF_DeltaMemory, DF_JobMemory, DF_Dispatch: \<open>internal/store.go\<close> and
    \<open>internal/dispatcher.go\<close>. A store is a record with one field per field of the Go struct;
    an operation takes the state of its context, the clock reading it makes under its lock,
    its arguments and the store, and returns its answer with the new store. The mutexes make
    every operation one step.
  \<^item> DF_JobSpec: the abstract life cycle of a job (waiting, leased, synced, dead) that every
    operation of the job store refines, the properties of leases, and the creation of jobs.
  \<^item> DF_System: the delta store, the job store and the dispatcher together, the states that all
    their operations reach, with book kept of what a caller did by hand that is otherwise left to
    the dispatcher, and the promise between the stores.
  \<^item> DF_Contract: the locale \<open>job_store\<close>, what a worker relies on when it talks to a store.
  \<^item> DF_Worker, DF_WorkerRun, DF_WorkerSpec: \<open>pkg/deltaflow/worker.go\<close>. The code of one
    routine is a process, a tree of calls on its surroundings; it is run against a store, a
    projector, an applier and a schedule. Clock, cancellation, ticks of the heartbeat and the
    interleaving of routines come from the schedule, so the theorems hold for all of them.
    DF_WorkerSpec reads a process as its paths, the sequences of calls with their answers.
  \<^item> DF_MemoryWorker, DF_Cycle: the in-memory stores as a provider of the contract, and the
    properties of whole worker cycles on them.
  \<^item> DF_SqlBase: the helpers the SQL stores share (\<open>delta_store_base.go\<close>,
    \<open>job_store_base.go\<close>, \<open>sqlite/ids.go\<close>): preparing and scanning rows, JSON columns,
    instants as whole microseconds, generated identifiers.
  \<^item> DF_SqlDb: the tables as lists of rows, and the statements and transactions of
    \<open>database/sql\<close>. Every statement takes the next entry of a fault script and may fail with
    an error of the driver; a transaction that does not commit restores the tables.
  \<^item> DF_SqliteJob, DF_SqliteDelta, DF_SqliteWorker: \<open>pkg/connectors/sqlite\<close>
    (\<open>job_store.go\<close>, \<open>delta_store.go\<close>, \<open>dispatcher.go\<close>, \<open>worker_lock.go\<close>), each
    SQL text as a function on the rows. DF_SqliteRefine relates the job store to the one in
    memory, DF_SqliteSpec holds the constraints that every reachable database meets and the
    atomicity of its operations.
  \<^item> DF_PgDb, DF_PgJob, DF_PgDelta: \<open>pkg/connectors/postgres\<close> in the same way. The server's
    functions (casts of identifiers and JSON, generated identifiers) and the rows that other
    transactions hold locked are fields of a record. DF_PgRefine and DF_PgSpec hold what
    DF_SqliteRefine and DF_SqliteSpec hold for SQLite, and what skipping locked rows means.
  \<^item> DF_JsonText, DF_JsonRound, DF_KeyRound: canonical JSON is read back as it was written, so a
    stored projection key keeps its canonical text and hash.
  \<^item> DF_Target, DF_Redis, DF_Url, DF_Elastic: the appliers (\<open>pkg/connectors/redis/applier.go\<close>,
    \<open>pkg/connectors/elasticsearch/applier.go\<close>). A target is a map that a client's command
    changes, possibly without an answer reaching the worker; the clients and \<open>url.Parse\<close> are
    parameters with named laws. DF_Url has \<open>url.PathEscape\<close> and the printing of URLs.
  \<^item> DF_Runtime: \<open>pkg/runtime\<close>: the registry of factories, the workers built from a
    configuration, and one cycle of every pipeline.
  \<^item> DF_Duration, DF_Config: \<open>time.ParseDuration\<close> with the rounding of its float64 fraction,
    and \<open>internal/config/config.go\<close>: loading and validation with their messages. The
    validator package, koanf, the file system and the environment are parameters.
  \<^item> DF_Cli: \<open>internal/cli\<close>: a command as its error and the trace of its effects, deferred
    calls at the end; and the heartbeat of the SQLite worker lock against the lock table.
  \<^item> DF_Host: \<open>internal/host/host.go\<close>: numbers from the environment, questions and repairs on
    the Postgres tables, the loop of several workers as a step relation, keys of one text field.
  \<^item> DF_Migrate: \<open>migrate.go\<close> of both stores: order, failures and cleanup of the files, and the
    migration that is written in Go.

  What the lemmas show. The stores keep well-formedness invariants (distinct keys, indexes
  that match the maps, hashes and dedup keys that match the data). Operations have their
  documented effect on every branch, errors included, and do not depend on map order. Leases
  are exclusive, attempts are counted, final states stay. Across the stores no delta is lost
  and none gets two jobs, as far as callers leave states and outbox jobs to the dispatcher, and
  dispatching drains the outbox. A routine finalises each job as projector, applier and heartbeat
  ask for, and settles every job it has claimed; a worker leaves no live lease behind. This is
  proved when the statements of its store do not fail and its last calls are not cut off:
  when marking a job fails its lease stays until it runs out.
  Without failing statements the SQL job stores answer as the one in memory, with instants
  cut to microseconds, creating jobs apart; with failing statements a batch, a dispatch or a claim happens
  completely or not at all. Two batch claims that run together on Postgres answer as if one
  ran after the other.
  A target ends with what its last accepted delivery asked for, or what a later one asked for that
  was sent and whose answer was lost or an error; with one endpoint and refresh setting distinct documents have distinct URLs. A configuration
  is accepted exactly when it asks for what is supported, and then the workers built from it
  pass their own checks, one for each pipeline, made by its factories in order. The command
  \<open>run\<close> touches nothing before its checks have passed, works on SQLite only under the worker lock, and its heartbeat is fast enough to keep that lock. The loop of the
  host ends only for a reason, with its first error and its counts, and \<open>WorkComplete\<close> answers exactly whether work is left.

  Bounds and fuel. Loops are structural recursion, or recursion on what is left of a text
  with its termination proved; the search for an unused identifier is
  a recursion that ends because the store is finite. Go's int is
  unbounded here: counters and durations are assumed to stay within 64 bits. Where the program
  reads numbers from text the range checks of Go's library are modelled. The interleaving
  of a cycle is a finite list of moves; while it does not complete the cycle there is no result.

  Not modelled: log records and metrics exporters (the telemetry calls themselves are), the
  duration that goes into the renewal metric, metadata values that no JSON document holds,
  the rounding of metadata numbers to 64-bit floats when a row is read back, the effect of the SQL
  texts of the migrations (a parameter; the tables of the stores are as they leave them),
  interleavings of Postgres transactions beyond the rows they hold locked, an error of
  \<open>RowsAffected\<close> itself (the drivers in use return none), a commit that took effect although its
  acknowledgement was lost, the expiration of keys in the cache, requests that a target carries out
  only after the applier has given up on them, printable characters
  above U+00FF in quoted texts, the parsing of command line flags, the opening of databases and
  log files, the printing of rates and durations for the host, and the playground and test
  environment, which are examples around the program.
\<close>

end
